(* ===== verification/Prelude.thy ===== *)
theory Prelude
  imports Complex_Main "HOL-Library.AList" "HOL-Library.Word"
begin

text \<open>
  What the component theories share: the machine integers, the hash map of the Rust
  standard library as an association list, the reference counts kept in such maps, and
  the two contracts most components are proved against, a step function that keeps an
  invariant and an operation whose events mirror its effect on a view of the state.

  A \<^verbatim>\<open>HashMap\<close> is a list of key/value pairs. Lookup, insertion and removal are those of
  \<^verbatim>\<open>HOL-Library.AList\<close>; iteration walks the list. Rust leaves the iteration order open,
  and a theorem that quantifies over every list quantifies over every order.
\<close>

section \<open>Machine integers\<close>

type_synonym u8 = "8 word"
type_synonym u16 = "16 word"
type_synonym u32 = "32 word"
type_synonym u64 = "64 word"

text \<open>
  Identifiers (machine, terminal, user, device ids, capability names) are compared and
  never taken apart: they are \<^typ>\<open>string\<close>. Times are milliseconds (\<^verbatim>\<open>i64\<close>) as \<^typ>\<open>int\<close>.
  Event counters are \<^typ>\<open>nat\<close>; where the code saturates, so does the model.
\<close>

type_synonym ident = string
type_synonym ms = int

definition sat_add64 :: "nat \<Rightarrow> nat \<Rightarrow> nat" where
  "sat_add64 a b = min (a + b) (2 ^ 64 - 1)"

lemma sat_add64_le: "sat_add64 a b \<le> a + b"
  by (simp add: sat_add64_def)

lemma sat_add64_exact: "a + b < 2 ^ 64 \<Longrightarrow> sat_add64 a b = a + b"
  by (simp add: sat_add64_def)

section \<open>Hash maps\<close>

named_theorems hmap_defs "definitions of the hash map operations"
named_theorems hmap_simps "lookup laws of the hash map operations"

type_synonym ('k, 'v) hmap = "('k \<times> 'v) list"

definition hget :: "('k, 'v) hmap \<Rightarrow> 'k \<Rightarrow> 'v option" where
  [hmap_defs]: "hget m k = map_of m k"

definition hput :: "'k \<Rightarrow> 'v \<Rightarrow> ('k, 'v) hmap \<Rightarrow> ('k, 'v) hmap" where
  [hmap_defs]: "hput k v m = AList.update k v m"

definition hdel :: "'k \<Rightarrow> ('k, 'v) hmap \<Rightarrow> ('k, 'v) hmap" where
  [hmap_defs]: "hdel k m = filter (\<lambda>(k', _). k' \<noteq> k) m"

definition hretain :: "('k \<Rightarrow> 'v \<Rightarrow> bool) \<Rightarrow> ('k, 'v) hmap \<Rightarrow> ('k, 'v) hmap" where
  [hmap_defs]: "hretain P m = filter (\<lambda>(k, v). P k v) m"

definition hmapv :: "('v \<Rightarrow> 'w) \<Rightarrow> ('k, 'v) hmap \<Rightarrow> ('k, 'w) hmap" where
  [hmap_defs]: "hmapv f m = map (\<lambda>(k, v). (k, f v)) m"

definition hhas :: "('k, 'v) hmap \<Rightarrow> 'k \<Rightarrow> bool" where
  [hmap_defs]: "hhas m k \<longleftrightarrow> hget m k \<noteq> None"

definition hkeys :: "('k, 'v) hmap \<Rightarrow> 'k list" where
  [hmap_defs]: "hkeys m = map fst m"

definition hvals :: "('k, 'v) hmap \<Rightarrow> 'v list" where
  [hmap_defs]: "hvals m = map snd m"

definition hwf :: "('k, 'v) hmap \<Rightarrow> bool" where
  [hmap_defs]: "hwf m \<longleftrightarrow> distinct (map fst m)"

text \<open>The interface the components rely on, and what follows from its laws alone.\<close>

locale keyed_store =
  fixes get :: "'m \<Rightarrow> 'k \<Rightarrow> 'v option"
    and put :: "'k \<Rightarrow> 'v \<Rightarrow> 'm \<Rightarrow> 'm"
    and del :: "'k \<Rightarrow> 'm \<Rightarrow> 'm"
    and none :: "'m"
  assumes get_put: "get (put k v m) k' = (if k' = k then Some v else get m k')"
    and get_del: "get (del k m) k' = (if k' = k then None else get m k')"
    and get_none: "get none k = None"
begin

lemma get_put_same: "get (put k v m) k = Some v"
  by (simp add: get_put)

lemma get_put_other: "k' \<noteq> k \<Longrightarrow> get (put k v m) k' = get m k'"
  by (simp add: get_put)

lemma get_put_overwrite: "get (put k v (put k w m)) = get (put k v m)"
  by (rule ext) (simp add: get_put)

lemma get_put_commute: "k \<noteq> l \<Longrightarrow> get (put k v (put l w m)) = get (put l w (put k v m))"
  by (rule ext) (simp add: get_put)

lemma get_del_put: "get (del k (put k v m)) = get (del k m)"
  by (rule ext) (simp add: get_put get_del)

lemma get_dels: "get (foldr del ks m) k' = (if k' \<in> set ks then None else get m k')"
  by (induction ks) (auto simp: get_del)

lemma get_puts:
  "get (fold (\<lambda>k. put k v) ks m) k' = (if k' \<in> set ks then Some v else get m k')"
  by (induction ks arbitrary: m) (auto simp: get_put)

end

lemma map_of_filter_key: "map_of (filter (\<lambda>(k', _). k' \<noteq> k) m) k' =
    (if k' = k then None else map_of m k')"
  by (induction m) auto

interpretation hm: keyed_store hget hput hdel "[]"
  by unfold_locales
    (auto simp: hget_def hput_def hdel_def update_conv' map_of_filter_key)

lemmas hm_laws [hmap_simps] = hm.get_put hm.get_del hm.get_none

lemma map_of_filter_pair:
  "distinct (map fst m) \<Longrightarrow> map_of (filter (\<lambda>(k, v). P k v) m) k =
    (case map_of m k of None \<Rightarrow> None | Some v \<Rightarrow> if P k v then Some v else None)"
proof (induction m)
  case Nil
  then show ?case by simp
next
  case (Cons kv m)
  have "map_of m a = None" if "a \<notin> fst ` set m" for a
    using that by (simp add: map_of_eq_None_iff)
  moreover have "map_of (filter (\<lambda>(k, v). P k v) m) a = None" if "a \<notin> fst ` set m" for a
    using that by (auto simp: map_of_eq_None_iff)
  ultimately show ?case
    using Cons by (cases kv) (auto split: option.splits)
qed

lemma hget_hretain [hmap_simps]:
  "hwf m \<Longrightarrow> hget (hretain P m) k =
    (case hget m k of None \<Rightarrow> None | Some v \<Rightarrow> if P k v then Some v else None)"
  by (simp add: hget_def hretain_def hwf_def map_of_filter_pair)

lemma hget_hretain_key [hmap_simps]:
  "hget (hretain (\<lambda>k _. P k) m) k = (if P k then hget m k else None)"
  by (induction m) (auto simp: hget_def hretain_def)

lemma hget_hmapv [hmap_simps]: "hget (hmapv f m) k = map_option f (hget m k)"
  by (induction m) (auto simp: hget_def hmapv_def)

lemma hhas_iff [hmap_simps]: "hhas m k \<longleftrightarrow> k \<in> set (hkeys m)"
  by (simp add: hhas_def hget_def hkeys_def map_of_eq_None_iff)

lemma hkeys_hmapv [simp]: "hkeys (hmapv f m) = hkeys m"
  by (induction m) (auto simp: hkeys_def hmapv_def)

lemma hwf_Nil [simp]: "hwf []"
  by (simp add: hwf_def)

lemma hwf_hput [simp]: "hwf m \<Longrightarrow> hwf (hput k v m)"
  by (simp add: hwf_def hput_def distinct_update)

lemma hwf_hdel [simp]: "hwf m \<Longrightarrow> hwf (hdel k m)"
  by (simp add: hwf_def hdel_def distinct_map_filter)

lemma hwf_hretain [simp]: "hwf m \<Longrightarrow> hwf (hretain P m)"
  by (simp add: hwf_def hretain_def distinct_map_filter)

lemma hwf_hmapv [simp]: "hwf (hmapv f m) = hwf m"
  by (simp add: hwf_def hmapv_def comp_def case_prod_beta)

lemma hget_SomeD: "hget m k = Some v \<Longrightarrow> (k, v) \<in> set m"
  by (simp add: hget_def map_of_SomeD)

lemma hget_Some_iff: "hwf m \<Longrightarrow> hget m k = Some v \<longleftrightarrow> (k, v) \<in> set m"
  by (simp add: hget_def hwf_def)

lemma hget_None_iff: "hget m k = None \<longleftrightarrow> k \<notin> set (hkeys m)"
  by (simp add: hget_def hkeys_def map_of_eq_None_iff)

lemma set_hkeys_hput [simp]: "set (hkeys (hput k v m)) = insert k (set (hkeys m))"
  by (simp add: hkeys_def hput_def dom_update)

lemma set_hkeys_hdel [simp]: "set (hkeys (hdel k m)) = set (hkeys m) - {k}"
  by (auto simp: hkeys_def hdel_def)

lemma hkeys_distinct: "hwf m \<Longrightarrow> distinct (hkeys m)"
  by (simp add: hwf_def hkeys_def)

lemma hput_not_Nil [simp]: "hput k v m \<noteq> []"
  by (cases m) (auto simp: hput_def)

lemma Nil_iff_hget: "m = [] \<longleftrightarrow> (\<forall>k. hget m k = None)"
  by (cases m) (auto simp: hget_def)

text \<open>Removing a list of keys one by one, as the clean-up loops of the code do.\<close>

definition hdels :: "'k list \<Rightarrow> ('k, 'v) hmap \<Rightarrow> ('k, 'v) hmap" where
  [hmap_defs]: "hdels ks m = fold hdel ks m"

lemma hget_hdels [hmap_simps]: "hget (hdels ks m) k = (if k \<in> set ks then None else hget m k)"
  by (induction ks arbitrary: m) (auto simp: hdels_def hm.get_del)

lemma hwf_hdels [simp]: "hwf m \<Longrightarrow> hwf (hdels ks m)"
  by (induction ks arbitrary: m) (auto simp: hdels_def)

lemma set_hkeys_hdels [simp]: "set (hkeys (hdels ks m)) = set (hkeys m) - set ks"
  by (induction ks arbitrary: m) (auto simp: hdels_def)

section \<open>Reference counts\<close>

text \<open>
  Devices with several sockets, and viewers of one browser, are counted per device in a
  map that drops a key at zero. \<open>count\<close> reads an absent key as zero.
\<close>

definition rc_count :: "('k, nat) hmap \<Rightarrow> 'k \<Rightarrow> nat" where
  "rc_count m k = (case hget m k of None \<Rightarrow> 0 | Some n \<Rightarrow> n)"

definition rc_inc :: "'k \<Rightarrow> ('k, nat) hmap \<Rightarrow> ('k, nat) hmap" where
  "rc_inc k m = hput k (rc_count m k + 1) m"

definition rc_pos :: "('k, nat) hmap \<Rightarrow> bool" where
  "rc_pos m \<longleftrightarrow> (\<forall>k n. hget m k = Some n \<longrightarrow> 0 < n)"

locale refcount =
  fixes count :: "'m \<Rightarrow> 'k \<Rightarrow> nat"
    and inc :: "'k \<Rightarrow> 'm \<Rightarrow> 'm"
    and dec :: "'k \<Rightarrow> 'm \<Rightarrow> 'm"
    and ok :: "'m \<Rightarrow> bool"
  assumes inc_count: "ok m \<Longrightarrow> count (inc k m) k' = count m k' + (if k' = k then 1 else 0)"
    and dec_count: "ok m \<Longrightarrow> count (dec k m) k' = count m k' - (if k' = k then 1 else 0)"
    and inc_ok: "ok m \<Longrightarrow> ok (inc k m)"
    and dec_ok: "ok m \<Longrightarrow> ok (dec k m)"
begin

lemma dec_inc: "ok m \<Longrightarrow> count (dec k (inc k m)) = count m"
  by (rule ext) (simp add: inc_ok inc_count dec_count)

lemma incs_count: "ok m \<Longrightarrow> count ((inc k ^^ n) m) k = count m k + n \<and> ok ((inc k ^^ n) m)"
  by (induction n) (auto simp: inc_count inc_ok)

lemma decs_count: "ok m \<Longrightarrow> count ((dec k ^^ n) m) k = count m k - n \<and> ok ((dec k ^^ n) m)"
  by (induction n) (auto simp: dec_count dec_ok)

lemma balanced:
  assumes "ok m"
  shows "count ((dec k ^^ n) ((inc k ^^ n) m)) k = count m k"
  using incs_count [OF assms, of n k] decs_count [of "(inc k ^^ n) m" n k] by simp

end

lemma rc_inc_count: "rc_count (rc_inc k m) k' = rc_count m k' + (if k' = k then 1 else 0)"
  by (simp add: rc_count_def rc_inc_def hm.get_put)

lemma rc_inc_pos: "rc_pos m \<Longrightarrow> rc_pos (rc_inc k m)"
  by (auto simp: rc_pos_def rc_inc_def hm.get_put split: if_splits)

section \<open>Step functions that keep an invariant\<close>

locale invariant_steps =
  fixes step :: "'s \<Rightarrow> 'o \<Rightarrow> 's"
    and inv :: "'s \<Rightarrow> bool"
  assumes step_inv: "inv s \<Longrightarrow> inv (step s x)"
begin

lemma run_inv: "inv s \<Longrightarrow> inv (foldl step s xs)"
  by (induction xs arbitrary: s) (auto simp: step_inv)

lemma run_prefix_inv: "inv s \<Longrightarrow> inv (foldl step s (take n xs))"
  by (rule run_inv)

end

text \<open>
  A transition relation between states that is transitive and holds across each step (a
  counter that grows, a set that only loses members) holds across a run.
\<close>

locale monotone_steps = invariant_steps step inv
  for step :: "'s \<Rightarrow> 'o \<Rightarrow> 's" and inv :: "'s \<Rightarrow> bool" +
  fixes rel :: "'s \<Rightarrow> 's \<Rightarrow> bool"
  assumes rel_refl: "rel s s"
    and rel_trans: "rel s t \<Longrightarrow> rel t u \<Longrightarrow> rel s u"
    and step_rel: "inv s \<Longrightarrow> rel s (step s x)"
begin

lemma run_rel: "inv s \<Longrightarrow> rel s (foldl step s xs)"
proof (induction xs arbitrary: s)
  case Nil
  then show ?case by (simp add: rel_refl)
next
  case (Cons x xs)
  then have "rel (step s x) (foldl step (step s x) xs)"
    by (simp add: step_inv)
  with Cons.prems show ?case
    by (auto intro: rel_trans step_rel)
qed

end

section \<open>Operations whose events mirror the state\<close>

text \<open>
  A client keeps a view of the hub's state and updates it from the events it is sent.
  An operation returns the new state and the events it emitted; it is faithful when
  applying those events to the old view gives the new one. The contract lifts from one
  operation to any sequence of them.
\<close>

fun run_events :: "('s \<Rightarrow> 'o \<Rightarrow> 's \<times> 'e list) \<Rightarrow> 's \<Rightarrow> 'o list \<Rightarrow> 's \<times> 'e list" where
  "run_events exec s [] = (s, [])"
| "run_events exec s (x # xs) =
     (let (s', es) = exec s x; (s'', es') = run_events exec s' xs in (s'', es @ es'))"

locale mirrored =
  fixes exec :: "'s \<Rightarrow> 'o \<Rightarrow> 's \<times> 'e list"
    and view :: "'s \<Rightarrow> 'v"
    and apply_event :: "'v \<Rightarrow> 'e \<Rightarrow> 'v"
    and ok :: "'s \<Rightarrow> bool"
  assumes exec_mirrors: "ok s \<Longrightarrow> exec s x = (s', es) \<Longrightarrow>
      foldl apply_event (view s) es = view s'"
    and exec_ok: "ok s \<Longrightarrow> exec s x = (s', es) \<Longrightarrow> ok s'"
begin

lemma run_mirrors:
  "ok s \<Longrightarrow> run_events exec s xs = (s', es) \<Longrightarrow>
     foldl apply_event (view s) es = view s' \<and> ok s'"
proof (induction xs arbitrary: s s' es)
  case Nil
  then show ?case by simp
next
  case (Cons x xs)
  obtain t es1 where t: "exec s x = (t, es1)" by (cases "exec s x")
  obtain u es2 where u: "run_events exec t xs = (u, es2)" by (cases "run_events exec t xs")
  from Cons.prems t u have "s' = u" and "es = es1 @ es2" by auto
  moreover from exec_mirrors [OF Cons.prems(1) t] have "foldl apply_event (view s) es1 = view t" .
  moreover from Cons.IH [OF exec_ok [OF Cons.prems(1) t] u]
  have "foldl apply_event (view t) es2 = view u \<and> ok u" .
  ultimately show ?case by simp
qed

end

end
