(* ===== verification/RustText.thy ===== *)
theory RustText
  imports Prelude
begin

text \<open>
  Rust strings whose characters the code looks at. A \<^verbatim>\<open>String\<close> is a sequence of Unicode
  scalar values; here it is the list of its code points, so \<^verbatim>\<open>chars().count()\<close> is the
  length and \<^verbatim>\<open>len()\<close> (bytes of UTF-8) is \<^verbatim>\<open>byte_len\<close>. The classifications are those of
  the standard library: \<^verbatim>\<open>char::is_control\<close> is Unicode category Cc, \<^verbatim>\<open>char::is_whitespace\<close>
  the White_Space property.
\<close>

type_synonym ustr = "nat list"

definition lit :: "string \<Rightarrow> ustr" where
  "lit s = map of_char s"

definition utf8_len :: "nat \<Rightarrow> nat" where
  "utf8_len c = (if c < 0x80 then 1 else if c < 0x800 then 2 else if c < 0x10000 then 3 else 4)"

definition byte_len :: "ustr \<Rightarrow> nat" where
  "byte_len t = sum_list (map utf8_len t)"

definition is_control :: "nat \<Rightarrow> bool" where
  "is_control c \<longleftrightarrow> c < 0x20 \<or> (0x7F \<le> c \<and> c < 0xA0)"

definition is_whitespace :: "nat \<Rightarrow> bool" where
  "is_whitespace c \<longleftrightarrow> (9 \<le> c \<and> c \<le> 13) \<or> c = 32 \<or> c = 0x85 \<or> c = 0xA0 \<or> c = 0x1680 \<or>
     (0x2000 \<le> c \<and> c \<le> 0x200A) \<or> c = 0x2028 \<or> c = 0x2029 \<or> c = 0x202F \<or> c = 0x205F \<or> c = 0x3000"

definition trim_start_matches :: "(nat \<Rightarrow> bool) \<Rightarrow> ustr \<Rightarrow> ustr" where
  "trim_start_matches P t = dropWhile P t"

definition trim_end_matches :: "(nat \<Rightarrow> bool) \<Rightarrow> ustr \<Rightarrow> ustr" where
  "trim_end_matches P t = rev (dropWhile P (rev t))"

definition trim :: "ustr \<Rightarrow> ustr" where
  "trim t = trim_end_matches is_whitespace (trim_start_matches is_whitespace t)"

text \<open>\<^verbatim>\<open>str::split(c)\<close>: always at least one part.\<close>

fun split_on :: "nat \<Rightarrow> ustr \<Rightarrow> ustr list" where
  "split_on c [] = [[]]"
| "split_on c (x # xs) =
     (if x = c then [] # split_on c xs
      else (case split_on c xs of [] \<Rightarrow> [[x]] | p # ps \<Rightarrow> (x # p) # ps))"

fun join_with :: "nat \<Rightarrow> ustr list \<Rightarrow> ustr" where
  "join_with c [] = []"
| "join_with c [p] = p"
| "join_with c (p # q # ps) = p @ c # join_with c (q # ps)"

fun starts_with :: "ustr \<Rightarrow> ustr \<Rightarrow> bool" where
  "starts_with t [] = True"
| "starts_with [] (p # ps) = False"
| "starts_with (x # xs) (p # ps) = (x = p \<and> starts_with xs ps)"

definition strip_prefix :: "ustr \<Rightarrow> ustr \<Rightarrow> ustr option" where
  "strip_prefix t p = (if starts_with t p then Some (drop (length p) t) else None)"

definition filter_nonempty :: "ustr option \<Rightarrow> ustr option" where
  "filter_nonempty t = (case t of Some s \<Rightarrow> if s = [] then None else Some s | None \<Rightarrow> None)"

section \<open>Trimming\<close>

lemma trim_end_matches_Nil [simp]: "trim_end_matches P [] = []"
  by (simp add: trim_end_matches_def)

lemma trim_Nil [simp]: "trim [] = []"
  by (simp add: trim_def trim_start_matches_def)

lemma set_trim: "set (trim t) \<subseteq> set t"
  by (auto simp: trim_def trim_end_matches_def trim_start_matches_def dest!: set_dropWhileD)

lemma length_trim: "length (trim t) \<le> length t"
proof -
  have "length (dropWhile P xs) \<le> length xs" for P and xs :: ustr
    by (rule length_dropWhile_le)
  from this [of is_whitespace "rev (dropWhile is_whitespace t)"] this [of is_whitespace t]
  show ?thesis
    by (simp add: trim_def trim_end_matches_def trim_start_matches_def)
qed

lemma dropWhile_id: "xs \<noteq> [] \<Longrightarrow> \<not> P (hd xs) \<Longrightarrow> dropWhile P xs = xs"
  by (cases xs) auto

lemma trim_end_matches_id: "t \<noteq> [] \<Longrightarrow> \<not> P (last t) \<Longrightarrow> trim_end_matches P t = t"
  by (simp add: trim_end_matches_def dropWhile_id hd_rev)

lemma trim_end_matches_last:
  "trim_end_matches P t \<noteq> [] \<Longrightarrow> \<not> P (last (trim_end_matches P t))"
  by (simp add: trim_end_matches_def last_rev hd_dropWhile)

lemma trim_end_matches_idem [simp]:
  "trim_end_matches P (trim_end_matches P t) = trim_end_matches P t"
proof (cases "trim_end_matches P t = []")
  case True
  then show ?thesis by simp
next
  case False
  then show ?thesis
    by (rule trim_end_matches_id [OF _ trim_end_matches_last]) (simp_all add: False)
qed

lemma trim_end_matches_prefix: "\<exists>s. t = trim_end_matches P t @ s"
  by (metis rev_append rev_rev_ident takeWhile_dropWhile_id trim_end_matches_def)

lemma hd_trim_end_matches:
  "trim_end_matches P t \<noteq> [] \<Longrightarrow> hd (trim_end_matches P t) = hd t"
  using trim_end_matches_prefix [of t P] by (metis hd_append2)

lemma trim_id: "t = [] \<or> (\<not> is_whitespace (hd t) \<and> \<not> is_whitespace (last t)) \<Longrightarrow> trim t = t"
  by (cases "t = []") (simp_all add: trim_def trim_start_matches_def dropWhile_id trim_end_matches_id)

lemma trim_ends:
  assumes "trim t \<noteq> []"
  shows "\<not> is_whitespace (hd (trim t)) \<and> \<not> is_whitespace (last (trim t))"
proof -
  let ?u = "dropWhile is_whitespace t"
  have eq: "trim t = trim_end_matches is_whitespace ?u"
    by (simp add: trim_def trim_start_matches_def)
  from assms eq have "?u \<noteq> []" by (metis trim_end_matches_Nil)
  then have "\<not> is_whitespace (hd ?u)" by (rule hd_dropWhile)
  moreover have "hd (trim t) = hd ?u"
    using assms eq hd_trim_end_matches by metis
  moreover have "\<not> is_whitespace (last (trim t))"
    using assms eq trim_end_matches_last by metis
  ultimately show ?thesis by simp
qed

lemma trim_idem [simp]: "trim (trim t) = trim t"
  by (cases "trim t = []") (use trim_ends in \<open>auto intro: trim_id\<close>)

section \<open>Splitting and prefixes\<close>

lemma split_on_not_Nil [simp]: "split_on c t \<noteq> []"
  by (induction t) (auto split: list.splits)

lemma join_split [simp]: "join_with c (split_on c t) = t"
proof (induction t)
  case Nil
  then show ?case by simp
next
  case (Cons x t)
  then show ?case
    by (cases "split_on c t"; cases "tl (split_on c t)") auto
qed

lemma split_on_parts: "p \<in> set (split_on c t) \<Longrightarrow> c \<notin> set p"
  by (induction t arbitrary: p) (auto split: if_splits list.splits)

lemma split_on_append:
  "split_on c (s @ c # t) = split_on c s @ split_on c t"
  by (induction s) (auto split: list.splits)

lemma starts_with_iff: "starts_with t p \<longleftrightarrow> (\<exists>s. t = p @ s)"
  by (induction t p rule: starts_with.induct) auto

lemma starts_with_append [simp]: "starts_with (p @ s) p"
  by (auto simp: starts_with_iff)

lemma strip_prefix_Some: "strip_prefix t p = Some r \<longleftrightarrow> t = p @ r"
  by (auto simp: strip_prefix_def starts_with_iff)

lemma byte_len_append [simp]: "byte_len (s @ t) = byte_len s + byte_len t"
  by (simp add: byte_len_def)

lemma length_le_byte_len: "length t \<le> byte_len t"
  by (induction t) (auto simp: byte_len_def utf8_len_def)

lemma not_control_whitespace_ellipsis [simp]:
  "\<not> is_whitespace 0x2026" "\<not> is_control 0x2026"
  by (simp_all add: is_whitespace_def is_control_def)

end
