(* ===== verification/Protocol.thy ===== *)
theory Protocol
  imports RustText
begin

text \<open>
  The data the hub, the nodes and the browsers share (\<^verbatim>\<open>crates/protocol/src/lib.rs\<close>):
  one record per struct, one datatype per enum, in the order of the source. A field is
  \<^typ>\<open>ustr\<close> where some code reads its characters and an identifier where it is only
  compared. A JSON value is carried as the text it is serialised to; a float is a finite
  rational, an infinity or not-a-number.
\<close>

type_synonym json = ustr

datatype float = Finite rat | PosInf | NegInf | NaN

text \<open>
  A value the hub builds with \<^verbatim>\<open>json!\<close>, stores as text and reads back. The order of an
  object's members carries no meaning.
\<close>

datatype json_value =
    J_Null
  | J_Bool bool
  | J_Int int
  | J_Str ustr
  | J_Array "json_value list"
  | J_Object "(string \<times> json_value) list"

section \<open>Machines and terminals\<close>

record machine_info =
  mi_id :: ident
  mi_name :: ustr
  mi_os :: ustr
  mi_home_dir :: ustr
  mi_production :: bool

datatype terminal_opener_kind = Opener_Cli | Opener_Other

record terminal_opener =
  to_kind :: terminal_opener_kind
  to_label :: "ustr option"

datatype terminal_attention = Confirmation | FolderTrust

datatype terminal_title_source = Src_Osc | Src_Process | Src_None

record terminal_info =
  ti_id :: ident
  ti_machine_id :: ident
  ti_title :: ustr
  ti_cwd :: ustr
  ti_title_source :: terminal_title_source
  ti_workspace_group_id :: "ident option"
  ti_cols :: u16
  ti_rows :: u16
  ti_reachable :: bool
  ti_attention :: "terminal_attention option"
  ti_opened_by :: "terminal_opener option"
  ti_last_activity_ms :: "ms option"

fun opener_kind_as_str :: "terminal_opener_kind \<Rightarrow> string" where
  "opener_kind_as_str Opener_Cli = ''cli''"
| "opener_kind_as_str Opener_Other = ''other''"

definition opener_kind_from_name :: "string \<Rightarrow> terminal_opener_kind option" where
  "opener_kind_from_name name = (if name = ''cli'' then Some Opener_Cli else None)"

definition TERMINAL_OPENER_LABEL_MAX :: nat where
  "TERMINAL_OPENER_LABEL_MAX = 40"

definition clean_opener_label :: "ustr \<Rightarrow> ustr option" where
  "clean_opener_label label =
     (let without_controls = filter (\<lambda>c. \<not> is_control c) label;
          cleaned = take TERMINAL_OPENER_LABEL_MAX (trim without_controls);
          cleaned = trim_end_matches is_whitespace cleaned
      in if cleaned \<noteq> [] then Some cleaned else None)"

section \<open>Files\<close>

record dir_entry =
  de_name :: ustr
  de_path :: ustr
  de_is_dir :: bool
  de_size :: "u64 option"
  de_modified_ms :: "u64 option"

datatype fs_read_error_code =
    FsR_NotFound | FsR_IsDirectory | FsR_TooLarge | FsR_PermissionDenied | FsR_Io

datatype fs_write_error_code =
    FsW_NotFound | FsW_IsDirectory | FsW_TooLarge | FsW_PermissionDenied | FsW_NotText
  | FsW_Conflict | FsW_Io

datatype upload_error_code =
    Up_TooLarge | Up_NoSpace | Up_BadSequence | Up_NotFound | Up_Io

section \<open>Machine statistics, workspace tabs and layouts\<close>

record disk_info =
  dk_mount_point :: ustr
  dk_total_bytes :: u64
  dk_used_bytes :: u64

record resource_stats =
  rs_cpu_percent :: float
  rs_memory_total :: u64
  rs_memory_used :: u64
  rs_disks :: "disk_info list"

record control_lease_snapshot =
  cl_machine_id :: ident
  cl_controller_device_id :: "ident option"

record workspace_group_info =
  wg_id :: ident
  wg_machine_id :: ident
  wg_name :: ustr
  wg_sort_order :: int

datatype workspace_split_direction = Split_Horizontal | Split_Vertical

datatype workspace_layout_node =
    Layout_Leaf ident
  | Layout_Split workspace_split_direction float workspace_layout_node workspace_layout_node

record workspace_layout_info =
  wl_machine_id :: ident
  wl_group_key :: ident
  wl_root :: "workspace_layout_node option"
  wl_updated_at :: ms

section \<open>Agent sessions\<close>

datatype agent_kind = Kind_Claude | Kind_Codex | Kind_Grok | Kind_Kimi

datatype agent_session_status =
    Sess_Starting | Sess_Working | Sess_Asked | Sess_Idle | Sess_Error | Sess_Disconnected

record agent_model_info =
  am_model_id :: ident
  am_name :: ustr
  am_description :: "ustr option"

record agent_session_info =
  as_id :: ident
  as_machine_id :: ident
  as_agent_kind :: agent_kind
  as_cwd :: ustr
  as_title :: ustr
  as_status :: agent_session_status
  as_auto_run :: bool
  as_acp_session_id :: "ident option"
  as_workspace_group_id :: "ident option"
  as_available_models :: "agent_model_info list"
  as_current_model_id :: "ident option"
  as_last_event_seq :: nat
  as_created_at_ms :: ms

record agent_question_option =
  qo_id :: ustr
  qo_label :: ustr
  qo_detail :: "ustr option"

datatype agent_event =
    AE_UserMessage ustr
  | AE_AgentMessageChunk ustr
  | AE_ThoughtChunk ustr
  | AE_ToolCall ident ustr "ustr option" ustr
  | AE_ToolCallUpdate ident "ustr option" "ustr option"
  | AE_Plan ustr
  | AE_Question ident ustr "agent_question_option list"
  | AE_QuestionResolved ident
  | AE_TurnEnded ustr
  | AE_Error ustr

section \<open>Agent runs\<close>

datatype run_agent = RA_Claude | RA_Codex | RA_Other

fun run_agent_as_str :: "run_agent \<Rightarrow> string" where
  "run_agent_as_str RA_Claude = ''claude''"
| "run_agent_as_str RA_Codex = ''codex''"
| "run_agent_as_str RA_Other = ''other''"

definition run_agent_from_name :: "string \<Rightarrow> run_agent" where
  "run_agent_from_name name =
     (if name = ''claude'' then RA_Claude else if name = ''codex'' then RA_Codex else RA_Other)"

datatype agent_run_status =
    Run_Starting | Run_Working | Run_Waiting | Run_Idle | Run_Done | Run_Error | Run_Gone
  | Run_Other

fun run_status_as_str :: "agent_run_status \<Rightarrow> string" where
  "run_status_as_str Run_Starting = ''starting''"
| "run_status_as_str Run_Working = ''working''"
| "run_status_as_str Run_Waiting = ''waiting''"
| "run_status_as_str Run_Idle = ''idle''"
| "run_status_as_str Run_Done = ''done''"
| "run_status_as_str Run_Error = ''error''"
| "run_status_as_str Run_Gone = ''gone''"
| "run_status_as_str Run_Other = ''other''"

definition run_status_from_name :: "string \<Rightarrow> agent_run_status" where
  "run_status_from_name name =
     (if name = ''starting'' then Run_Starting
      else if name = ''working'' then Run_Working
      else if name = ''waiting'' then Run_Waiting
      else if name = ''idle'' then Run_Idle
      else if name = ''done'' then Run_Done
      else if name = ''error'' then Run_Error
      else if name = ''gone'' then Run_Gone
      else Run_Other)"

fun ends_run :: "agent_run_status \<Rightarrow> bool" where
  "ends_run Run_Done = True"
| "ends_run Run_Error = True"
| "ends_run Run_Gone = True"
| "ends_run _ = False"

datatype agent_request_kind = Req_Approval | Req_Question | Req_Input | Req_Other

fun request_kind_as_str :: "agent_request_kind \<Rightarrow> string" where
  "request_kind_as_str Req_Approval = ''approval''"
| "request_kind_as_str Req_Question = ''question''"
| "request_kind_as_str Req_Input = ''input''"
| "request_kind_as_str Req_Other = ''other''"

definition request_kind_from_name :: "string \<Rightarrow> agent_request_kind" where
  "request_kind_from_name name =
     (if name = ''approval'' then Req_Approval
      else if name = ''question'' then Req_Question
      else if name = ''input'' then Req_Input
      else Req_Other)"

record agent_run_request =
  rq_id :: ident
  rq_kind :: agent_request_kind
  rq_prompt :: "ustr option"
  rq_options :: "agent_question_option list"
  rq_source :: ident
  rq_created_at_ms :: ms
  rq_answer_sent_at_ms :: "ms option"

record agent_run_progress =
  pg_done :: u32
  pg_total :: u32
  pg_current :: "ustr option"

datatype agent_report_kind = Rep_Note | Rep_Blocked | Rep_Finished | Rep_Other

fun report_kind_as_str :: "agent_report_kind \<Rightarrow> string" where
  "report_kind_as_str Rep_Note = ''note''"
| "report_kind_as_str Rep_Blocked = ''blocked''"
| "report_kind_as_str Rep_Finished = ''finished''"
| "report_kind_as_str Rep_Other = ''other''"

definition report_kind_from_name :: "string \<Rightarrow> agent_report_kind" where
  "report_kind_from_name name =
     (if name = ''note'' then Rep_Note
      else if name = ''blocked'' then Rep_Blocked
      else if name = ''finished'' then Rep_Finished
      else Rep_Other)"

record agent_run_report =
  rp_kind :: agent_report_kind
  rp_text :: ustr
  rp_link :: "ustr option"
  rp_at_ms :: ms

datatype agent_signal =
    Sig_Working
  | Sig_Idle
  | Sig_Waiting agent_request_kind "ustr option" "agent_question_option list"
  | Sig_Progress agent_run_progress
  | Sig_Report agent_report_kind ustr "ustr option"
  | Sig_Other

record agent_run_info =
  ri_id :: ident
  ri_machine_id :: ident
  ri_terminal_id :: "ident option"
  ri_agent :: run_agent
  ri_cwd :: ustr
  ri_status :: agent_run_status
  ri_request :: "agent_run_request option"
  ri_progress :: "agent_run_progress option"
  ri_report :: "agent_run_report option"
  ri_label :: "ustr option"
  ri_external_ref :: "ustr option"
  ri_title :: "ustr option"
  ri_started_at_ms :: ms
  ri_updated_at_ms :: ms
  ri_ended_at_ms :: "ms option"

record installed_agent =
  ia_agent :: run_agent
  ia_version :: "ustr option"

record agent_answer =
  an_request_id :: ident
  an_approve :: "bool option"
  an_option_id :: "ustr option"
  an_text :: "ustr option"
  an_device_id :: "ident option"

section \<open>Agent browsers\<close>

datatype agent_browser_controller = Ctl_Agent | Ctl_Human

record agent_browser_handoff =
  ho_reason :: ustr
  ho_requested_at :: ms

record agent_browser_reclaim =
  rc_reason :: ustr
  rc_at :: ms
  rc_device_id :: "ident option"

record agent_browser_nav =
  nv_can_go_back :: bool
  nv_can_go_forward :: bool
  nv_loading :: bool

datatype agent_browser_dialog_kind = Dlg_Alert | Dlg_Confirm | Dlg_Prompt | Dlg_Beforeunload

record agent_browser_dialog =
  dg_kind :: agent_browser_dialog_kind
  dg_message :: ustr
  dg_default_prompt :: ustr

record agent_browser_info =
  ab_id :: ident
  ab_machine_id :: "ident option"
  ab_url :: ustr
  ab_title :: ustr
  ab_opener_terminal_id :: "ident option"
  ab_controller :: agent_browser_controller
  ab_controller_device_id :: "ident option"
  ab_controller_since :: "ms option"
  ab_handoff :: "agent_browser_handoff option"
  ab_reclaimed :: "agent_browser_reclaim option"
  ab_opener_browser_id :: "ident option"
  ab_nav :: "agent_browser_nav option"
  ab_dialog :: "agent_browser_dialog option"

section \<open>Names stored as text are read back\<close>

lemma run_agent_name_roundtrip: "run_agent_from_name (run_agent_as_str a) = a"
  by (cases a) (simp_all add: run_agent_from_name_def)

lemma run_status_name_roundtrip: "run_status_from_name (run_status_as_str st) = st"
  by (cases st) (simp_all add: run_status_from_name_def)

lemma request_kind_name_roundtrip: "request_kind_from_name (request_kind_as_str k) = k"
  by (cases k) (simp_all add: request_kind_from_name_def)

lemma report_kind_name_roundtrip: "report_kind_from_name (report_kind_as_str k) = k"
  by (cases k) (simp_all add: report_kind_from_name_def)

lemmas name_roundtrips [simp] =
  run_agent_name_roundtrip run_status_name_roundtrip request_kind_name_roundtrip
  report_kind_name_roundtrip

text \<open>The label of the option that trusts a folder.\<close>

definition FOLDER_TRUST_YES :: ustr where
  "FOLDER_TRUST_YES = lit ''Yes, I trust this folder''"

end
