(* ===== verification/Access.thy ===== *)
theory Access
  imports Protocol
begin

text \<open>
  What an API token may do, and what starting an agent takes (\<^verbatim>\<open>TokenAccess\<close>,
  \<^verbatim>\<open>AgentPermissionMode\<close>, \<^verbatim>\<open>AgentStart\<close> of \<^verbatim>\<open>crates/protocol/src/lib.rs\<close>), and the keys an
  answer may be typed with (\<^verbatim>\<open>AgentKey\<close>). Whether a run id is a UUID is decided by the
  \<^verbatim>\<open>uuid\<close> crate, a parameter here. The lemmas say that normalised prompts and labels are
  fixed points of the normalisation, and that a folder a token admits lies, part by
  part, inside one of the token's folders.
\<close>

text \<open>The refusals, one constructor per message of the source.\<close>

datatype refusal =
    Codex_has_no_plan_mode
  | Only_claude_and_codex
  | Choose_what_it_may_do
  | Needs_folders
  | Folders_not_plain
  | Prompt_too_long
  | Prompt_has_controls
  | Prompt_starts_with_dash
  | Label_not_one_line
  | Invalid_run_id
  | Prompt_not_normalized
  | Reference_not_normalized

section \<open>Permission modes\<close>

datatype agent_permission_mode = Mode_Ask | Mode_AcceptEdits | Mode_Plan | Mode_Auto

fun permission_args :: "agent_permission_mode \<Rightarrow> run_agent \<Rightarrow> refusal + string list" where
  "permission_args Mode_Ask RA_Claude = Inr [''--permission-mode'', ''default'']"
| "permission_args Mode_AcceptEdits RA_Claude = Inr [''--permission-mode'', ''acceptEdits'']"
| "permission_args Mode_Plan RA_Claude = Inr [''--permission-mode'', ''plan'']"
| "permission_args Mode_Auto RA_Claude = Inr [''--permission-mode'', ''auto'']"
| "permission_args Mode_Ask RA_Codex =
     Inr [''--sandbox'', ''read-only'', ''--ask-for-approval'', ''on-request'']"
| "permission_args Mode_AcceptEdits RA_Codex =
     Inr [''--sandbox'', ''workspace-write'', ''--ask-for-approval'', ''on-request'']"
| "permission_args Mode_Plan RA_Codex = Inl Codex_has_no_plan_mode"
| "permission_args Mode_Auto RA_Codex = Inr [''--yolo'']"
| "permission_args _ RA_Other = Inl Only_claude_and_codex"

section \<open>Token access\<close>

datatype token_scope =
    Scope_RunsRead | Scope_RunsAnswer | Scope_RunsApprove | Scope_RunsStart
  | Scope_RunsMessage | Scope_Full

fun token_scope_as_str :: "token_scope \<Rightarrow> string" where
  "token_scope_as_str Scope_RunsRead = ''runs:read''"
| "token_scope_as_str Scope_RunsAnswer = ''runs:answer''"
| "token_scope_as_str Scope_RunsApprove = ''runs:approve''"
| "token_scope_as_str Scope_RunsStart = ''runs:start''"
| "token_scope_as_str Scope_RunsMessage = ''runs:message''"
| "token_scope_as_str Scope_Full = ''full''"

datatype content_level = Content_Metadata | Content_Requests | Content_Notes

record token_access =
  ta_scopes :: "token_scope list"
  ta_machines :: "ident list option"
  ta_include_production :: bool
  ta_dirs :: "ustr list option"
  ta_agents :: "run_agent list option"
  ta_content :: content_level
  ta_max_starts_per_hour :: "u32 option"
  ta_max_answers_per_hour :: "u32 option"

definition is_full :: "token_access \<Rightarrow> bool" where
  "is_full a \<longleftrightarrow> Scope_Full \<in> set (ta_scopes a)"

definition allows :: "token_access \<Rightarrow> token_scope \<Rightarrow> bool" where
  "allows a sc \<longleftrightarrow> is_full a \<or> sc \<in> set (ta_scopes a)"

definition allows_machine :: "token_access \<Rightarrow> ident \<Rightarrow> bool \<Rightarrow> bool" where
  "allows_machine a machine_id production =
     (case ta_machines a of
        Some machines \<Rightarrow> machine_id \<in> set machines
      | None \<Rightarrow> ta_include_production a \<or> \<not> production)"

definition allows_agent :: "token_access \<Rightarrow> run_agent \<Rightarrow> bool" where
  "allows_agent a agent =
     (case ta_agents a of None \<Rightarrow> True | Some agents \<Rightarrow> agent \<in> set agents)"

definition slash :: nat where
  "slash = 47"

definition is_plain_dir :: "ustr \<Rightarrow> bool" where
  "is_plain_dir path =
     (let rest = (if path = lit ''~'' then Some []
                  else case strip_prefix path (lit ''~/'') of
                    Some rest \<Rightarrow> Some rest
                  | None \<Rightarrow> strip_prefix path [slash])
      in case rest of
           None \<Rightarrow> False
         | Some rest \<Rightarrow>
             \<not> list_ex is_control path \<and>
             list_all (\<lambda>part. part \<noteq> lit ''..'' \<and> part \<noteq> lit ''.'') (split_on slash rest))"

definition ta_dirs_or_empty :: "token_access \<Rightarrow> ustr list" where
  "ta_dirs_or_empty a = (case ta_dirs a of None \<Rightarrow> [] | Some ds \<Rightarrow> ds)"

definition token_access_validate :: "token_access \<Rightarrow> refusal + unit" where
  "token_access_validate a =
     (if ta_scopes a = [] then Inl Choose_what_it_may_do
      else if allows a Scope_RunsStart \<and> \<not> is_full a then
        (let dirs = ta_dirs_or_empty a in
         if dirs = [] then Inl Needs_folders
         else if \<not> list_all is_plain_dir dirs
         then Inl Folders_not_plain
         else Inr ())
      else Inr ())"

definition dir_admits :: "ustr \<Rightarrow> ustr \<Rightarrow> bool" where
  "dir_admits cwd dir =
     (let dir = trim_end_matches (\<lambda>c. c = slash) dir
      in dir = [] \<or> cwd = dir \<or> starts_with cwd (dir @ [slash]))"

definition allows_dir :: "token_access \<Rightarrow> ustr \<Rightarrow> bool" where
  "allows_dir a cwd =
     (if \<not> is_plain_dir cwd then False
      else let cwd = trim_end_matches (\<lambda>c. c = slash) cwd
           in list_ex (dir_admits cwd) (ta_dirs_or_empty a))"

section \<open>Starting an agent\<close>

definition MAX_START_PROMPT_BYTES :: nat where
  "MAX_START_PROMPT_BYTES = 32 * 1024"

definition MAX_START_LABEL_CHARS :: nat where
  "MAX_START_LABEL_CHARS = 200"

record start_agent_run_req =
  sr_machine_id :: ident
  sr_agent :: run_agent
  sr_cwd :: ustr
  sr_prompt :: "ustr option"
  sr_label :: "ustr option"
  sr_external_ref :: "ustr option"
  sr_permission_mode :: "agent_permission_mode option"
  sr_device_id :: "ident option"

record agent_start =
  st_run_id :: ident
  st_agent :: run_agent
  st_prompt :: "ustr option"
  st_permission_mode :: "agent_permission_mode option"
  st_external_ref :: "ustr option"
  st_allowed_dirs :: "ustr list option"

text \<open>\<^verbatim>\<open>replace("\r\n", "\n").replace('\r', "\n")\<close>\<close>

fun replace_crlf :: "ustr \<Rightarrow> ustr" where
  "replace_crlf [] = []"
| "replace_crlf [c] = [c]"
| "replace_crlf (c # d # cs) =
     (if c = 13 \<and> d = 10 then 10 # replace_crlf cs else c # replace_crlf (d # cs))"

definition normalize_newlines :: "ustr \<Rightarrow> ustr" where
  "normalize_newlines t = map (\<lambda>c. if c = 13 then 10 else c) (replace_crlf t)"

definition normalize_prompt :: "ustr \<Rightarrow> refusal + ustr option" where
  "normalize_prompt t =
     (let t = trim (normalize_newlines t) in
      if t = [] then Inr None
      else if byte_len t > MAX_START_PROMPT_BYTES then Inl Prompt_too_long
      else if list_ex (\<lambda>c. is_control c \<and> c \<noteq> 10 \<and> c \<noteq> 9) t
      then Inl Prompt_has_controls
      else if starts_with t (lit ''-'') then Inl Prompt_starts_with_dash
      else Inr (Some t))"

definition normalize_label :: "ustr \<Rightarrow> refusal + ustr option" where
  "normalize_label t =
     (let t = trim t in
      if t = [] then Inr None
      else if length t > MAX_START_LABEL_CHARS \<or> list_ex is_control t
      then Inl Label_not_one_line
      else Inr (Some t))"

definition agent_start_validate :: "(ident \<Rightarrow> bool) \<Rightarrow> agent_start \<Rightarrow> refusal + unit" where
  "agent_start_validate is_uuid s =
     (if st_agent s \<noteq> RA_Claude \<and> st_agent s \<noteq> RA_Codex
      then Inl Only_claude_and_codex
      else if \<not> is_uuid (st_run_id s) then Inl Invalid_run_id
      else case (case st_permission_mode s of None \<Rightarrow> Inr []
                 | Some mode \<Rightarrow> permission_args mode (st_agent s)) of
        Inl e \<Rightarrow> Inl e
      | Inr _ \<Rightarrow>
          (case (case st_prompt s of None \<Rightarrow> Inr ()
                 | Some prompt \<Rightarrow>
                     (case normalize_prompt prompt of Inl e \<Rightarrow> Inl e
                      | Inr n \<Rightarrow> if n \<noteq> Some prompt then Inl Prompt_not_normalized
                                 else Inr ())) of
             Inl e \<Rightarrow> Inl e
           | Inr _ \<Rightarrow>
               (case st_external_ref s of None \<Rightarrow> Inr ()
                | Some reference \<Rightarrow>
                    (case normalize_label reference of Inl e \<Rightarrow> Inl e
                     | Inr n \<Rightarrow> if n \<noteq> Some reference
                                then Inl Reference_not_normalized else Inr ()))))"

section \<open>Keys\<close>

datatype agent_key = Key_Text ustr | Key_Digit u8 | Key_Enter | Key_Escape | Key_Choose ustr

definition no_controls :: "ustr \<Rightarrow> bool" where
  "no_controls t \<longleftrightarrow> \<not> list_ex is_control t"

fun is_allowed :: "agent_key \<Rightarrow> bool" where
  "is_allowed (Key_Text t) = (t \<noteq> [] \<and> length t \<le> 2000 \<and> no_controls t)"
| "is_allowed (Key_Digit d) = (1 \<le> d \<and> d \<le> 9)"
| "is_allowed Key_Enter = True"
| "is_allowed Key_Escape = True"
| "is_allowed (Key_Choose label) = (trim label \<noteq> [] \<and> length label \<le> 200 \<and> no_controls label)"

section \<open>Normalisation is a fixed point\<close>

lemma replace_crlf_id: "13 \<notin> set t \<Longrightarrow> replace_crlf t = t"
  by (induction t rule: replace_crlf.induct) auto

lemma normalize_newlines_no_cr: "13 \<notin> set (normalize_newlines t)"
  by (auto simp: normalize_newlines_def)

lemma normalize_newlines_id: "13 \<notin> set t \<Longrightarrow> normalize_newlines t = t"
  by (auto simp: normalize_newlines_def replace_crlf_id intro!: map_idI)

lemma normalize_prompt_SomeD:
  assumes "normalize_prompt t = Inr (Some p)"
  shows "p \<noteq> []" and "trim p = p" and "13 \<notin> set p" and "byte_len p \<le> MAX_START_PROMPT_BYTES"
    and "\<forall>c\<in>set p. is_control c \<longrightarrow> c = 10 \<or> c = 9" and "\<not> starts_with p (lit ''-'')"
  using assms set_trim [of "normalize_newlines t"] normalize_newlines_no_cr [of t]
  by (auto simp: normalize_prompt_def Let_def list_ex_iff split: if_splits)

lemma normalize_prompt_fixed:
  assumes "normalize_prompt t = Inr (Some p)"
  shows "normalize_prompt p = Inr (Some p)"
  using normalize_prompt_SomeD [OF assms]
  by (auto simp: normalize_prompt_def normalize_newlines_id Let_def list_ex_iff)

lemma normalize_label_SomeD:
  assumes "normalize_label t = Inr (Some l)"
  shows "l \<noteq> []" and "trim l = l" and "length l \<le> MAX_START_LABEL_CHARS"
    and "\<forall>c\<in>set l. \<not> is_control c"
  using assms by (auto simp: normalize_label_def Let_def list_ex_iff split: if_splits)

lemma normalize_label_fixed:
  assumes "normalize_label t = Inr (Some l)"
  shows "normalize_label l = Inr (Some l)"
  using normalize_label_SomeD [OF assms]
  by (auto simp: normalize_label_def Let_def list_ex_iff)

section \<open>Folders\<close>

definition dir_parts :: "ustr \<Rightarrow> ustr list" where
  "dir_parts d = split_on slash (trim_end_matches (\<lambda>c. c = slash) d)"

lemma split_on_no_sep: "c \<notin> set t \<Longrightarrow> split_on c t = [t]"
  by (induction t) auto

lemma split_on_prefix_iff:
  "(\<exists>qs. split_on c s = split_on c d @ qs) \<longleftrightarrow> s = d \<or> (\<exists>r. s = d @ c # r)"
proof
  assume "\<exists>qs. split_on c s = split_on c d @ qs"
  then obtain qs where qs: "split_on c s = split_on c d @ qs" ..
  show "s = d \<or> (\<exists>r. s = d @ c # r)"
  proof (cases qs)
    case Nil
    with qs have "join_with c (split_on c s) = join_with c (split_on c d)" by simp
    then show ?thesis by simp
  next
    case (Cons q qs')
    have "join_with c (ps @ q # qs') = join_with c ps @ c # join_with c (q # qs')"
      if "ps \<noteq> []" for ps
      using that by (induction ps rule: join_with.induct) auto
    from this [of "split_on c d"] qs Cons
    have "join_with c (split_on c s) = join_with c (split_on c d) @ c # join_with c (q # qs')"
      by simp
    then show ?thesis by auto
  qed
next
  assume "s = d \<or> (\<exists>r. s = d @ c # r)"
  then show "\<exists>qs. split_on c s = split_on c d @ qs"
    by (auto simp: split_on_append)
qed

lemma dir_admits_iff:
  "dir_admits cwd dir \<longleftrightarrow>
     trim_end_matches (\<lambda>c. c = slash) dir = [] \<or>
     (\<exists>qs. split_on slash cwd = dir_parts dir @ qs)"
  by (auto simp: dir_admits_def dir_parts_def Let_def split_on_prefix_iff starts_with_iff)

lemma is_plain_dir_parts:
  assumes "is_plain_dir path" and "part \<in> set (split_on slash path)"
  shows "part \<noteq> lit ''..'' \<and> part \<noteq> lit ''.''"
proof -
  consider "path = lit ''~''" | rest where "path = lit ''~/'' @ rest" | rest where "path = slash # rest"
    using assms(1)
    by (auto simp: is_plain_dir_def Let_def strip_prefix_Some split: if_splits option.splits)
  then show ?thesis
  proof cases
    case 1
    with assms(2) show ?thesis by (auto simp: lit_def slash_def)
  next
    case (2 rest)
    have tilde: "lit ''~/'' @ rest = lit ''~'' @ slash # rest" by (simp add: lit_def slash_def)
    have "strip_prefix path (lit ''~/'') = Some rest" using 2 by (simp add: strip_prefix_Some)
    with assms(1) 2 have "list_all (\<lambda>part. part \<noteq> lit ''..'' \<and> part \<noteq> lit ''.'') (split_on slash rest)"
      by (auto simp: is_plain_dir_def Let_def lit_def split: if_splits)
    moreover have "split_on slash path = lit ''~'' # split_on slash rest"
      using 2 by (simp add: tilde split_on_append) (simp add: lit_def slash_def)
    moreover have "lit ''~'' \<noteq> lit ''..''" "lit ''~'' \<noteq> lit ''.''" by (simp_all add: lit_def)
    ultimately show ?thesis using assms(2) by (auto simp: list_all_iff)
  next
    case (3 rest)
    have "strip_prefix path (lit ''~/'') = None" using 3 by (simp add: strip_prefix_def lit_def slash_def)
    moreover have "strip_prefix path [slash] = Some rest" using 3 by (simp add: strip_prefix_Some)
    moreover have "path \<noteq> lit ''~''" using 3 by (simp add: lit_def slash_def)
    ultimately have "list_all (\<lambda>part. part \<noteq> lit ''..'' \<and> part \<noteq> lit ''.'') (split_on slash rest)"
      using assms(1) by (auto simp: is_plain_dir_def Let_def)
    moreover have "lit ''..'' \<noteq> []" "lit ''.'' \<noteq> []" by (simp_all add: lit_def)
    ultimately show ?thesis using assms(2) 3 by (auto simp: list_all_iff)
  qed
qed

lemma dir_parts_plain:
  assumes "is_plain_dir path" and "part \<in> set (dir_parts path)"
  shows "part \<noteq> lit ''..'' \<and> part \<noteq> lit ''.''"
proof -
  let ?t = "trim_end_matches (\<lambda>c. c = slash) path"
  obtain s where s: "path = ?t @ s" using trim_end_matches_prefix by blast
  have "set (split_on slash ?t) \<subseteq> set (split_on slash path)"
  proof (cases s)
    case Nil
    with s show ?thesis by simp
  next
    case (Cons c s')
    have "rev path = takeWhile (\<lambda>c. c = slash) (rev path) @ rev ?t"
      by (simp add: trim_end_matches_def)
    then have "path = ?t @ rev (takeWhile (\<lambda>c. c = slash) (rev path))"
      by (metis rev_append rev_rev_ident)
    with s have "s = rev (takeWhile (\<lambda>c. c = slash) (rev path))"
      by (metis same_append_eq)
    then have "\<forall>x\<in>set s. x = slash"
      by (auto dest: set_takeWhileD)
    with Cons have "path = ?t @ slash # s'" using s by simp
    then have "split_on slash path = split_on slash ?t @ split_on slash s'"
      by (metis split_on_append)
    then show ?thesis by simp
  qed
  with assms show ?thesis
    by (auto simp: dir_parts_def dest: is_plain_dir_parts)
qed

text \<open>A token admits a folder exactly when the folder is an absolute (or home) path with
  no dot parts and its parts extend the parts of one of the token's folders (a token
  folder that is only slashes is the root and holds everything): \<^verbatim>\<open>/home/ann2\<close> is not
  inside \<^verbatim>\<open>/home/ann\<close>.
\<close>

theorem allows_dir_iff_inside:
  "allows_dir a cwd \<longleftrightarrow>
     is_plain_dir cwd \<and>
     (\<exists>dir\<in>set (ta_dirs_or_empty a).
        trim_end_matches (\<lambda>c. c = slash) dir = [] \<or>
        (\<exists>qs. dir_parts cwd = dir_parts dir @ qs))"
  by (auto simp: allows_dir_def Let_def list_ex_iff dir_admits_iff dir_parts_def)

end
