(* ===== verification/Messages.thy ===== *)
theory Messages
  imports Access
begin

text \<open>
  The messages on the wire (\<^verbatim>\<open>crates/protocol/src/lib.rs\<close>, with the composer and preview
  types it uses): input events of a viewer and their sanitising, agent browser commands,
  what the hub tells a node, what a node tells the hub, and what the hub tells the
  browsers. One constructor per variant, its arguments the variant's fields in their
  order. The lemmas say what a sanitised input event can hold.
\<close>

section \<open>Input events\<close>

definition AGENT_BROWSER_VIEWPORT_WIDTH :: nat where
  "AGENT_BROWSER_VIEWPORT_WIDTH = 1280"

definition AGENT_BROWSER_VIEWPORT_HEIGHT :: nat where
  "AGENT_BROWSER_VIEWPORT_HEIGHT = 800"

definition AGENT_BROWSER_MAX_INPUT_TEXT :: nat where
  "AGENT_BROWSER_MAX_INPUT_TEXT = 10000"

definition AGENT_BROWSER_MAX_URL :: nat where
  "AGENT_BROWSER_MAX_URL = 8192"

datatype mouse_action = Mouse_Move | Mouse_Down | Mouse_Up

datatype mouse_button = Btn_Left | Btn_Middle | Btn_Right | Btn_None

datatype key_action = KeyAct_Down | KeyAct_Up

datatype nav_action = Nav_Back | Nav_Forward | Nav_Reload | Nav_Stop | Nav_Goto

datatype agent_browser_input_event =
    In_Mouse mouse_action float float mouse_button u32 u32 u32
  | In_Wheel float float float float u32
  | In_Key key_action ustr ustr "ustr option" u32 "u32 option"
  | In_Text ustr
  | In_Navigate nav_action "ustr option"
  | In_Dialog bool "ustr option"

text \<open>\<^verbatim>\<open>v.is_finite().then(|| v.clamp(lo, hi))\<close>\<close>

fun clamp_finite :: "rat \<Rightarrow> rat \<Rightarrow> float \<Rightarrow> float option" where
  "clamp_finite lo hi (Finite v) = Some (Finite (max lo (min hi v)))"
| "clamp_finite lo hi _ = None"

definition coord_x :: "float \<Rightarrow> float option" where
  "coord_x = clamp_finite 0 (of_nat (AGENT_BROWSER_VIEWPORT_WIDTH - 1))"

definition coord_y :: "float \<Rightarrow> float option" where
  "coord_y = clamp_finite 0 (of_nat (AGENT_BROWSER_VIEWPORT_HEIGHT - 1))"

definition delta :: "float \<Rightarrow> float option" where
  "delta = clamp_finite (-10000) 10000"

unbundle bit_operations_syntax

fun sanitized :: "agent_browser_input_event \<Rightarrow> agent_browser_input_event option" where
  "sanitized (In_Mouse action x y button buttons click_count m) =
     (case coord_x x of None \<Rightarrow> None | Some x' \<Rightarrow>
      case coord_y y of None \<Rightarrow> None | Some y' \<Rightarrow>
        Some (In_Mouse action x' y' button (buttons AND 0x1f)
                (max 1 (min 3 click_count)) (m AND 0xf)))"
| "sanitized (In_Wheel x y dx dy m) =
     (case coord_x x of None \<Rightarrow> None | Some x' \<Rightarrow>
      case coord_y y of None \<Rightarrow> None | Some y' \<Rightarrow>
      case delta dx of None \<Rightarrow> None | Some dx' \<Rightarrow>
      case delta dy of None \<Rightarrow> None | Some dy' \<Rightarrow>
        Some (In_Wheel x' y' dx' dy' (m AND 0xf)))"
| "sanitized (In_Key action key code t m key_code) =
     (if key = [] \<or> length key > 32 \<or> length code > 32 \<or>
         (case t of None \<Rightarrow> False | Some t \<Rightarrow> length t > 8) \<or>
         (case key_code of None \<Rightarrow> False | Some k \<Rightarrow> k > 255)
      then None
      else Some (In_Key action key code t (m AND 0xf) key_code))"
| "sanitized (In_Text t) =
     (if t \<noteq> [] \<and> length t \<le> AGENT_BROWSER_MAX_INPUT_TEXT then Some (In_Text t) else None)"
| "sanitized (In_Navigate action url) =
     (if action = Nav_Goto then
        (case url of None \<Rightarrow> None | Some url \<Rightarrow>
           let url = trim url in
           if url \<noteq> [] \<and> byte_len url \<le> AGENT_BROWSER_MAX_URL
           then Some (In_Navigate Nav_Goto (Some url)) else None)
      else Some (In_Navigate action None))"
| "sanitized (In_Dialog accept prompt_text) =
     (if (case prompt_text of None \<Rightarrow> True | Some t \<Rightarrow> length t \<le> AGENT_BROWSER_MAX_INPUT_TEXT)
      then Some (In_Dialog accept prompt_text) else None)"

section \<open>Agent browser commands\<close>

text \<open>\<^verbatim>\<open>Secret\<close> and \<^verbatim>\<open>Base64Data\<close> wrap a string whose debug output is redacted.\<close>

datatype secret = Secret ustr

record upload_file =
  uf_name :: ustr
  uf_data :: ustr

datatype agent_browser_command =
    Cmd_Open "ustr option" "ident option"
  | Cmd_List
  | Cmd_Close ident
  | Cmd_Goto ident ustr
  | Cmd_Snapshot ident
  | Cmd_Click ident "ident option" "ustr option"
  | Cmd_Login ident "secret option" "secret option" "ustr list" bool
  | Cmd_Fill ident ident ustr
  | Cmd_Upload ident "ident option" "upload_file list"
  | Cmd_Press ident ustr
  | Cmd_Wait ident "ustr option" "ustr option" "u64 option" u64
  | Cmd_Screenshot ident bool
  | Cmd_Dialog ident bool "ustr option"

section \<open>Composer messages\<close>

record composer_attachment =
  ca_data :: ustr
  ca_mime :: ustr
  ca_filename :: "ustr option"

record composer_message =
  cm_id :: ident
  cm_text :: ustr
  cm_attachments :: "composer_attachment list"

datatype composer_status = Composer_Delivered | Composer_Failed | Composer_Unknown

record composer_receipt =
  cr_id :: ident
  cr_status :: composer_status
  cr_detail :: ustr

datatype address_family = Ipv4 | Ipv6

section \<open>Hub to node\<close>

datatype hub_to_machine =
    H2M_ProbeAgents
  | H2M_OpenPreviewStream ident ident u16 address_family ms
  | H2M_AttachComposer ident ident composer_message
  | H2M_CreateTerminal ident ustr u16 u16 "ustr option" "agent_start option"
  | H2M_DestroyTerminal ident
  | H2M_FsListDir ident ustr bool
  | H2M_FsReadFile ident ustr "ustr option"
  | H2M_FsWriteFile ident ustr ustr ident
  | H2M_AttachUploadBegin ident ident ident ustr ustr u64
  | H2M_AttachUploadChunk ident ident ident u32 ustr
  | H2M_AttachUploadEnd ident ident ident
  | H2M_AttachUploadAbort ident ident
  | H2M_AuthResult bool "ustr option"
  | H2M_CheckForegroundProcess ident ident
  | H2M_AgentBrowser ident agent_browser_command
  | H2M_AgentBrowserScreencastStart ident u32 u32 u32 nat
  | H2M_AgentBrowserScreencastStop ident nat
  | H2M_AgentBrowserFrameAck ident
  | H2M_AgentBrowserInput ident agent_browser_input_event
  | H2M_OpenAttach ident ident u16 u16 bool
  | H2M_CloseAttach ident
  | H2M_RefreshAttach ident
  | H2M_AttachInput ident ustr
  | H2M_SendAgentKeys ident "agent_key list"
  | H2M_AttachResize ident u16 u16
  | H2M_AttachImagePaste ident ustr ustr ustr
  | H2M_Ping
  | H2M_AgentSessionStart ident agent_kind ustr bool "ident option" "ident option"
  | H2M_AgentSessionPrompt ident ustr
  | H2M_AgentSessionAnswer ident ident "ident option" "ustr option"
  | H2M_AgentSessionCancel ident
  | H2M_AgentSessionSetModel ident ident
  | H2M_AgentSessionKill ident

section \<open>Node to hub\<close>

datatype machine_to_hub =
    M2H_ComposerResult ident composer_receipt
  | M2H_Register ident ident ustr ustr ustr "ident list" "ustr option"
  | M2H_TerminalCreated ident ident ustr ustr u16 u16
  | M2H_TerminalCreateError ident ustr
  | M2H_TerminalDestroyed ident
  | M2H_FsListResult ident "dir_entry list"
  | M2H_FsListError ident ustr
  | M2H_FsReadResult ident ustr ustr ustr u64 ustr "ident option"
  | M2H_AttachUploadAck ident ident u64
  | M2H_AttachUploadResult ident ident ustr u64
  | M2H_AttachUploadError ident ident upload_error_code ustr
  | M2H_FsWriteResult ident ustr u64 ident
  | M2H_FsWriteError ident fs_write_error_code ustr "ident option"
  | M2H_FsReadError ident fs_read_error_code ustr "u64 option" "ustr option"
  | M2H_ExistingTerminals "terminal_info list"
  | M2H_ResourceStats resource_stats
  | M2H_ForegroundProcessResult ident bool "ustr option"
  | M2H_AgentBrowserResult ident "json option" "ustr option"
  | M2H_AgentBrowserCreated agent_browser_info
  | M2H_AgentBrowserUpdated agent_browser_info
  | M2H_AgentBrowserDestroyed ident
  | M2H_ExistingAgentBrowsers "agent_browser_info list"
  | M2H_AttachDied ident ustr
  | M2H_TerminalDied ident ustr
  | M2H_TerminalResized ident u16 u16
  | M2H_TerminalTitle ident ustr terminal_title_source
  | M2H_TerminalCwd ident ustr
  | M2H_TerminalActivity ident ms
  | M2H_TerminalAttention ident "terminal_attention option"
  | M2H_TerminalAgent ident "run_agent option"
  | M2H_InstalledAgents "installed_agent list"
  | M2H_AgentSignal ident "run_agent option" ident agent_signal
  | M2H_Pong
  | M2H_AgentSessionUpdate ident "agent_session_status option" "ustr option" "ident option"
      "agent_model_info list option" "ident option"
  | M2H_AgentSessionEvent ident nat agent_event
  | M2H_AgentSessionExited ident ustr

section \<open>Hub to browser\<close>

datatype browser_event =
    Ev_MachineOnline machine_info
  | Ev_MachineOffline ident
  | Ev_MachineRemoved ident
  | Ev_TerminalCreated terminal_info
  | Ev_TerminalUpdated terminal_info
  | Ev_TerminalResized terminal_info
  | Ev_TerminalDestroyed ident ident
  | Ev_TerminalReachableChanged ident ident bool
  | Ev_WorkspaceGroupCreated workspace_group_info
  | Ev_WorkspaceGroupUpdated workspace_group_info
  | Ev_WorkspaceGroupDeleted ident ident
  | Ev_WorkspaceLayoutUpdated workspace_layout_info
  | Ev_MachineStats ident resource_stats
  | Ev_ModeChanged ident "ident option"
  | Ev_AgentSessionCreated agent_session_info
  | Ev_AgentSessionUpdated agent_session_info
  | Ev_AgentSessionDestroyed ident
  | Ev_AgentSessionEvent ident nat agent_event
  | Ev_AgentSessionSeen ident nat
  | Ev_AgentRunUpdated agent_run_info
  | Ev_AgentBrowserCreated agent_browser_info
  | Ev_AgentBrowserUpdated agent_browser_info
  | Ev_AgentBrowserDestroyed ident ident

record browser_event_envelope =
  be_seq :: nat
  be_event :: browser_event

section \<open>What sanitised input can hold\<close>

definition coord_ok :: "nat \<Rightarrow> float \<Rightarrow> bool" where
  "coord_ok sz v = (case v of Finite q \<Rightarrow> 0 \<le> q \<and> q \<le> of_nat (sz - 1) | _ \<Rightarrow> False)"

definition delta_ok :: "float \<Rightarrow> bool" where
  "delta_ok v = (case v of Finite q \<Rightarrow> -10000 \<le> q \<and> q \<le> 10000 | _ \<Rightarrow> False)"

fun input_ok :: "agent_browser_input_event \<Rightarrow> bool" where
  "input_ok (In_Mouse _ x y _ buttons click_count m) \<longleftrightarrow>
     coord_ok AGENT_BROWSER_VIEWPORT_WIDTH x \<and> coord_ok AGENT_BROWSER_VIEWPORT_HEIGHT y \<and>
     buttons AND 0x1f = buttons \<and> 1 \<le> click_count \<and> click_count \<le> 3 \<and> m AND 0xf = m"
| "input_ok (In_Wheel x y dx dy m) \<longleftrightarrow>
     coord_ok AGENT_BROWSER_VIEWPORT_WIDTH x \<and> coord_ok AGENT_BROWSER_VIEWPORT_HEIGHT y \<and>
     delta_ok dx \<and> delta_ok dy \<and> m AND 0xf = m"
| "input_ok (In_Key _ key code t m key_code) \<longleftrightarrow>
     key \<noteq> [] \<and> length key \<le> 32 \<and> length code \<le> 32 \<and>
     (\<forall>s. t = Some s \<longrightarrow> length s \<le> 8) \<and> (\<forall>k. key_code = Some k \<longrightarrow> k \<le> 255) \<and> m AND 0xf = m"
| "input_ok (In_Text t) \<longleftrightarrow> t \<noteq> [] \<and> length t \<le> AGENT_BROWSER_MAX_INPUT_TEXT"
| "input_ok (In_Navigate action url) \<longleftrightarrow>
     (if action = Nav_Goto
      then \<exists>u. url = Some u \<and> u \<noteq> [] \<and> trim u = u \<and> byte_len u \<le> AGENT_BROWSER_MAX_URL
      else url = None)"
| "input_ok (In_Dialog _ prompt_text) \<longleftrightarrow>
     (\<forall>t. prompt_text = Some t \<longrightarrow> length t \<le> AGENT_BROWSER_MAX_INPUT_TEXT)"

lemma clamp_finite_Some:
  "clamp_finite lo hi v = Some w \<Longrightarrow> lo \<le> hi \<Longrightarrow> \<exists>q. w = Finite q \<and> lo \<le> q \<and> q \<le> hi"
  by (cases v) auto

lemma clamp_finite_id:
  "lo \<le> q \<Longrightarrow> q \<le> hi \<Longrightarrow> clamp_finite lo hi (Finite q) = Some (Finite q)"
  by (simp add: max_def min_def)

lemma coord_x_iff: "coord_x v = Some v \<longleftrightarrow> coord_ok AGENT_BROWSER_VIEWPORT_WIDTH v"
  by (cases v) (auto simp: coord_x_def coord_ok_def max_def min_def)

lemma coord_y_iff: "coord_y v = Some v \<longleftrightarrow> coord_ok AGENT_BROWSER_VIEWPORT_HEIGHT v"
  by (cases v) (auto simp: coord_y_def coord_ok_def max_def min_def)

lemma delta_iff: "delta v = Some v \<longleftrightarrow> delta_ok v"
  by (cases v) (auto simp: delta_def delta_ok_def max_def min_def)

lemma coord_x_ok: "coord_x v = Some w \<Longrightarrow> coord_ok AGENT_BROWSER_VIEWPORT_WIDTH w"
  using clamp_finite_Some [of 0 _ v w]
  by (fastforce simp: coord_x_def coord_ok_def AGENT_BROWSER_VIEWPORT_WIDTH_def)

lemma coord_y_ok: "coord_y v = Some w \<Longrightarrow> coord_ok AGENT_BROWSER_VIEWPORT_HEIGHT w"
  using clamp_finite_Some [of 0 _ v w]
  by (fastforce simp: coord_y_def coord_ok_def AGENT_BROWSER_VIEWPORT_HEIGHT_def)

lemma delta_ok_Some: "delta v = Some w \<Longrightarrow> delta_ok w"
  using clamp_finite_Some [of "-10000" 10000 v w]
  by (auto simp: delta_def delta_ok_def)

lemmas input_axis = coord_x_ok coord_y_ok delta_ok_Some
lemmas input_axis_iff = coord_x_iff coord_y_iff delta_iff

lemma sanitized_input_ok: "sanitized e = Some e' \<Longrightarrow> input_ok e'"
  by (cases e)
    (auto simp: Let_def input_axis and.assoc split: option.splits if_splits)

lemma input_ok_sanitized: "input_ok e \<Longrightarrow> sanitized e = Some e"
  by (cases e)
    (auto simp: Let_def input_axis_iff [THEN iffD2] split: option.splits if_splits)

text \<open>What passes the sanitiser is inside its bounds (coordinates in the viewport,
  scroll deltas, button and modifier bits, text lengths), and everything already inside
  them passes unchanged: sanitising is exactly the projection onto well-bounded input,
  so a second pass changes nothing.
\<close>

theorem sanitized_projects:
  "(input_ok e \<longleftrightarrow> sanitized e = Some e) \<and>
   (case sanitized e of None \<Rightarrow> \<not> input_ok e | Some e' \<Rightarrow> input_ok e' \<and> sanitized e' = Some e')"
  using sanitized_input_ok input_ok_sanitized by (auto split: option.splits)

end
