(* ===== verification/EventBus.thy ===== *)
theory EventBus
  imports Messages
begin

text \<open>
  The event stream to the browsers (\<^verbatim>\<open>send_event\<close>, \<^verbatim>\<open>flush_event_seq\<close>,
  \<^verbatim>\<open>build_event_subscription\<close>, \<^verbatim>\<open>event_visible_to\<close> and \<^verbatim>\<open>history_has_gap_after_seq\<close> of
  \<^verbatim>\<open>crates/hub/src/machine_manager.rs\<close>, the forwarding loop of \<^verbatim>\<open>crates/hub/src/ws.rs\<close>, the
  key/value table of \<^verbatim>\<open>crates/hub/src/db/hub_state.rs\<close>): every event gets the next number,
  enters a history of the last 1024, and is broadcast. A browser that reconnects names
  the last number it saw and gets the rest, or is told to start over.

  The lemmas show that the history is the recent end of everything sent, that replay and
  live events together are exactly what the browser may see and has not seen, and what
  becomes of that when numbers are taken and events pushed by several threads at once.
\<close>

section \<open>Decimal text of a number\<close>

text \<open>\<^verbatim>\<open>u64::to_string\<close> and \<^verbatim>\<open>str::parse::<u64>\<close> (a leading \<open>+\<close> is accepted, overflow is not).\<close>

definition digit_char :: "nat \<Rightarrow> char" where
  "digit_char d = ''0123456789'' ! d"

fun nat_to_string :: "nat \<Rightarrow> string" where
  "nat_to_string n =
     (if n < 10 then [digit_char n] else nat_to_string (n div 10) @ [digit_char (n mod 10)])"

declare nat_to_string.simps [simp del]

definition char_digit :: "char \<Rightarrow> nat option" where
  "char_digit c = map_of (zip ''0123456789'' [0..<10]) c"

fun parse_digits :: "nat \<Rightarrow> string \<Rightarrow> nat option" where
  "parse_digits acc [] = Some acc"
| "parse_digits acc (c # cs) =
     (case char_digit c of None \<Rightarrow> None
      | Some d \<Rightarrow> if 10 * acc + d < 2 ^ 64 then parse_digits (10 * acc + d) cs else None)"

definition parse_u64 :: "string \<Rightarrow> nat option" where
  "parse_u64 s =
     (let digits = (if s \<noteq> [] \<and> hd s = CHR ''+'' then tl s else s)
      in if digits = [] then None else parse_digits 0 digits)"

lemma char_digit_char: "d < 10 \<Longrightarrow> char_digit (digit_char d) = Some d"
proof -
  assume "d < 10"
  then have "d \<in> set [0..<10]" by simp
  moreover have "\<forall>d \<in> set [0..<10]. char_digit (digit_char d) = Some d"
    by (simp add: char_digit_def digit_char_def upt_conv_Cons eval_nat_numeral)
  ultimately show ?thesis by blast
qed

lemma digit_char_not_plus: "d < 10 \<Longrightarrow> digit_char d \<noteq> CHR ''+''"
proof -
  assume "d < 10"
  then have "char_digit (digit_char d) \<noteq> None" by (simp add: char_digit_char)
  moreover have "char_digit (CHR ''+'') = None" by (simp add: char_digit_def upt_conv_Cons)
  ultimately show ?thesis by metis
qed

lemma parse_digits_append:
  "parse_digits acc (xs @ ys) =
    (case parse_digits acc xs of None \<Rightarrow> None | Some acc \<Rightarrow> parse_digits acc ys)"
  by (induction xs arbitrary: acc) (auto split: option.splits)

lemma nat_to_string_hd: "nat_to_string n \<noteq> [] \<and> hd (nat_to_string n) \<noteq> CHR ''+''"
proof (induction n rule: nat_to_string.induct)
  case (1 n)
  show ?case
    by (subst (1 2) nat_to_string.simps) (use 1 in \<open>auto simp: digit_char_not_plus hd_append\<close>)
qed

lemma parse_digits_nat: "n < 2 ^ 64 \<Longrightarrow> parse_digits 0 (nat_to_string n) = Some n"
proof (induction n rule: nat_to_string.induct)
  case (1 n)
  show ?case
  proof (cases "n < 10")
    case True
    then show ?thesis by (subst nat_to_string.simps) (simp add: char_digit_char)
  next
    case False
    with 1 have "parse_digits 0 (nat_to_string (n div 10)) = Some (n div 10)" by simp
    moreover have "10 * (n div 10) + n mod 10 = n" by simp
    ultimately show ?thesis
      using False 1(2) by (subst nat_to_string.simps)
        (simp add: parse_digits_append char_digit_char del: mult_div_mod_eq)
  qed
qed

lemma parse_nat_to_string: "n < 2 ^ 64 \<Longrightarrow> parse_u64 (nat_to_string n) = Some n"
  using nat_to_string_hd [of n] by (simp add: parse_u64_def parse_digits_nat)


section \<open>The hub's key/value table\<close>

type_synonym hub_state_table = "(string, string) hmap"

definition hub_state_get :: "hub_state_table \<Rightarrow> string \<Rightarrow> string option" where
  "hub_state_get conn key = hget conn key"

definition hub_state_set :: "hub_state_table \<Rightarrow> string \<Rightarrow> string \<Rightarrow> hub_state_table" where
  "hub_state_set conn key v = hput key v conn"

section \<open>The bus\<close>

record event_envelope =
  ee_seq :: nat
  ee_target_user_id :: "ident option"
  ee_event :: browser_event

text \<open>What a webhook worker is handed (\<^verbatim>\<open>HubUpdate\<close> of \<^verbatim>\<open>webhooks.rs\<close>).\<close>

datatype hub_update =
    HU_Run "ident option" agent_run_info
  | HU_Machine ident bool

definition EVENT_HISTORY_LIMIT :: nat where
  "EVENT_HISTORY_LIMIT = 1024"

definition SEQ_RECOVERY_OFFSET :: nat where
  "SEQ_RECOVERY_OFFSET = 200"

text \<open>
  \<open>eb_sent\<close> is everything handed to the broadcast channel so far, oldest first; a
  receiver is a position in it. \<open>eb_webhook_sink\<close> is \<^const>\<open>None\<close> until a worker is set,
  then the updates it was handed.
\<close>

record event_bus =
  eb_next_event_seq :: nat
  eb_history :: "event_envelope list"
  eb_sent :: "event_envelope list"
  eb_agent_browser_changes :: nat
  eb_webhook_sink :: "hub_update list option"

definition initial_seq :: "hub_state_table \<Rightarrow> nat" where
  "initial_seq conn =
     (case hub_state_get conn ''next_event_seq'' of
        None \<Rightarrow> 0
      | Some v \<Rightarrow> (case parse_u64 v of None \<Rightarrow> 0 | Some v \<Rightarrow> v + SEQ_RECOVERY_OFFSET))"

definition new_bus :: "hub_state_table \<Rightarrow> event_bus" where
  "new_bus conn =
     \<lparr>eb_next_event_seq = initial_seq conn, eb_history = [], eb_sent = [],
      eb_agent_browser_changes = 0, eb_webhook_sink = None\<rparr>"

definition set_webhook_sink :: "event_bus \<Rightarrow> event_bus" where
  "set_webhook_sink b =
     (case eb_webhook_sink b of
        None \<Rightarrow> b\<lparr>eb_webhook_sink := Some []\<rparr>
      | Some _ \<Rightarrow> b)"

fun hub_update_of :: "ident option \<Rightarrow> browser_event \<Rightarrow> hub_update option" where
  "hub_update_of target (Ev_AgentRunUpdated run) = Some (HU_Run target run)"
| "hub_update_of target (Ev_MachineOnline machine) = Some (HU_Machine (mi_id machine) True)"
| "hub_update_of target (Ev_MachineOffline machine_id) = Some (HU_Machine machine_id False)"
| "hub_update_of target _ = None"

fun changes_agent_browser :: "browser_event \<Rightarrow> bool" where
  "changes_agent_browser (Ev_AgentBrowserCreated _) = True"
| "changes_agent_browser (Ev_AgentBrowserUpdated _) = True"
| "changes_agent_browser (Ev_AgentBrowserDestroyed _ _) = True"
| "changes_agent_browser _ = False"

definition push_history :: "event_envelope \<Rightarrow> event_envelope list \<Rightarrow> event_envelope list" where
  "push_history envelope history =
     (let history = history @ [envelope]
      in if length history > EVENT_HISTORY_LIMIT then tl history else history)"

definition send_event :: "ident option \<Rightarrow> browser_event \<Rightarrow> event_bus \<Rightarrow> event_bus" where
  "send_event target event b =
     (let sink = map_option (\<lambda>us. case hub_update_of target event of
                   None \<Rightarrow> us | Some u \<Rightarrow> us @ [u]) (eb_webhook_sink b);
          changes = (if changes_agent_browser event then eb_agent_browser_changes b + 1
                     else eb_agent_browser_changes b);
          seq = eb_next_event_seq b + 1;
          envelope = \<lparr>ee_seq = seq, ee_target_user_id = target, ee_event = event\<rparr>
      in \<lparr>eb_next_event_seq = seq,
          eb_history = push_history envelope (eb_history b),
          eb_sent = eb_sent b @ [envelope],
          eb_agent_browser_changes = changes,
          eb_webhook_sink = sink\<rparr>)"

definition send_all :: "(ident option \<times> browser_event) list \<Rightarrow> event_bus \<Rightarrow> event_bus" where
  "send_all es b = foldl (\<lambda>b (target, event). send_event target event b) b es"

definition flush_event_seq :: "event_bus \<Rightarrow> hub_state_table \<Rightarrow> hub_state_table" where
  "flush_event_seq b conn =
     hub_state_set conn ''next_event_seq'' (nat_to_string (eb_next_event_seq b))"

definition event_visible_to :: "event_envelope \<Rightarrow> ident option \<Rightarrow> bool" where
  "event_visible_to envelope user_id =
     (case ee_target_user_id envelope of
        Some target \<Rightarrow> user_id = Some target
      | None \<Rightarrow> True)"

definition history_has_gap_after_seq :: "event_envelope list \<Rightarrow> nat \<Rightarrow> bool" where
  "history_has_gap_after_seq history after_seq =
     (if after_seq = 0 \<or> history = [] then False
      else sat_add64 after_seq 1 < ee_seq (hd history))"

record event_subscription =
  es_replay :: "browser_event_envelope list"
  es_receiver :: nat
  es_requires_resync :: bool

definition to_browser :: "event_envelope \<Rightarrow> browser_event_envelope" where
  "to_browser envelope = \<lparr>be_seq = ee_seq envelope, be_event = ee_event envelope\<rparr>"

definition build_event_subscription ::
  "event_bus \<Rightarrow> ident option \<Rightarrow> nat \<Rightarrow> event_subscription" where
  "build_event_subscription b user_id after_seq =
     (let requires_resync = history_has_gap_after_seq (eb_history b) after_seq;
          replay = (if requires_resync then []
                    else map to_browser
                      (filter (\<lambda>e. after_seq < ee_seq e \<and> event_visible_to e user_id)
                        (eb_history b)))
      in \<lparr>es_replay = replay, es_receiver = length (eb_sent b),
          es_requires_resync = requires_resync\<rparr>)"

text \<open>
  The forwarding task of a browser's socket (\<^verbatim>\<open>handle_events\<close>): what \<^verbatim>\<open>rx.recv()\<close> returned,
  call by call, and what goes out to the socket. It ends at \<^verbatim>\<open>Closed\<close> and at \<^verbatim>\<open>Lagged\<close>.
\<close>

datatype recv_result = Received event_envelope | Closed | Lagged nat

fun forward_events :: "ident option \<Rightarrow> recv_result list \<Rightarrow> browser_event_envelope list" where
  "forward_events user_id [] = []"
| "forward_events user_id (Received envelope # rs) =
     (case ee_target_user_id envelope of
        Some target \<Rightarrow> (if user_id \<noteq> Some target then forward_events user_id rs
                        else to_browser envelope # forward_events user_id rs)
      | None \<Rightarrow> to_browser envelope # forward_events user_id rs)"
| "forward_events user_id (Closed # rs) = []"
| "forward_events user_id (Lagged _ # rs) = []"

definition handle_events ::
  "event_subscription \<Rightarrow> ident option \<Rightarrow> recv_result list \<Rightarrow> browser_event_envelope list" where
  "handle_events sub user_id rs =
     (if es_requires_resync sub then [] else es_replay sub @ forward_events user_id rs)"

section \<open>The history is the recent end of what was sent\<close>

definition bus_ok :: "event_bus \<Rightarrow> bool" where
  "bus_ok b \<longleftrightarrow>
     length (eb_sent b) \<le> eb_next_event_seq b \<and>
     map ee_seq (eb_sent b) =
       [eb_next_event_seq b - length (eb_sent b) + 1 ..< eb_next_event_seq b + 1] \<and>
     eb_history b = drop (length (eb_sent b) - EVENT_HISTORY_LIMIT) (eb_sent b)"

lemma EVENT_HISTORY_LIMIT_pos: "0 < EVENT_HISTORY_LIMIT"
  by (simp add: EVENT_HISTORY_LIMIT_def)

lemma new_bus_simps [simp]:
  "eb_next_event_seq (new_bus conn) = initial_seq conn"
  "eb_history (new_bus conn) = []"
  "eb_sent (new_bus conn) = []"
  by (simp_all add: new_bus_def)

lemma bus_ok_new: "bus_ok (new_bus conn)"
  by (simp add: bus_ok_def new_bus_def)

lemma push_history_recent:
  assumes "history = drop (length sent - EVENT_HISTORY_LIMIT) sent"
  shows "push_history e history = drop (length (sent @ [e]) - EVENT_HISTORY_LIMIT) (sent @ [e])"
proof (cases "length sent < EVENT_HISTORY_LIMIT")
  case True
  with assms show ?thesis by (simp add: push_history_def)
next
  case False
  then have "history \<noteq> []" using assms EVENT_HISTORY_LIMIT_pos by auto
  moreover from this False assms
  have "push_history e history = tl history @ [e]"
    by (simp add: push_history_def)
  moreover have "tl history = drop (length (sent @ [e]) - EVENT_HISTORY_LIMIT) sent"
    using assms False by (simp add: tl_drop drop_Suc Suc_diff_le)
  ultimately show ?thesis
    using False EVENT_HISTORY_LIMIT_pos by simp
qed

lemma send_event_simps [simp]:
  "eb_next_event_seq (send_event t e b) = eb_next_event_seq b + 1"
  "eb_sent (send_event t e b) = eb_sent b @
     [\<lparr>ee_seq = eb_next_event_seq b + 1, ee_target_user_id = t, ee_event = e\<rparr>]"
  "eb_history (send_event t e b) =
     push_history \<lparr>ee_seq = eb_next_event_seq b + 1, ee_target_user_id = t, ee_event = e\<rparr>
       (eb_history b)"
  by (simp_all add: send_event_def Let_def)

lemma bus_ok_send: "bus_ok b \<Longrightarrow> bus_ok (send_event t e b)"
  by (auto simp: bus_ok_def push_history_recent Suc_diff_le)

interpretation bus: invariant_steps "\<lambda>b (target, event). send_event target event b" bus_ok
  by unfold_locales (auto simp: bus_ok_send)

lemma bus_ok_send_all: "bus_ok b \<Longrightarrow> bus_ok (send_all es b)"
  unfolding send_all_def by (rule bus.run_inv)


lemma send_all_simps [simp]:
  "send_all [] b = b"
  "send_all (x # xs) b = send_all xs (send_event (fst x) (snd x) b)"
  by (simp_all add: send_all_def case_prod_beta)

lemma eb_next_send_all: "eb_next_event_seq (send_all es b) = eb_next_event_seq b + length es"
  by (induction es arbitrary: b) auto

lemma eb_sent_send_all:
  "\<exists>xs. eb_sent (send_all es b) = eb_sent b @ xs \<and>
     map (\<lambda>e. (ee_target_user_id e, ee_event e)) xs = es \<and>
     (\<forall>e \<in> set xs. eb_next_event_seq b < ee_seq e)"
proof (induction es arbitrary: b)
  case Nil
  then show ?case by simp
next
  case (Cons x es)
  from Cons.IH [of "send_event (fst x) (snd x) b"] show ?case by fastforce
qed

lemma eb_sent_from_new:
  "map (\<lambda>e. (ee_target_user_id e, ee_event e)) (eb_sent (send_all es (new_bus conn))) = es"
  "length (eb_sent (send_all es (new_bus conn))) = length es"
proof -
  obtain xs where xs: "eb_sent (send_all es (new_bus conn)) = eb_sent (new_bus conn) @ xs"
    "map (\<lambda>e. (ee_target_user_id e, ee_event e)) xs = es"
    using eb_sent_send_all by blast
  then show one: "map (\<lambda>e. (ee_target_user_id e, ee_event e))
      (eb_sent (send_all es (new_bus conn))) = es"
    by (simp add: new_bus_def)
  show "length (eb_sent (send_all es (new_bus conn))) = length es"
    using arg_cong [OF one, of length] by simp
qed

lemma bus_ok_seqs: "bus_ok b \<Longrightarrow> e \<in> set (eb_sent b) \<Longrightarrow>
    eb_next_event_seq b - length (eb_sent b) < ee_seq e \<and> ee_seq e \<le> eb_next_event_seq b"
proof -
  assume "bus_ok b" "e \<in> set (eb_sent b)"
  then have "ee_seq e \<in> set [eb_next_event_seq b - length (eb_sent b) + 1 ..< eb_next_event_seq b + 1]"
    unfolding bus_ok_def by (metis image_eqI list.set_map)
  then show ?thesis by auto
qed

lemma bus_ok_history_seqs:
  assumes "bus_ok b"
  shows "map ee_seq (eb_history b) =
    [eb_next_event_seq b - min EVENT_HISTORY_LIMIT (length (eb_sent b)) + 1 ..<
     eb_next_event_seq b + 1]"
proof -
  let ?n = "length (eb_sent b)"
  from assms have "map ee_seq (eb_history b) =
      drop (?n - EVENT_HISTORY_LIMIT) [eb_next_event_seq b - ?n + 1 ..< eb_next_event_seq b + 1]"
    by (simp add: bus_ok_def drop_map [symmetric])
  also have "\<dots> = [eb_next_event_seq b - ?n + 1 + (?n - EVENT_HISTORY_LIMIT) ..<
      eb_next_event_seq b + 1]"
    by (rule drop_upt)
  also have "eb_next_event_seq b - ?n + 1 + (?n - EVENT_HISTORY_LIMIT) =
      eb_next_event_seq b - min EVENT_HISTORY_LIMIT ?n + 1"
    using assms by (auto simp: bus_ok_def min_def)
  finally show ?thesis .
qed

lemma bus_ok_history_iff:
  assumes "bus_ok b" "e \<in> set (eb_sent b)"
  shows "e \<in> set (eb_history b) \<longleftrightarrow>
    eb_next_event_seq b - min EVENT_HISTORY_LIMIT (length (eb_sent b)) < ee_seq e"
proof
  assume "e \<in> set (eb_history b)"
  then have "ee_seq e \<in> set (map ee_seq (eb_history b))" by simp
  then show "eb_next_event_seq b - min EVENT_HISTORY_LIMIT (length (eb_sent b)) < ee_seq e"
    by (auto simp: bus_ok_history_seqs [OF assms(1)])
next
  assume low: "eb_next_event_seq b - min EVENT_HISTORY_LIMIT (length (eb_sent b)) < ee_seq e"
  let ?k = "length (eb_sent b) - EVENT_HISTORY_LIMIT"
  from assms(2) have "e \<in> set (take ?k (eb_sent b)) \<or> e \<in> set (drop ?k (eb_sent b))"
    by (metis Un_iff append_take_drop_id set_append)
  moreover have "e \<notin> set (take ?k (eb_sent b))"
  proof
    assume "e \<in> set (take ?k (eb_sent b))"
    then have "ee_seq e \<in> set (take ?k (map ee_seq (eb_sent b)))"
      by (simp add: take_map)
    with assms(1) have "ee_seq e < eb_next_event_seq b - length (eb_sent b) + 1 + ?k"
      by (auto simp: bus_ok_def take_upt simp del: upt_Suc)
    with low assms(1) show False by (auto simp: bus_ok_def min_def split: if_splits)
  qed
  ultimately show "e \<in> set (eb_history b)" using assms(1) by (simp add: bus_ok_def)
qed

lemma gap_iff_evicted:
  assumes "bus_ok b" "after \<noteq> 0" "after + 1 < 2 ^ 64"
    and "eb_next_event_seq b - length (eb_sent b) \<le> after"
  shows "history_has_gap_after_seq (eb_history b) after \<longleftrightarrow>
    (\<exists>e \<in> set (eb_sent b). after < ee_seq e \<and> e \<notin> set (eb_history b))"
proof (cases "eb_sent b")
  case Nil
  with assms show ?thesis by (simp add: bus_ok_def history_has_gap_after_seq_def)
next
  case (Cons x xs)
  let ?low = "eb_next_event_seq b - min EVENT_HISTORY_LIMIT (length (eb_sent b)) + 1"
  have seqs: "map ee_seq (eb_history b) = [?low ..< eb_next_event_seq b + 1]"
    by (rule bus_ok_history_seqs [OF assms(1)])
  have "?low < eb_next_event_seq b + 1"
    using assms(1) Cons EVENT_HISTORY_LIMIT_pos by (auto simp: bus_ok_def)
  then have "map ee_seq (eb_history b) = ?low # [?low + 1 ..< eb_next_event_seq b + 1]"
    using seqs by (simp add: upt_conv_Cons del: upt_Suc)
  then have ne: "eb_history b \<noteq> []" and oldest: "ee_seq (hd (eb_history b)) = ?low"
    by (auto simp: neq_Nil_conv)
  have "history_has_gap_after_seq (eb_history b) after \<longleftrightarrow> after + 1 < ?low"
    using ne oldest assms(2,3) by (simp add: history_has_gap_after_seq_def sat_add64_exact)
  also have "\<dots> \<longleftrightarrow> (\<exists>e \<in> set (eb_sent b). after < ee_seq e \<and> \<not> ?low \<le> ee_seq e)"
  proof
    assume gap: "after + 1 < ?low"
    then have "after + 1 \<in> set [eb_next_event_seq b - length (eb_sent b) + 1 ..< eb_next_event_seq b + 1]"
      using assms(4) by auto
    then have "after + 1 \<in> ee_seq ` set (eb_sent b)"
      using assms(1) by (metis bus_ok_def list.set_map)
    with gap show "\<exists>e \<in> set (eb_sent b). after < ee_seq e \<and> \<not> ?low \<le> ee_seq e" by force
  qed auto
  also have "\<dots> \<longleftrightarrow> (\<exists>e \<in> set (eb_sent b). after < ee_seq e \<and> e \<notin> set (eb_history b))"
    using bus_ok_history_iff [OF assms(1)] by (auto simp: Suc_le_eq)
  finally show ?thesis .
qed

lemma forward_events_Received:
  "forward_events u (Received e # rs) =
    (if event_visible_to e u then to_browser e # forward_events u rs else forward_events u rs)"
  by (simp add: event_visible_to_def split: option.splits)

lemma forward_events_filter:
  "forward_events u (map Received es @ rs) =
     map to_browser (filter (\<lambda>e. event_visible_to e u) es) @ forward_events u rs"
  by (induction es) (simp_all add: forward_events_Received del: forward_events.simps(2))

lemma forward_events_sub:
  "be \<in> set (forward_events u rs) \<Longrightarrow>
    \<exists>e. Received e \<in> set rs \<and> be = to_browser e \<and> event_visible_to e u"
proof (induction rs)
  case (Cons r rs)
  then show ?case
    by (cases r)
      (auto simp: forward_events_Received simp del: forward_events.simps(2) split: if_splits)
qed simp


section \<open>What a browser receives\<close>

text \<open>After any sequence of events from a fresh hub, the history is exactly the last 1024
  of them, oldest first, with their targets, and their numbers run without a hole up to
  the last number given.
\<close>

theorem history_is_recent_events:
  "let b = send_all es (new_bus conn);
       kept = min EVENT_HISTORY_LIMIT (length es)
   in map (\<lambda>e. (ee_target_user_id e, ee_event e)) (eb_history b) = drop (length es - 1024) es \<and>
      map ee_seq (eb_history b) =
        [initial_seq conn + length es - kept + 1 ..< initial_seq conn + length es + 1] \<and>
      eb_next_event_seq b = initial_seq conn + length es"
proof -
  let ?b = "send_all es (new_bus conn)"
  have ok: "bus_ok ?b" by (simp add: bus_ok_send_all bus_ok_new)
  have next_seq: "eb_next_event_seq ?b = initial_seq conn + length es"
    by (simp add: eb_next_send_all new_bus_def)
  have "eb_history ?b = drop (length es - EVENT_HISTORY_LIMIT) (eb_sent ?b)"
    using ok by (simp add: bus_ok_def eb_sent_from_new)
  then have "map (\<lambda>e. (ee_target_user_id e, ee_event e)) (eb_history ?b) =
      drop (length es - 1024) es"
    using eb_sent_from_new(1) [of es conn]
    by (simp add: drop_map [symmetric] EVENT_HISTORY_LIMIT_def)
  then show ?thesis
    using bus_ok_history_seqs [OF ok] next_seq by (simp add: Let_def eb_sent_from_new del: upt_Suc)
qed

text \<open>
  C1. A browser that reconnects, naming the last number it saw of this hub, and is not
  told to start over receives exactly the events it may see and has not seen: replay and
  live forwarding together are the visible events after that number, each once and in
  order, up to the point where its receiver stopped (here after \<open>n\<close> live events).
\<close>

theorem reconnect_gets_exactly_the_rest:
  assumes b: "b = send_all es (new_bus conn)" and b': "b' = send_all es' b"
    and after: "after \<noteq> 0" "initial_seq conn \<le> after" "after \<le> eb_next_event_seq b"
      "after + 1 < 2 ^ 64"
    and sub: "sub = build_event_subscription b u after" "\<not> es_requires_resync sub"
    and recv: "rs = map Received (take n (drop (es_receiver sub) (eb_sent b'))) @ stop"
      "stop = [] \<or> hd stop = Closed \<or> hd stop = Lagged k"
  shows "handle_events sub u rs =
    map to_browser (filter (\<lambda>e. after < ee_seq e \<and> event_visible_to e u)
      (take (es_receiver sub + n) (eb_sent b')))"
proof -
  let ?P = "\<lambda>e. after < ee_seq e \<and> event_visible_to e u"
  have ok: "bus_ok b" unfolding b by (simp add: bus_ok_send_all bus_ok_new)
  have "length (eb_sent b) = length es" unfolding b by (rule eb_sent_from_new)
  then have base: "eb_next_event_seq b - length (eb_sent b) \<le> after"
    using after(2) by (simp add: b eb_next_send_all new_bus_def)
  obtain xs where xs: "eb_sent b' = eb_sent b @ xs" "\<forall>e \<in> set xs. eb_next_event_seq b < ee_seq e"
    unfolding b' using eb_sent_send_all by blast
  have "\<not> history_has_gap_after_seq (eb_history b) after"
    using sub by (simp add: build_event_subscription_def Let_def)
  then have "\<forall>e \<in> set (eb_sent b). after < ee_seq e \<longrightarrow> e \<in> set (eb_history b)"
    using gap_iff_evicted [OF ok after(1,4) base] by blast
  moreover
  let ?k = "length (eb_sent b) - EVENT_HISTORY_LIMIT"
  have "distinct (eb_sent b)"
    using ok by (metis bus_ok_def distinct_map distinct_upt)
  then have "set (take ?k (eb_sent b)) \<inter> set (eb_history b) = {}"
    using ok by (simp add: bus_ok_def set_take_disj_set_drop_if_distinct)
  ultimately have none: "filter ?P (take ?k (eb_sent b)) = []"
    by (auto simp: filter_empty_conv dest: in_set_takeD)
  have "filter ?P (eb_sent b) = filter ?P (take ?k (eb_sent b) @ drop ?k (eb_sent b))"
    by simp
  with none ok have "filter ?P (eb_history b) = filter ?P (eb_sent b)"
    by (simp add: bus_ok_def del: append_take_drop_id)
  then have "es_replay sub = map to_browser (filter ?P (eb_sent b))"
    using sub by (auto simp: build_event_subscription_def Let_def)
  moreover have "forward_events u stop = []"
    using recv(2) by (cases stop) auto
  moreover have "es_receiver sub = length (eb_sent b)"
    by (simp add: sub(1) build_event_subscription_def Let_def)
  moreover have "filter ?P (take n xs) = filter (\<lambda>e. event_visible_to e u) (take n xs)"
    using xs(2) after(3) by (intro filter_cong) (auto dest!: in_set_takeD)
  ultimately show ?thesis
    using sub(2) xs(1) by (simp add: handle_events_def recv(1) forward_events_filter)
qed


theorem reconnect_gets_exactly_the_rest_witness:
  "handle_events
     (build_event_subscription
       (send_all [(None, Ev_MachineOffline ''a''), (Some ''u'', Ev_MachineOffline ''b''),
          (Some ''v'', Ev_MachineOffline ''c'')] (new_bus [])) (Some ''u'') 1) (Some ''u'')
     [Received \<lparr>ee_seq = 4, ee_target_user_id = None, ee_event = Ev_MachineOffline ''d''\<rparr>,
      Lagged 3] =
   [\<lparr>be_seq = 2, be_event = Ev_MachineOffline ''b''\<rparr>,
    \<lparr>be_seq = 4, be_event = Ev_MachineOffline ''d''\<rparr>]"
proof -
  let ?es = "[(None, Ev_MachineOffline ''a''), (Some ''u'', Ev_MachineOffline ''b''),
    (Some ''v'', Ev_MachineOffline ''c'')]"
  let ?b = "send_all ?es (new_bus [])"
  let ?b' = "send_all [(None, Ev_MachineOffline ''d'')] ?b"
  let ?sub = "build_event_subscription ?b (Some ''u'') 1"
  let ?d = "\<lparr>ee_seq = 4, ee_target_user_id = None, ee_event = Ev_MachineOffline ''d''\<rparr>"
  have zero: "initial_seq [] = 0"
    by (simp add: initial_seq_def hub_state_get_def hget_def)
  have sent: "eb_sent ?b' =
      [\<lparr>ee_seq = 1, ee_target_user_id = None, ee_event = Ev_MachineOffline ''a''\<rparr>,
       \<lparr>ee_seq = 2, ee_target_user_id = Some ''u'', ee_event = Ev_MachineOffline ''b''\<rparr>,
       \<lparr>ee_seq = 3, ee_target_user_id = Some ''v'', ee_event = Ev_MachineOffline ''c''\<rparr>, ?d]"
    by (simp add: zero)
  have sub: "es_receiver ?sub = 3" "\<not> es_requires_resync ?sub"
    by (simp_all add: build_event_subscription_def Let_def zero push_history_def
        EVENT_HISTORY_LIMIT_def history_has_gap_after_seq_def sat_add64_def)
  have "handle_events ?sub (Some ''u'') [Received ?d, Lagged 3] =
      map to_browser (filter (\<lambda>e. 1 < ee_seq e \<and> event_visible_to e (Some ''u''))
        (take (es_receiver ?sub + 1) (eb_sent ?b')))"
    by (rule reconnect_gets_exactly_the_rest [OF refl refl _ _ _ _ refl sub(2),
          where stop = "[Lagged 3]" and k = 3])
      (simp_all add: zero sent sub(1) eb_next_send_all del: send_all_simps One_nat_def)
  then show ?thesis
    by (simp add: sent sub(1) event_visible_to_def to_browser_def del: send_all_simps One_nat_def)
qed

text \<open>The hub asks a browser to start over exactly when an event after the number the
  browser names has already left the history. (The browser names a number of this hub
  run; a browser that names zero has seen nothing and is never asked.)
\<close>

theorem resync_iff_event_evicted:
  assumes "b = send_all es (new_bus conn)"
    and "after \<noteq> 0" "initial_seq conn \<le> after" "after + 1 < 2 ^ 64"
  shows "es_requires_resync (build_event_subscription b u after) \<longleftrightarrow>
    (\<exists>e \<in> set (eb_sent b). after < ee_seq e \<and> e \<notin> set (eb_history b))"
proof -
  have "eb_next_event_seq b - length (eb_sent b) \<le> after"
    using assms(1,3) by (simp add: eb_next_send_all eb_sent_from_new)
  then show ?thesis
    using gap_iff_evicted [of b after] assms bus_ok_send_all [OF bus_ok_new]
    by (simp add: build_event_subscription_def Let_def)
qed

theorem resync_iff_event_evicted_witness:
  "\<not> es_requires_resync (build_event_subscription
      (send_all [(None, Ev_MachineOffline ''a''), (None, Ev_MachineOffline ''b'')] (new_bus []))
      None 1)"
  by (subst resync_iff_event_evicted [OF refl])
    (simp_all add: new_bus_def send_event_def initial_seq_def hub_state_get_def hget_def
      push_history_def EVENT_HISTORY_LIMIT_def Let_def)

text \<open>
  C22. Isolation: whatever the hub's history and the channel hold, a socket is only ever
  sent events addressed to nobody in particular or to its own user. A socket without a
  user gets only the former.
\<close>

theorem events_reach_only_their_user:
  "set (handle_events (build_event_subscription b u after) u rs) \<subseteq>
   to_browser ` {e. (e \<in> set (eb_history b) \<or> Received e \<in> set rs) \<and>
     (ee_target_user_id e = None \<or> u \<noteq> None \<and> ee_target_user_id e = u)}"
proof
  fix be assume be: "be \<in> set (handle_events (build_event_subscription b u after) u rs)"
  then obtain e where "e \<in> set (eb_history b) \<or> Received e \<in> set rs"
    "be = to_browser e" "event_visible_to e u"
    by (auto simp: handle_events_def build_event_subscription_def Let_def
        dest!: forward_events_sub split: if_splits)
  then show "be \<in> to_browser ` {e. (e \<in> set (eb_history b) \<or> Received e \<in> set rs) \<and>
     (ee_target_user_id e = None \<or> u \<noteq> None \<and> ee_target_user_id e = u)}"
    by (auto simp: event_visible_to_def split: option.splits)
qed

section \<open>Restart\<close>

lemma new_bus_after_flush:
  "eb_next_event_seq b < 2 ^ 64 \<Longrightarrow>
    eb_next_event_seq (new_bus (flush_event_seq b conn)) =
      eb_next_event_seq b + SEQ_RECOVERY_OFFSET"
  by (simp add: new_bus_def initial_seq_def flush_event_seq_def hub_state_get_def
      hub_state_set_def hm.get_put parse_nat_to_string)

text \<open>
  C23. The number kept across a restart: a hub that restarts from the last flush gives
  numbers above every number ever given exactly when at most 200 events followed that
  flush; one more and a number is given twice.
\<close>

theorem restart_numbers_fresh_iff:
  assumes "eb_next_event_seq b < 2 ^ 64"
  shows "eb_next_event_seq (send_all es b) <
      ee_seq (last (eb_sent (send_event t e (new_bus (flush_event_seq b conn))))) \<longleftrightarrow>
    length es \<le> 200"
  using new_bus_after_flush [OF assms, of conn]
  by (auto simp: eb_next_send_all SEQ_RECOVERY_OFFSET_def)

theorem restart_numbers_fresh_iff_witness:
  "eb_next_event_seq (send_all [(None, Ev_MachineOffline ''a'')] (new_bus [])) <
      ee_seq (last (eb_sent (send_event None (Ev_MachineOffline ''b'')
        (new_bus (flush_event_seq (new_bus []) [])))))"
  by (subst restart_numbers_fresh_iff)
    (simp_all add: new_bus_def initial_seq_def hub_state_get_def hget_def)

text \<open>
  C35. A restart empties the history, and an empty history reports no gap: a browser that
  missed events of the previous run and reconnects before the first event of the new one
  is neither sent them nor told to start over, and from then on it only receives new
  events. Once one event has been sent, a browser in that position is told.
\<close>

theorem restart_hides_the_gap:
  assumes "eb_next_event_seq b < 2 ^ 64" "0 < after" "after \<le> eb_next_event_seq b"
  shows "build_event_subscription (new_bus (flush_event_seq b conn)) u after =
      \<lparr>es_replay = [], es_receiver = 0, es_requires_resync = False\<rparr> \<and>
    es_requires_resync (build_event_subscription
      (send_event t e (new_bus (flush_event_seq b conn))) u after)"
proof -
  have "sat_add64 after 1 \<le> eb_next_event_seq b + 1"
    using sat_add64_le [of after 1] assms(3) by simp
  then show ?thesis
    using new_bus_after_flush [OF assms(1), of conn] assms(2)
    by (simp add: build_event_subscription_def history_has_gap_after_seq_def Let_def
        push_history_def EVENT_HISTORY_LIMIT_def SEQ_RECOVERY_OFFSET_def)
qed

theorem restart_hides_the_gap_witness:
  "es_replay (build_event_subscription (new_bus (flush_event_seq
     (send_all [(None, Ev_MachineOffline ''a''), (None, Ev_MachineOffline ''b'')] (new_bus [])) []))
     None 1) = []"
  using restart_hides_the_gap [of "send_all [(None, Ev_MachineOffline ''a''),
      (None, Ev_MachineOffline ''b'')] (new_bus [])" 1 "[]" None None "Ev_MachineOffline ''c''"]
  by (simp add: eb_next_send_all new_bus_def initial_seq_def hub_state_get_def hget_def)


section \<open>Several threads sending at once\<close>

text \<open>
  \<^verbatim>\<open>send_event\<close> takes no lock around its three effects: the number comes from an atomic
  counter, the push holds the history's mutex, the broadcast comes after. The step
  relation lets any number of threads stand between them. \<open>ct_log\<close> is every envelope ever
  pushed, in the order of the pushes.
\<close>

record concurrent_bus =
  ct_next :: nat
  ct_taken :: "event_envelope list"
  ct_pushed :: "event_envelope list"
  ct_history :: "event_envelope list"
  ct_log :: "event_envelope list"
  ct_sent :: "event_envelope list"

definition concurrent_init :: concurrent_bus where
  "concurrent_init = \<lparr>ct_next = 0, ct_taken = [], ct_pushed = [], ct_history = [], ct_log = [],
     ct_sent = []\<rparr>"

inductive send_step :: "concurrent_bus \<Rightarrow> concurrent_bus \<Rightarrow> bool" where
  take_number:
    "send_step c (c\<lparr>ct_next := ct_next c + 1,
       ct_taken := \<lparr>ee_seq = ct_next c + 1, ee_target_user_id = t, ee_event = e\<rparr> # ct_taken c\<rparr>)"
| push:
    "x \<in> set (ct_taken c) \<Longrightarrow>
     send_step c (c\<lparr>ct_taken := remove1 x (ct_taken c), ct_pushed := x # ct_pushed c,
       ct_history := push_history x (ct_history c), ct_log := ct_log c @ [x]\<rparr>)"
| broadcast:
    "x \<in> set (ct_pushed c) \<Longrightarrow>
     send_step c (c\<lparr>ct_pushed := remove1 x (ct_pushed c), ct_sent := ct_sent c @ [x]\<rparr>)"

inductive_cases send_stepE: "send_step c c'"

lemma steps2: "r a b \<Longrightarrow> r b c \<Longrightarrow> r\<^sup>*\<^sup>* a c"
  by (meson rtranclp.simps)

lemma steps3: "r a b \<Longrightarrow> r b c \<Longrightarrow> r c d \<Longrightarrow> r\<^sup>*\<^sup>* a d"
  by (rule rtranclp.rtrancl_into_rtrancl [OF steps2])

text \<open>One thread running the three steps undisturbed is the sequential operation.\<close>

lemma send_event_is_three_steps:
  assumes "eb_next_event_seq b = ct_next c" "eb_history b = ct_history c" "eb_sent b = ct_sent c"
  shows "\<exists>c'. send_step\<^sup>*\<^sup>* c c' \<and> ct_taken c' = ct_taken c \<and> ct_pushed c' = ct_pushed c \<and>
    eb_next_event_seq (send_event t e b) = ct_next c' \<and>
    eb_history (send_event t e b) = ct_history c' \<and> eb_sent (send_event t e b) = ct_sent c'"
proof -
  let ?x = "\<lparr>ee_seq = ct_next c + 1, ee_target_user_id = t, ee_event = e\<rparr>"
  let ?c1 = "c\<lparr>ct_next := ct_next c + 1, ct_taken := ?x # ct_taken c\<rparr>"
  let ?c2 = "?c1\<lparr>ct_taken := remove1 ?x (ct_taken ?c1), ct_pushed := ?x # ct_pushed ?c1,
    ct_history := push_history ?x (ct_history ?c1), ct_log := ct_log ?c1 @ [?x]\<rparr>"
  let ?c3 = "?c2\<lparr>ct_pushed := remove1 ?x (ct_pushed ?c2), ct_sent := ct_sent ?c2 @ [?x]\<rparr>"
  have "send_step c ?c1" by (rule take_number)
  moreover have "send_step ?c1 ?c2" by (rule push) simp
  moreover have "send_step ?c2 ?c3" by (rule broadcast) simp
  ultimately have "send_step\<^sup>*\<^sup>* c ?c3" by (rule steps3)
  with assms show ?thesis by (intro exI [of _ ?c3]) simp
qed

text \<open>Pushed before broadcast; the history is the recent end of the pushes.\<close>

definition concurrent_ok :: "concurrent_bus \<Rightarrow> bool" where
  "concurrent_ok c \<longleftrightarrow>
     set (ct_pushed c) \<union> set (ct_sent c) \<subseteq> set (ct_log c) \<and>
     ct_history c = drop (length (ct_log c) - EVENT_HISTORY_LIMIT) (ct_log c)"

lemma concurrent_ok_init: "concurrent_ok concurrent_init"
  by (simp add: concurrent_ok_def concurrent_init_def)

lemma concurrent_ok_step: "send_step c c' \<Longrightarrow> concurrent_ok c \<Longrightarrow> concurrent_ok c'"
  by (induction rule: send_step.induct)
    (auto simp: concurrent_ok_def push_history_recent dest: notin_set_remove1)

lemma concurrent_ok_reach: "send_step\<^sup>*\<^sup>* c c' \<Longrightarrow> concurrent_ok c \<Longrightarrow> concurrent_ok c'"
  by (induction rule: rtranclp_induct) (auto intro: concurrent_ok_step)

lemma ct_sent_grows: "send_step\<^sup>*\<^sup>* c c' \<Longrightarrow> \<exists>xs. ct_sent c' = ct_sent c @ xs"
  by (induction rule: rtranclp_induct) (auto elim!: send_stepE)

lemma ct_log_grows: "send_step\<^sup>*\<^sup>* c c' \<Longrightarrow> set (ct_log c) \<subseteq> set (ct_log c')"
  by (induction rule: rtranclp_induct) (auto elim!: send_stepE)

text \<open>
  C14. At-least-once: the subscription first takes its place in the channel (state \<open>c1\<close>)
  and then reads the history under its lock (state \<open>c2\<close>), while other threads keep
  sending. Every visible event after the named number that is ever broadcast (state
  \<open>c3\<close>) is replayed, or still ahead of the receiver, or had already left the history
  when it was read: no event falls between the replay and the live stream.
\<close>

theorem concurrent_at_least_once:
  assumes "send_step\<^sup>*\<^sup>* concurrent_init c1" "send_step\<^sup>*\<^sup>* c1 c2" "send_step\<^sup>*\<^sup>* c2 c3"
    and "e \<in> set (ct_sent c3)" "after < ee_seq e" "event_visible_to e u"
    and "\<not> history_has_gap_after_seq (ct_history c2) after"
  shows "to_browser e \<in> set (es_replay (build_event_subscription
             \<lparr>eb_next_event_seq = ct_next c2, eb_history = ct_history c2, eb_sent = ct_sent c1,
              eb_agent_browser_changes = 0, eb_webhook_sink = None\<rparr> u after))
    \<or> e \<in> set (drop (length (ct_sent c1)) (ct_sent c3))
    \<or> e \<in> set (take (length (ct_log c2) - EVENT_HISTORY_LIMIT) (ct_log c2))"
proof -
  have ok: "concurrent_ok c1" "concurrent_ok c2"
    using assms(1,2) concurrent_ok_init concurrent_ok_reach by blast+
  obtain xs where xs: "ct_sent c3 = ct_sent c1 @ xs"
    using ct_sent_grows [OF rtranclp_trans [OF assms(2,3)]] by blast
  show ?thesis
  proof (cases "e \<in> set (ct_sent c1)")
    case False
    with xs assms(4) show ?thesis by simp
  next
    case True
    with ok(1) have "e \<in> set (ct_log c2)"
      using ct_log_grows [OF assms(2)] by (auto simp: concurrent_ok_def)
    then have "e \<in> set (take (length (ct_log c2) - EVENT_HISTORY_LIMIT) (ct_log c2)) \<or>
        e \<in> set (ct_history c2)"
      using ok(2) unfolding concurrent_ok_def by (metis Un_iff append_take_drop_id set_append)
    with assms(5-7) show ?thesis
      by (auto simp: build_event_subscription_def Let_def)
  qed
qed

text \<open>The race: two numbers are taken in one order and pushed in the other.\<close>

definition race_first :: event_envelope where
  "race_first = \<lparr>ee_seq = 1, ee_target_user_id = None, ee_event = Ev_MachineOffline ''a''\<rparr>"

definition race_second :: event_envelope where
  "race_second = \<lparr>ee_seq = 2, ee_target_user_id = None, ee_event = Ev_MachineOffline ''b''\<rparr>"

definition race_before :: concurrent_bus where
  "race_before = \<lparr>ct_next = 2, ct_taken = [race_first], ct_pushed = [],
     ct_history = [race_second], ct_log = [race_second], ct_sent = [race_second]\<rparr>"

definition race_after :: concurrent_bus where
  "race_after = \<lparr>ct_next = 2, ct_taken = [], ct_pushed = [],
     ct_history = [race_second, race_first], ct_log = [race_second, race_first],
     ct_sent = [race_second, race_first]\<rparr>"

lemma race_reachable: "send_step\<^sup>*\<^sup>* concurrent_init race_before"
proof -
  let ?c1 = "concurrent_init\<lparr>ct_next := 1, ct_taken := [race_first]\<rparr>"
  let ?c2 = "?c1\<lparr>ct_next := 2, ct_taken := [race_second, race_first]\<rparr>"
  let ?c3 = "?c2\<lparr>ct_taken := [race_first], ct_pushed := [race_second],
    ct_history := [race_second], ct_log := [race_second]\<rparr>"
  have "send_step concurrent_init ?c1"
    using take_number [of concurrent_init None "Ev_MachineOffline ''a''"]
    by (simp add: concurrent_init_def race_first_def)
  moreover have "send_step ?c1 ?c2"
    using take_number [of ?c1 None "Ev_MachineOffline ''b''"]
    by (simp add: concurrent_init_def race_second_def numeral_2_eq_2)
  moreover have "send_step ?c2 ?c3"
    using push [of race_second ?c2]
    by (simp add: concurrent_init_def push_history_def EVENT_HISTORY_LIMIT_def)
  moreover have "send_step ?c3 race_before"
    using broadcast [of race_second ?c3]
    by (simp add: concurrent_init_def race_before_def)
  ultimately show ?thesis
    by (meson steps3 converse_rtranclp_into_rtranclp)
qed

lemma race_continues: "send_step\<^sup>*\<^sup>* race_before race_after"
proof -
  let ?c = "race_before\<lparr>ct_taken := [], ct_pushed := [race_first],
    ct_history := [race_second, race_first], ct_log := [race_second, race_first]\<rparr>"
  have "send_step race_before ?c"
    using push [of race_first race_before]
    by (simp add: race_before_def push_history_def EVENT_HISTORY_LIMIT_def)
  moreover have "send_step ?c race_after"
    using broadcast [of race_first ?c] by (simp add: race_before_def race_after_def)
  ultimately show ?thesis by (rule steps2)
qed

theorem concurrent_at_least_once_witness:
  "to_browser race_second \<in> set (es_replay (build_event_subscription
       \<lparr>eb_next_event_seq = ct_next race_before, eb_history = ct_history race_before,
        eb_sent = ct_sent concurrent_init, eb_agent_browser_changes = 0,
        eb_webhook_sink = None\<rparr> None 0))
    \<or> race_second \<in> set (drop (length (ct_sent concurrent_init)) (ct_sent race_before))
    \<or> race_second \<in> set (take (length (ct_log race_before) - EVENT_HISTORY_LIMIT)
        (ct_log race_before))"
  by (rule concurrent_at_least_once [OF rtranclp.rtrancl_refl race_reachable
        rtranclp.rtrancl_refl])
    (simp_all add: race_before_def race_second_def event_visible_to_def
      history_has_gap_after_seq_def)

text \<open>
  C36. The race in \<^verbatim>\<open>send_event\<close>: since taking a number, pushing and broadcasting are not
  one atomic step, event 2 can be broadcast before event 1. A browser that received 2,
  lost its socket before 1 went out and reconnects naming 2 is neither sent 1 nor told to
  start over: the number it names does not say what it has seen.
\<close>

theorem concurrent_send_can_lose_an_event:
  "\<exists>c1 c2. send_step\<^sup>*\<^sup>* concurrent_init c1 \<and> send_step\<^sup>*\<^sup>* c1 c2 \<and>
     forward_events u (map Received (ct_sent c1)) = [to_browser race_second] \<and>
     race_first \<in> set (ct_sent c2) \<and> event_visible_to race_first u \<and>
     build_event_subscription
       \<lparr>eb_next_event_seq = ct_next c2, eb_history = ct_history c2, eb_sent = ct_sent c2,
        eb_agent_browser_changes = 0, eb_webhook_sink = None\<rparr> u 2 =
     \<lparr>es_replay = [], es_receiver = length (ct_sent c2), es_requires_resync = False\<rparr>"
  by (rule exI [of _ race_before], rule exI [of _ race_after])
    (simp add: race_reachable race_continues, simp add: race_before_def race_after_def
      race_first_def race_second_def event_visible_to_def build_event_subscription_def
      history_has_gap_after_seq_def sat_add64_def Let_def)

end
