(* ===== verification/ControlLeases.thy ===== *)
theory ControlLeases
  imports EventBus
begin

text \<open>
  Which of a user's devices controls which machine (\<^verbatim>\<open>ModeState\<close> and the operations
  \<^verbatim>\<open>register_device\<close> to \<^verbatim>\<open>get_control_leases\<close>, \<^verbatim>\<open>clear_machine_mode\<close>, of
  \<^verbatim>\<open>crates/hub/src/machine_manager.rs\<close>). A device counts its sockets; when the last one
  goes, its leases are released and set aside, and come back with the device unless
  another one took them. Every operation returns the events it sends.

  The lemmas show that the events mirror the leases, that an explicit release is never
  undone by a reconnection, and which leases a reconnection brings back.
\<close>

section \<open>State\<close>

record mode_state =
  mo_control_leases :: "(ident, ident) hmap"
  mo_connected_devices :: "(ident, nat) hmap"
  mo_released_leases :: "(ident, ident list) hmap"

type_synonym mode_map = "(ident, mode_state) hmap"
type_synonym addressed = "ident option \<times> browser_event"

definition new_mode_state :: mode_state where
  "new_mode_state = \<lparr>mo_control_leases = [], mo_connected_devices = [], mo_released_leases = []\<rparr>"

definition mode_of :: "mode_map \<Rightarrow> ident \<Rightarrow> mode_state" where
  "mode_of modes user_id = (case hget modes user_id of None \<Rightarrow> new_mode_state | Some m \<Rightarrow> m)"

definition mode_is_empty :: "mode_state \<Rightarrow> bool" where
  "mode_is_empty mode \<longleftrightarrow> mo_connected_devices mode = [] \<and> mo_control_leases mode = [] \<and>
     mo_released_leases mode = []"

text \<open>The clean-up at the end of three operations: an empty entry goes.\<close>

definition store_mode :: "ident \<Rightarrow> mode_state \<Rightarrow> mode_map \<Rightarrow> mode_map" where
  "store_mode user_id mode modes =
     (if mode_is_empty mode then hdel user_id modes else hput user_id mode modes)"

definition mode_changed :: "ident \<Rightarrow> ident \<Rightarrow> ident option \<Rightarrow> addressed" where
  "mode_changed user_id machine_id controller =
     (Some user_id, Ev_ModeChanged machine_id controller)"

section \<open>Operations\<close>

definition clear_machine_mode :: "ident \<Rightarrow> ident \<Rightarrow> mode_map \<Rightarrow> mode_map" where
  "clear_machine_mode user_id machine_id modes =
     (case hget modes user_id of
        None \<Rightarrow> modes
      | Some mode \<Rightarrow>
          let stashed = hmapv (filter (\<lambda>id. id \<noteq> machine_id)) (mo_released_leases mode)
          in store_mode user_id
               (mode\<lparr>mo_control_leases := hdel machine_id (mo_control_leases mode),
                     mo_released_leases := hretain (\<lambda>_ values. values \<noteq> []) stashed\<rparr>) modes)"

text \<open>
  The loop of \<^verbatim>\<open>register_device\<close> over the leases set aside: the leases after it, and the
  machines restored.
\<close>

fun restore_leases ::
  "ident \<Rightarrow> ident list \<Rightarrow> (ident, ident) hmap \<Rightarrow> (ident, ident) hmap \<times> ident list" where
  "restore_leases device_id [] leases = (leases, [])"
| "restore_leases device_id (machine_id # machines) leases =
     (if \<not> hhas leases machine_id
      then (let (leases', restored) =
                  restore_leases device_id machines (hput machine_id device_id leases)
            in (leases', machine_id # restored))
      else restore_leases device_id machines leases)"

definition register_device :: "ident \<Rightarrow> ident \<Rightarrow> mode_map \<Rightarrow> mode_map \<times> addressed list" where
  "register_device user_id device_id modes =
     (let mode = mode_of modes user_id;
          sockets = rc_inc device_id (mo_connected_devices mode);
          (leases, restored) =
            (case hget (mo_released_leases mode) device_id of
               None \<Rightarrow> (mo_control_leases mode, [])
             | Some machines \<Rightarrow> restore_leases device_id machines (mo_control_leases mode))
      in (hput user_id
            \<lparr>mo_control_leases = leases, mo_connected_devices = sockets,
             mo_released_leases = hdel device_id (mo_released_leases mode)\<rparr> modes,
          map (\<lambda>machine_id. mode_changed user_id machine_id (Some device_id)) restored))"

text \<open>One socket less: the counts after it, and whether it was the device's last.\<close>

definition disconnect_device :: "ident \<Rightarrow> (ident, nat) hmap \<Rightarrow> (ident, nat) hmap \<times> bool" where
  "disconnect_device device_id sockets =
     (case hget sockets device_id of
        None \<Rightarrow> (sockets, False)
      | Some count \<Rightarrow> if count > 1 then (hput device_id (count - 1) sockets, False)
                      else (hdel device_id sockets, True))"

definition leases_of :: "ident \<Rightarrow> (ident, ident) hmap \<Rightarrow> ident list" where
  "leases_of device_id leases = map fst (filter (\<lambda>(_, d). d = device_id) leases)"

definition unregister_device :: "ident \<Rightarrow> ident \<Rightarrow> mode_map \<Rightarrow> mode_map \<times> addressed list" where
  "unregister_device user_id device_id modes =
     (case hget modes user_id of
        None \<Rightarrow> (modes, [])
      | Some mode \<Rightarrow>
          let (sockets, release_control) = disconnect_device device_id (mo_connected_devices mode);
              mode = mode\<lparr>mo_connected_devices := sockets\<rparr>
          in if release_control
             then let released = leases_of device_id (mo_control_leases mode);
                      stash = (if released \<noteq> [] then hput device_id released (mo_released_leases mode)
                               else mo_released_leases mode)
                  in (store_mode user_id
                        (mode\<lparr>mo_released_leases := stash,
                              mo_control_leases := hdels released (mo_control_leases mode)\<rparr>) modes,
                      map (\<lambda>machine_id. mode_changed user_id machine_id None) released)
             else (store_mode user_id mode modes, []))"

definition request_control ::
  "ident \<Rightarrow> ident \<Rightarrow> ident \<Rightarrow> mode_map \<Rightarrow> mode_map \<times> addressed list" where
  "request_control user_id machine_id device_id modes =
     (let mode = mode_of modes user_id
      in (hput user_id
            (mode\<lparr>mo_control_leases := hput machine_id device_id (mo_control_leases mode)\<rparr>) modes,
          [mode_changed user_id machine_id (Some device_id)]))"

definition release_control ::
  "ident \<Rightarrow> ident \<Rightarrow> ident \<Rightarrow> mode_map \<Rightarrow> mode_map \<times> addressed list" where
  "release_control user_id machine_id device_id modes =
     (case hget modes user_id of
        None \<Rightarrow> (modes, [])
      | Some mode \<Rightarrow>
          let stash = (case hget (mo_released_leases mode) device_id of
                         None \<Rightarrow> mo_released_leases mode
                       | Some stashed \<Rightarrow>
                           let stashed = filter (\<lambda>mid. mid \<noteq> machine_id) stashed
                           in if stashed = [] then hdel device_id (mo_released_leases mode)
                              else hput device_id stashed (mo_released_leases mode));
              held = (hget (mo_control_leases mode) machine_id = Some device_id);
              leases = (if held then hdel machine_id (mo_control_leases mode)
                        else mo_control_leases mode)
          in (store_mode user_id
                (mode\<lparr>mo_released_leases := stash, mo_control_leases := leases\<rparr>) modes,
              if held then [mode_changed user_id machine_id None] else []))"

definition get_controller :: "mode_map \<Rightarrow> ident \<Rightarrow> ident \<Rightarrow> ident option" where
  "get_controller modes user_id machine_id =
     (case hget modes user_id of
        None \<Rightarrow> None
      | Some mode \<Rightarrow> hget (mo_control_leases mode) machine_id)"

definition is_controller :: "mode_map \<Rightarrow> ident \<Rightarrow> ident \<Rightarrow> ident \<Rightarrow> bool" where
  "is_controller modes user_id machine_id device_id \<longleftrightarrow>
     (case hget modes user_id of
        None \<Rightarrow> None
      | Some mode \<Rightarrow> hget (mo_control_leases mode) machine_id) = Some device_id"

definition get_control_leases :: "mode_map \<Rightarrow> ident \<Rightarrow> control_lease_snapshot list" where
  "get_control_leases modes user_id =
     (case hget modes user_id of
        None \<Rightarrow> []
      | Some mode \<Rightarrow> map (\<lambda>(machine_id, controller).
          \<lparr>cl_machine_id = machine_id, cl_controller_device_id = Some controller\<rparr>)
          (mo_control_leases mode))"

text \<open>
  The operations as one vocabulary. Forgetting a machine is the clearing and the
  \<^verbatim>\<open>MachineRemoved\<close> that \<^verbatim>\<open>remove_machine\<close> sends after it.
\<close>

datatype lease_op =
    Op_RegisterDevice ident ident
  | Op_UnregisterDevice ident ident
  | Op_RequestControl ident ident ident
  | Op_ReleaseControl ident ident ident
  | Op_ForgetMachine ident ident

fun exec_lease :: "mode_map \<Rightarrow> lease_op \<Rightarrow> mode_map \<times> addressed list" where
  "exec_lease s (Op_RegisterDevice u d) = register_device u d s"
| "exec_lease s (Op_UnregisterDevice u d) = unregister_device u d s"
| "exec_lease s (Op_RequestControl u m d) = request_control u m d s"
| "exec_lease s (Op_ReleaseControl u m d) = release_control u m d s"
| "exec_lease s (Op_ForgetMachine u m) =
     (clear_machine_mode u m s, [(Some u, Ev_MachineRemoved m)])"

section \<open>Well-formed state\<close>

definition mode_ok :: "mode_state \<Rightarrow> bool" where
  "mode_ok mode \<longleftrightarrow>
     hwf (mo_control_leases mode) \<and> hwf (mo_connected_devices mode) \<and>
     hwf (mo_released_leases mode) \<and> rc_pos (mo_connected_devices mode) \<and>
     (\<forall>d ms. hget (mo_released_leases mode) d = Some ms \<longrightarrow>
        ms \<noteq> [] \<and> hget (mo_connected_devices mode) d = None)"

definition modes_ok :: "mode_map \<Rightarrow> bool" where
  "modes_ok modes \<longleftrightarrow>
     hwf modes \<and> (\<forall>u mode. hget modes u = Some mode \<longrightarrow> mode_ok mode \<and> \<not> mode_is_empty mode)"

lemma mode_okI:
  assumes "hwf (mo_control_leases mode)" "hwf (mo_connected_devices mode)"
    "hwf (mo_released_leases mode)" "rc_pos (mo_connected_devices mode)"
    and "\<And>d. hget (mo_released_leases mode) d \<noteq> Some []"
    and "\<And>d ms. hget (mo_released_leases mode) d = Some ms \<Longrightarrow>
           hget (mo_connected_devices mode) d = None"
  shows "mode_ok mode"
  using assms unfolding mode_ok_def by metis

lemma mode_okD:
  assumes "mode_ok mode"
  shows "hwf (mo_control_leases mode)" "hwf (mo_connected_devices mode)"
    "hwf (mo_released_leases mode)" "rc_pos (mo_connected_devices mode)"
    and "hget (mo_released_leases mode) d \<noteq> Some []"
    and "hget (mo_released_leases mode) d = Some ms \<Longrightarrow>
           hget (mo_connected_devices mode) d = None"
  using assms by (auto simp: mode_ok_def)

lemma mode_ok_new [simp]: "mode_ok new_mode_state"
  by (simp add: mode_ok_def new_mode_state_def rc_pos_def hm.get_none)

lemma modes_ok_Nil: "modes_ok []"
  by (simp add: modes_ok_def hm.get_none)

lemma modes_ok_mode_of: "modes_ok modes \<Longrightarrow> mode_ok (mode_of modes u)"
  by (auto simp: modes_ok_def mode_of_def split: option.splits)

lemma modes_ok_hget: "modes_ok modes \<Longrightarrow> hget modes u = Some mode \<Longrightarrow> mode_ok mode"
  by (auto simp: modes_ok_def)

lemma modes_ok_store: "modes_ok modes \<Longrightarrow> mode_ok mode \<Longrightarrow> modes_ok (store_mode u mode modes)"
  by (auto simp: modes_ok_def store_mode_def hm_laws split: if_splits)

lemma modes_ok_hput:
  "modes_ok modes \<Longrightarrow> mode_ok mode \<Longrightarrow> \<not> mode_is_empty mode \<Longrightarrow> modes_ok (hput u mode modes)"
  by (auto simp: modes_ok_def hm_laws split: if_splits)

lemma mode_of_store [simp]:
  "mode_of (store_mode u mode modes) v = (if v = u then mode else mode_of modes v)"
  by (auto simp: mode_of_def store_mode_def mode_is_empty_def new_mode_state_def hm_laws)

lemma mode_of_hput [simp]:
  "mode_of (hput u mode modes) v = (if v = u then mode else mode_of modes v)"
  by (auto simp: mode_of_def hm_laws)

lemma get_controller_mode_of: "get_controller modes u m = hget (mo_control_leases (mode_of modes u)) m"
  by (simp add: get_controller_def mode_of_def new_mode_state_def hm_laws split: option.splits)

lemma is_controller_iff: "is_controller modes u m d \<longleftrightarrow> get_controller modes u m = Some d"
  by (simp add: is_controller_def get_controller_def)


section \<open>Socket counts\<close>

text \<open>\<open>rc_dec\<close> is the count half of \<open>disconnect_device\<close>.\<close>

lemma disconnect_device_count:
  "rc_pos m \<Longrightarrow> rc_count (fst (disconnect_device k m)) k' =
     rc_count m k' - (if k' = k then 1 else 0)"
  by (auto simp: disconnect_device_def rc_count_def rc_pos_def hm_laws split: option.splits)

lemma disconnect_device_ok:
  "hwf m \<and> rc_pos m \<Longrightarrow> hwf (fst (disconnect_device k m)) \<and> rc_pos (fst (disconnect_device k m))"
  by (auto simp: disconnect_device_def rc_pos_def hm_laws split: option.splits if_splits)

lemma rc_inc_hwf: "hwf m \<Longrightarrow> hwf (rc_inc k m)"
  by (simp add: rc_inc_def)

interpretation sockets: refcount rc_count rc_inc "\<lambda>k m. fst (disconnect_device k m)"
  "\<lambda>m. hwf m \<and> rc_pos m"
  by unfold_locales
    (simp_all add: rc_inc_count rc_inc_pos rc_inc_hwf disconnect_device_count disconnect_device_ok)

lemma rc_posD: "rc_pos m \<Longrightarrow> hget m k = Some n \<Longrightarrow> 0 < n"
  by (simp add: rc_pos_def)

lemma disconnect_device_last:
  "rc_pos m \<Longrightarrow> snd (disconnect_device k m) \<longleftrightarrow> rc_count m k = 1"
  by (auto simp: disconnect_device_def rc_count_def dest: rc_posD split: option.splits)

lemma rc_count_hget: "rc_pos m \<Longrightarrow> hget m k = None \<longleftrightarrow> rc_count m k = 0"
  by (auto simp: rc_count_def rc_pos_def split: option.splits)

section \<open>What each operation leaves\<close>

lemma restore_leases_laws:
  assumes "restore_leases d ms leases = (leases', restored)"
  shows "hget leases' m =
      (case hget leases m of Some c \<Rightarrow> Some c | None \<Rightarrow> if m \<in> set ms then Some d else None) \<and>
    (hwf leases \<longrightarrow> hwf leases') \<and>
    set restored = {m \<in> set ms. hget leases m = None}"
  using assms
proof (induction d ms leases arbitrary: leases' restored rule: restore_leases.induct)
  case (2 d k ms leases)
  show ?case
  proof (cases "hget leases k")
    case None
    obtain l1 r1 where r1: "restore_leases d ms (hput k d leases) = (l1, r1)"
      by (cases "restore_leases d ms (hput k d leases)")
    with 2(3) None have eq: "leases' = l1" "restored = k # r1" by (auto simp: hhas_def)
    note ih = 2(1) [OF _ r1]
    from None have "\<not> hhas leases k" by (simp add: hhas_def)
    from ih [OF this] show ?thesis
      using None eq by (auto simp: hm.get_put split: option.splits if_splits)
  next
    case (Some c)
    then have has: "hhas leases k" by (simp add: hhas_def)
    with 2(3) have "restore_leases d ms leases = (leases', restored)" by simp
    from 2(2) [OF _ this] has
    have ih: "hget leases' m =
        (case hget leases m of None \<Rightarrow> if m \<in> set ms then Some d else None | Some c \<Rightarrow> Some c)"
      "hwf leases \<longrightarrow> hwf leases'" "set restored = {m \<in> set ms. hget leases m = None}"
      by blast+
    have "m \<noteq> k" if "hget leases m = None" for m using that Some by auto
    then have "{m \<in> set ms. hget leases m = None} = {m \<in> set (k # ms). hget leases m = None}"
      by auto
    moreover have "m = k \<Longrightarrow> hget leases m = Some c" using Some by simp
    ultimately show ?thesis unfolding ih(1,3) using ih(2) by (cases "m = k") simp_all
  qed
qed (simp split: option.splits)

lemma set_leases_of: "hwf leases \<Longrightarrow> set (leases_of d leases) = {m. hget leases m = Some d}"
  by (force simp: leases_of_def hget_Some_iff)

lemma leases_of_Nil: "hwf leases \<Longrightarrow> leases_of d leases = [] \<longleftrightarrow> (\<forall>m. hget leases m \<noteq> Some d)"
  using set_leases_of [of leases d] set_empty [of "leases_of d leases"] by auto

lemma register_device_mode:
  "mode_of (fst (register_device u d s)) v =
    (if v = u then
       \<lparr>mo_control_leases = fst (case hget (mo_released_leases (mode_of s u)) d of
            None \<Rightarrow> (mo_control_leases (mode_of s u), [])
          | Some machines \<Rightarrow> restore_leases d machines (mo_control_leases (mode_of s u))),
        mo_connected_devices = rc_inc d (mo_connected_devices (mode_of s u)),
        mo_released_leases = hdel d (mo_released_leases (mode_of s u))\<rparr>
     else mode_of s v)"
  by (simp add: register_device_def Let_def case_prod_beta)

definition released_stash :: "mode_map \<Rightarrow> ident \<Rightarrow> ident \<Rightarrow> ident set" where
  "released_stash s u d =
     (case hget (mo_released_leases (mode_of s u)) d of None \<Rightarrow> {} | Some ms \<Rightarrow> set ms)"

lemma get_controller_register:
  "get_controller (fst (register_device u d s)) v m =
    (if v = u then
       (case get_controller s u m of
          Some c \<Rightarrow> Some c
        | None \<Rightarrow> if m \<in> released_stash s u d then Some d else None)
     else get_controller s v m)"
proof (cases "hget (mo_released_leases (mode_of s u)) d")
  case None
  then show ?thesis
    by (auto simp: get_controller_mode_of register_device_mode released_stash_def
        split: option.splits)
next
  case (Some ms)
  obtain l' r where "restore_leases d ms (mo_control_leases (mode_of s u)) = (l', r)"
    by (cases "restore_leases d ms (mo_control_leases (mode_of s u))")
  with Some restore_leases_laws [OF this] show ?thesis
    by (auto simp: get_controller_mode_of register_device_mode released_stash_def)
qed

lemma released_stash_register:
  "released_stash (fst (register_device u d s)) v e =
    (if v = u \<and> e = d then {} else released_stash s v e)"
  by (simp add: released_stash_def register_device_mode hm_laws)

lemma modes_ok_register: "modes_ok s \<Longrightarrow> modes_ok (fst (register_device u d s))"
proof -
  assume ok: "modes_ok s"
  define mode where "mode = mode_of s u"
  then have mode: "mode_ok mode" using ok by (simp add: modes_ok_mode_of)
  obtain l' r where lr: "(case hget (mo_released_leases mode) d of
      None \<Rightarrow> (mo_control_leases mode, [])
    | Some machines \<Rightarrow> restore_leases d machines (mo_control_leases mode)) = (l', r)"
    by fastforce
  have "hwf l'"
    using mode lr restore_leases_laws by (auto simp: mode_ok_def split: option.splits)
  then have "mode_ok \<lparr>mo_control_leases = l',
      mo_connected_devices = rc_inc d (mo_connected_devices mode),
      mo_released_leases = hdel d (mo_released_leases mode)\<rparr>"
    using mode_okD [OF mode]
    by (intro mode_okI) (auto simp: rc_inc_pos rc_inc_hwf, auto simp: hm_laws rc_inc_def split: if_splits)
  then show ?thesis
    using ok lr unfolding mode_def
    by (auto simp: register_device_def Let_def mode_is_empty_def rc_inc_def intro!: modes_ok_hput)
qed

lemma get_controller_request:
  "get_controller (fst (request_control u m d s)) v n =
    (if v = u \<and> n = m then Some d else get_controller s v n)"
  by (simp add: request_control_def Let_def get_controller_mode_of hm_laws)

lemma released_stash_request:
  "released_stash (fst (request_control u m d s)) v e = released_stash s v e"
  by (simp add: request_control_def Let_def released_stash_def)

lemma modes_ok_request: "modes_ok s \<Longrightarrow> modes_ok (fst (request_control u m d s))"
  using modes_ok_mode_of [of s u]
  by (auto simp: request_control_def Let_def mode_ok_def mode_is_empty_def intro!: modes_ok_hput)

lemma release_control_mode:
  "mode_of (fst (release_control u m d s)) v =
    (if v = u \<and> hget s u \<noteq> None then
       mode_of s u
        \<lparr>mo_released_leases :=
           (case hget (mo_released_leases (mode_of s u)) d of
              None \<Rightarrow> mo_released_leases (mode_of s u)
            | Some ms \<Rightarrow> let ms = filter (\<lambda>k. k \<noteq> m) ms
                in if ms = [] then hdel d (mo_released_leases (mode_of s u))
                   else hput d ms (mo_released_leases (mode_of s u))),
         mo_control_leases :=
           (if hget (mo_control_leases (mode_of s u)) m = Some d
            then hdel m (mo_control_leases (mode_of s u))
            else mo_control_leases (mode_of s u))\<rparr>
     else mode_of s v)"
  by (auto simp: release_control_def Let_def mode_of_def [of s u] split: option.splits)

lemma get_controller_release:
  "get_controller (fst (release_control u m d s)) v n =
    (if v = u \<and> n = m \<and> get_controller s u m = Some d then None else get_controller s v n)"
  by (auto simp: get_controller_mode_of release_control_mode hm_laws)
    (auto simp: mode_of_def new_mode_state_def hm_laws)

lemma released_stash_release:
  "released_stash (fst (release_control u m d s)) v e =
    (if v = u \<and> e = d then released_stash s u d - {m} else released_stash s v e)"
proof (cases "hget s u")
  case None
  then show ?thesis
    by (auto simp: released_stash_def release_control_mode)
      (auto simp: mode_of_def new_mode_state_def hm_laws)
next
  case (Some mode)
  then show ?thesis
    by (auto simp: released_stash_def release_control_mode hm_laws Let_def filter_empty_conv
        split: option.splits)
qed

lemma mode_ok_update:
  assumes "mode_ok mode" "hwf leases" "hwf stash"
    and "\<And>d. hget stash d \<noteq> Some []"
    and "\<And>d. hget (mo_released_leases mode) d = None \<Longrightarrow> hget stash d = None"
  shows "mode_ok (mode\<lparr>mo_released_leases := stash, mo_control_leases := leases\<rparr>)"
  using assms(2-) mode_okD [OF assms(1)]
  by (intro mode_okI) (auto, metis option.distinct(1) option.exhaust)

lemma modes_ok_release: "modes_ok s \<Longrightarrow> modes_ok (fst (release_control u m d s))"
proof -
  assume ok: "modes_ok s"
  show ?thesis
  proof (cases "hget s u")
    case None
    with ok show ?thesis by (simp add: release_control_def)
  next
    case (Some mode)
    note mode = modes_ok_hget [OF ok Some]
    show ?thesis
      unfolding release_control_def Let_def Some option.case fst_conv
      using mode_okD [OF mode]
      by (intro modes_ok_store [OF ok] mode_ok_update [OF mode])
        (auto simp: hm_laws split: option.splits if_splits)
  qed
qed

lemma clear_machine_get:
  "get_controller (clear_machine_mode u m s) v n =
    (if v = u \<and> n = m then None else get_controller s v n)"
  by (auto simp: clear_machine_mode_def Let_def get_controller_mode_of hm_laws split: option.splits)
    (auto simp: mode_of_def new_mode_state_def hm_laws)

lemma released_stash_clear:
  "modes_ok s \<Longrightarrow> released_stash (clear_machine_mode u m s) v e =
    (if v = u then released_stash s u e - {m} else released_stash s v e)"
proof -
  assume ok: "modes_ok s"
  show ?thesis
  proof (cases "hget s u")
    case None
    then show ?thesis
      by (auto simp: released_stash_def clear_machine_mode_def mode_of_def new_mode_state_def hm_laws)
  next
    case (Some mode)
    with modes_ok_hget [OF ok Some] show ?thesis
      by (auto simp: released_stash_def clear_machine_mode_def Let_def mode_ok_def hmap_simps
          mode_of_def [of s] filter_empty_conv split: option.splits)
  qed
qed

lemma modes_ok_clear: "modes_ok s \<Longrightarrow> modes_ok (clear_machine_mode u m s)"
proof -
  assume ok: "modes_ok s"
  show ?thesis
  proof (cases "hget s u")
    case None
    with ok show ?thesis by (simp add: clear_machine_mode_def)
  next
    case (Some mode)
    note mode = modes_ok_hget [OF ok Some]
    have "mode_ok (mode\<lparr>mo_released_leases := hretain (\<lambda>_ values. values \<noteq> [])
          (hmapv (filter (\<lambda>id. id \<noteq> m)) (mo_released_leases mode)),
        mo_control_leases := hdel m (mo_control_leases mode)\<rparr>)"
      using mode_okD [OF mode]
      by (intro mode_ok_update [OF mode]) (auto simp: hmap_simps split: option.splits if_splits)
    then show ?thesis
      by (cases mode) (simp add: clear_machine_mode_def Let_def Some modes_ok_store [OF ok])
  qed
qed

lemma unregister_device_Some:
  assumes "hget s u = Some mode"
  shows "unregister_device u d s =
    (let last = snd (disconnect_device d (mo_connected_devices mode));
         released = (if last then leases_of d (mo_control_leases mode) else [])
     in (store_mode u
           \<lparr>mo_control_leases = hdels released (mo_control_leases mode),
            mo_connected_devices = fst (disconnect_device d (mo_connected_devices mode)),
            mo_released_leases = (if released \<noteq> [] then hput d released (mo_released_leases mode)
                                  else mo_released_leases mode)\<rparr> s,
         map (\<lambda>m. mode_changed u m None) released))"
  using assms
  by (cases mode) (simp add: unregister_device_def Let_def hdels_def split: prod.splits)

lemma get_controller_unregister:
  assumes "modes_ok s"
  shows "get_controller (fst (unregister_device u d s)) v m =
    (if v = u \<and> rc_count (mo_connected_devices (mode_of s u)) d = 1 \<and> get_controller s u m = Some d
     then None else get_controller s v m)"
proof (cases "hget s u")
  case None
  then show ?thesis by (simp add: unregister_device_def get_controller_def)
next
  case (Some mode)
  note mode = mode_okD [OF modes_ok_hget [OF assms Some]]
  have "mode_of s u = mode" using Some by (simp add: mode_of_def)
  then show ?thesis
    using mode(1) by (auto simp: unregister_device_Some [OF Some] Let_def get_controller_mode_of
        hmap_simps set_leases_of disconnect_device_last [OF mode(4)])
qed

lemma released_stash_unregister:
  assumes "modes_ok s"
  shows "released_stash (fst (unregister_device u d s)) v e =
    (if v = u \<and> e = d \<and> rc_count (mo_connected_devices (mode_of s u)) d = 1
     then {m. get_controller s u m = Some d} else released_stash s v e)"
proof (cases "hget s u")
  case None
  then show ?thesis
    by (auto simp: unregister_device_def mode_of_def new_mode_state_def rc_count_def hm_laws)
next
  case (Some mode)
  note mode = mode_okD [OF modes_ok_hget [OF assms Some]]
  have m: "mode_of s u = mode" using Some by (simp add: mode_of_def)
  have "hget (mo_released_leases mode) d = None"
    if "rc_count (mo_connected_devices mode) d = 1"
    using that mode(6) [of d] rc_count_hget [OF mode(4), of d]
    by (cases "hget (mo_released_leases mode) d") auto
  moreover note set_leases_of [OF mode(1), of d] leases_of_Nil [OF mode(1), of d]
  ultimately show ?thesis
    using m by (auto simp: unregister_device_Some [OF Some] Let_def released_stash_def
        get_controller_mode_of hm_laws disconnect_device_last [OF mode(4)] split: option.splits)
qed


lemma disconnect_device_None:
  "hget m e = None \<Longrightarrow> hget (fst (disconnect_device k m)) e = None"
  "snd (disconnect_device k m) \<Longrightarrow> hget (fst (disconnect_device k m)) k = None"
  by (auto simp: disconnect_device_def hm_laws split: option.splits if_splits)

lemma modes_ok_unregister: "modes_ok s \<Longrightarrow> modes_ok (fst (unregister_device u d s))"
proof -
  assume ok: "modes_ok s"
  show ?thesis
  proof (cases "hget s u")
    case None
    with ok show ?thesis by (simp add: unregister_device_def)
  next
    case (Some mode)
    note mode = mode_okD [OF modes_ok_hget [OF ok Some]]
    let ?conn = "fst (disconnect_device d (mo_connected_devices mode))"
    have conn: "hwf ?conn \<and> rc_pos ?conn"
      using mode(2,4) by (simp add: disconnect_device_ok)
    have step: "mode_ok \<lparr>mo_control_leases = hdels released (mo_control_leases mode),
        mo_connected_devices = ?conn,
        mo_released_leases = (if released \<noteq> [] then hput d released (mo_released_leases mode)
                              else mo_released_leases mode)\<rparr>"
      if "released \<noteq> [] \<Longrightarrow> snd (disconnect_device d (mo_connected_devices mode))" for released
      using mode conn that
      by (intro mode_okI) (auto simp: hm_laws disconnect_device_None split: if_splits)
    show ?thesis
      unfolding unregister_device_Some [OF Some] Let_def fst_conv
      by (rule modes_ok_store [OF ok], rule step) (simp split: if_splits)
  qed
qed

section \<open>A browser's view of the leases\<close>

type_synonym lease_view = "ident \<Rightarrow> ident \<Rightarrow> ident option"

fun apply_lease_event :: "lease_view \<Rightarrow> addressed \<Rightarrow> lease_view" where
  "apply_lease_event v (Some u, Ev_ModeChanged m c) = v(u := (v u)(m := c))"
| "apply_lease_event v (Some u, Ev_MachineRemoved m) = v(u := (v u)(m := None))"
| "apply_lease_event v _ = v"

lemma fold_mode_changed:
  "foldl apply_lease_event v (map (\<lambda>m. mode_changed u m c) ms) =
     v(u := (\<lambda>m. if m \<in> set ms then c else v u m))"
  by (induction ms arbitrary: v) (auto simp: mode_changed_def fun_upd_def fun_eq_iff)

lemma register_events:
  "\<exists>restored. snd (register_device u d s) = map (\<lambda>m. mode_changed u m (Some d)) restored \<and>
     set restored = {m \<in> released_stash s u d. get_controller s u m = None}"
proof (cases "hget (mo_released_leases (mode_of s u)) d")
  case None
  then show ?thesis by (simp add: register_device_def Let_def released_stash_def)
next
  case (Some ms)
  obtain l' r where lr: "restore_leases d ms (mo_control_leases (mode_of s u)) = (l', r)"
    by (cases "restore_leases d ms (mo_control_leases (mode_of s u))")
  with Some restore_leases_laws [OF lr] show ?thesis
    by (auto simp: register_device_def Let_def released_stash_def get_controller_mode_of)
qed

lemma unregister_events:
  assumes "modes_ok s"
  shows "\<exists>released. snd (unregister_device u d s) = map (\<lambda>m. mode_changed u m None) released \<and>
     set released = {m. rc_count (mo_connected_devices (mode_of s u)) d = 1 \<and>
       get_controller s u m = Some d}"
proof (cases "hget s u")
  case None
  then show ?thesis by (simp add: unregister_device_def get_controller_def)
next
  case (Some mode)
  note mode = mode_okD [OF modes_ok_hget [OF assms Some]]
  have m: "mode_of s u = mode" using Some by (simp add: mode_of_def)
  show ?thesis
    unfolding unregister_device_Some [OF Some] Let_def snd_conv
    by (rule exI, rule conjI, rule refl)
      (auto simp: disconnect_device_last [OF mode(4)] set_leases_of [OF mode(1)]
        get_controller_mode_of m)
qed

lemma release_events:
  "snd (release_control u m d s) =
    (if get_controller s u m = Some d then [mode_changed u m None] else [])"
  by (simp add: release_control_def get_controller_def Let_def split: option.splits)

lemma lease_mirrors:
  assumes "modes_ok s" "exec_lease s x = (s', es)"
  shows "foldl apply_lease_event (get_controller s) es = get_controller s'"
proof (cases x)
  case (Op_RegisterDevice u d)
  then have "s' = fst (register_device u d s)" "es = snd (register_device u d s)"
    using assms(2) by simp_all
  moreover obtain restored where
    "snd (register_device u d s) = map (\<lambda>m. mode_changed u m (Some d)) restored"
    "set restored = {m \<in> released_stash s u d. get_controller s u m = None}"
    using register_events [of u d s] by blast
  ultimately show ?thesis
    by (intro ext) (simp add: fold_mode_changed get_controller_register split: option.split)
next
  case (Op_UnregisterDevice u d)
  then have "s' = fst (unregister_device u d s)" "es = snd (unregister_device u d s)"
    using assms(2) by simp_all
  with unregister_events [OF assms(1), of u d] show ?thesis
    by (auto simp: fold_mode_changed fun_eq_iff get_controller_unregister [OF assms(1)])
next
  case (Op_RequestControl u m d)
  then have "s' = fst (request_control u m d s)" "es = [mode_changed u m (Some d)]"
    using assms(2) by (simp_all add: request_control_def Let_def prod_eq_iff)
  then show ?thesis
    by (auto simp: fun_eq_iff get_controller_request mode_changed_def)
next
  case (Op_ReleaseControl u m d)
  then have "s' = fst (release_control u m d s)" "es = snd (release_control u m d s)"
    using assms(2) by simp_all
  then show ?thesis
    by (auto simp: fun_eq_iff get_controller_release release_events mode_changed_def)
next
  case (Op_ForgetMachine u m)
  then show ?thesis
    using assms(2) by (auto simp: fun_eq_iff clear_machine_get)
qed

lemma exec_lease_ok: "modes_ok s \<Longrightarrow> exec_lease s x = (s', es) \<Longrightarrow> modes_ok s'"
  by (cases x)
    (auto simp: prod_eq_iff modes_ok_register modes_ok_unregister modes_ok_request modes_ok_release
      modes_ok_clear dest!: arg_cong [of _ _ fst])

interpretation leases: mirrored exec_lease get_controller apply_lease_event modes_ok
  by unfold_locales (auto simp: lease_mirrors dest: exec_lease_ok)

interpretation lease_steps: invariant_steps "\<lambda>s x. fst (exec_lease s x)" modes_ok
  by unfold_locales (metis exec_lease_ok prod.collapse)


section \<open>Properties\<close>

definition run_leases :: "mode_map \<Rightarrow> lease_op list \<Rightarrow> mode_map" where
  "run_leases s ops = fst (run_events exec_lease s ops)"

lemma run_leases_simps [simp]:
  "run_leases s [] = s"
  "run_leases s (x # xs) = run_leases (fst (exec_lease s x)) xs"
  by (simp_all add: run_leases_def case_prod_beta)

lemma run_leases_ok: "modes_ok s \<Longrightarrow> modes_ok (run_leases s ops)"
  unfolding run_leases_def using leases.run_mirrors [of s ops] by (metis prod.collapse)


text \<open>The lease state stays well formed: maps without duplicate keys, every socket count
  positive, no empty list of leases set aside, leases set aside only for devices without
  a socket, and no user entry kept when it holds nothing.
\<close>

theorem lease_state_well_formed: "modes_ok (run_leases [] ops)"
  by (rule run_leases_ok [OF modes_ok_Nil])

lemma not_held_step:
  assumes "modes_ok s" "get_controller s u m \<noteq> Some d" "m \<notin> released_stash s u d"
    and "x \<noteq> Op_RequestControl u m d"
  shows "get_controller (fst (exec_lease s x)) u m \<noteq> Some d \<and>
    m \<notin> released_stash (fst (exec_lease s x)) u d"
  using assms
  by (cases x)
    (auto simp: get_controller_register get_controller_unregister get_controller_request
      get_controller_release clear_machine_get released_stash_register released_stash_unregister
      released_stash_request released_stash_release released_stash_clear split: option.splits)

lemma not_held_run:
  assumes "modes_ok s" "get_controller s u m \<noteq> Some d" "m \<notin> released_stash s u d"
    and "Op_RequestControl u m d \<notin> set ops"
  shows "get_controller (run_leases s ops) u m \<noteq> Some d"
  using assms
proof (induction ops arbitrary: s)
  case (Cons x ops)
  then show ?case
    using not_held_step [of s u m d x] exec_lease_ok [of s x]
    by (metis list.set_intros prod.collapse run_leases_simps(2))
qed simp

text \<open>
  C15. An explicit release is final: after a device releases a machine, no sequence of
  connections, disconnections, requests and releases (by it or by others) makes it the
  controller again, unless it asks for that machine itself.
\<close>

theorem release_is_final:
  assumes "Op_RequestControl u m d \<notin> set ops"
  shows "\<not> is_controller
    (run_leases (fst (release_control u m d (run_leases [] before))) ops) u m d"
proof -
  have "modes_ok (run_leases [] before)" by (rule run_leases_ok [OF modes_ok_Nil])
  then show ?thesis
    using not_held_run [OF modes_ok_release _ _ assms]
    by (simp add: is_controller_iff get_controller_release released_stash_release)
qed

theorem release_is_final_witness:
  "\<not> is_controller
    (run_leases (fst (release_control ''u'' ''m'' ''d''
        (run_leases [] [Op_RegisterDevice ''u'' ''d'', Op_RequestControl ''u'' ''m'' ''d'',
           Op_UnregisterDevice ''u'' ''d''])))
      [Op_RegisterDevice ''u'' ''d'']) ''u'' ''m'' ''d''"
  by (rule release_is_final) simp

lemma stash_run:
  assumes "modes_ok s" "m \<in> released_stash s u d"
    and "\<forall>x \<in> set ops. x \<noteq> Op_RegisterDevice u d \<and> x \<noteq> Op_UnregisterDevice u d \<and>
      x \<noteq> Op_ReleaseControl u m d \<and> x \<noteq> Op_ForgetMachine u m"
  shows "m \<in> released_stash (run_leases s ops) u d"
  using assms
proof (induction ops arbitrary: s)
  case (Cons x ops)
  have "m \<in> released_stash (fst (exec_lease s x)) u d"
    using Cons.prems
    by (cases x) (auto simp: released_stash_register released_stash_unregister
        released_stash_request released_stash_release released_stash_clear)
  moreover have "modes_ok (fst (exec_lease s x))"
    using exec_lease_ok [OF Cons.prems(1)] by (metis prod.collapse)
  ultimately show ?case using Cons by simp
qed simp

text \<open>A device whose last socket went gets a machine back when it reconnects, whatever
  the other devices did in between, unless one of them holds the machine by then, in
  which case that one keeps it.
\<close>

theorem reconnection_restores_lease:
  assumes "s = run_leases [] before"
    and "rc_count (mo_connected_devices (mode_of s u)) d = 1" "is_controller s u m d"
    and "\<forall>x \<in> set ops. x \<noteq> Op_RegisterDevice u d \<and> x \<noteq> Op_UnregisterDevice u d \<and>
      x \<noteq> Op_ReleaseControl u m d \<and> x \<noteq> Op_ForgetMachine u m"
    and "s' = run_leases (fst (unregister_device u d s)) ops"
  shows "get_controller (fst (register_device u d s')) u m =
    (case get_controller s' u m of Some c \<Rightarrow> Some c | None \<Rightarrow> Some d)"
proof -
  have ok: "modes_ok s" unfolding assms(1) by (rule run_leases_ok [OF modes_ok_Nil])
  then have "m \<in> released_stash (fst (unregister_device u d s)) u d"
    using assms(2,3) by (simp add: released_stash_unregister is_controller_iff)
  then have "m \<in> released_stash s' u d"
    unfolding assms(5) by (rule stash_run [OF modes_ok_unregister [OF ok] _ assms(4)])
  then show ?thesis by (simp add: get_controller_register)
qed

theorem reconnection_restores_lease_witness:
  "let s = run_leases [] [Op_RegisterDevice ''u'' ''d'', Op_RequestControl ''u'' ''m'' ''d''];
       s' = run_leases (fst (unregister_device ''u'' ''d'' s)) [Op_RegisterDevice ''u'' ''e'']
   in get_controller s' ''u'' ''m'' = None \<and>
      get_controller (fst (register_device ''u'' ''d'' s')) ''u'' ''m'' = Some ''d''"
proof -
  let ?s = "run_leases [] [Op_RegisterDevice ''u'' ''d'', Op_RequestControl ''u'' ''m'' ''d'']"
  let ?s' = "run_leases (fst (unregister_device ''u'' ''d'' ?s)) [Op_RegisterDevice ''u'' ''e'']"
  note defs = register_device_def request_control_def mode_of_def new_mode_state_def rc_inc_def
    rc_count_def unregister_device_def disconnect_device_def leases_of_def store_mode_def
    mode_is_empty_def get_controller_def is_controller_def hmap_defs Let_def
  have "get_controller ?s' ''u'' ''m'' = None" by (simp add: defs)
  moreover have "get_controller (fst (register_device ''u'' ''d'' ?s')) ''u'' ''m'' =
      (case get_controller ?s' ''u'' ''m'' of Some c \<Rightarrow> Some c | None \<Rightarrow> Some ''d'')"
    by (rule reconnection_restores_lease [OF refl _ _ _ refl]) (simp_all add: defs)
  ultimately show ?thesis by (simp add: Let_def)
qed

lemma socket_count_register:
  "rc_count (mo_connected_devices (mode_of (fst (register_device u d s)) u)) d =
     rc_count (mo_connected_devices (mode_of s u)) d + 1"
  by (simp add: register_device_mode rc_inc_count)

lemma socket_count_unregister:
  assumes "modes_ok s"
  shows "rc_count (mo_connected_devices (mode_of (fst (unregister_device u d s)) u)) d =
     rc_count (mo_connected_devices (mode_of s u)) d - 1"
proof (cases "hget s u")
  case None
  then show ?thesis
    by (simp add: unregister_device_def mode_of_def new_mode_state_def rc_count_def hm_laws)
next
  case (Some mode)
  note mode = mode_okD [OF modes_ok_hget [OF assms Some]]
  have "mode_of s u = mode" using Some by (simp add: mode_of_def)
  then show ?thesis
    by (simp add: unregister_device_Some [OF Some] Let_def disconnect_device_count [OF mode(4)])
qed

lemma register_without_stash:
  "released_stash t u d = {} \<Longrightarrow> get_controller (fst (register_device u d t)) = get_controller t"
  by (auto simp: get_controller_register fun_eq_iff split: option.splits)

lemma more_sockets:
  assumes "modes_ok s"
  shows "let t = ((\<lambda>s. fst (register_device u d s)) ^^ Suc n) s
    in modes_ok t \<and> get_controller t = get_controller (fst (register_device u d s)) \<and>
       released_stash t u d = {} \<and>
       rc_count (mo_connected_devices (mode_of t u)) d =
         Suc n + rc_count (mo_connected_devices (mode_of s u)) d"
proof (induction n)
  case 0
  then show ?case
    using assms by (simp add: modes_ok_register released_stash_register socket_count_register)
next
  case (Suc n)
  define t where "t = ((\<lambda>s. fst (register_device u d s)) ^^ Suc n) s"
  from Suc have "modes_ok t \<and> get_controller t = get_controller (fst (register_device u d s)) \<and>
      released_stash t u d = {} \<and> rc_count (mo_connected_devices (mode_of t u)) d =
        Suc n + rc_count (mo_connected_devices (mode_of s u)) d"
    unfolding Let_def t_def .
  moreover have "((\<lambda>s. fst (register_device u d s)) ^^ Suc (Suc n)) s = fst (register_device u d t)"
    by (simp add: t_def)
  ultimately show ?case
    by (simp only: Let_def)
      (simp add: modes_ok_register released_stash_register socket_count_register
        register_without_stash)
qed

text \<open>A device keeps its leases until its last socket goes: after \<open>n + 1\<close> connections, up
  to \<open>n\<close> disconnections change nobody's lease.
\<close>

theorem leases_survive_all_but_last_socket:
  assumes "k \<le> n" "s = run_leases [] before"
  shows "get_controller (((\<lambda>s. fst (unregister_device u d s)) ^^ k)
      (((\<lambda>s. fst (register_device u d s)) ^^ Suc n) s)) =
    get_controller (fst (register_device u d s))"
proof -
  have ok: "modes_ok s" unfolding assms(2) by (rule run_leases_ok [OF modes_ok_Nil])
  define t where "t = ((\<lambda>s. fst (register_device u d s)) ^^ Suc n) s"
  have t: "modes_ok t" "get_controller t = get_controller (fst (register_device u d s))"
    "n < rc_count (mo_connected_devices (mode_of t u)) d"
    using more_sockets [OF ok, where u = u and d = d and n = n] by (simp_all add: t_def Let_def)
  have "modes_ok (((\<lambda>s. fst (unregister_device u d s)) ^^ k) t) \<and>
      get_controller (((\<lambda>s. fst (unregister_device u d s)) ^^ k) t) = get_controller t \<and>
      rc_count (mo_connected_devices (mode_of (((\<lambda>s. fst (unregister_device u d s)) ^^ k) t) u)) d =
        rc_count (mo_connected_devices (mode_of t u)) d - k"
    using assms(1)
  proof (induction k)
    case (Suc k)
    then show ?case
      using t(3) by (auto simp: modes_ok_unregister get_controller_unregister
          socket_count_unregister fun_eq_iff)
  qed (simp add: t(1))
  with t(2) show ?thesis by (simp add: t_def)
qed

theorem leases_survive_all_but_last_socket_witness:
  "get_controller (((\<lambda>s. fst (unregister_device ''u'' ''d'' s)) ^^ 1)
      (((\<lambda>s. fst (register_device ''u'' ''d'' s)) ^^ Suc 1)
        (run_leases [] [Op_RequestControl ''u'' ''m'' ''d'']))) =
    get_controller (fst (register_device ''u'' ''d''
      (run_leases [] [Op_RequestControl ''u'' ''m'' ''d''])))"
  by (rule leases_survive_all_but_last_socket [OF _ refl]) simp



end
