(* ===== verification/Store.thy ===== *)
theory Store
  imports EventBus "HOL-Library.List_Lexorder" "HOL-Library.Product_Lexorder"
    "HOL-Library.Char_ord"
begin

text \<open>
  The hub's database: its tables (\<^verbatim>\<open>crates/hub/src/db/mod.rs\<close>, \<^verbatim>\<open>db/types.rs\<close>) and what the
  statements on machines, terminals, workspace tabs and pane layouts do
  (\<^verbatim>\<open>db/machines.rs\<close>, \<^verbatim>\<open>db/terminal_sessions.rs\<close>, \<^verbatim>\<open>db/workspace_groups.rs\<close>,
  \<^verbatim>\<open>db/workspace_layouts.rs\<close>). A table is the list of its rows in rowid order; a
  statement that violates a key or a foreign key changes nothing and yields \<^const>\<open>None\<close>.
  I/O errors of SQLite are not modelled. The clock (\<^verbatim>\<open>now_ms\<close>) is an argument.

  The lemmas show that keys and references always hold, how a terminal's title is decided
  between its program and its process name, and that a pane layout saved by one device is
  never overwritten unseen by another.
\<close>

section \<open>Rows\<close>

record machine_row =
  mr_id :: ident
  mr_user_id :: ident
  mr_name :: ustr
  mr_machine_secret_hash :: ident
  mr_status :: string
  mr_os :: "ustr option"
  mr_home_dir :: "ustr option"
  mr_last_seen_at :: "ms option"
  mr_created_at :: ms
  mr_production :: bool

record workspace_group_row =
  wr_id :: ident
  wr_user_id :: ident
  wr_machine_id :: ident
  wr_name :: ustr
  wr_sort_order :: int
  wr_created_at :: ms

record workspace_layout_row =
  wy_user_id :: ident
  wy_machine_id :: ident
  wy_group_key :: ident
  wy_root_json :: json
  wy_updated_at :: ms

record terminal_session_row =
  ts_id :: ident
  ts_machine_id :: ident
  ts_title :: ustr
  ts_title_source :: string
  ts_cwd :: ustr
  ts_workspace_group_id :: "ident option"
  ts_cols :: int
  ts_rows :: int
  ts_created_at :: ms
  ts_destroyed_at :: "ms option"
  ts_opened_by_kind :: "string option"
  ts_opened_by_label :: "ustr option"

text \<open>
  Agent runs. Enumerations are stored by name and read back by name, which is the identity
  (the round-trip lemmas of \<^verbatim>\<open>Protocol\<close>), so a row holds the enumeration itself.
\<close>

record agent_run_row =
  rr_id :: ident
  rr_machine_id :: ident
  rr_terminal_id :: "ident option"
  rr_agent :: run_agent
  rr_cwd :: ustr
  rr_status :: agent_run_status
  rr_started_at :: ms
  rr_updated_at :: ms
  rr_ended_at :: "ms option"
  rr_progress :: "agent_run_progress option"
  rr_report :: "agent_run_report option"
  rr_label :: "ustr option"
  rr_external_ref :: "ustr option"

record agent_run_request_row =
  qr_id :: ident
  qr_run_id :: ident
  qr_kind :: agent_request_kind
  qr_prompt :: "ustr option"
  qr_options :: "agent_question_option list"
  qr_source :: ident
  qr_created_at :: ms
  qr_resolved_at :: "ms option"
  qr_resolution :: "string option"
  qr_answered_at :: "ms option"
  qr_answer :: "json_value option"

record agent_run_event_row =
  er_run_id :: ident
  er_seq :: int
  er_kind :: string
  er_event_json :: json_value
  er_created_at :: ms

text \<open>A workspace group's row carries \<^verbatim>\<open>auto_created\<close>, which \<^verbatim>\<open>WorkspaceGroupRow\<close> leaves out.\<close>

record database =
  db_users :: "ident list"
  db_machines :: "machine_row list"
  db_workspace_groups :: "(workspace_group_row \<times> bool) list"
  db_workspace_layouts :: "workspace_layout_row list"
  db_terminal_sessions :: "terminal_session_row list"
  db_agent_runs :: "agent_run_row list"
  db_agent_run_requests :: "agent_run_request_row list"
  db_agent_run_events :: "agent_run_event_row list"
  db_hub_state :: hub_state_table

definition empty_db :: "ident list \<Rightarrow> database" where
  "empty_db users = \<lparr>db_users = users, db_machines = [], db_workspace_groups = [],
     db_workspace_layouts = [], db_terminal_sessions = [], db_agent_runs = [],
     db_agent_run_requests = [], db_agent_run_events = [], db_hub_state = []\<rparr>"

text \<open>\<^verbatim>\<open>UPDATE \<dots> SET f WHERE P\<close>\<close>

definition update_where :: "('r \<Rightarrow> bool) \<Rightarrow> ('r \<Rightarrow> 'r) \<Rightarrow> 'r list \<Rightarrow> 'r list" where
  "update_where P f rows = map (\<lambda>r. if P r then f r else r) rows"

section \<open>Machines\<close>

definition find_machine_by_id :: "database \<Rightarrow> ident \<Rightarrow> machine_row option" where
  "find_machine_by_id conn machine_id = find (\<lambda>r. mr_id r = machine_id) (db_machines conn)"

definition find_machines_by_user :: "database \<Rightarrow> ident \<Rightarrow> machine_row list" where
  "find_machines_by_user conn user_id = filter (\<lambda>r. mr_user_id r = user_id) (db_machines conn)"

definition create_machine ::
  "ms \<Rightarrow> ident \<Rightarrow> ident \<Rightarrow> ustr \<Rightarrow> ident \<Rightarrow> database \<Rightarrow> (database \<times> machine_row) option" where
  "create_machine now mid user_id nm secret_hash conn =
     (if mid \<in> mr_id ` set (db_machines conn) \<or> user_id \<notin> set (db_users conn) then None
      else let row = \<lparr>mr_id = mid, mr_user_id = user_id, mr_name = nm,
                 mr_machine_secret_hash = secret_hash, mr_status = ''offline'', mr_os = None,
                 mr_home_dir = None, mr_last_seen_at = None, mr_created_at = now,
                 mr_production = False\<rparr>
           in Some (conn\<lparr>db_machines := db_machines conn @ [row]\<rparr>, row))"

text \<open>\<^verbatim>\<open>INSERT OR IGNORE\<close> ignores a taken id; a missing user still fails it.\<close>

definition ensure_machine_for_user ::
  "ms \<Rightarrow> ident \<Rightarrow> ident \<Rightarrow> ustr \<Rightarrow> ustr option \<Rightarrow> ustr option \<Rightarrow> database \<Rightarrow> database option"
where
  "ensure_machine_for_user now mid user_id nm os home_dir conn =
     (let taken = mid \<in> mr_id ` set (db_machines conn) in
      if \<not> taken \<and> user_id \<notin> set (db_users conn) then None
      else
        let row = \<lparr>mr_id = mid, mr_user_id = user_id, mr_name = nm, mr_machine_secret_hash = [],
              mr_status = ''online'', mr_os = os, mr_home_dir = home_dir,
              mr_last_seen_at = Some now, mr_created_at = now, mr_production = False\<rparr>;
            machines = (if taken then db_machines conn else db_machines conn @ [row])
        in Some (conn\<lparr>db_machines := update_where (\<lambda>r. mr_id r = mid \<and> mr_user_id r = user_id)
             (\<lambda>r. r\<lparr>mr_name := nm, mr_status := ''online'', mr_os := os, mr_home_dir := home_dir,
                    mr_last_seen_at := Some now\<rparr>) machines\<rparr>))"

definition update_machine_status :: "ms \<Rightarrow> ident \<Rightarrow> string \<Rightarrow> database \<Rightarrow> database" where
  "update_machine_status now machine_id status conn =
     conn\<lparr>db_machines := update_where (\<lambda>r. mr_id r = machine_id)
       (\<lambda>r. r\<lparr>mr_status := status, mr_last_seen_at := Some now\<rparr>) (db_machines conn)\<rparr>"

definition update_machine_info ::
  "ident \<Rightarrow> ustr option \<Rightarrow> ustr option \<Rightarrow> database \<Rightarrow> database" where
  "update_machine_info machine_id os home_dir conn =
     conn\<lparr>db_machines := update_where (\<lambda>r. mr_id r = machine_id)
       (\<lambda>r. r\<lparr>mr_os := os, mr_home_dir := home_dir\<rparr>) (db_machines conn)\<rparr>"

definition set_machine_production :: "ident \<Rightarrow> bool \<Rightarrow> database \<Rightarrow> database" where
  "set_machine_production machine_id production conn =
     conn\<lparr>db_machines := update_where (\<lambda>r. mr_id r = machine_id)
       (\<lambda>r. r\<lparr>mr_production := production\<rparr>) (db_machines conn)\<rparr>"

text \<open>
  Deleting a machine takes with it, by \<^verbatim>\<open>ON DELETE CASCADE\<close>, its tabs, layouts, terminals
  and runs, and by the runs their requests and events; a terminal of another machine that
  sat in one of its tabs loses the tab (\<^verbatim>\<open>ON DELETE SET NULL\<close>).
\<close>

definition delete_machine :: "ident \<Rightarrow> database \<Rightarrow> database" where
  "delete_machine machine_id conn =
     (let gone_groups = map (wr_id \<circ> fst)
            (filter (\<lambda>(g, _). wr_machine_id g = machine_id) (db_workspace_groups conn));
          gone_runs = map rr_id (filter (\<lambda>r. rr_machine_id r = machine_id) (db_agent_runs conn))
      in conn\<lparr>db_machines := filter (\<lambda>r. mr_id r \<noteq> machine_id) (db_machines conn),
              db_workspace_groups :=
                filter (\<lambda>(g, _). wr_machine_id g \<noteq> machine_id) (db_workspace_groups conn),
              db_workspace_layouts :=
                filter (\<lambda>l. wy_machine_id l \<noteq> machine_id) (db_workspace_layouts conn),
              db_terminal_sessions :=
                update_where (\<lambda>t. \<exists>g \<in> set gone_groups. ts_workspace_group_id t = Some g)
                  (\<lambda>t. t\<lparr>ts_workspace_group_id := None\<rparr>)
                  (filter (\<lambda>t. ts_machine_id t \<noteq> machine_id) (db_terminal_sessions conn)),
              db_agent_runs := filter (\<lambda>r. rr_machine_id r \<noteq> machine_id) (db_agent_runs conn),
              db_agent_run_requests :=
                filter (\<lambda>q. qr_run_id q \<notin> set gone_runs) (db_agent_run_requests conn),
              db_agent_run_events :=
                filter (\<lambda>e. er_run_id e \<notin> set gone_runs) (db_agent_run_events conn)\<rparr>)"

section \<open>Terminals\<close>

datatype title_update_outcome = Title_Updated | Title_Unchanged | Title_Rejected

fun title_source_name :: "terminal_title_source \<Rightarrow> string" where
  "title_source_name Src_Osc = ''osc''"
| "title_source_name Src_Process = ''process''"
| "title_source_name Src_None = ''none''"

definition title_source_from_name :: "string \<Rightarrow> terminal_title_source" where
  "title_source_from_name nm =
     (if nm = ''osc'' then Src_Osc else if nm = ''process'' then Src_Process else Src_None)"

definition find_by_id :: "database \<Rightarrow> ident \<Rightarrow> terminal_session_row option" where
  "find_by_id conn tid = find (\<lambda>r. ts_id r = tid) (db_terminal_sessions conn)"

definition apply_cwd_update :: "ident \<Rightarrow> ustr \<Rightarrow> database \<Rightarrow> database \<times> bool" where
  "apply_cwd_update tid cwd conn =
     (let P = (\<lambda>r. ts_id r = tid \<and> ts_destroyed_at r = None \<and> ts_cwd r \<noteq> cwd)
      in (conn\<lparr>db_terminal_sessions :=
             update_where P (\<lambda>r. r\<lparr>ts_cwd := cwd\<rparr>) (db_terminal_sessions conn)\<rparr>,
          list_ex P (db_terminal_sessions conn)))"

definition insert_terminal ::
  "ms \<Rightarrow> ident \<Rightarrow> ident \<Rightarrow> ustr \<Rightarrow> ustr \<Rightarrow> u16 \<Rightarrow> u16 \<Rightarrow> database \<Rightarrow> database option" where
  "insert_terminal now tid machine_id title cwd cols rows conn =
     (if machine_id \<notin> mr_id ` set (db_machines conn) then None
      else if tid \<in> ts_id ` set (db_terminal_sessions conn) then
        Some (conn\<lparr>db_terminal_sessions := update_where (\<lambda>r. ts_id r = tid)
          (\<lambda>r. r\<lparr>ts_machine_id := machine_id,
                 ts_title := (if title = [] then ts_title r else title),
                 ts_cwd := cwd, ts_cols := uint cols, ts_rows := uint rows,
                 ts_destroyed_at := None\<rparr>) (db_terminal_sessions conn)\<rparr>)
      else
        Some (conn\<lparr>db_terminal_sessions := db_terminal_sessions conn @
          [\<lparr>ts_id = tid, ts_machine_id = machine_id, ts_title = title, ts_title_source = ''none'',
            ts_cwd = cwd, ts_workspace_group_id = None, ts_cols = uint cols, ts_rows = uint rows,
            ts_created_at = now, ts_destroyed_at = None, ts_opened_by_kind = None,
            ts_opened_by_label = None\<rparr>]\<rparr>))"

definition mark_destroyed :: "ms \<Rightarrow> ident \<Rightarrow> database \<Rightarrow> database" where
  "mark_destroyed now tid conn =
     conn\<lparr>db_terminal_sessions := update_where (\<lambda>r. ts_id r = tid \<and> ts_destroyed_at r = None)
       (\<lambda>r. r\<lparr>ts_destroyed_at := Some now\<rparr>) (db_terminal_sessions conn)\<rparr>"

definition update_size :: "ident \<Rightarrow> u16 \<Rightarrow> u16 \<Rightarrow> database \<Rightarrow> database" where
  "update_size tid cols rows conn =
     conn\<lparr>db_terminal_sessions := update_where (\<lambda>r. ts_id r = tid)
       (\<lambda>r. r\<lparr>ts_cols := uint cols, ts_rows := uint rows\<rparr>) (db_terminal_sessions conn)\<rparr>"

definition update_metadata ::
  "ident \<Rightarrow> ustr \<Rightarrow> ustr \<Rightarrow> u16 \<Rightarrow> u16 \<Rightarrow> database \<Rightarrow> database" where
  "update_metadata tid title cwd cols rows conn =
     conn\<lparr>db_terminal_sessions := update_where (\<lambda>r. ts_id r = tid)
       (\<lambda>r. r\<lparr>ts_title := title, ts_cwd := cwd, ts_cols := uint cols, ts_rows := uint rows\<rparr>)
       (db_terminal_sessions conn)\<rparr>"

definition apply_title_update ::
  "ident \<Rightarrow> ustr \<Rightarrow> terminal_title_source \<Rightarrow> database \<Rightarrow> database \<times> title_update_outcome" where
  "apply_title_update tid title src conn =
     (case find (\<lambda>r. ts_id r = tid \<and> ts_destroyed_at r = None) (db_terminal_sessions conn) of
        None \<Rightarrow> (conn, Title_Rejected)
      | Some r \<Rightarrow>
          let next_source = title_source_name src in
          if title = [] \<and> ts_title r = [] then (conn, Title_Unchanged)
          else if ts_title_source r = ''osc'' \<and> src = Src_Process then (conn, Title_Rejected)
          else if ts_title r = title \<and> ts_title_source r = next_source then (conn, Title_Unchanged)
          else (conn\<lparr>db_terminal_sessions := update_where (\<lambda>r. ts_id r = tid)
                  (\<lambda>r. r\<lparr>ts_title := title, ts_title_source := next_source\<rparr>)
                  (db_terminal_sessions conn)\<rparr>,
                Title_Updated))"

definition group_exists :: "database \<Rightarrow> ident option \<Rightarrow> bool" where
  "group_exists conn g \<longleftrightarrow>
     (case g of None \<Rightarrow> True | Some g \<Rightarrow> g \<in> (wr_id \<circ> fst) ` set (db_workspace_groups conn))"

definition assign_workspace_group :: "ident \<Rightarrow> ident option \<Rightarrow> database \<Rightarrow> database option" where
  "assign_workspace_group tid g conn =
     (if \<not> group_exists conn g \<and> tid \<in> ts_id ` set (db_terminal_sessions conn) then None
      else Some (conn\<lparr>db_terminal_sessions := update_where (\<lambda>r. ts_id r = tid)
        (\<lambda>r. r\<lparr>ts_workspace_group_id := g\<rparr>) (db_terminal_sessions conn)\<rparr>))"

definition clear_workspace_group :: "ident \<Rightarrow> database \<Rightarrow> database" where
  "clear_workspace_group g conn =
     conn\<lparr>db_terminal_sessions := update_where (\<lambda>r. ts_workspace_group_id r = Some g)
       (\<lambda>r. r\<lparr>ts_workspace_group_id := None\<rparr>) (db_terminal_sessions conn)\<rparr>"

definition count_active_in_workspace_group :: "database \<Rightarrow> ident \<Rightarrow> nat" where
  "count_active_in_workspace_group conn g =
     length (filter (\<lambda>r. ts_workspace_group_id r = Some g \<and> ts_destroyed_at r = None)
       (db_terminal_sessions conn))"

definition find_active_by_machine :: "database \<Rightarrow> ident \<Rightarrow> terminal_session_row list" where
  "find_active_by_machine conn machine_id =
     sort_key (\<lambda>r. (ts_created_at r, ts_id r))
       (filter (\<lambda>r. ts_machine_id r = machine_id \<and> ts_destroyed_at r = None)
         (db_terminal_sessions conn))"

definition find_all_active :: "database \<Rightarrow> terminal_session_row list" where
  "find_all_active conn =
     sort_key (\<lambda>r. (ts_machine_id r, ts_created_at r, ts_id r))
       (filter (\<lambda>r. ts_destroyed_at r = None) (db_terminal_sessions conn))"

definition set_opened_by :: "ident \<Rightarrow> terminal_opener \<Rightarrow> database \<Rightarrow> database" where
  "set_opened_by tid opener conn =
     conn\<lparr>db_terminal_sessions := update_where (\<lambda>r. ts_id r = tid)
       (\<lambda>r. r\<lparr>ts_opened_by_kind := Some (opener_kind_as_str (to_kind opener)),
              ts_opened_by_label := to_label opener\<rparr>) (db_terminal_sessions conn)\<rparr>"

definition opener_from_row :: "terminal_session_row \<Rightarrow> terminal_opener option" where
  "opener_from_row row =
     (case ts_opened_by_kind row of
        None \<Rightarrow> None
      | Some k \<Rightarrow> (case opener_kind_from_name k of
                    None \<Rightarrow> None
                  | Some kind \<Rightarrow> Some \<lparr>to_kind = kind, to_label = ts_opened_by_label row\<rparr>))"

section \<open>Workspace tabs\<close>

text \<open>
  Text is ordered by its bytes in the database; on UTF-8 that is the order of the code
  points, so the list order of \<^typ>\<open>ustr\<close>.
\<close>

definition group_of :: "ident \<Rightarrow> ident \<Rightarrow> ident \<Rightarrow> workspace_group_row \<times> bool \<Rightarrow> bool" where
  "group_of user_id machine_id group_id g \<longleftrightarrow>
     wr_id (fst g) = group_id \<and> wr_user_id (fst g) = user_id \<and> wr_machine_id (fst g) = machine_id"

definition find_workspace_groups_by_user :: "database \<Rightarrow> ident \<Rightarrow> workspace_group_row list" where
  "find_workspace_groups_by_user conn user_id =
     sort_key (\<lambda>g. (wr_machine_id g, wr_sort_order g, wr_name g))
       (filter (\<lambda>g. wr_user_id g = user_id) (map fst (db_workspace_groups conn)))"

definition find_workspace_groups_by_machine ::
  "database \<Rightarrow> ident \<Rightarrow> ident \<Rightarrow> workspace_group_row list" where
  "find_workspace_groups_by_machine conn user_id machine_id =
     sort_key (\<lambda>g. (wr_sort_order g, wr_name g))
       (filter (\<lambda>g. wr_user_id g = user_id \<and> wr_machine_id g = machine_id)
         (map fst (db_workspace_groups conn)))"

definition workspace_group_belongs_to_machine ::
  "database \<Rightarrow> ident \<Rightarrow> ident \<Rightarrow> ident \<Rightarrow> bool" where
  "workspace_group_belongs_to_machine conn user_id machine_id group_id =
     (0 < length (filter (group_of user_id machine_id group_id) (db_workspace_groups conn)))"

definition insert_workspace_group ::
  "ms \<Rightarrow> ident \<Rightarrow> ident \<Rightarrow> ident \<Rightarrow> ustr \<Rightarrow> int \<Rightarrow> bool \<Rightarrow> database
     \<Rightarrow> (database \<times> workspace_group_row) option" where
  "insert_workspace_group now gid user_id machine_id nm sort_order auto_created conn =
     (if gid \<in> (wr_id \<circ> fst) ` set (db_workspace_groups conn)
         \<or> user_id \<notin> set (db_users conn) \<or> machine_id \<notin> mr_id ` set (db_machines conn) then None
      else let row = \<lparr>wr_id = gid, wr_user_id = user_id, wr_machine_id = machine_id, wr_name = nm,
                 wr_sort_order = sort_order, wr_created_at = now\<rparr>
           in Some (conn\<lparr>db_workspace_groups := db_workspace_groups conn @ [(row, auto_created)]\<rparr>,
                    row))"

definition create_workspace_group ::
  "ms \<Rightarrow> ident \<Rightarrow> ident \<Rightarrow> ident \<Rightarrow> ustr \<Rightarrow> int \<Rightarrow> database
     \<Rightarrow> (database \<times> workspace_group_row) option" where
  "create_workspace_group now gid user_id machine_id nm sort_order conn =
     insert_workspace_group now gid user_id machine_id nm sort_order False conn"

definition create_auto_workspace_group ::
  "ms \<Rightarrow> ident \<Rightarrow> ident \<Rightarrow> ident \<Rightarrow> ustr \<Rightarrow> int \<Rightarrow> database
     \<Rightarrow> (database \<times> workspace_group_row) option" where
  "create_auto_workspace_group now gid user_id machine_id nm sort_order conn =
     insert_workspace_group now gid user_id machine_id nm sort_order True conn"

definition update_workspace_group_sort_order ::
  "ident \<Rightarrow> ident \<Rightarrow> ident \<Rightarrow> int \<Rightarrow> database \<Rightarrow> database \<times> nat" where
  "update_workspace_group_sort_order user_id machine_id group_id sort_order conn =
     (let P = group_of user_id machine_id group_id
      in (conn\<lparr>db_workspace_groups := update_where P
             (\<lambda>(g, auto). (g\<lparr>wr_sort_order := sort_order\<rparr>, auto)) (db_workspace_groups conn)\<rparr>,
          length (filter P (db_workspace_groups conn))))"

definition update_workspace_group_name ::
  "ident \<Rightarrow> ident \<Rightarrow> ident \<Rightarrow> ustr \<Rightarrow> database \<Rightarrow> database \<times> nat" where
  "update_workspace_group_name user_id machine_id group_id nm conn =
     (let P = group_of user_id machine_id group_id
      in (conn\<lparr>db_workspace_groups := update_where P
             (\<lambda>(g, auto). (g\<lparr>wr_name := nm\<rparr>, False)) (db_workspace_groups conn)\<rparr>,
          length (filter P (db_workspace_groups conn))))"

text \<open>Deleting a tab leaves its terminals without one (\<^verbatim>\<open>ON DELETE SET NULL\<close>).\<close>

definition delete_groups_where ::
  "(workspace_group_row \<times> bool \<Rightarrow> bool) \<Rightarrow> database \<Rightarrow> database \<times> nat" where
  "delete_groups_where P conn =
     (let gone = map (wr_id \<circ> fst) (filter P (db_workspace_groups conn))
      in (conn\<lparr>db_workspace_groups := filter (\<lambda>g. \<not> P g) (db_workspace_groups conn),
               db_terminal_sessions :=
                 update_where (\<lambda>t. \<exists>g \<in> set gone. ts_workspace_group_id t = Some g)
                   (\<lambda>t. t\<lparr>ts_workspace_group_id := None\<rparr>) (db_terminal_sessions conn)\<rparr>,
          length gone))"

definition delete_workspace_group_if_auto ::
  "ident \<Rightarrow> ident \<Rightarrow> ident \<Rightarrow> database \<Rightarrow> database \<times> nat" where
  "delete_workspace_group_if_auto user_id machine_id group_id conn =
     delete_groups_where (\<lambda>g. group_of user_id machine_id group_id g \<and> snd g) conn"

definition delete_workspace_group ::
  "ident \<Rightarrow> ident \<Rightarrow> ident \<Rightarrow> database \<Rightarrow> database \<times> nat" where
  "delete_workspace_group user_id machine_id group_id conn =
     delete_groups_where (group_of user_id machine_id group_id) conn"

definition next_sort_order :: "database \<Rightarrow> ident \<Rightarrow> ident \<Rightarrow> int" where
  "next_sort_order conn user_id machine_id =
     (case map wr_sort_order (filter (\<lambda>g. wr_user_id g = user_id \<and> wr_machine_id g = machine_id)
                               (map fst (db_workspace_groups conn))) of
        [] \<Rightarrow> 0
      | x # xs \<Rightarrow> fold max xs x + 1)"

definition workspace_group_name_from_cwd :: "ustr \<Rightarrow> ustr" where
  "workspace_group_name_from_cwd cwd =
     (case find (\<lambda>segment. segment \<noteq> [])
             (rev (split_on 47 (trim_end_matches (\<lambda>c. c = 47) cwd))) of
        Some segment \<Rightarrow> segment
      | None \<Rightarrow> if cwd = [] then lit ''workspace'' else cwd)"

section \<open>Pane layouts\<close>

datatype layout_error = Layout_Conflict | Layout_Db

definition layout_key :: "workspace_layout_row \<Rightarrow> ident \<times> ident \<times> ident" where
  "layout_key l = (wy_user_id l, wy_machine_id l, wy_group_key l)"

definition find_workspace_layouts_by_user :: "database \<Rightarrow> ident \<Rightarrow> workspace_layout_row list" where
  "find_workspace_layouts_by_user conn user_id =
     sort_key (\<lambda>l. (wy_machine_id l, wy_group_key l))
       (filter (\<lambda>l. wy_user_id l = user_id) (db_workspace_layouts conn))"

definition find_workspace_layouts_by_machine ::
  "database \<Rightarrow> ident \<Rightarrow> ident \<Rightarrow> workspace_layout_row list" where
  "find_workspace_layouts_by_machine conn user_id machine_id =
     sort_key wy_group_key
       (filter (\<lambda>l. wy_user_id l = user_id \<and> wy_machine_id l = machine_id)
         (db_workspace_layouts conn))"

definition find_workspace_layout ::
  "database \<Rightarrow> ident \<Rightarrow> ident \<Rightarrow> ident \<Rightarrow> workspace_layout_row option" where
  "find_workspace_layout conn user_id machine_id group_key =
     find (\<lambda>l. layout_key l = (user_id, machine_id, group_key)) (db_workspace_layouts conn)"

text \<open>The upsert all three writers end in.\<close>

definition write_layout :: "workspace_layout_row \<Rightarrow> database \<Rightarrow> database option" where
  "write_layout row conn =
     (if wy_user_id row \<notin> set (db_users conn)
         \<or> wy_machine_id row \<notin> mr_id ` set (db_machines conn) then None
      else if layout_key row \<in> layout_key ` set (db_workspace_layouts conn) then
        Some (conn\<lparr>db_workspace_layouts := update_where (\<lambda>l. layout_key l = layout_key row)
          (\<lambda>l. l\<lparr>wy_root_json := wy_root_json row, wy_updated_at := wy_updated_at row\<rparr>)
          (db_workspace_layouts conn)\<rparr>)
      else Some (conn\<lparr>db_workspace_layouts := db_workspace_layouts conn @ [row]\<rparr>))"

definition next_updated_at :: "ms \<Rightarrow> workspace_layout_row option \<Rightarrow> ms" where
  "next_updated_at now existing =
     (case existing of Some row \<Rightarrow> max (wy_updated_at row + 1) now | None \<Rightarrow> now)"

definition upsert_workspace_layout ::
  "ms \<Rightarrow> ident \<Rightarrow> ident \<Rightarrow> ident \<Rightarrow> json \<Rightarrow> database \<Rightarrow> (database \<times> workspace_layout_row) option"
where
  "upsert_workspace_layout now user_id machine_id group_key root_json conn =
     (let updated_at = next_updated_at now (find_workspace_layout conn user_id machine_id group_key);
          row = \<lparr>wy_user_id = user_id, wy_machine_id = machine_id, wy_group_key = group_key,
                 wy_root_json = root_json, wy_updated_at = updated_at\<rparr>
      in (case write_layout row conn of None \<Rightarrow> None | Some conn' \<Rightarrow> Some (conn', row)))"

definition workspace_layout_base_conflicts :: "ms option \<Rightarrow> int \<Rightarrow> bool" where
  "workspace_layout_base_conflicts existing_updated_at base_updated_at =
     (if base_updated_at < 0 then existing_updated_at \<noteq> None
      else (case existing_updated_at of
              Some updated_at \<Rightarrow> updated_at > base_updated_at
            | None \<Rightarrow> True))"

definition upsert_workspace_layout_checked ::
  "ms \<Rightarrow> ident \<Rightarrow> ident \<Rightarrow> ident \<Rightarrow> json \<Rightarrow> int \<Rightarrow> database
     \<Rightarrow> layout_error + (database \<times> workspace_layout_row)" where
  "upsert_workspace_layout_checked now user_id machine_id group_key root_json base_updated_at conn =
     (let existing = find_workspace_layout conn user_id machine_id group_key in
      if workspace_layout_base_conflicts (map_option wy_updated_at existing) base_updated_at then
        Inl Layout_Conflict
      else
        let row = \<lparr>wy_user_id = user_id, wy_machine_id = machine_id, wy_group_key = group_key,
                   wy_root_json = root_json, wy_updated_at = next_updated_at now existing\<rparr>
        in (case write_layout row conn of None \<Rightarrow> Inl Layout_Db | Some conn' \<Rightarrow> Inr (conn', row)))"

definition delete_workspace_layout :: "ident \<Rightarrow> ident \<Rightarrow> ident \<Rightarrow> database \<Rightarrow> database \<times> nat" where
  "delete_workspace_layout user_id machine_id group_key conn =
     (let P = (\<lambda>l. layout_key l = (user_id, machine_id, group_key))
      in (conn\<lparr>db_workspace_layouts := filter (\<lambda>l. \<not> P l) (db_workspace_layouts conn)\<rparr>,
          length (filter P (db_workspace_layouts conn))))"

text \<open>A checked delete leaves a tombstone: the layout \<^verbatim>\<open>null\<close>, newer than what it replaces.\<close>

definition delete_workspace_layout_checked ::
  "ms \<Rightarrow> ident \<Rightarrow> ident \<Rightarrow> ident \<Rightarrow> int \<Rightarrow> database
     \<Rightarrow> layout_error + (database \<times> workspace_layout_row)" where
  "delete_workspace_layout_checked now user_id machine_id group_key base_updated_at conn =
     (let existing = find_workspace_layout conn user_id machine_id group_key in
      if workspace_layout_base_conflicts (map_option wy_updated_at existing) base_updated_at then
        Inl Layout_Conflict
      else
        let row = \<lparr>wy_user_id = user_id, wy_machine_id = machine_id, wy_group_key = group_key,
                   wy_root_json = lit ''null'', wy_updated_at = next_updated_at now existing\<rparr>
        in (case write_layout row conn of None \<Rightarrow> Inl Layout_Db | Some conn' \<Rightarrow> Inr (conn', row)))"

section \<open>Keys and references\<close>

definition keyed :: "('r \<Rightarrow> 'k) \<Rightarrow> ('r \<Rightarrow> bool) \<Rightarrow> 'r list \<Rightarrow> bool" where
  "keyed key ref rows \<longleftrightarrow> distinct (map key rows) \<and> (\<forall>r \<in> set rows. ref r)"

definition machine_ids :: "database \<Rightarrow> ident set" where
  "machine_ids conn = mr_id ` set (db_machines conn)"

definition group_ids :: "database \<Rightarrow> ident set" where
  "group_ids conn = (wr_id \<circ> fst) ` set (db_workspace_groups conn)"

definition run_ids :: "database \<Rightarrow> ident set" where
  "run_ids conn = rr_id ` set (db_agent_runs conn)"

definition tabs_ok :: "database \<Rightarrow> bool" where
  "tabs_ok conn \<longleftrightarrow>
     keyed mr_id (\<lambda>m. mr_user_id m \<in> set (db_users conn)) (db_machines conn)
   \<and> keyed (wr_id \<circ> fst) (\<lambda>g. wr_user_id (fst g) \<in> set (db_users conn)
        \<and> wr_machine_id (fst g) \<in> machine_ids conn) (db_workspace_groups conn)
   \<and> keyed layout_key (\<lambda>l. wy_user_id l \<in> set (db_users conn)
        \<and> wy_machine_id l \<in> machine_ids conn) (db_workspace_layouts conn)
   \<and> keyed ts_id (\<lambda>t. ts_machine_id t \<in> machine_ids conn
        \<and> (\<forall>g. ts_workspace_group_id t = Some g \<longrightarrow> g \<in> group_ids conn))
       (db_terminal_sessions conn)"

definition runs_ok :: "database \<Rightarrow> bool" where
  "runs_ok conn \<longleftrightarrow>
     keyed rr_id (\<lambda>r. rr_machine_id r \<in> machine_ids conn) (db_agent_runs conn)
   \<and> keyed qr_id (\<lambda>q. qr_run_id q \<in> run_ids conn) (db_agent_run_requests conn)
   \<and> keyed (\<lambda>e. (er_run_id e, er_seq e)) (\<lambda>e. er_run_id e \<in> run_ids conn) (db_agent_run_events conn)"

definition db_ok :: "database \<Rightarrow> bool" where
  "db_ok conn \<longleftrightarrow> tabs_ok conn \<and> runs_ok conn"

lemma set_update_where: "set (update_where P f rows) = (\<lambda>r. if P r then f r else r) ` set rows"
  by (simp add: update_where_def)

lemma map_update_where:
  "(\<And>r. P r \<Longrightarrow> k (f r) = k r) \<Longrightarrow> map k (update_where P f rows) = map k rows"
  by (simp add: update_where_def)

lemma image_update_where:
  assumes "\<And>r. P r \<Longrightarrow> k (f r) = k r"
  shows "k ` set (update_where P f rows) = k ` set rows"
  using map_update_where [of P k f rows, OF assms] by (metis set_map)

lemma find_update_where:
  assumes "\<And>r. P r \<Longrightarrow> Q (f r) = Q r"
  shows "find Q (update_where P f rows) = map_option (\<lambda>r. if P r then f r else r) (find Q rows)"
  by (induction rows) (use assms in \<open>auto simp: update_where_def\<close>)

lemma keyed_Nil [simp]: "keyed key ref []"
  by (simp add: keyed_def)

lemma keyed_mono: "keyed key ref rows \<Longrightarrow> (\<And>r. ref r \<Longrightarrow> ref' r) \<Longrightarrow> keyed key ref' rows"
  by (simp add: keyed_def)

lemma keyed_append:
  "keyed key ref rows \<Longrightarrow> key r \<notin> key ` set rows \<Longrightarrow> ref r \<Longrightarrow> keyed key ref (rows @ [r])"
  by (auto simp: keyed_def)

lemma keyed_filter: "keyed key ref rows \<Longrightarrow> keyed key ref (filter P rows)"
  by (simp add: keyed_def distinct_map_filter)

lemma keyed_filter_ref:
  "keyed key ref rows \<Longrightarrow> (\<And>r. ref r \<Longrightarrow> P r \<Longrightarrow> ref' r) \<Longrightarrow> keyed key ref' (filter P rows)"
  by (auto simp: keyed_def distinct_map_filter)

lemma keyed_update:
  assumes "keyed key ref rows" and "\<And>r. P r \<Longrightarrow> key (f r) = key r"
    and "\<And>r. ref r \<Longrightarrow> P r \<Longrightarrow> ref' (f r)" and "\<And>r. ref r \<Longrightarrow> \<not> P r \<Longrightarrow> ref' r"
  shows "keyed key ref' (update_where P f rows)"
  using assms by (auto simp: keyed_def map_update_where set_update_where)

lemma keyed_find:
  assumes "keyed key ref rows" and "r \<in> set rows"
  shows "find (\<lambda>r'. key r' = key r) rows = Some r"
  using assms
proof (induction rows)
  case (Cons x rows)
  then show ?case
    by (cases "key x = key r") (auto simp: keyed_def image_iff)
qed simp

lemma find_SomeD: "find P rows = Some r \<Longrightarrow> r \<in> set rows \<and> P r"
  by (auto simp: find_Some_iff in_set_conv_nth)

lemma find_NoneD: "find P rows = None \<Longrightarrow> r \<in> set rows \<Longrightarrow> \<not> P r"
  by (auto simp: find_None_iff)

lemmas database_simps = machine_ids_def group_ids_def run_ids_def

section \<open>Statements\<close>

text \<open>A statement of this file; a violated key or reference leaves the database as it was.\<close>

datatype stmt =
    St_CreateMachine ms ident ident ustr ident
  | St_EnsureMachine ms ident ident ustr "ustr option" "ustr option"
  | St_MachineStatus ms ident string
  | St_MachineInfo ident "ustr option" "ustr option"
  | St_MachineProduction ident bool
  | St_DeleteMachine ident
  | St_InsertTerminal ms ident ident ustr ustr u16 u16
  | St_MarkDestroyed ms ident
  | St_UpdateSize ident u16 u16
  | St_UpdateMetadata ident ustr ustr u16 u16
  | St_UpdateCwd ident ustr
  | St_UpdateTitle ident ustr terminal_title_source
  | St_AssignGroup ident "ident option"
  | St_ClearGroup ident
  | St_OpenedBy ident terminal_opener
  | St_InsertGroup ms ident ident ident ustr int bool
  | St_SortGroup ident ident ident int
  | St_RenameGroup ident ident ident ustr
  | St_DeleteGroupIfAuto ident ident ident
  | St_DeleteGroup ident ident ident
  | St_SaveLayout ms ident ident ident json
  | St_SaveLayoutChecked ms ident ident ident json int
  | St_DeleteLayout ident ident ident
  | St_DeleteLayoutChecked ms ident ident ident int

definition or_unchanged :: "database \<Rightarrow> database option \<Rightarrow> database" where
  "or_unchanged conn r = (case r of None \<Rightarrow> conn | Some conn' \<Rightarrow> conn')"

definition or_unchanged_err ::
  "database \<Rightarrow> layout_error + (database \<times> workspace_layout_row) \<Rightarrow> database" where
  "or_unchanged_err conn r = (case r of Inl _ \<Rightarrow> conn | Inr (conn', _) \<Rightarrow> conn')"

fun exec_stmt :: "database \<Rightarrow> stmt \<Rightarrow> database" where
  "exec_stmt conn (St_CreateMachine now m u nm h) =
     or_unchanged conn (map_option fst (create_machine now m u nm h conn))"
| "exec_stmt conn (St_EnsureMachine now m u nm os home) =
     or_unchanged conn (ensure_machine_for_user now m u nm os home conn)"
| "exec_stmt conn (St_MachineStatus now m st) = update_machine_status now m st conn"
| "exec_stmt conn (St_MachineInfo m os home) = update_machine_info m os home conn"
| "exec_stmt conn (St_MachineProduction m p) = set_machine_production m p conn"
| "exec_stmt conn (St_DeleteMachine m) = delete_machine m conn"
| "exec_stmt conn (St_InsertTerminal now t m title cwd c r) =
     or_unchanged conn (insert_terminal now t m title cwd c r conn)"
| "exec_stmt conn (St_MarkDestroyed now t) = mark_destroyed now t conn"
| "exec_stmt conn (St_UpdateSize t c r) = update_size t c r conn"
| "exec_stmt conn (St_UpdateMetadata t title cwd c r) = update_metadata t title cwd c r conn"
| "exec_stmt conn (St_UpdateCwd t cwd) = fst (apply_cwd_update t cwd conn)"
| "exec_stmt conn (St_UpdateTitle t title src) = fst (apply_title_update t title src conn)"
| "exec_stmt conn (St_AssignGroup t g) = or_unchanged conn (assign_workspace_group t g conn)"
| "exec_stmt conn (St_ClearGroup g) = clear_workspace_group g conn"
| "exec_stmt conn (St_OpenedBy t opener) = set_opened_by t opener conn"
| "exec_stmt conn (St_InsertGroup now g u m nm so auto) =
     or_unchanged conn (map_option fst (insert_workspace_group now g u m nm so auto conn))"
| "exec_stmt conn (St_SortGroup u m g so) = fst (update_workspace_group_sort_order u m g so conn)"
| "exec_stmt conn (St_RenameGroup u m g nm) = fst (update_workspace_group_name u m g nm conn)"
| "exec_stmt conn (St_DeleteGroupIfAuto u m g) = fst (delete_workspace_group_if_auto u m g conn)"
| "exec_stmt conn (St_DeleteGroup u m g) = fst (delete_workspace_group u m g conn)"
| "exec_stmt conn (St_SaveLayout now u m k js) =
     or_unchanged conn (map_option fst (upsert_workspace_layout now u m k js conn))"
| "exec_stmt conn (St_SaveLayoutChecked now u m k js b) =
     or_unchanged_err conn (upsert_workspace_layout_checked now u m k js b conn)"
| "exec_stmt conn (St_DeleteLayout u m k) = fst (delete_workspace_layout u m k conn)"
| "exec_stmt conn (St_DeleteLayoutChecked now u m k b) =
     or_unchanged_err conn (delete_workspace_layout_checked now u m k b conn)"

text \<open>Statements on one table, by the table they touch.\<close>

lemma db_ok_machines:
  assumes "db_ok conn" and "keyed mr_id (\<lambda>m. mr_user_id m \<in> set (db_users conn)) ms"
    and "machine_ids conn \<subseteq> mr_id ` set ms"
  shows "db_ok (conn\<lparr>db_machines := ms\<rparr>)"
proof -
  have sub: "mid \<in> mr_id ` set ms" if "mid \<in> machine_ids conn" for mid
    using that assms(3) by blast
  show ?thesis
    using assms(1,2) sub
    unfolding db_ok_def tabs_ok_def runs_ok_def database_simps
    by (auto elim!: keyed_mono)
qed

lemma db_ok_terminals:
  assumes "db_ok conn"
    and "keyed ts_id (\<lambda>t. ts_machine_id t \<in> machine_ids conn
        \<and> (\<forall>g. ts_workspace_group_id t = Some g \<longrightarrow> g \<in> group_ids conn)) ts"
  shows "db_ok (conn\<lparr>db_terminal_sessions := ts\<rparr>)"
  using assms unfolding db_ok_def tabs_ok_def runs_ok_def database_simps by simp

lemma db_ok_layouts:
  assumes "db_ok conn"
    and "keyed layout_key (\<lambda>l. wy_user_id l \<in> set (db_users conn)
        \<and> wy_machine_id l \<in> machine_ids conn) ls"
  shows "db_ok (conn\<lparr>db_workspace_layouts := ls\<rparr>)"
  using assms unfolding db_ok_def tabs_ok_def runs_ok_def database_simps by simp

lemma db_ok_groups:
  assumes "db_ok conn"
    and "keyed (wr_id \<circ> fst) (\<lambda>g. wr_user_id (fst g) \<in> set (db_users conn)
        \<and> wr_machine_id (fst g) \<in> machine_ids conn) gs"
    and "group_ids conn \<subseteq> (wr_id \<circ> fst) ` set gs"
  shows "db_ok (conn\<lparr>db_workspace_groups := gs\<rparr>)"
proof -
  have sub: "gid \<in> (wr_id \<circ> fst) ` set gs" if "gid \<in> group_ids conn" for gid
    using that assms(3) by blast
  show ?thesis
    using assms(1,2) sub
    unfolding db_ok_def tabs_ok_def runs_ok_def database_simps
    by (auto elim!: keyed_mono)
qed

lemma db_okD:
  assumes "db_ok conn"
  shows "keyed mr_id (\<lambda>m. mr_user_id m \<in> set (db_users conn)) (db_machines conn)"
    and "keyed (wr_id \<circ> fst) (\<lambda>g. wr_user_id (fst g) \<in> set (db_users conn)
        \<and> wr_machine_id (fst g) \<in> machine_ids conn) (db_workspace_groups conn)"
    and "keyed layout_key (\<lambda>l. wy_user_id l \<in> set (db_users conn)
        \<and> wy_machine_id l \<in> machine_ids conn) (db_workspace_layouts conn)"
    and "keyed ts_id (\<lambda>t. ts_machine_id t \<in> machine_ids conn
        \<and> (\<forall>g. ts_workspace_group_id t = Some g \<longrightarrow> g \<in> group_ids conn))
       (db_terminal_sessions conn)"
    and "keyed rr_id (\<lambda>r. rr_machine_id r \<in> machine_ids conn) (db_agent_runs conn)"
    and "keyed qr_id (\<lambda>q. qr_run_id q \<in> run_ids conn) (db_agent_run_requests conn)"
    and "keyed (\<lambda>e. (er_run_id e, er_seq e)) (\<lambda>e. er_run_id e \<in> run_ids conn)
       (db_agent_run_events conn)"
  using assms by (simp_all add: db_ok_def tabs_ok_def runs_ok_def)

text \<open>An update of columns no key or reference uses.\<close>

lemma update_machines_ok:
  assumes "db_ok conn" and "\<And>r. mr_id (f r) = mr_id r" and "\<And>r. mr_user_id (f r) = mr_user_id r"
  shows "db_ok (conn\<lparr>db_machines := update_where P f (db_machines conn)\<rparr>)"
  by (rule db_ok_machines [OF assms(1)])
    (auto intro!: keyed_update [OF db_okD(1) [OF assms(1)]]
      simp: assms image_update_where database_simps)

lemma update_terminals_ok:
  assumes "db_ok conn" and "\<And>r. ts_id (f r) = ts_id r"
    and "\<And>r. P r \<Longrightarrow> ts_machine_id r \<in> machine_ids conn \<Longrightarrow> ts_machine_id (f r) \<in> machine_ids conn"
    and "\<And>r g. P r \<Longrightarrow> ts_workspace_group_id (f r) = Some g \<Longrightarrow>
          ts_workspace_group_id r = Some g \<or> g \<in> group_ids conn"
  shows "db_ok (conn\<lparr>db_terminal_sessions := update_where P f (db_terminal_sessions conn)\<rparr>)"
proof (rule db_ok_terminals [OF assms(1)], rule keyed_update [OF db_okD(4) [OF assms(1)]])
  fix r
  assume r: "ts_machine_id r \<in> machine_ids conn
    \<and> (\<forall>g. ts_workspace_group_id r = Some g \<longrightarrow> g \<in> group_ids conn)" and "P r"
  have "g \<in> group_ids conn" if "ts_workspace_group_id (f r) = Some g" for g
    using assms(4) [OF \<open>P r\<close> that] r by blast
  then show "ts_machine_id (f r) \<in> machine_ids conn
    \<and> (\<forall>g. ts_workspace_group_id (f r) = Some g \<longrightarrow> g \<in> group_ids conn)"
    using assms(3) [OF \<open>P r\<close>] r by blast
qed (simp_all add: assms(2))

lemma update_groups_ok:
  assumes "db_ok conn" and "\<And>g. wr_id (fst (f g)) = wr_id (fst g)"
    and "\<And>g. wr_user_id (fst (f g)) = wr_user_id (fst g)"
    and "\<And>g. wr_machine_id (fst (f g)) = wr_machine_id (fst g)"
  shows "db_ok (conn\<lparr>db_workspace_groups := update_where P f (db_workspace_groups conn)\<rparr>)"
proof (rule db_ok_groups [OF assms(1)])
  show "keyed (wr_id \<circ> fst) (\<lambda>g. wr_user_id (fst g) \<in> set (db_users conn)
        \<and> wr_machine_id (fst g) \<in> machine_ids conn)
      (update_where P f (db_workspace_groups conn))"
    by (rule keyed_update [OF db_okD(2) [OF assms(1)]]) (simp_all add: assms)
  show "group_ids conn \<subseteq> (wr_id \<circ> fst) ` set (update_where P f (db_workspace_groups conn))"
    unfolding group_ids_def by (subst image_update_where) (simp_all add: assms)
qed

lemma clear_groups_keyed:
  assumes "keyed ts_id (\<lambda>t. ts_machine_id t \<in> M
      \<and> (\<forall>g. ts_workspace_group_id t = Some g \<longrightarrow> g \<in> G)) ts"
    and "\<And>g. g \<in> G \<Longrightarrow> g \<notin> set gone \<Longrightarrow> g \<in> G'"
  shows "keyed ts_id (\<lambda>t. ts_machine_id t \<in> M
      \<and> (\<forall>g. ts_workspace_group_id t = Some g \<longrightarrow> g \<in> G'))
    (update_where (\<lambda>t. \<exists>g \<in> set gone. ts_workspace_group_id t = Some g)
      (\<lambda>t. t\<lparr>ts_workspace_group_id := None\<rparr>) ts)"
proof (rule keyed_update [OF assms(1)])
  fix t
  assume t: "ts_machine_id t \<in> M \<and> (\<forall>g. ts_workspace_group_id t = Some g \<longrightarrow> g \<in> G)"
    and kept: "\<not> (\<exists>g \<in> set gone. ts_workspace_group_id t = Some g)"
  have "g \<in> G'" if "ts_workspace_group_id t = Some g" for g
  proof (rule assms(2))
    show "g \<in> G" using t that by simp
    show "g \<notin> set gone" using kept that by blast
  qed
  with t show "ts_machine_id t \<in> M \<and> (\<forall>g. ts_workspace_group_id t = Some g \<longrightarrow> g \<in> G')"
    by blast
qed simp_all

lemma group_ids_left:
  assumes "g \<in> (wr_id \<circ> fst) ` set gs" and "g \<notin> set (map (wr_id \<circ> fst) (filter P gs))"
  shows "g \<in> (wr_id \<circ> fst) ` set (filter (\<lambda>x. \<not> P x) gs)"
  using assms by auto

lemma delete_groups_ok:
  assumes "db_ok conn"
  shows "db_ok (fst (delete_groups_where P conn))"
proof -
  have "keyed (wr_id \<circ> fst) (\<lambda>g. wr_user_id (fst g) \<in> set (db_users conn)
        \<and> wr_machine_id (fst g) \<in> machine_ids conn)
      (filter (\<lambda>g. \<not> P g) (db_workspace_groups conn))"
    by (rule keyed_filter [OF db_okD(2) [OF assms]])
  moreover have "keyed ts_id (\<lambda>t. ts_machine_id t \<in> machine_ids conn
      \<and> (\<forall>g. ts_workspace_group_id t = Some g \<longrightarrow>
            g \<in> (wr_id \<circ> fst) ` set (filter (\<lambda>g. \<not> P g) (db_workspace_groups conn))))
    (update_where (\<lambda>t. \<exists>g \<in> set (map (wr_id \<circ> fst) (filter P (db_workspace_groups conn))).
        ts_workspace_group_id t = Some g)
      (\<lambda>t. t\<lparr>ts_workspace_group_id := None\<rparr>) (db_terminal_sessions conn))"
    by (rule clear_groups_keyed [OF db_okD(4) [OF assms, unfolded group_ids_def]])
      (rule group_ids_left)
  ultimately show ?thesis
    using assms
    by (simp add: delete_groups_where_def Let_def db_ok_def tabs_ok_def runs_ok_def database_simps)
qed

lemma write_layout_ok:
  assumes "db_ok conn" and "write_layout row conn = Some conn'"
  shows "db_ok conn'"
proof (cases "layout_key row \<in> layout_key ` set (db_workspace_layouts conn)")
  case True
  let ?f = "\<lambda>l. l\<lparr>wy_root_json := wy_root_json row, wy_updated_at := wy_updated_at row\<rparr>"
  have "layout_key (?f l) = layout_key l" for l by (simp add: layout_key_def)
  then have "keyed layout_key (\<lambda>l. wy_user_id l \<in> set (db_users conn)
        \<and> wy_machine_id l \<in> machine_ids conn)
      (update_where (\<lambda>l. layout_key l = layout_key row) ?f (db_workspace_layouts conn))"
    by (intro keyed_update [OF db_okD(3) [OF assms(1)]]) simp_all
  then show ?thesis
    using assms True by (auto simp: write_layout_def split: if_splits intro: db_ok_layouts)
next
  case False
  then show ?thesis
    using assms
    by (auto simp: write_layout_def machine_ids_def split: if_splits
        intro!: db_ok_layouts keyed_append db_okD(3) [unfolded machine_ids_def])
qed

lemma delete_machine_ok:
  assumes "db_ok conn"
  shows "db_ok (delete_machine machine_id conn)"
proof -
  let ?c = "delete_machine machine_id conn"
  note [simp] = delete_machine_def Let_def
  have mids: "machine_ids ?c = machine_ids conn - {machine_id}"
    by (auto simp: machine_ids_def)
  have users: "db_users ?c = db_users conn" by simp
  have gone: "g \<in> group_ids ?c"
    if "g \<in> group_ids conn" and "\<forall>x \<in> set (db_workspace_groups conn). wr_machine_id (fst x) = machine_id \<longrightarrow> wr_id (fst x) \<noteq> g"
    for g using that by (force simp: group_ids_def case_prod_beta)
  have runs: "r \<in> run_ids ?c"
    if "r \<in> run_ids conn" and "\<forall>x \<in> set (db_agent_runs conn). rr_machine_id x = machine_id \<longrightarrow> rr_id x \<noteq> r"
    for r using that by (force simp: run_ids_def)
  have 1: "keyed mr_id (\<lambda>m. mr_user_id m \<in> set (db_users ?c)) (db_machines ?c)"
    using keyed_filter [OF db_okD(1) [OF assms]] by simp
  have 2: "keyed (wr_id \<circ> fst) (\<lambda>g. wr_user_id (fst g) \<in> set (db_users ?c)
        \<and> wr_machine_id (fst g) \<in> machine_ids ?c) (db_workspace_groups ?c)"
    unfolding mids users
    by (simp, rule keyed_filter_ref [OF db_okD(2) [OF assms]]) (auto simp: case_prod_beta)
  have 3: "keyed layout_key (\<lambda>l. wy_user_id l \<in> set (db_users ?c)
        \<and> wy_machine_id l \<in> machine_ids ?c) (db_workspace_layouts ?c)"
    unfolding mids users
    by (simp, rule keyed_filter_ref [OF db_okD(3) [OF assms]]) auto
  have "keyed ts_id (\<lambda>t. ts_machine_id t \<in> machine_ids conn - {machine_id}
      \<and> (\<forall>g. ts_workspace_group_id t = Some g \<longrightarrow> g \<in> group_ids conn))
     (filter (\<lambda>t. ts_machine_id t \<noteq> machine_id) (db_terminal_sessions conn))"
    by (rule keyed_filter_ref [OF db_okD(4) [OF assms]]) auto
  from clear_groups_keyed [OF this, of "map (wr_id \<circ> fst)
      (filter (\<lambda>(g, _). wr_machine_id g = machine_id) (db_workspace_groups conn))" "group_ids ?c"]
  have 4: "keyed ts_id (\<lambda>t. ts_machine_id t \<in> machine_ids ?c
        \<and> (\<forall>g. ts_workspace_group_id t = Some g \<longrightarrow> g \<in> group_ids ?c))
       (db_terminal_sessions ?c)"
    unfolding mids by (simp, force simp: group_ids_def case_prod_beta)
  have 5: "keyed rr_id (\<lambda>r. rr_machine_id r \<in> machine_ids ?c) (db_agent_runs ?c)"
    unfolding mids by (simp, rule keyed_filter_ref [OF db_okD(5) [OF assms]]) auto
  have 6: "keyed qr_id (\<lambda>q. qr_run_id q \<in> run_ids ?c) (db_agent_run_requests ?c)"
    by (simp, rule keyed_filter_ref [OF db_okD(6) [OF assms]]) (force intro!: runs [simplified])
  have 7: "keyed (\<lambda>e. (er_run_id e, er_seq e)) (\<lambda>e. er_run_id e \<in> run_ids ?c)
       (db_agent_run_events ?c)"
    by (simp, rule keyed_filter_ref [OF db_okD(7) [OF assms]]) (force intro!: runs [simplified])
  show ?thesis
    unfolding db_ok_def tabs_ok_def runs_ok_def using 1 2 3 4 5 6 7 by blast
qed

lemma create_machine_ok:
  "db_ok conn \<Longrightarrow> create_machine now m u nm h conn = Some (conn', row) \<Longrightarrow> db_ok conn'"
  by (auto simp: create_machine_def Let_def machine_ids_def split: if_splits
      intro!: db_ok_machines keyed_append db_okD(1))

lemma ensure_machine_ok:
  assumes ok: "db_ok conn" and "ensure_machine_for_user now m u nm os home conn = Some conn'"
  shows "db_ok conn'"
proof -
  define row where "row = \<lparr>mr_id = m, mr_user_id = u, mr_name = nm, mr_machine_secret_hash = [],
    mr_status = ''online'', mr_os = os, mr_home_dir = home, mr_last_seen_at = Some now,
    mr_created_at = now, mr_production = False\<rparr>"
  let ?c = "if m \<in> mr_id ` set (db_machines conn) then conn
    else conn\<lparr>db_machines := db_machines conn @ [row]\<rparr>"
  have "db_ok ?c"
    using assms
    by (auto simp: ensure_machine_for_user_def Let_def row_def machine_ids_def split: if_splits
        intro!: db_ok_machines keyed_append db_okD(1))
  from update_machines_ok [OF this]
  have upd: "(\<And>r. mr_id (f r) = mr_id r) \<Longrightarrow> (\<And>r. mr_user_id (f r) = mr_user_id r) \<Longrightarrow>
      db_ok (?c\<lparr>db_machines := update_where P f (db_machines ?c)\<rparr>)" for P f .
  have "conn' = ?c\<lparr>db_machines := update_where (\<lambda>r. mr_id r = m \<and> mr_user_id r = u)
      (\<lambda>r. r\<lparr>mr_name := nm, mr_status := ''online'', mr_os := os, mr_home_dir := home,
             mr_last_seen_at := Some now\<rparr>) (db_machines ?c)\<rparr>"
    using assms(2)
    by (auto simp: ensure_machine_for_user_def Let_def row_def split: if_splits)
  then show ?thesis
    by (simp only:) (rule upd, simp_all)
qed

lemma insert_terminal_ok:
  assumes "db_ok conn" and "insert_terminal now t m title cwd c r conn = Some conn'"
  shows "db_ok conn'"
proof (cases "t \<in> ts_id ` set (db_terminal_sessions conn)")
  case True
  with assms show ?thesis
    by (auto simp: insert_terminal_def machine_ids_def split: if_splits
        intro!: update_terminals_ok)
next
  case False
  with assms show ?thesis
    by (auto simp: insert_terminal_def machine_ids_def split: if_splits
        intro!: db_ok_terminals keyed_append db_okD(4) [unfolded machine_ids_def])
qed

lemma apply_title_update_ok: "db_ok conn \<Longrightarrow> db_ok (fst (apply_title_update t title src conn))"
  by (auto simp: apply_title_update_def Let_def split: option.splits intro!: update_terminals_ok)

lemma assign_workspace_group_ok:
  assumes "db_ok conn" and "assign_workspace_group t g conn = Some conn'"
  shows "db_ok conn'"
proof (cases "group_exists conn g")
  case True
  then have "\<And>h. g = Some h \<Longrightarrow> h \<in> group_ids conn"
    by (simp add: group_exists_def group_ids_def)
  with assms True show ?thesis
    by (simp add: assign_workspace_group_def) (auto intro!: update_terminals_ok)
next
  case False
  with assms have "t \<notin> ts_id ` set (db_terminal_sessions conn)"
    and conn': "conn' = conn\<lparr>db_terminal_sessions := update_where (\<lambda>r. ts_id r = t)
        (\<lambda>r. r\<lparr>ts_workspace_group_id := g\<rparr>) (db_terminal_sessions conn)\<rparr>"
    by (auto simp: assign_workspace_group_def split: if_splits)
  then have "update_where (\<lambda>r. ts_id r = t) (\<lambda>r. r\<lparr>ts_workspace_group_id := g\<rparr>)
      (db_terminal_sessions conn) = db_terminal_sessions conn"
    by (auto simp: update_where_def intro!: map_idI)
  with conn' assms(1) show ?thesis by simp
qed

lemma insert_workspace_group_ok:
  assumes "db_ok conn" and "insert_workspace_group now g u m nm so auto conn = Some (conn', row)"
  shows "db_ok conn'"
proof -
  from assms(2) have fresh: "g \<notin> (wr_id \<circ> fst) ` set (db_workspace_groups conn)"
    and refs: "u \<in> set (db_users conn)" "m \<in> machine_ids conn"
    and conn': "conn' = conn\<lparr>db_workspace_groups := db_workspace_groups conn @ [(row, auto)]\<rparr>"
    and row: "wr_id row = g" "wr_user_id row = u" "wr_machine_id row = m"
    by (auto simp: insert_workspace_group_def Let_def machine_ids_def split: if_splits)
  show ?thesis
    unfolding conn'
    by (rule db_ok_groups [OF assms(1)], rule keyed_append [OF db_okD(2) [OF assms(1)]])
      (use fresh refs row in \<open>auto simp: group_ids_def\<close>)
qed

lemma layout_statements_ok:
  assumes "db_ok conn"
  shows "upsert_workspace_layout now u m k js conn = Some (conn', row) \<Longrightarrow> db_ok conn'"
    and "upsert_workspace_layout_checked now u m k js b conn = Inr (conn', row) \<Longrightarrow> db_ok conn'"
    and "delete_workspace_layout_checked now u m k b conn = Inr (conn', row) \<Longrightarrow> db_ok conn'"
    and "db_ok (fst (delete_workspace_layout u m k conn))"
  using assms
  by (auto simp: upsert_workspace_layout_def upsert_workspace_layout_checked_def
      delete_workspace_layout_checked_def delete_workspace_layout_def Let_def
      split: if_splits option.splits
      intro: write_layout_ok intro!: db_ok_layouts keyed_filter db_okD(3))

lemma exec_stmt_ok:
  assumes "db_ok conn"
  shows "db_ok (exec_stmt conn st)"
proof (cases st)
  case (St_CreateMachine now m u nm h)
  with assms show ?thesis
    by (auto simp: or_unchanged_def split: option.splits intro: create_machine_ok)
next
  case (St_EnsureMachine now m u nm os home)
  with assms show ?thesis
    by (auto simp: or_unchanged_def split: option.splits intro: ensure_machine_ok)
next
  case (St_DeleteMachine m)
  with assms show ?thesis by (simp add: delete_machine_ok)
next
  case (St_InsertTerminal now t m title cwd c r)
  with assms show ?thesis
    by (auto simp: or_unchanged_def split: option.splits intro: insert_terminal_ok)
next
  case (St_UpdateTitle t title src)
  with assms show ?thesis by (simp add: apply_title_update_ok)
next
  case (St_AssignGroup t g)
  with assms show ?thesis
    by (auto simp: or_unchanged_def split: option.splits intro: assign_workspace_group_ok)
next
  case (St_InsertGroup now g u m nm so auto)
  with assms show ?thesis
    by (auto simp: or_unchanged_def split: option.splits intro: insert_workspace_group_ok)
next
  case (St_DeleteGroupIfAuto u m g)
  with assms show ?thesis by (simp add: delete_workspace_group_if_auto_def delete_groups_ok)
next
  case (St_DeleteGroup u m g)
  with assms show ?thesis by (simp add: delete_workspace_group_def delete_groups_ok)
next
  case (St_SaveLayout now u m k js)
  with assms show ?thesis
    by (auto simp: or_unchanged_def split: option.splits intro: layout_statements_ok)
next
  case (St_SaveLayoutChecked now u m k js b)
  with assms show ?thesis
    by (auto simp: or_unchanged_err_def split: sum.splits prod.splits intro: layout_statements_ok)
next
  case (St_DeleteLayout u m k)
  then show ?thesis by (simp add: layout_statements_ok(4) [OF assms])
next
  case (St_DeleteLayoutChecked now u m k b)
  with assms show ?thesis
    by (auto simp: or_unchanged_err_def split: sum.splits prod.splits intro: layout_statements_ok)
next
  case (St_MachineStatus now m st')
  with assms show ?thesis by (simp add: update_machine_status_def update_machines_ok)
next
  case (St_MachineInfo m os home)
  with assms show ?thesis by (simp add: update_machine_info_def update_machines_ok)
next
  case (St_MachineProduction m p)
  with assms show ?thesis by (simp add: set_machine_production_def update_machines_ok)
next
  case (St_MarkDestroyed now t)
  with assms show ?thesis by (auto simp: mark_destroyed_def intro!: update_terminals_ok)
next
  case (St_UpdateSize t c r)
  with assms show ?thesis by (auto simp: update_size_def intro!: update_terminals_ok)
next
  case (St_UpdateMetadata t title cwd c r)
  with assms show ?thesis by (auto simp: update_metadata_def intro!: update_terminals_ok)
next
  case (St_UpdateCwd t cwd)
  with assms show ?thesis by (auto simp: apply_cwd_update_def Let_def intro!: update_terminals_ok)
next
  case (St_ClearGroup g)
  have "db_ok (clear_workspace_group g conn)"
    unfolding clear_workspace_group_def by (rule update_terminals_ok [OF assms]) simp_all
  with St_ClearGroup show ?thesis by simp
next
  case (St_OpenedBy t opener)
  with assms show ?thesis by (auto simp: set_opened_by_def intro!: update_terminals_ok)
next
  case (St_SortGroup u m g so)
  with assms show ?thesis by (simp add: update_workspace_group_sort_order_def Let_def case_prod_beta update_groups_ok)
next
  case (St_RenameGroup u m g nm)
  with assms show ?thesis by (simp add: update_workspace_group_name_def Let_def case_prod_beta update_groups_ok)
qed

interpretation statements: invariant_steps exec_stmt db_ok
  by unfold_locales (rule exec_stmt_ok)

lemma db_ok_empty: "db_ok (empty_db users)"
  by (simp add: db_ok_def tabs_ok_def runs_ok_def empty_db_def)

section \<open>How a terminal's title is decided\<close>

text \<open>What a title report does to the stored title and its source.\<close>

definition title_step :: "ustr \<times> string \<Rightarrow> ustr \<times> terminal_title_source \<Rightarrow> ustr \<times> string" where
  "title_step cur u =
     (if fst u = [] \<and> fst cur = [] then cur
      else if snd cur = ''osc'' \<and> snd u = Src_Process then cur
      else (fst u, title_source_name (snd u)))"

definition report_titles :: "ident \<Rightarrow> (ustr \<times> terminal_title_source) list \<Rightarrow> database \<Rightarrow> database" where
  "report_titles tid us conn =
     foldl (\<lambda>conn u. fst (apply_title_update tid (fst u) (snd u) conn)) conn us"

lemma find_live:
  assumes "keyed ts_id ref rows" and "find (\<lambda>r. ts_id r = tid) rows = Some r"
    and "ts_destroyed_at r = None"
  shows "find (\<lambda>r. ts_id r = tid \<and> ts_destroyed_at r = None) rows = Some r"
  using assms
proof (induction rows)
  case (Cons x rows)
  show ?case
  proof (cases "ts_id x = tid")
    case True
    with Cons.prems show ?thesis by simp
  next
    case False
    with Cons show ?thesis by (simp add: keyed_def)
  qed
qed simp

lemma apply_title_update_row:
  assumes "db_ok conn" and "find_by_id conn tid = Some r" and "ts_destroyed_at r = None"
  shows "\<exists>r'. find_by_id (fst (apply_title_update tid title src conn)) tid = Some r'
    \<and> ts_destroyed_at r' = None
    \<and> (ts_title r', ts_title_source r') = title_step (ts_title r, ts_title_source r) (title, src)"
proof -
  have id: "ts_id r = tid"
    using assms(2) by (auto simp: find_by_id_def dest: find_SomeD)
  have live: "find (\<lambda>r. ts_id r = tid \<and> ts_destroyed_at r = None) (db_terminal_sessions conn)
      = Some r"
    using find_live [OF db_okD(4) [OF assms(1)]] assms(2,3) by (simp add: find_by_id_def)
  have upd: "find (\<lambda>r. ts_id r = tid) (update_where (\<lambda>r. ts_id r = tid)
      (\<lambda>r. r\<lparr>ts_title := title, ts_title_source := title_source_name src\<rparr>)
      (db_terminal_sessions conn))
    = Some (r\<lparr>ts_title := title, ts_title_source := title_source_name src\<rparr>)"
    using assms(2) id by (subst find_update_where) (auto simp: find_by_id_def)
  show ?thesis
    using assms(2,3) live upd
    by (auto simp: apply_title_update_def Let_def title_step_def find_by_id_def)
qed

lemma report_titles_row:
  assumes "db_ok conn" and "find_by_id conn tid = Some r" and "ts_destroyed_at r = None"
  shows "\<exists>r'. find_by_id (report_titles tid us conn) tid = Some r'
    \<and> (ts_title r', ts_title_source r') = foldl title_step (ts_title r, ts_title_source r) us"
  using assms
proof (induction us arbitrary: conn r)
  case Nil
  then show ?case by (simp add: report_titles_def)
next
  case (Cons u us)
  obtain title src where u: "u = (title, src)" by (cases u)
  from apply_title_update_row [OF Cons.prems, of title src] obtain r' where
    r': "find_by_id (fst (apply_title_update tid title src conn)) tid = Some r'"
      "ts_destroyed_at r' = None"
      "(ts_title r', ts_title_source r') = title_step (ts_title r, ts_title_source r) (title, src)"
    by blast
  from Cons.IH [OF apply_title_update_ok [OF Cons.prems(1)] r'(1,2)] r'(3) u show ?case
    by (simp add: report_titles_def)
qed

definition decided_title :: "ustr \<Rightarrow> (ustr \<times> terminal_title_source) list \<Rightarrow> ustr" where
  "decided_title old us =
     (let programs = filter (\<lambda>u. snd u = Src_Osc) us
      in if programs \<noteq> [] then fst (last programs) else if us \<noteq> [] then fst (last us) else old)"

lemma title_fold_decides:
  assumes "\<forall>u \<in> set us. fst u \<noteq> [] \<and> snd u \<noteq> Src_None" and "src \<noteq> ''osc''"
  shows "fst (foldl title_step (old, src) us) = decided_title old us
    \<and> (snd (foldl title_step (old, src) us) = ''osc'' \<longleftrightarrow> (\<exists>u \<in> set us. snd u = Src_Osc))"
  using assms
proof (induction us rule: rev_induct)
  case Nil
  then show ?case by (simp add: decided_title_def)
next
  case (snoc u us)
  define cur where "cur = foldl title_step (old, src) us"
  from snoc have IH: "fst cur = decided_title old us"
    "snd cur = ''osc'' \<longleftrightarrow> (\<exists>u \<in> set us. snd u = Src_Osc)"
    and u: "fst u \<noteq> []" "snd u \<noteq> Src_None" by (simp_all add: cur_def)
  have step: "foldl title_step (old, src) (us @ [u]) = title_step cur u" by (simp add: cur_def)
  show ?case
  proof (cases "snd u = Src_Osc")
    case True
    with u show ?thesis unfolding step by (simp add: title_step_def decided_title_def)
  next
    case False
    with u(2) have p: "snd u = Src_Process" by (cases "snd u") simp_all
    show ?thesis
    proof (cases "\<exists>u \<in> set us. snd u = Src_Osc")
      case True
      then have "filter (\<lambda>u. snd u = Src_Osc) us \<noteq> []" by (auto simp: filter_empty_conv)
      with IH p True u show ?thesis
        unfolding step by (simp add: title_step_def decided_title_def Let_def)
    next
      case False
      then have "filter (\<lambda>u. snd u = Src_Osc) us = []" by (auto simp: filter_empty_conv)
      with IH p False u show ?thesis
        unfolding step by (simp add: title_step_def decided_title_def Let_def)
    qed
  qed
qed

section \<open>Tabs are appended at the end\<close>

lemma insort_key_last:
  "\<forall>y \<in> set ys. f y < f x \<Longrightarrow> f a < f x \<Longrightarrow> insort_key f a (ys @ [x]) = insort_key f a ys @ [x]"
  by (induction ys) auto

lemma sort_key_append_max:
  assumes "\<forall>y \<in> set xs. f y < f x"
  shows "sort_key f (xs @ [x]) = sort_key f xs @ [x]"
  using assms
proof (induction xs)
  case Nil
  then show ?case by simp
next
  case (Cons a xs)
  then have "sort_key f (xs @ [x]) = sort_key f xs @ [x]" by simp
  with Cons.prems show ?case by (simp add: insort_key_last)
qed

lemma fold_max_ge: "(x::int) \<le> fold max xs x \<and> (\<forall>y \<in> set xs. y \<le> fold max xs x)"
proof (induction xs arbitrary: x)
  case (Cons a xs)
  from Cons.IH [of "max a x"] show ?case by auto
qed simp

lemma next_sort_order_greater:
  assumes "g \<in> set (map fst (db_workspace_groups conn))"
    and "wr_user_id g = u" and "wr_machine_id g = m"
  shows "wr_sort_order g < next_sort_order conn u m"
proof -
  let ?os = "map wr_sort_order (filter (\<lambda>g. wr_user_id g = u \<and> wr_machine_id g = m)
    (map fst (db_workspace_groups conn)))"
  have mem: "wr_sort_order g \<in> set ?os" using assms by auto
  then obtain x xs where eq: "?os = x # xs" by (cases ?os) auto
  with mem fold_max_ge [of x xs] have "wr_sort_order g \<le> fold max xs x" by auto
  with eq show ?thesis by (simp add: next_sort_order_def)
qed

section \<open>The name of a tab\<close>

lemma trim_end_slash: "set (trim_end_matches P t) \<subseteq> set t"
  by (auto simp: trim_end_matches_def dest: set_dropWhileD)

lemma split_on_all_Nil: "\<forall>p \<in> set (split_on c t). p = [] \<Longrightarrow> set t \<subseteq> {c}"
  by (induction t) (auto split: if_splits list.splits)

section \<open>A pane layout is never overwritten unseen\<close>

text \<open>Statements other than the unchecked delete of one layout.\<close>

fun keeps_layout :: "ident \<times> ident \<times> ident \<Rightarrow> stmt \<Rightarrow> bool" where
  "keeps_layout (u, m, k) (St_DeleteLayout u' m' k') \<longleftrightarrow> (u', m', k') \<noteq> (u, m, k)"
| "keeps_layout (u, m, k) (St_DeleteMachine m') \<longleftrightarrow> m' \<noteq> m"
| "keeps_layout _ _ \<longleftrightarrow> True"

definition layout_at :: "database \<Rightarrow> ident \<times> ident \<times> ident \<Rightarrow> workspace_layout_row option" where
  "layout_at conn key = find (\<lambda>l. layout_key l = key) (db_workspace_layouts conn)"

lemma find_append: "find P (xs @ ys) = (case find P xs of None \<Rightarrow> find P ys | Some x \<Rightarrow> Some x)"
  by (induction xs) auto

lemma write_layout_at:
  assumes "write_layout row conn = Some conn'"
  shows "layout_at conn' key = (if key = layout_key row then Some row else layout_at conn key)"
proof (cases "layout_key row \<in> layout_key ` set (db_workspace_layouts conn)")
  case True
  let ?f = "\<lambda>l. l\<lparr>wy_root_json := wy_root_json row, wy_updated_at := wy_updated_at row\<rparr>"
  have k: "layout_key (?f l) = layout_key l" for l by (simp add: layout_key_def)
  from True obtain l where l: "find (\<lambda>l. layout_key l = layout_key row) (db_workspace_layouts conn)
      = Some l" by (cases "find (\<lambda>l. layout_key l = layout_key row) (db_workspace_layouts conn)")
      (auto simp: find_None_iff)
  then have "layout_key l = layout_key row" by (auto dest: find_SomeD)
  then have "?f l = row" by (cases l; cases row) (simp add: layout_key_def)
  moreover have "layout_at conn' key =
      map_option (\<lambda>l. if layout_key l = layout_key row then ?f l else l) (layout_at conn key)"
    using assms True
    by (auto simp: write_layout_def layout_at_def k find_update_where split: if_splits)
  moreover have "layout_key x \<noteq> layout_key row" if "layout_at conn key = Some x"
      "key \<noteq> layout_key row" for x
    using that by (auto simp: layout_at_def dest: find_SomeD)
  ultimately show ?thesis
    using l \<open>layout_key l = layout_key row\<close>
    by (cases "layout_at conn key") (auto simp: layout_at_def)
next
  case False
  then have "layout_at conn (layout_key row) = None"
    unfolding layout_at_def find_None_iff by (metis imageI)
  with False assms show ?thesis
    by (auto simp: write_layout_def layout_at_def find_append split: if_splits option.splits)
qed

lemma find_filter_other:
  "(\<And>r. Q r \<Longrightarrow> P r) \<Longrightarrow> find Q (filter P rows) = find Q rows"
  by (induction rows) auto

lemma next_updated_at_mono: "existing = Some r \<Longrightarrow> wy_updated_at r < next_updated_at now existing"
  by (simp add: next_updated_at_def)

text \<open>What every statement keeps of a stored layout: it stays as it is or gets newer.\<close>

definition layout_grows :: "database \<Rightarrow> database \<Rightarrow> ident \<times> ident \<times> ident \<Rightarrow> bool" where
  "layout_grows conn conn' key \<longleftrightarrow> (\<forall>r. layout_at conn key = Some r \<longrightarrow>
     (\<exists>r'. layout_at conn' key = Some r' \<and> (r' = r \<or> wy_updated_at r < wy_updated_at r')))"

lemma layout_grows_refl: "db_workspace_layouts conn' = db_workspace_layouts conn \<Longrightarrow>
    layout_grows conn conn' key"
  by (simp add: layout_grows_def layout_at_def)

lemma layout_grows_trans:
  "layout_grows conn conn' key \<Longrightarrow> layout_grows conn' conn'' key \<Longrightarrow> layout_grows conn conn'' key"
  by (fastforce simp: layout_grows_def)

lemma write_layout_grows:
  assumes "write_layout row conn = Some conn'"
    and "wy_updated_at row = next_updated_at now (layout_at conn (layout_key row))"
  shows "layout_grows conn conn' key"
  using assms(2) next_updated_at_mono
  by (auto simp: layout_grows_def write_layout_at [OF assms(1)])

lemma layouts_kept:
  "(case st of St_SaveLayout _ _ _ _ _ \<Rightarrow> False | St_SaveLayoutChecked _ _ _ _ _ _ \<Rightarrow> False
     | St_DeleteLayout _ _ _ \<Rightarrow> False | St_DeleteLayoutChecked _ _ _ _ _ \<Rightarrow> False
     | St_DeleteMachine _ \<Rightarrow> False | _ \<Rightarrow> True) \<Longrightarrow>
   db_workspace_layouts (exec_stmt conn st) = db_workspace_layouts conn"
  by (cases st)
    (simp_all add: or_unchanged_def create_machine_def ensure_machine_for_user_def Let_def
      update_machine_status_def update_machine_info_def set_machine_production_def
      insert_terminal_def mark_destroyed_def update_size_def update_metadata_def
      apply_cwd_update_def apply_title_update_def assign_workspace_group_def
      clear_workspace_group_def set_opened_by_def insert_workspace_group_def
      update_workspace_group_sort_order_def update_workspace_group_name_def
      delete_workspace_group_if_auto_def delete_workspace_group_def delete_groups_where_def
      split: option.splits)

lemma exec_stmt_grows:
  assumes "keeps_layout key st"
  shows "layout_grows conn (exec_stmt conn st) key"
proof -
  obtain u m k where key: "key = (u, m, k)" by (cases key)
  have find: "find_workspace_layout conn u' m' k' = layout_at conn (u', m', k')" for u' m' k'
    by (simp add: find_workspace_layout_def layout_at_def)
  have written: "layout_grows conn conn' key"
    if "conn' = conn \<or> write_layout \<lparr>wy_user_id = u', wy_machine_id = m', wy_group_key = k',
      wy_root_json = js, wy_updated_at = next_updated_at now (layout_at conn (u', m', k'))\<rparr> conn
        = Some conn'" for conn' u' m' k' js now
    using that
    by (auto simp: layout_grows_refl layout_key_def intro: write_layout_grows)
  show ?thesis
  proof (cases st)
    case (St_SaveLayout now u' m' k' js)
    let ?row = "\<lparr>wy_user_id = u', wy_machine_id = m', wy_group_key = k', wy_root_json = js,
      wy_updated_at = next_updated_at now (layout_at conn (u', m', k'))\<rparr>"
    have "exec_stmt conn st = conn \<or> write_layout ?row conn = Some (exec_stmt conn st)"
      unfolding St_SaveLayout
      by (auto simp: or_unchanged_def upsert_workspace_layout_def Let_def find split: option.splits)
    then show ?thesis
      by (rule written)
  next
    case (St_SaveLayoutChecked now u' m' k' js b)
    let ?row = "\<lparr>wy_user_id = u', wy_machine_id = m', wy_group_key = k', wy_root_json = js,
      wy_updated_at = next_updated_at now (layout_at conn (u', m', k'))\<rparr>"
    have "exec_stmt conn st = conn \<or> write_layout ?row conn = Some (exec_stmt conn st)"
      unfolding St_SaveLayoutChecked
      by (auto simp: or_unchanged_err_def upsert_workspace_layout_checked_def Let_def find split: option.splits)
    then show ?thesis
      by (rule written)
  next
    case (St_DeleteLayoutChecked now u' m' k' b)
    let ?row = "\<lparr>wy_user_id = u', wy_machine_id = m', wy_group_key = k', wy_root_json = lit ''null'',
      wy_updated_at = next_updated_at now (layout_at conn (u', m', k'))\<rparr>"
    have "exec_stmt conn st = conn \<or> write_layout ?row conn = Some (exec_stmt conn st)"
      unfolding St_DeleteLayoutChecked
      by (auto simp: or_unchanged_err_def delete_workspace_layout_checked_def Let_def find split: option.splits)
    then show ?thesis
      by (rule written)
  next
    case (St_DeleteLayout u' m' k')
    with assms key have "layout_at (exec_stmt conn st) key = layout_at conn key"
      by (simp add: layout_at_def delete_workspace_layout_def Let_def) (rule find_filter_other, auto)
    then show ?thesis by (simp add: layout_grows_def)
  next
    case (St_DeleteMachine m')
    with assms key have "layout_at (exec_stmt conn st) key = layout_at conn key"
      by (simp add: layout_at_def delete_machine_def Let_def)
        (rule find_filter_other, auto simp: layout_key_def)
    then show ?thesis by (simp add: layout_grows_def)
  qed (rule layout_grows_refl, rule layouts_kept, simp)+
qed

lemma exec_stmts_grow:
  "\<forall>st \<in> set sts. keeps_layout key st \<Longrightarrow> layout_grows conn (foldl exec_stmt conn sts) key"
proof (induction sts arbitrary: conn)
  case Nil
  then show ?case by (simp add: layout_grows_refl)
next
  case (Cons st sts)
  then have "layout_grows conn (exec_stmt conn st) key"
    by (intro exec_stmt_grows) simp
  moreover from Cons have "layout_grows (exec_stmt conn st) (foldl exec_stmt (exec_stmt conn st) sts) key"
    by simp
  ultimately show ?case using layout_grows_trans by simp
qed

section \<open>Properties\<close>


text \<open>A program's own title wins. After any sequence of title reports, non-empty and each
  from the program (OSC) or from the foreground process' name, a live terminal that had no
  program title shows the last title its program set, if it set one, and otherwise the last
  process name.\<close>

theorem program_title_wins:
  assumes "db_ok conn" and "find_by_id conn tid = Some r" and "ts_destroyed_at r = None"
    and "ts_title_source r \<noteq> ''osc''"
    and "\<forall>u \<in> set us. fst u \<noteq> [] \<and> snd u \<noteq> Src_None"
  shows "\<exists>r'. find_by_id (report_titles tid us conn) tid = Some r'
    \<and> ts_title r' = decided_title (ts_title r) us"
  using report_titles_row [OF assms(1-3), of us] title_fold_decides [OF assms(5,4)]
  by (metis fst_conv)

definition example_db :: database where
  "example_db = foldl exec_stmt (empty_db [''u''])
     [St_CreateMachine 0 ''m'' ''u'' [] [], St_InsertTerminal 1 ''t'' ''m'' [] [] 80 24,
      St_InsertGroup 2 ''g'' ''u'' ''m'' [] 4 False, St_SaveLayout 3 ''u'' ''m'' ''g'' []]"

lemma program_title_wins_witness:
  "\<exists>r'. find_by_id (report_titles ''t'' [([98], Src_Process), ([120], Src_Osc), ([99], Src_Process)]
      example_db) ''t'' = Some r' \<and> ts_title r' = [120]"
proof -
  have ok: "db_ok example_db"
    unfolding example_db_def by (rule statements.run_inv) (rule db_ok_empty)
  have "find_by_id example_db ''t'' = Some \<lparr>ts_id = ''t'', ts_machine_id = ''m'', ts_title = [],
    ts_title_source = ''none'', ts_cwd = [], ts_workspace_group_id = None, ts_cols = 80, ts_rows = 24,
    ts_created_at = 1, ts_destroyed_at = None, ts_opened_by_kind = None, ts_opened_by_label = None\<rparr>"
    by code_simp
  from program_title_wins [OF ok this, of "[([98], Src_Process), ([120], Src_Osc), ([99], Src_Process)]"]
  show ?thesis by (simp add: decided_title_def)
qed

text \<open>C17. A saved pane layout is never lost unseen. If one device read the stored layout and
  later saves over it naming the version it read, the save is accepted only if the layout
  is still the one it read, whatever statements other devices ran in between (other than
  one that deletes that layout or its machine outright).\<close>

theorem layout_save_sees_what_it_replaces:
  assumes "find_workspace_layout conn u m k = Some r"
    and "\<forall>st \<in> set sts. keeps_layout (u, m, k) st" and "0 \<le> wy_updated_at r"
    and "upsert_workspace_layout_checked now u m k js (wy_updated_at r) (foldl exec_stmt conn sts)
      = Inr (conn', row)"
  shows "find_workspace_layout (foldl exec_stmt conn sts) u m k = Some r"
proof -
  let ?c = "foldl exec_stmt conn sts"
  have find: "find_workspace_layout c u m k = layout_at c (u, m, k)" for c
    by (simp add: find_workspace_layout_def layout_at_def)
  from exec_stmts_grow [OF assms(2), of conn] assms(1) obtain r' where
    r': "layout_at ?c (u, m, k) = Some r'" "r' = r \<or> wy_updated_at r < wy_updated_at r'"
    by (auto simp: layout_grows_def find)
  have "\<not> wy_updated_at r < wy_updated_at r'"
    using assms(3,4) r'(1)
    by (auto simp: upsert_workspace_layout_checked_def workspace_layout_base_conflicts_def find
        Let_def split: if_splits)
  with r' show ?thesis by (simp add: find)
qed

lemma layout_save_sees_what_it_replaces_witness:
  "find_workspace_layout (foldl exec_stmt example_db [St_ClearGroup ''g'']) ''u'' ''m'' ''g'' =
     Some \<lparr>wy_user_id = ''u'', wy_machine_id = ''m'', wy_group_key = ''g'', wy_root_json = [],
           wy_updated_at = 3\<rparr>"
proof (rule layout_save_sees_what_it_replaces)
  show "find_workspace_layout example_db ''u'' ''m'' ''g'' =
    Some \<lparr>wy_user_id = ''u'', wy_machine_id = ''m'', wy_group_key = ''g'', wy_root_json = [],
           wy_updated_at = 3\<rparr>" by code_simp
  show "upsert_workspace_layout_checked 9 ''u'' ''m'' ''g'' [110]
      (wy_updated_at \<lparr>wy_user_id = ''u'', wy_machine_id = ''m'', wy_group_key = ''g'',
         wy_root_json = [], wy_updated_at = 3\<rparr>)
      (foldl exec_stmt example_db [St_ClearGroup ''g'']) =
    Inr (example_db\<lparr>db_workspace_layouts := [\<lparr>wy_user_id = ''u'', wy_machine_id = ''m'',
        wy_group_key = ''g'', wy_root_json = [110], wy_updated_at = 9\<rparr>]\<rparr>,
      \<lparr>wy_user_id = ''u'', wy_machine_id = ''m'', wy_group_key = ''g'', wy_root_json = [110],
        wy_updated_at = 9\<rparr>)" by code_simp
qed simp_all

text \<open>A new tab goes to the end. A tab inserted with the next sort order is the last of its
  machine's strip, and the tabs before it keep their order.\<close>

theorem new_tab_is_last:
  assumes "insert_workspace_group now g u m nm (next_sort_order conn u m) auto conn
      = Some (conn', row)"
  shows "find_workspace_groups_by_machine conn' u m =
    find_workspace_groups_by_machine conn u m @ [row]"
proof -
  have row: "row = \<lparr>wr_id = g, wr_user_id = u, wr_machine_id = m, wr_name = nm,
      wr_sort_order = next_sort_order conn u m, wr_created_at = now\<rparr>"
    and conn': "db_workspace_groups conn' = db_workspace_groups conn @ [(row, auto)]"
    using assms by (auto simp: insert_workspace_group_def Let_def split: if_splits)
  let ?gs = "filter (\<lambda>g. wr_user_id g = u \<and> wr_machine_id g = m)
    (map fst (db_workspace_groups conn))"
  have "\<forall>y \<in> set ?gs. (wr_sort_order y, wr_name y) < (wr_sort_order row, wr_name row)"
    using next_sort_order_greater [of _ conn u m] by (auto simp: row less_prod_def)
  from sort_key_append_max [OF this] show ?thesis
    by (simp add: find_workspace_groups_by_machine_def conn' row)
qed

lemma new_tab_is_last_witness:
  "find_workspace_groups_by_machine
     (example_db\<lparr>db_workspace_groups := db_workspace_groups example_db @
       [(\<lparr>wr_id = ''h'', wr_user_id = ''u'', wr_machine_id = ''m'', wr_name = [104],
          wr_sort_order = 5, wr_created_at = 7\<rparr>, True)]\<rparr>) ''u'' ''m'' =
   find_workspace_groups_by_machine example_db ''u'' ''m'' @
     [\<lparr>wr_id = ''h'', wr_user_id = ''u'', wr_machine_id = ''m'', wr_name = [104],
       wr_sort_order = 5, wr_created_at = 7\<rparr>]"
proof (rule new_tab_is_last)
  show "insert_workspace_group 7 ''h'' ''u'' ''m'' [104] (next_sort_order example_db ''u'' ''m'') True
      example_db =
    Some (example_db\<lparr>db_workspace_groups := db_workspace_groups example_db @
       [(\<lparr>wr_id = ''h'', wr_user_id = ''u'', wr_machine_id = ''m'', wr_name = [104],
          wr_sort_order = 5, wr_created_at = 7\<rparr>, True)]\<rparr>,
     \<lparr>wr_id = ''h'', wr_user_id = ''u'', wr_machine_id = ''m'', wr_name = [104],
       wr_sort_order = 5, wr_created_at = 7\<rparr>)" by code_simp
qed

text \<open>A tab's name is never empty. The name of a tab opened for a folder is the folder's last
  path segment, without slashes; a path of nothing but slashes names it as it is, and an
  empty path \<open>workspace\<close>.\<close>

theorem tab_name_readable:
  "workspace_group_name_from_cwd cwd \<noteq> [] \<and>
   (if set cwd \<subseteq> {47} then workspace_group_name_from_cwd cwd = (if cwd = [] then lit ''workspace'' else cwd)
    else 47 \<notin> set (workspace_group_name_from_cwd cwd))"
proof (cases "find (\<lambda>seg. seg \<noteq> []) (rev (split_on 47 (trim_end_matches (\<lambda>c. c = 47) cwd)))")
  case None
  then have "\<forall>p \<in> set (split_on 47 (trim_end_matches (\<lambda>c. c = 47) cwd)). p = []"
    by (auto simp: find_None_iff)
  from split_on_all_Nil [OF this] have "trim_end_matches (\<lambda>c. c = 47) cwd = []"
    using trim_end_matches_last [of "\<lambda>c. c = 47" cwd] last_in_set
    by (metis (mono_tags, lifting) singletonD subsetD)
  then have "set cwd \<subseteq> {47}"
    by (auto simp: trim_end_matches_def dropWhile_eq_Nil_conv)
  with None show ?thesis by (simp add: workspace_group_name_from_cwd_def lit_def)
next
  case (Some seg)
  then have seg: "seg \<in> set (split_on 47 (trim_end_matches (\<lambda>c. c = 47) cwd))" "seg \<noteq> []"
    by (auto dest: find_SomeD)
  from split_on_parts [OF seg(1)] have no: "47 \<notin> set seg" .
  have "trim_end_matches (\<lambda>c. c = 47) cwd \<noteq> []"
    using seg by (auto split: if_splits)
  then have "\<not> set cwd \<subseteq> {47}"
    by (auto simp: trim_end_matches_def dropWhile_eq_Nil_conv)
  with Some seg no show ?thesis by (simp add: workspace_group_name_from_cwd_def)
qed

end
