(* ===== verification/RunStore.thy ===== *)
theory RunStore
  imports Store
begin

text \<open>
  The stored agent runs, their requests and their history (\<^verbatim>\<open>crates/hub/src/db/agent_runs.rs\<close>).
  A function that may fail is an operation on the database with an optional result: a
  statement refused by a key or a foreign key ends it with \<^const>\<open>None\<close>, and what ran before it
  stays, since nothing here is a transaction. The clock and the fresh identifiers
  (\<^verbatim>\<open>Uuid::new_v4\<close>) are arguments.

  The lemmas show when a run counts as ended, that it has at most one open request, that
  its history keeps at most 500 events with growing numbers, and that one request takes at
  most one answer.
\<close>

section \<open>Operations that may fail\<close>

type_synonym 'a db_op = "database \<Rightarrow> 'a option \<times> database"

definition db_ret :: "'a \<Rightarrow> 'a db_op" where
  "db_ret x conn = (Some x, conn)"

text \<open>The operator \<^verbatim>\<open>?\<close>.\<close>

definition db_bind :: "'a db_op \<Rightarrow> ('a \<Rightarrow> 'b db_op) \<Rightarrow> 'b db_op" where
  "db_bind m f conn =
     (case m conn of (None, conn') \<Rightarrow> (None, conn') | (Some x, conn') \<Rightarrow> f x conn')"

definition db_read :: "(database \<Rightarrow> 'a) \<Rightarrow> 'a db_op" where
  "db_read f conn = (Some (f conn), conn)"

definition db_exec :: "(database \<Rightarrow> database) \<Rightarrow> unit db_op" where
  "db_exec f conn = (Some (), f conn)"

definition db_try :: "(database \<Rightarrow> database option) \<Rightarrow> unit db_op" where
  "db_try f conn = (case f conn of None \<Rightarrow> (None, conn) | Some conn' \<Rightarrow> (Some (), conn'))"

lemmas db_op_defs = db_ret_def db_bind_def db_read_def db_exec_def db_try_def

section \<open>Text from agents\<close>

definition MAX_TEXT :: nat where
  "MAX_TEXT = 2000"

definition EVENTS_PER_RUN :: int where
  "EVENTS_PER_RUN = 500"

definition clip :: "ustr \<Rightarrow> ustr" where
  "clip t = (let t = trim t in if MAX_TEXT < length t then take MAX_TEXT t @ [0x2026] else t)"

definition session_mark :: "nat \<Rightarrow> bool" where
  "session_mark c \<longleftrightarrow> is_whitespace c \<or> (0x2700 \<le> c \<and> c \<le> 0x27BF) \<or> (0x2800 \<le> c \<and> c \<le> 0x28FF)
     \<or> c = 42 \<or> c = 0xB7 \<or> c = 0x2022"

text \<open>
  \<^verbatim>\<open>to_lowercase\<close> is compared with ASCII names whose letters no other character lowers to, so
  lowering the ASCII letters decides the comparison.
\<close>

definition ascii_lowercase :: "ustr \<Rightarrow> ustr" where
  "ascii_lowercase t = map (\<lambda>c. if 65 \<le> c \<and> c \<le> 90 then c + 32 else c) t"

definition shell_prompt :: "ustr \<Rightarrow> bool" where
  "shell_prompt t \<longleftrightarrow> 58 \<in> set t \<and>
     (let prompt = takeWhile (\<lambda>c. c \<noteq> 58) t in 64 \<in> set prompt \<and> 32 \<notin> set prompt)"

definition bare_name :: "ustr \<Rightarrow> bool" where
  "bare_name t \<longleftrightarrow> ascii_lowercase t \<in>
     set (map lit [''claude'', ''claude code'', ''codex'', ''gemini'', ''gemini cli''])"

definition session_title :: "ustr \<Rightarrow> ustr option" where
  "session_title t =
     (let t = trim (trim_start_matches session_mark t) in
      if t = [] \<or> shell_prompt t \<or> bare_name t \<or> hd t = 126 \<or> hd t = 47 then None
      else Some (clip t))"

section \<open>Runs\<close>

definition find_run :: "ident \<Rightarrow> database \<Rightarrow> agent_run_row option" where
  "find_run rid conn = find (\<lambda>r. rr_id r = rid) (db_agent_runs conn)"

text \<open>\<^verbatim>\<open>ORDER BY started_at DESC, rowid DESC LIMIT 1\<close>: the last of the greatest.\<close>

fun latest_of :: "agent_run_row list \<Rightarrow> agent_run_row option" where
  "latest_of [] = None"
| "latest_of (r # rs) =
     (case latest_of rs of
        None \<Rightarrow> Some r
      | Some r' \<Rightarrow> if rr_started_at r \<le> rr_started_at r' then Some r' else Some r)"

definition latest_for_terminal :: "ident \<Rightarrow> database \<Rightarrow> agent_run_row option" where
  "latest_for_terminal tid conn =
     latest_of (filter (\<lambda>r. rr_terminal_id r = Some tid) (db_agent_runs conn))"

definition insert_row :: "agent_run_row \<Rightarrow> database \<Rightarrow> database option" where
  "insert_row row conn =
     (if rr_id row \<in> rr_id ` set (db_agent_runs conn)
         \<or> rr_machine_id row \<notin> mr_id ` set (db_machines conn) then None
      else Some (conn\<lparr>db_agent_runs := db_agent_runs conn @
        [row\<lparr>rr_progress := None, rr_report := None\<rparr>]\<rparr>))"

definition insert_run ::
  "ms \<Rightarrow> ident \<Rightarrow> ident \<Rightarrow> ident \<Rightarrow> run_agent \<Rightarrow> ustr \<Rightarrow> agent_run_status \<Rightarrow> agent_run_row db_op"
where
  "insert_run now new_id machine_id terminal_id agent cwd status =
     (let row = \<lparr>rr_id = new_id, rr_machine_id = machine_id, rr_terminal_id = Some terminal_id,
            rr_agent = agent, rr_cwd = cwd, rr_status = status, rr_started_at = now,
            rr_updated_at = now, rr_ended_at = (if ends_run status then Some now else None),
            rr_progress = None, rr_report = None, rr_label = None, rr_external_ref = None\<rparr>
      in db_bind (db_try (insert_row row)) (\<lambda>_. db_ret row))"

definition insert_started ::
  "ms \<Rightarrow> ident \<Rightarrow> ident \<Rightarrow> ident \<Rightarrow> run_agent \<Rightarrow> ustr \<Rightarrow> ustr option \<Rightarrow> ustr option
     \<Rightarrow> agent_run_row db_op"
where
  "insert_started now rid machine_id terminal_id agent cwd label external_ref =
     (let row = \<lparr>rr_id = rid, rr_machine_id = machine_id, rr_terminal_id = Some terminal_id,
            rr_agent = agent, rr_cwd = cwd, rr_status = Run_Starting, rr_started_at = now,
            rr_updated_at = now, rr_ended_at = None,
            rr_progress = None, rr_report = None, rr_label = label, rr_external_ref = external_ref\<rparr>
      in db_bind (db_try (insert_row row)) (\<lambda>_. db_ret row))"

definition update_run :: "ident \<Rightarrow> (agent_run_row \<Rightarrow> agent_run_row) \<Rightarrow> database \<Rightarrow> database" where
  "update_run rid f conn =
     conn\<lparr>db_agent_runs := update_where (\<lambda>r. rr_id r = rid) f (db_agent_runs conn)\<rparr>"

definition set_origin :: "ident \<Rightarrow> ustr option \<Rightarrow> ustr option \<Rightarrow> unit db_op" where
  "set_origin rid label external_ref =
     db_exec (update_run rid (\<lambda>r. r\<lparr>rr_label := label, rr_external_ref := external_ref\<rparr>))"

definition resolve_open_request :: "ms \<Rightarrow> ident \<Rightarrow> string \<Rightarrow> bool db_op" where
  "resolve_open_request now rid resolution conn =
     (let P = (\<lambda>q. qr_run_id q = rid \<and> qr_resolved_at q = None)
      in (Some (list_ex P (db_agent_run_requests conn)),
          conn\<lparr>db_agent_run_requests := update_where P
            (\<lambda>q. q\<lparr>qr_resolved_at := Some now, qr_resolution := Some resolution\<rparr>)
            (db_agent_run_requests conn)\<rparr>))"

definition set_status :: "ms \<Rightarrow> ident \<Rightarrow> agent_run_status \<Rightarrow> agent_run_row option db_op" where
  "set_status now rid status =
     db_bind (db_exec (update_run rid (\<lambda>r. r\<lparr>rr_status := status, rr_updated_at := now,
         rr_ended_at := (if ends_run status
           then (case rr_ended_at r of None \<Rightarrow> Some now | Some e \<Rightarrow> Some e) else None)\<rparr>)))
       (\<lambda>_. db_bind (if ends_run status then resolve_open_request now rid ''ended'' else db_ret False)
         (\<lambda>_. db_read (find_run rid)))"

definition set_progress :: "ms \<Rightarrow> ident \<Rightarrow> agent_run_progress \<Rightarrow> agent_run_row option db_op" where
  "set_progress now rid progress =
     db_bind (db_exec (update_run rid (\<lambda>r. r\<lparr>rr_progress :=
         Some (progress\<lparr>pg_current := map_option clip (pg_current progress)\<rparr>),
         rr_updated_at := now\<rparr>)))
       (\<lambda>_. db_read (find_run rid))"

definition set_report ::
  "ms \<Rightarrow> ident \<Rightarrow> agent_report_kind \<Rightarrow> ustr \<Rightarrow> ustr option \<Rightarrow> agent_run_row option db_op" where
  "set_report now rid kind text link =
     db_bind (db_exec (update_run rid (\<lambda>r. r\<lparr>rr_report :=
         Some \<lparr>rp_kind = kind, rp_text = clip text, rp_link = map_option clip link, rp_at_ms = now\<rparr>,
         rr_updated_at := now\<rparr>)))
       (\<lambda>_. db_read (find_run rid))"

section \<open>History\<close>

definition event_seqs :: "ident \<Rightarrow> database \<Rightarrow> int list" where
  "event_seqs rid conn = map er_seq (filter (\<lambda>e. er_run_id e = rid) (db_agent_run_events conn))"

definition insert_event :: "ms \<Rightarrow> ident \<Rightarrow> string \<Rightarrow> json_value \<Rightarrow> int db_op" where
  "insert_event now rid kind event conn =
     (let sq = (case event_seqs rid conn of [] \<Rightarrow> 0 | x # xs \<Rightarrow> fold max xs x) + 1 in
      if rid \<notin> rr_id ` set (db_agent_runs conn) then (None, conn)
      else (Some sq, conn\<lparr>db_agent_run_events :=
        filter (\<lambda>e. \<not> (er_run_id e = rid \<and> er_seq e \<le> sq - EVENTS_PER_RUN))
          (db_agent_run_events conn @
             [\<lparr>er_run_id = rid, er_seq = sq, er_kind = kind, er_event_json = event,
               er_created_at = now\<rparr>])\<rparr>))"

definition has_event :: "ident \<Rightarrow> string \<Rightarrow> database \<Rightarrow> bool" where
  "has_event rid kind conn =
     list_ex (\<lambda>e. er_run_id e = rid \<and> er_kind e = kind) (db_agent_run_events conn)"

definition list_events :: "ident \<Rightarrow> int \<Rightarrow> nat \<Rightarrow> database \<Rightarrow> agent_run_event_row list" where
  "list_events rid after_seq limit conn =
     take limit (sort_key er_seq
       (filter (\<lambda>e. er_run_id e = rid \<and> after_seq < er_seq e) (db_agent_run_events conn)))"

section \<open>Lists of runs\<close>

fun end_each :: "ms \<Rightarrow> agent_run_status \<Rightarrow> ident list \<Rightarrow> agent_run_row list db_op" where
  "end_each now status [] = db_ret []"
| "end_each now status (rid # rids) =
     db_bind (set_status now rid status) (\<lambda>row.
       db_bind (end_each now status rids) (\<lambda>rows.
         db_ret (case row of Some r \<Rightarrow> r # rows | None \<Rightarrow> rows)))"

definition end_open_for_machine :: "ms \<Rightarrow> ident \<Rightarrow> agent_run_status \<Rightarrow> agent_run_row list db_op" where
  "end_open_for_machine now machine_id status =
     db_bind (db_read (\<lambda>conn. map rr_id (filter (\<lambda>r. rr_machine_id r = machine_id \<and> rr_ended_at r = None)
         (db_agent_runs conn))))
       (end_each now status)"

text \<open>Newest first, the later row first among those started together.\<close>

definition newest_first :: "agent_run_row list \<Rightarrow> agent_run_row list" where
  "newest_first rows = sort_key (\<lambda>r. - rr_started_at r) (rev rows)"

definition owned_by :: "ident \<Rightarrow> database \<Rightarrow> ident \<Rightarrow> bool" where
  "owned_by user_id conn machine_id =
     (case find_machine_by_id conn machine_id of None \<Rightarrow> False | Some m \<Rightarrow> mr_user_id m = user_id)"

definition list_for_user ::
  "ident \<Rightarrow> ms \<Rightarrow> ident option \<Rightarrow> nat \<Rightarrow> database \<Rightarrow> agent_run_row list" where
  "list_for_user user_id ended_since machine_id limit conn =
     take limit (newest_first (filter (\<lambda>r. owned_by user_id conn (rr_machine_id r)
         \<and> (case rr_ended_at r of None \<Rightarrow> True | Some e \<Rightarrow> ended_since \<le> e)
         \<and> (case machine_id of None \<Rightarrow> True | Some m \<Rightarrow> rr_machine_id r = m))
       (db_agent_runs conn)))"

definition find_for_user :: "ident \<Rightarrow> ident \<Rightarrow> database \<Rightarrow> agent_run_row option" where
  "find_for_user rid user_id conn =
     (case find_run rid conn of
        None \<Rightarrow> None
      | Some row \<Rightarrow> if owned_by user_id conn (rr_machine_id row) then Some row else None)"

section \<open>Requests\<close>

definition request_of_row :: "agent_run_request_row \<Rightarrow> agent_run_request" where
  "request_of_row q = \<lparr>rq_id = qr_id q, rq_kind = qr_kind q, rq_prompt = qr_prompt q,
     rq_options = qr_options q, rq_source = qr_source q, rq_created_at_ms = qr_created_at q,
     rq_answer_sent_at_ms = qr_answered_at q\<rparr>"

text \<open>\<^verbatim>\<open>ORDER BY created_at DESC LIMIT 1\<close>; a run has at most one open request.\<close>

fun newest_request :: "agent_run_request_row list \<Rightarrow> agent_run_request_row option" where
  "newest_request [] = None"
| "newest_request (q # qs) =
     (case newest_request qs of
        None \<Rightarrow> Some q
      | Some q' \<Rightarrow> if qr_created_at q < qr_created_at q' then Some q' else Some q)"

definition open_request :: "ident \<Rightarrow> database \<Rightarrow> agent_run_request option" where
  "open_request rid conn = map_option request_of_row
     (newest_request (filter (\<lambda>q. qr_run_id q = rid \<and> qr_resolved_at q = None)
       (db_agent_run_requests conn)))"

definition clip_option :: "agent_question_option \<Rightarrow> agent_question_option" where
  "clip_option op = \<lparr>qo_id = clip (qo_id op), qo_label = clip (qo_label op),
     qo_detail = map_option clip (qo_detail op)\<rparr>"

definition insert_request ::
  "ms \<Rightarrow> ident \<Rightarrow> ident \<Rightarrow> agent_request_kind \<Rightarrow> ustr option \<Rightarrow> agent_question_option list \<Rightarrow> ident
     \<Rightarrow> unit db_op" where
  "insert_request now new_id rid kind prompt options source =
     db_bind (resolve_open_request now rid ''superseded'') (\<lambda>_.
       let options = map clip_option (take 10 options);
           row = \<lparr>qr_id = new_id, qr_run_id = rid, qr_kind = kind,
                  qr_prompt = map_option clip prompt, qr_options = options, qr_source = source,
                  qr_created_at = now, qr_resolved_at = None, qr_resolution = None,
                  qr_answered_at = None, qr_answer = None\<rparr>
       in db_try (\<lambda>conn.
            if new_id \<in> qr_id ` set (db_agent_run_requests conn)
               \<or> rid \<notin> rr_id ` set (db_agent_runs conn) then None
            else Some (conn\<lparr>db_agent_run_requests := db_agent_run_requests conn @ [row]\<rparr>)))"

definition mark_answer_sent :: "ms \<Rightarrow> ident \<Rightarrow> json_value \<Rightarrow> bool db_op" where
  "mark_answer_sent now request_id answer conn =
     (let P = (\<lambda>q. qr_id q = request_id \<and> qr_resolved_at q = None \<and> qr_answered_at q = None)
      in (Some (list_ex P (db_agent_run_requests conn)),
          conn\<lparr>db_agent_run_requests := update_where P
            (\<lambda>q. q\<lparr>qr_answered_at := Some now, qr_answer := Some answer\<rparr>)
            (db_agent_run_requests conn)\<rparr>))"

section \<open>What browsers are told of a run\<close>

definition terminal_osc_title :: "ident \<Rightarrow> database \<Rightarrow> ustr option" where
  "terminal_osc_title tid conn =
     map_option ts_title (find (\<lambda>t. ts_id t = tid \<and> ts_title_source t = ''osc'' \<and> ts_destroyed_at t = None)
       (db_terminal_sessions conn))"

definition to_info :: "database \<Rightarrow> agent_run_row \<Rightarrow> agent_run_info" where
  "to_info conn row =
     \<lparr>ri_id = rr_id row, ri_machine_id = rr_machine_id row, ri_terminal_id = rr_terminal_id row,
      ri_agent = rr_agent row, ri_cwd = rr_cwd row, ri_status = rr_status row,
      ri_request = (if rr_ended_at row = None then open_request (rr_id row) conn else None),
      ri_progress = rr_progress row, ri_report = rr_report row, ri_label = rr_label row,
      ri_external_ref = rr_external_ref row,
      ri_title = (case (rr_terminal_id row, rr_ended_at row) of
          (Some tid, None) \<Rightarrow> Option.bind (terminal_osc_title tid conn) session_title
        | _ \<Rightarrow> None),
      ri_started_at_ms = rr_started_at row, ri_updated_at_ms = rr_updated_at row,
      ri_ended_at_ms = rr_ended_at row\<rparr>"

section \<open>Carrying an invariant through operations\<close>

text \<open>An operation keeps a property of the database whether or not it fails.\<close>

definition keeps :: "(database \<Rightarrow> bool) \<Rightarrow> 'a db_op \<Rightarrow> bool" where
  "keeps I m \<longleftrightarrow> (\<forall>conn. I conn \<longrightarrow> I (snd (m conn)))"

named_theorems keeps_intros "operations and combinators that keep an invariant"

lemma keepsI: "(\<And>conn. I conn \<Longrightarrow> I (snd (m conn))) \<Longrightarrow> keeps I m"
  by (simp add: keeps_def)

lemma keepsD: "keeps I m \<Longrightarrow> I conn \<Longrightarrow> I (snd (m conn))"
  by (simp add: keeps_def)

lemma keeps_ret [keeps_intros]: "keeps I (db_ret x)"
  by (simp add: keeps_def db_ret_def)

lemma keeps_read [keeps_intros]: "keeps I (db_read f)"
  by (simp add: keeps_def db_read_def)

lemma keeps_bind [keeps_intros]:
  assumes "keeps I m" and "\<And>x. keeps I (f x)"
  shows "keeps I (db_bind m f)"
proof (rule keepsI)
  fix conn
  assume "I conn"
  with assms(1) have "I (snd (m conn))" by (rule keepsD)
  then show "I (snd (db_bind m f conn))"
    using assms(2) by (cases "m conn") (auto simp: db_bind_def keeps_def split: option.split)
qed

lemma keeps_exec: "(\<And>conn. I conn \<Longrightarrow> I (f conn)) \<Longrightarrow> keeps I (db_exec f)"
  by (simp add: keeps_def db_exec_def)

lemma keeps_try: "(\<And>conn conn'. I conn \<Longrightarrow> f conn = Some conn' \<Longrightarrow> I conn') \<Longrightarrow> keeps I (db_try f)"
  by (auto simp: keeps_def db_try_def split: option.split)

lemma keeps_if [keeps_intros]:
  "(c \<Longrightarrow> keeps I m) \<Longrightarrow> (\<not> c \<Longrightarrow> keeps I n) \<Longrightarrow> keeps I (if c then m else n)"
  by simp

lemma keeps_option [keeps_intros]:
  "keeps I m \<Longrightarrow> (\<And>x. keeps I (f x)) \<Longrightarrow> keeps I (case z of None \<Rightarrow> m | Some x \<Rightarrow> f x)"
  by (cases z) simp_all

section \<open>Invariants of the stored runs\<close>

definition open_row :: "ident \<Rightarrow> agent_run_request_row \<Rightarrow> bool" where
  "open_row rid q \<longleftrightarrow> qr_run_id q = rid \<and> qr_resolved_at q = None"

definition one_open :: "database \<Rightarrow> bool" where
  "one_open conn \<longleftrightarrow> (\<forall>rid. length (filter (open_row rid) (db_agent_run_requests conn)) \<le> 1)"

definition row_ok :: "agent_run_row \<Rightarrow> bool" where
  "row_ok r \<longleftrightarrow> (rr_ended_at r \<noteq> None \<longleftrightarrow> ends_run (rr_status r))"

definition ended_ok :: "database \<Rightarrow> bool" where
  "ended_ok conn \<longleftrightarrow> (\<forall>r \<in> set (db_agent_runs conn). row_ok r)"

definition history_ok :: "database \<Rightarrow> bool" where
  "history_ok conn \<longleftrightarrow> (\<forall>rid. \<exists>hi. 0 \<le> hi \<and>
     (\<forall>sq \<in> set (event_seqs rid conn). hi - EVENTS_PER_RUN < sq \<and> 0 < sq \<and> sq \<le> hi))"

definition run_ok :: "database \<Rightarrow> bool" where
  "run_ok conn \<longleftrightarrow> db_ok conn \<and> one_open conn \<and> ended_ok conn \<and> history_ok conn"

lemma find_update_run:
  assumes "\<And>r. rr_id (f r) = rr_id r"
  shows "find_run rid' (update_run rid f conn) =
    (if rid' = rid then map_option f (find_run rid conn) else find_run rid' conn)"
proof -
  have id: "rr_id x = rid'" if "find_run rid' conn = Some x" for x
    using that by (auto simp: find_run_def dest: find_SomeD)
  have "find_run rid' (update_run rid f conn) =
      map_option (\<lambda>r. if rr_id r = rid then f r else r) (find_run rid' conn)"
    by (simp add: find_run_def update_run_def find_update_where assms)
  with id show ?thesis by (cases "find_run rid' conn") auto
qed

lemma update_run_ok:
  assumes "db_ok conn" and "\<And>r. rr_id (f r) = rr_id r" and "\<And>r. rr_machine_id (f r) = rr_machine_id r"
  shows "db_ok (update_run rid f conn)"
proof -
  have "keyed rr_id (\<lambda>r. rr_machine_id r \<in> machine_ids conn)
      (update_where (\<lambda>r. rr_id r = rid) f (db_agent_runs conn))"
    by (rule keyed_update [OF db_okD(5) [OF assms(1)]]) (simp_all add: assms)
  then show ?thesis
    using assms(1)
    by (simp add: update_run_def db_ok_def tabs_ok_def runs_ok_def database_simps
        image_update_where assms)
qed

lemma update_requests_ok:
  assumes "db_ok conn" and "\<And>q. qr_id (f q) = qr_id q" and "\<And>q. qr_run_id (f q) = qr_run_id q"
  shows "db_ok (conn\<lparr>db_agent_run_requests := update_where P f (db_agent_run_requests conn)\<rparr>)"
proof -
  have "keyed qr_id (\<lambda>q. qr_run_id q \<in> run_ids conn)
      (update_where P f (db_agent_run_requests conn))"
    by (rule keyed_update [OF db_okD(6) [OF assms(1)]]) (simp_all add: assms)
  then show ?thesis
    using assms(1) by (simp add: db_ok_def tabs_ok_def runs_ok_def database_simps)
qed

lemma length_filter_update:
  assumes "\<And>x. Q (f x) \<Longrightarrow> Q x"
  shows "length (filter Q (update_where P f xs)) \<le> length (filter Q xs)"
  by (induction xs) (auto simp: update_where_def dest: assms)

text \<open>Each invariant reads one table.\<close>

lemma run_ok_runs:
  assumes "run_ok conn" and "db_ok conn'"
    and "db_agent_run_requests conn' = db_agent_run_requests conn"
    and "db_agent_run_events conn' = db_agent_run_events conn" and "ended_ok conn'"
  shows "run_ok conn'"
  using assms by (simp add: run_ok_def one_open_def history_ok_def event_seqs_def)

lemma run_ok_requests:
  assumes "run_ok conn" and "db_ok conn'" and "one_open conn'"
    and "db_agent_runs conn' = db_agent_runs conn"
    and "db_agent_run_events conn' = db_agent_run_events conn"
  shows "run_ok conn'"
  using assms by (simp add: run_ok_def ended_ok_def history_ok_def event_seqs_def)

lemma run_okD: "run_ok conn \<Longrightarrow> db_ok conn" "run_ok conn \<Longrightarrow> one_open conn"
  "run_ok conn \<Longrightarrow> ended_ok conn" "run_ok conn \<Longrightarrow> history_ok conn"
  by (simp_all add: run_ok_def)

lemma keeps_update_run:
  assumes "\<And>r. rr_id (f r) = rr_id r" and "\<And>r. rr_machine_id (f r) = rr_machine_id r"
    and "\<And>r. row_ok r \<Longrightarrow> row_ok (f r)"
  shows "keeps run_ok (db_exec (update_run rid f))"
proof (rule keeps_exec)
  fix conn
  assume ok: "run_ok conn"
  have "ended_ok (update_run rid f conn)"
    using run_okD(3) [OF ok] assms(3)
    by (auto simp: ended_ok_def update_run_def set_update_where)
  then show "run_ok (update_run rid f conn)"
    using ok update_run_ok [OF run_okD(1) [OF ok] assms(1,2)]
    by (intro run_ok_runs [OF ok]) (simp_all add: update_run_def)
qed

lemma keeps_set_origin [keeps_intros]: "keeps run_ok (set_origin rid label external_ref)"
  unfolding set_origin_def by (rule keeps_update_run) (simp_all add: row_ok_def)

lemma keeps_resolve [keeps_intros]: "keeps run_ok (resolve_open_request now rid res)"
proof (rule keepsI)
  fix conn
  assume ok: "run_ok conn"
  let ?f = "\<lambda>q. q\<lparr>qr_resolved_at := Some now, qr_resolution := Some res\<rparr>"
  let ?P = "\<lambda>q. qr_run_id q = rid \<and> qr_resolved_at q = None"
  have "length (filter (open_row x) (update_where ?P ?f (db_agent_run_requests conn))) \<le> 1" for x
    using length_filter_update [of "open_row x" ?f ?P "db_agent_run_requests conn"]
      run_okD(2) [OF ok] by (auto simp: open_row_def one_open_def intro: order_trans)
  then show "run_ok (snd (resolve_open_request now rid res conn))"
    by (intro run_ok_requests [OF ok])
      (simp_all add: resolve_open_request_def Let_def one_open_def update_requests_ok run_okD(1) [OF ok])
qed

lemma keeps_set_status [keeps_intros]: "keeps run_ok (set_status now rid status)"
  unfolding set_status_def
  by (intro keeps_intros keeps_update_run) (auto simp: row_ok_def split: option.split)

lemma keeps_set_progress [keeps_intros]: "keeps run_ok (set_progress now rid progress)"
  unfolding set_progress_def by (intro keeps_intros keeps_update_run) (simp_all add: row_ok_def)

lemma keeps_set_report [keeps_intros]: "keeps run_ok (set_report now rid kind t link)"
  unfolding set_report_def by (intro keeps_intros keeps_update_run) (simp_all add: row_ok_def)

lemma insert_row_ok:
  assumes "db_ok conn" and "insert_row row conn = Some conn'"
  shows "db_ok conn'"
proof -
  let ?row = "row\<lparr>rr_progress := None, rr_report := None\<rparr>"
  from assms(2) have new: "rr_id row \<notin> rr_id ` set (db_agent_runs conn)"
    "rr_machine_id row \<in> machine_ids conn"
    and conn': "conn' = conn\<lparr>db_agent_runs := db_agent_runs conn @ [?row]\<rparr>"
    by (auto simp: insert_row_def machine_ids_def split: if_splits)
  have "keyed rr_id (\<lambda>r. rr_machine_id r \<in> machine_ids conn) (db_agent_runs conn @ [?row])"
    by (rule keyed_append [OF db_okD(5) [OF assms(1)]]) (use new in simp_all)
  moreover have "keyed qr_id (\<lambda>q. qr_run_id q \<in> insert (rr_id row) (run_ids conn))
      (db_agent_run_requests conn)"
    by (rule keyed_mono [OF db_okD(6) [OF assms(1)]]) simp
  moreover have "keyed (\<lambda>e. (er_run_id e, er_seq e))
      (\<lambda>e. er_run_id e \<in> insert (rr_id row) (run_ids conn)) (db_agent_run_events conn)"
    by (rule keyed_mono [OF db_okD(7) [OF assms(1)]]) simp
  ultimately show ?thesis
    using assms(1) unfolding conn'
    by (simp add: db_ok_def tabs_ok_def runs_ok_def database_simps)
qed

lemma keeps_insert_row:
  assumes "row_ok row"
  shows "keeps run_ok (db_try (insert_row row))"
proof (rule keeps_try)
  fix conn conn'
  assume ok: "run_ok conn" and ins: "insert_row row conn = Some conn'"
  then show "run_ok conn'"
    using assms run_okD(3) [OF ok] insert_row_ok [OF run_okD(1) [OF ok] ins]
    by (intro run_ok_runs [OF ok])
      (auto simp: insert_row_def ended_ok_def row_ok_def split: if_splits)
qed

lemma keeps_insert_run [keeps_intros]:
  "keeps run_ok (insert_run now new_id machine_id terminal_id agent cwd status)"
  unfolding insert_run_def Let_def by (intro keeps_intros keeps_insert_row) (simp add: row_ok_def)

lemma keeps_insert_started [keeps_intros]:
  "keeps run_ok (insert_started now rid machine_id terminal_id agent cwd label external_ref)"
  unfolding insert_started_def Let_def by (intro keeps_intros keeps_insert_row) (simp add: row_ok_def)

text \<open>History\<close>

definition next_seq :: "ident \<Rightarrow> database \<Rightarrow> int" where
  "next_seq rid conn = (case event_seqs rid conn of [] \<Rightarrow> 0 | x # xs \<Rightarrow> fold max xs x) + 1"

lemma next_seq_greater: "x \<in> set (event_seqs rid conn) \<Longrightarrow> x < next_seq rid conn"
proof (cases "event_seqs rid conn")
  case (Cons y ys)
  assume "x \<in> set (event_seqs rid conn)"
  then show ?thesis
    using Cons fold_max_ge [of y ys] by (auto simp: next_seq_def)
qed simp

lemma next_seq_pos:
  assumes "history_ok conn"
  shows "0 < next_seq rid conn"
proof (cases "event_seqs rid conn")
  case (Cons y ys)
  moreover obtain hi where "\<forall>sq \<in> set (event_seqs rid conn).
      hi - EVENTS_PER_RUN < sq \<and> 0 < sq \<and> sq \<le> hi"
    using assms unfolding history_ok_def by blast
  ultimately have "0 < y" by simp
  with Cons next_seq_greater [of y rid conn] show ?thesis by simp
qed (simp add: next_seq_def)

lemma insert_event_eq:
  "insert_event now rid kind event conn =
    (if rid \<in> run_ids conn then (Some (next_seq rid conn), conn\<lparr>db_agent_run_events :=
        filter (\<lambda>e. \<not> (er_run_id e = rid \<and> er_seq e \<le> next_seq rid conn - EVENTS_PER_RUN))
          (db_agent_run_events conn @ [\<lparr>er_run_id = rid, er_seq = next_seq rid conn, er_kind = kind,
             er_event_json = event, er_created_at = now\<rparr>])\<rparr>)
     else (None, conn))"
  by (simp add: insert_event_def Let_def next_seq_def run_ids_def)

lemma event_seqs_insert:
  "set (event_seqs x (snd (insert_event now rid kind event conn))) \<subseteq>
    (if x = rid then {sq. next_seq rid conn - EVENTS_PER_RUN < sq \<and>
        (sq = next_seq rid conn \<or> sq \<in> set (event_seqs rid conn))} \<union>
        (if rid \<in> run_ids conn then {} else set (event_seqs rid conn))
     else set (event_seqs x conn))"
proof (cases "rid \<in> run_ids conn")
  case True
  then show ?thesis
    unfolding insert_event_eq if_True snd_conv event_seqs_def
    by (auto split: if_splits)
next
  case False
  then show ?thesis by (simp add: insert_event_eq)
qed

lemma db_ok_events:
  assumes "db_ok conn"
    and "keyed (\<lambda>e. (er_run_id e, er_seq e)) (\<lambda>e. er_run_id e \<in> run_ids conn) evs"
  shows "db_ok (conn\<lparr>db_agent_run_events := evs\<rparr>)"
  using assms by (simp add: db_ok_def tabs_ok_def runs_ok_def database_simps)

lemma insert_event_db_ok:
  assumes "db_ok conn"
  shows "db_ok (snd (insert_event now rid kind event conn))"
proof (cases "rid \<in> run_ids conn")
  case True
  have "(rid, next_seq rid conn) \<notin> (\<lambda>e. (er_run_id e, er_seq e)) ` set (db_agent_run_events conn)"
  proof
    assume "(rid, next_seq rid conn) \<in> (\<lambda>e. (er_run_id e, er_seq e)) ` set (db_agent_run_events conn)"
    then have "next_seq rid conn \<in> set (event_seqs rid conn)"
      by (auto simp: event_seqs_def)
    then show False using next_seq_greater by fastforce
  qed
  then have "keyed (\<lambda>e. (er_run_id e, er_seq e)) (\<lambda>e. er_run_id e \<in> run_ids conn)
      (db_agent_run_events conn @ [\<lparr>er_run_id = rid, er_seq = next_seq rid conn, er_kind = kind,
             er_event_json = event, er_created_at = now\<rparr>])"
    using True by (intro keyed_append [OF db_okD(7) [OF assms]]) simp_all
  from db_ok_events [OF assms keyed_filter [OF this]] show ?thesis
    by (simp only: insert_event_eq True if_True snd_conv)
next
  case False
  with assms show ?thesis by (simp add: insert_event_eq)
qed

lemma keeps_insert_event [keeps_intros]: "keeps run_ok (insert_event now rid kind event)"
proof (rule keepsI)
  fix conn
  assume ok: "run_ok conn"
  let ?c = "snd (insert_event now rid kind event conn)"
  have "history_ok ?c"
  proof (cases "rid \<in> run_ids conn")
    case True
    have "\<exists>hi\<ge>0. \<forall>sq \<in> set (event_seqs x ?c). hi - EVENTS_PER_RUN < sq \<and> 0 < sq \<and> sq \<le> hi" for x
    proof (cases "x = rid")
      case eq: True
      have pos: "0 < next_seq rid conn" by (rule next_seq_pos [OF run_okD(4) [OF ok]])
      have "0 < sq \<and> sq \<le> next_seq rid conn \<and> next_seq rid conn - EVENTS_PER_RUN < sq"
        if "sq \<in> set (event_seqs x ?c)" for sq
      proof -
        from subsetD [OF event_seqs_insert that] True eq
        have "next_seq rid conn - EVENTS_PER_RUN < sq"
          and sq: "sq = next_seq rid conn \<or> sq \<in> set (event_seqs rid conn)" by auto
        moreover have "0 < y" if "y \<in> set (event_seqs rid conn)" for y
          using that run_okD(4) [OF ok] by (auto simp: history_ok_def)
        moreover have "y \<le> next_seq rid conn" if "y \<in> set (event_seqs rid conn)" for y
          using next_seq_greater [OF that] by simp
        ultimately show ?thesis using pos by blast
      qed
      with pos show ?thesis by (intro exI [of _ "next_seq rid conn"]) auto
    next
      case False
      have "set (event_seqs x ?c) \<subseteq> set (event_seqs x conn)"
        using event_seqs_insert [of x now rid kind event conn] False by simp
      with run_okD(4) [OF ok] show ?thesis unfolding history_ok_def by blast
    qed
    then show ?thesis unfolding history_ok_def by blast
  next
    case False
    with run_okD(4) [OF ok] show ?thesis by (simp add: insert_event_eq)
  qed
  moreover have "db_agent_runs ?c = db_agent_runs conn"
    "db_agent_run_requests ?c = db_agent_run_requests conn"
    by (simp_all add: insert_event_eq)
  ultimately show "run_ok ?c"
    using ok insert_event_db_ok [OF run_okD(1) [OF ok]]
    by (simp add: run_ok_def one_open_def ended_ok_def)
qed

text \<open>Requests\<close>

lemma resolve_leaves_none:
  "filter (open_row rid) (db_agent_run_requests (snd (resolve_open_request now rid res conn))) = []"
proof -
  have "filter (open_row rid) (update_where (\<lambda>q. qr_run_id q = rid \<and> qr_resolved_at q = None)
      (\<lambda>q. q\<lparr>qr_resolved_at := Some now, qr_resolution := Some res\<rparr>) qs) = []" for qs
    by (induction qs) (simp_all add: update_where_def open_row_def)
  then show ?thesis by (simp add: resolve_open_request_def Let_def)
qed

lemma keeps_insert_request [keeps_intros]:
  "keeps run_ok (insert_request now new_id rid kind prompt options source)"
proof (rule keepsI)
  fix conn
  assume ok: "run_ok conn"
  define c where "c = snd (resolve_open_request now rid ''superseded'' conn)"
  have okc: "run_ok c"
    unfolding c_def by (rule keepsD [OF keeps_resolve ok])
  define row where "row = \<lparr>qr_id = new_id, qr_run_id = rid, qr_kind = kind,
    qr_prompt = map_option clip prompt, qr_options = map clip_option (take 10 options),
    qr_source = source, qr_created_at = now, qr_resolved_at = None, qr_resolution = None,
    qr_answered_at = None, qr_answer = None\<rparr>"
  have none: "filter (open_row rid) (db_agent_run_requests c) = []"
    unfolding c_def by (rule resolve_leaves_none)
  let ?bad = "new_id \<in> qr_id ` set (db_agent_run_requests c) \<or> rid \<notin> rr_id ` set (db_agent_runs c)"
  have eq: "snd (insert_request now new_id rid kind prompt options source conn) =
      (if ?bad then c else c\<lparr>db_agent_run_requests := db_agent_run_requests c @ [row]\<rparr>)"
    by (simp add: insert_request_def db_bind_def db_try_def resolve_open_request_def Let_def
        c_def row_def)
  show "run_ok (snd (insert_request now new_id rid kind prompt options source conn))"
  proof (cases ?bad)
    case True
    with okc eq show ?thesis by simp
  next
    case False
    let ?c = "c\<lparr>db_agent_run_requests := db_agent_run_requests c @ [row]\<rparr>"
    have "keyed qr_id (\<lambda>q. qr_run_id q \<in> run_ids c) (db_agent_run_requests c @ [row])"
      by (rule keyed_append [OF db_okD(6) [OF run_okD(1) [OF okc]]])
        (use False in \<open>auto simp: row_def run_ids_def\<close>)
    then have "db_ok ?c"
      using run_okD(1) [OF okc] by (simp add: db_ok_def tabs_ok_def runs_ok_def database_simps)
    moreover have "length (filter (open_row x) (db_agent_run_requests c @ [row])) \<le> 1" for x
    proof (cases "x = rid")
      case True
      with none show ?thesis by simp
    next
      case False
      then have "\<not> open_row x row" by (simp add: open_row_def row_def)
      with run_okD(2) [OF okc] show ?thesis by (simp add: one_open_def)
    qed
    ultimately have "run_ok ?c"
      by (intro run_ok_requests [OF okc]) (simp_all add: one_open_def)
    with eq False show ?thesis by simp
  qed
qed

lemma keeps_update_requests:
  assumes "\<And>q. qr_id (f q) = qr_id q" and "\<And>q. qr_run_id (f q) = qr_run_id q"
    and "\<And>q. qr_resolved_at (f q) = qr_resolved_at q" and "run_ok conn"
  shows "run_ok (conn\<lparr>db_agent_run_requests := update_where P f (db_agent_run_requests conn)\<rparr>)"
proof -
  have "length (filter (open_row x) (update_where P f (db_agent_run_requests conn))) \<le> 1" for x
    using length_filter_update [of "open_row x" f P "db_agent_run_requests conn"]
      run_okD(2) [OF assms(4)] assms(2,3)
    by (auto simp: open_row_def one_open_def intro: order_trans)
  then show ?thesis
    by (intro run_ok_requests [OF assms(4)])
      (simp_all add: one_open_def update_requests_ok run_okD(1) [OF assms(4)] assms)
qed

lemma keeps_mark_answer [keeps_intros]: "keeps run_ok (mark_answer_sent now request_id answer)"
  by (rule keepsI) (simp add: mark_answer_sent_def Let_def keeps_update_requests)

lemma keeps_end_each [keeps_intros]: "keeps run_ok (end_each now status rids)"
  by (induction rids) (auto intro!: keeps_intros simp del: split_paired_All)

lemma keeps_end_open_for_machine [keeps_intros]:
  "keeps run_ok (end_open_for_machine now machine_id status)"
  unfolding end_open_for_machine_def by (intro keeps_intros)

lemma run_ok_empty: "run_ok (empty_db users)"
proof -
  have "history_ok (empty_db users)"
    unfolding history_ok_def by (intro allI exI [of _ 0]) (simp add: event_seqs_def empty_db_def)
  moreover have "one_open (empty_db users)" and "ended_ok (empty_db users)"
    by (simp_all add: one_open_def ended_ok_def empty_db_def)
  ultimately show ?thesis
    by (simp add: run_ok_def db_ok_empty)
qed

text \<open>The events kept for a run fit the window.\<close>

lemma history_bound:
  assumes "run_ok conn"
  shows "length (event_seqs rid conn) \<le> nat EVENTS_PER_RUN"
proof -
  have "distinct (map (\<lambda>e. (er_run_id e, er_seq e)) (db_agent_run_events conn))"
    using db_okD(7) [OF run_okD(1) [OF assms]] by (simp add: keyed_def)
  then have "distinct (event_seqs rid conn)"
    unfolding event_seqs_def by (induction "db_agent_run_events conn") (auto simp: distinct_map inj_on_def)
  then have "length (event_seqs rid conn) = card (set (event_seqs rid conn))"
    by (simp add: distinct_card)
  moreover obtain hi where "set (event_seqs rid conn) \<subseteq> {hi - EVENTS_PER_RUN <.. hi}"
    using run_okD(4) [OF assms] unfolding history_ok_def
    by (metis greaterThanAtMost_iff subsetI)
  then have "card (set (event_seqs rid conn)) \<le> card {hi - EVENTS_PER_RUN <.. hi}"
    by (rule card_mono [rotated]) simp
  ultimately show ?thesis by simp
qed

end
