(* ===== verification/AgentRuns.thy ===== *)
theory AgentRuns
  imports RunStore ControlLeases
begin

text \<open>
  The life of agent runs (\<^verbatim>\<open>crates/hub/src/machine_manager/agent_runs.rs\<close>): what the hub makes of
  an agent appearing in or leaving a terminal, of what the agent says about itself, of the
  terminal's screen, of a terminal or a machine going away, and of a person's answer.

  A handler returns the events it sends with the new database. What it learns from the rest
  of the hub is an argument: the terminal it looked up, whether the machine is reachable and
  what its node supports, whether a message went out. Identifiers made by \<^verbatim>\<open>Uuid::new_v4\<close>
  and the time are arguments too; a handler reads the clock once.
\<close>

section \<open>Answers as keys\<close>

datatype answer_error =
    Ans_NotFound
  | Ans_Conflict string
  | Ans_BadRequest string
  | Ans_Unavailable string
  | Ans_Internal

definition FOLDER_TRUST_SOURCE :: ident where
  "FOLDER_TRUST_SOURCE = ''screen:folder-trust''"

definition FOLDER_TRUST_PROMPT :: ustr where
  "FOLDER_TRUST_PROMPT = lit ''Trust this folder? Claude Code asks before it works in a folder it hasn't opened before. Declining exits it.''"

definition AGENT_KEYS_CAPABILITY :: ident where
  "AGENT_KEYS_CAPABILITY = ''agent-keys-v1''"

definition AGENT_CHOOSE_CAPABILITY :: ident where
  "AGENT_CHOOSE_CAPABILITY = ''agent-choose-v1''"

definition AGENT_START_CAPABILITY :: ident where
  "AGENT_START_CAPABILITY = ''agent-start-v1''"

definition AGENT_START_DIRS_CAPABILITY :: ident where
  "AGENT_START_DIRS_CAPABILITY = ''agent-start-dirs-v1''"

fun position :: "('a \<Rightarrow> bool) \<Rightarrow> 'a list \<Rightarrow> nat option" where
  "position P [] = None"
| "position P (x # xs) = (if P x then Some 0 else map_option Suc (position P xs))"

definition typed :: "ustr \<Rightarrow> answer_error + agent_key list" where
  "typed t =
     (if is_allowed (Key_Text t) then Inr [Key_Text t, Key_Enter]
      else Inl (Ans_BadRequest ''Answer in one line of at most 2000 characters''))"

definition approve_keys :: "agent_key \<Rightarrow> bool option \<Rightarrow> answer_error + agent_key list" where
  "approve_keys yes approve =
     (case approve of
        Some True \<Rightarrow> Inr [yes]
      | Some False \<Rightarrow> Inr [Key_Escape]
      | None \<Rightarrow> Inl (Ans_BadRequest ''Approve (true) or decline (false)''))"

definition keys_for :: "agent_run_request \<Rightarrow> agent_answer \<Rightarrow> answer_error + agent_key list" where
  "keys_for request answer =
     (let text = filter_nonempty (map_option trim (an_text answer)) in
      case rq_kind request of
        Req_Approval \<Rightarrow>
          approve_keys (if rq_source request = FOLDER_TRUST_SOURCE then Key_Choose FOLDER_TRUST_YES
                        else Key_Digit 1) (an_approve answer)
      | Req_Question \<Rightarrow>
          (case (an_option_id answer, text) of
             (Some option_id, _) \<Rightarrow>
               (case position (\<lambda>opt. qo_id opt = option_id) (rq_options request) of
                  None \<Rightarrow> Inl (Ans_BadRequest ''No such option'')
                | Some index \<Rightarrow>
                    if 9 \<le> index
                    then Inl (Ans_BadRequest ''Only the first nine options can be picked from here'')
                    else Inr [Key_Digit (of_nat index + 1)])
           | (None, Some t) \<Rightarrow> typed t
           | (None, None) \<Rightarrow> Inl (Ans_BadRequest ''Pick an option or write an answer''))
      | _ \<Rightarrow> (case text of Some t \<Rightarrow> typed t | None \<Rightarrow> Inl (Ans_BadRequest ''Write an answer'')))"

section \<open>What is written to the history\<close>

definition j_opt :: "('a \<Rightarrow> json_value) \<Rightarrow> 'a option \<Rightarrow> json_value" where
  "j_opt f x = (case x of None \<Rightarrow> J_Null | Some y \<Rightarrow> f y)"

definition j_id :: "string \<Rightarrow> json_value" where
  "j_id s = J_Str (lit s)"

definition status_event :: "agent_run_status \<Rightarrow> string \<Rightarrow> json_value" where
  "status_event status source =
     J_Object [(''status'', j_id (run_status_as_str status)), (''source'', j_id source)]"

definition option_json :: "agent_question_option \<Rightarrow> json_value" where
  "option_json opt = J_Object [(''id'', J_Str (qo_id opt)), (''label'', J_Str (qo_label opt)),
     (''detail'', j_opt J_Str (qo_detail opt))]"

definition request_event ::
  "agent_request_kind \<Rightarrow> ustr option \<Rightarrow> agent_question_option list \<Rightarrow> string \<Rightarrow> json_value" where
  "request_event request prompt options source =
     J_Object [(''request'', j_id (request_kind_as_str request)), (''prompt'', j_opt J_Str prompt),
       (''options'', J_Array (map option_json options)), (''source'', j_id source)]"

definition report_event ::
  "agent_report_kind \<Rightarrow> ustr \<Rightarrow> ustr option \<Rightarrow> string \<Rightarrow> json_value" where
  "report_event kind text link source =
     J_Object [(''kind'', j_id (report_kind_as_str kind)), (''text'', J_Str (clip text)),
       (''link'', j_opt J_Str link), (''source'', j_id source)]"

definition answer_summary :: "agent_answer \<Rightarrow> ident option \<Rightarrow> json_value" where
  "answer_summary answer device =
     J_Object [(''approve'', j_opt J_Bool (an_approve answer)),
       (''option_id'', j_opt J_Str (an_option_id answer)), (''text'', j_opt J_Str (an_text answer)),
       (''device_id'', j_opt j_id device)]"

fun permission_mode_name :: "agent_permission_mode \<Rightarrow> string" where
  "permission_mode_name Mode_Ask = ''ask''"
| "permission_mode_name Mode_AcceptEdits = ''accept_edits''"
| "permission_mode_name Mode_Plan = ''plan''"
| "permission_mode_name Mode_Auto = ''auto''"

definition start_summary :: "agent_start \<Rightarrow> ustr option \<Rightarrow> json_value" where
  "start_summary start label =
     J_Object [(''agent'', j_id (run_agent_as_str (st_agent start))),
       (''permission_mode'', j_opt (\<lambda>m. j_id (permission_mode_name m)) (st_permission_mode start)),
       (''label'', j_opt J_Str label), (''external_ref'', j_opt J_Str (st_external_ref start)),
       (''prompt_chars'', J_Int (case st_prompt start of None \<Rightarrow> 0 | Some p \<Rightarrow> int (length p)))]"

section \<open>Steps the handlers share\<close>

definition SAME_WORK_MS :: ms where
  "SAME_WORK_MS = 60 * 1000"

definition TURN_ENDED :: string where
  "TURN_ENDED = ''turn_ended''"

definition handed_over :: "agent_run_row \<Rightarrow> bool" where
  "handed_over run \<longleftrightarrow> rr_ended_at run \<noteq> None \<and>
     (case rr_report run of Some report \<Rightarrow> rp_kind report = Rep_Finished | None \<Rightarrow> False)"

definition after_handover :: "ms \<Rightarrow> agent_run_row option \<Rightarrow> agent_signal \<Rightarrow> bool db_op" where
  "after_handover now latest signal =
     (case latest of
        None \<Rightarrow> db_ret False
      | Some run \<Rightarrow>
          if \<not> handed_over run then db_ret False
          else db_bind (db_read (has_event (rr_id run) TURN_ENDED)) (\<lambda>ended.
            case signal of
              Sig_Idle \<Rightarrow>
                db_bind (if \<not> ended
                         then db_bind (insert_event now (rr_id run) TURN_ENDED (J_Object []))
                                (\<lambda>_. db_ret ())
                         else db_ret ())
                  (\<lambda>_. db_ret True)
            | Sig_Working \<Rightarrow> db_ret (\<not> ended)
            | Sig_Progress _ \<Rightarrow> db_ret (\<not> ended)
            | _ \<Rightarrow> db_ret False))"

definition inherit :: "ms \<Rightarrow> ident \<Rightarrow> agent_run_row option \<Rightarrow> unit db_op" where
  "inherit now rid previous =
     (case previous of
        None \<Rightarrow> db_ret ()
      | Some previous \<Rightarrow>
          let moment_ago = (case rr_ended_at previous of
                              None \<Rightarrow> False | Some ended \<Rightarrow> now - ended < SAME_WORK_MS)
          in if handed_over previous then set_origin rid (rr_label previous) None
             else if moment_ago
             then set_origin rid (rr_label previous) (rr_external_ref previous)
             else db_ret ())"

definition begin_run ::
  "ms \<Rightarrow> ident \<Rightarrow> ident \<Rightarrow> terminal_attention option \<Rightarrow> agent_run_row option db_op" where
  "begin_run now new_req rid attention =
     (case attention of
        Some Confirmation \<Rightarrow>
          db_bind (insert_request now new_req rid Req_Approval None [] ''screen'')
            (\<lambda>_. set_status now rid Run_Waiting)
      | Some FolderTrust \<Rightarrow>
          db_bind (insert_request now new_req rid Req_Approval (Some FOLDER_TRUST_PROMPT) []
                     FOLDER_TRUST_SOURCE)
            (\<lambda>_. set_status now rid Run_Waiting)
      | None \<Rightarrow> set_status now rid Run_Working)"

definition list_of_option :: "'a option \<Rightarrow> 'a list" where
  "list_of_option x = (case x of None \<Rightarrow> [] | Some y \<Rightarrow> [y])"

definition changed_run :: "agent_run_row option db_op \<Rightarrow> agent_run_row list db_op" where
  "changed_run m = db_bind m (\<lambda>row. db_ret (list_of_option row))"

type_synonym announcement = "ident option \<times> browser_event"

definition announce_runs ::
  "ident option \<Rightarrow> agent_run_row list db_op \<Rightarrow> database \<Rightarrow> announcement list \<times> database" where
  "announce_runs user_id m conn =
     (case m conn of
        (None, conn') \<Rightarrow> ([], conn')
      | (Some rows, conn') \<Rightarrow>
          (map (\<lambda>row. (user_id, Ev_AgentRunUpdated (to_info conn' row))) rows, conn'))"

definition open_run :: "agent_run_row option \<Rightarrow> agent_run_row option" where
  "open_run latest = (case latest of
     Some run \<Rightarrow> if rr_ended_at run = None then Some run else None | None \<Rightarrow> None)"

section \<open>Reports of nodes\<close>

text \<open>What a handler reads of the terminal's live state: its owner, folder and screen.\<close>

record terminal_view =
  tv_user_id :: "ident option"
  tv_cwd :: ustr
  tv_attention :: "terminal_attention option"

definition fresh_run ::
  "ms \<Rightarrow> ident \<Rightarrow> ident \<Rightarrow> ident \<Rightarrow> ident \<Rightarrow> run_agent \<Rightarrow> terminal_view
     \<Rightarrow> agent_run_row option \<Rightarrow> agent_run_row list db_op" where
  "fresh_run now new_run new_req machine_id terminal_id agent view latest =
     db_bind (case open_run latest of
                Some old \<Rightarrow> changed_run (set_status now (rr_id old) Run_Done)
              | None \<Rightarrow> db_ret []) (\<lambda>changed.
     db_bind (insert_run now new_run machine_id terminal_id agent (tv_cwd view) Run_Working) (\<lambda>run.
     db_bind (inherit now (rr_id run) latest) (\<lambda>_.
     db_bind (begin_run now new_req (rr_id run) (tv_attention view)) (\<lambda>row.
     db_ret (changed @ list_of_option row)))))"

definition terminal_agent_runs ::
  "ms \<Rightarrow> ident \<Rightarrow> ident \<Rightarrow> ident \<Rightarrow> ident \<Rightarrow> run_agent option \<Rightarrow> terminal_view
     \<Rightarrow> agent_run_row list db_op" where
  "terminal_agent_runs now new_run new_req machine_id terminal_id agent view =
     db_bind (db_read (latest_for_terminal terminal_id)) (\<lambda>latest.
       case (latest, agent) of
         (Some run, Some agent) \<Rightarrow>
           if rr_agent run = agent \<and> rr_status run = Run_Starting then
             changed_run (begin_run now new_req (rr_id run) (tv_attention view))
           else if rr_agent run = agent \<and> rr_ended_at run = None then db_ret []
           else if rr_agent run = agent \<and> handed_over run then db_ret []
           else if rr_agent run = agent \<and> rr_status run = Run_Gone then
             changed_run (begin_run now new_req (rr_id run) (tv_attention view))
           else fresh_run now new_run new_req machine_id terminal_id agent view latest
       | (None, Some agent) \<Rightarrow>
           fresh_run now new_run new_req machine_id terminal_id agent view latest
       | (Some run, None) \<Rightarrow>
           if rr_status run = Run_Starting then db_ret []
           else if rr_ended_at run = None then changed_run (set_status now (rr_id run) Run_Done)
           else db_ret []
       | (None, None) \<Rightarrow> db_ret [])"

definition on_terminal_agent ::
  "ms \<Rightarrow> ident \<Rightarrow> ident \<Rightarrow> terminal_view option \<Rightarrow> ident \<Rightarrow> ident \<Rightarrow> run_agent option
     \<Rightarrow> database \<Rightarrow> announcement list \<times> database" where
  "on_terminal_agent now new_run new_req terminal machine_id terminal_id agent conn =
     (case terminal of
        None \<Rightarrow> ([], conn)
      | Some view \<Rightarrow> announce_runs (tv_user_id view)
          (terminal_agent_runs now new_run new_req machine_id terminal_id agent view) conn)"

definition status_to :: "ms \<Rightarrow> string \<Rightarrow> ident \<Rightarrow> agent_run_status \<Rightarrow> agent_run_row option db_op" where
  "status_to now source rid status =
     db_bind (insert_event now rid ''status'' (status_event status source))
       (\<lambda>_. set_status now rid status)"

text \<open>What one signal does to the run it is about.\<close>

fun apply_signal ::
  "ms \<Rightarrow> ident \<Rightarrow> string \<Rightarrow> agent_run_row \<Rightarrow> agent_signal \<Rightarrow> agent_run_row option db_op" where
  "apply_signal now new_req source run Sig_Working =
     db_bind (resolve_open_request now (rr_id run) ''answered'') (\<lambda>answered.
       if answered \<or> rr_status run \<noteq> Run_Working then status_to now source (rr_id run) Run_Working
       else db_ret None)"
| "apply_signal now new_req source run Sig_Idle =
     db_bind (resolve_open_request now (rr_id run) ''answered'') (\<lambda>answered.
       if answered \<or> rr_status run \<noteq> Run_Idle then status_to now source (rr_id run) Run_Idle
       else db_ret None)"
| "apply_signal now new_req source run (Sig_Waiting request prompt options) =
     db_bind (insert_request now new_req (rr_id run) request prompt options source) (\<lambda>_.
     db_bind (insert_event now (rr_id run) ''request'' (request_event request prompt options source))
       (\<lambda>_. set_status now (rr_id run) Run_Waiting))"
| "apply_signal now new_req source run (Sig_Progress progress) =
     (if rr_progress run \<noteq> Some progress then set_progress now (rr_id run) progress
      else db_ret None)"
| "apply_signal now new_req source run (Sig_Report kind text link) =
     db_bind (insert_event now (rr_id run) ''report'' (report_event kind text link source)) (\<lambda>_.
     db_bind (set_report now (rr_id run) kind text link) (\<lambda>reported.
       case kind of
         Rep_Blocked \<Rightarrow> db_bind (resolve_open_request now (rr_id run) ''blocked'')
                         (\<lambda>_. status_to now source (rr_id run) Run_Idle)
       | Rep_Finished \<Rightarrow> status_to now source (rr_id run) Run_Done
       | _ \<Rightarrow> db_ret reported))"
| "apply_signal now new_req source run Sig_Other = db_ret None"

definition opens_nothing :: "agent_signal \<Rightarrow> bool" where
  "opens_nothing signal \<longleftrightarrow>
     (case signal of Sig_Other \<Rightarrow> True | Sig_Report kind _ _ \<Rightarrow> kind = Rep_Finished | _ \<Rightarrow> False)"

text \<open>The run a signal is about, opened if none is open: the run and whether it is new.\<close>

definition run_for_signal ::
  "ms \<Rightarrow> ident \<Rightarrow> ident \<Rightarrow> ident \<Rightarrow> run_agent option \<Rightarrow> ustr \<Rightarrow> agent_signal
     \<Rightarrow> (agent_run_row \<times> bool) option db_op" where
  "run_for_signal now new_run machine_id terminal_id agent cwd signal =
     db_bind (db_read (latest_for_terminal terminal_id)) (\<lambda>latest.
       case open_run latest of
         Some run \<Rightarrow> db_ret (Some (run, False))
       | None \<Rightarrow>
           if opens_nothing signal then db_ret None
           else db_bind (after_handover now latest signal) (\<lambda>rest.
             if rest then db_ret None
             else
               db_bind (insert_run now new_run machine_id terminal_id
                          (case agent of None \<Rightarrow> RA_Other | Some a \<Rightarrow> a) cwd Run_Working) (\<lambda>run.
               db_bind (inherit now (rr_id run) latest) (\<lambda>_. db_ret (Some (run, True))))))"

definition agent_signal_runs ::
  "ms \<Rightarrow> ident \<Rightarrow> ident \<Rightarrow> ident \<Rightarrow> ident \<Rightarrow> run_agent option \<Rightarrow> ustr \<Rightarrow> string
     \<Rightarrow> agent_signal \<Rightarrow> agent_run_row list db_op" where
  "agent_signal_runs now new_run new_req machine_id terminal_id agent cwd source signal =
     db_bind (run_for_signal now new_run machine_id terminal_id agent cwd signal) (\<lambda>found.
       case found of
         None \<Rightarrow> db_ret []
       | Some (run, opened) \<Rightarrow>
           db_bind (apply_signal now new_req source run signal) (\<lambda>changed.
             case changed of
               Some row \<Rightarrow> db_ret [row]
             | None \<Rightarrow> if opened then changed_run (db_read (find_run (rr_id run))) else db_ret []))"

definition on_agent_signal ::
  "ms \<Rightarrow> ident \<Rightarrow> ident \<Rightarrow> terminal_view option \<Rightarrow> ident \<Rightarrow> ident \<Rightarrow> run_agent option
     \<Rightarrow> string \<Rightarrow> agent_signal \<Rightarrow> database \<Rightarrow> announcement list \<times> database" where
  "on_agent_signal now new_run new_req terminal machine_id terminal_id agent source signal conn =
     (case terminal of
        None \<Rightarrow> ([], conn)
      | Some view \<Rightarrow> announce_runs (tv_user_id view)
          (agent_signal_runs now new_run new_req machine_id terminal_id agent (tv_cwd view) source
             signal) conn)"

definition on_run_attention ::
  "ms \<Rightarrow> ident \<Rightarrow> ident option \<Rightarrow> ident \<Rightarrow> terminal_attention option
     \<Rightarrow> database \<Rightarrow> announcement list \<times> database" where
  "on_run_attention now new_req user_id terminal_id attention =
     announce_runs user_id
       (db_bind (db_read (\<lambda>conn. open_run (latest_for_terminal terminal_id conn))) (\<lambda>found.
          case found of
            None \<Rightarrow> db_ret []
          | Some run \<Rightarrow>
              if attention \<noteq> None \<and> rr_status run \<noteq> Run_Waiting then
                changed_run (begin_run now new_req (rr_id run) attention)
              else if attention = None \<and> rr_status run = Run_Waiting then
                db_bind (resolve_open_request now (rr_id run) ''cleared'')
                  (\<lambda>_. changed_run (set_status now (rr_id run) Run_Working))
              else db_ret []))"

definition end_terminal_runs ::
  "ms \<Rightarrow> ident option \<Rightarrow> ident \<Rightarrow> database \<Rightarrow> announcement list \<times> database" where
  "end_terminal_runs now user_id terminal_id =
     announce_runs user_id
       (db_bind (db_read (\<lambda>conn. open_run (latest_for_terminal terminal_id conn))) (\<lambda>found.
          case found of
            Some run \<Rightarrow> changed_run (set_status now (rr_id run) Run_Gone)
          | None \<Rightarrow> db_ret []))"

definition on_terminal_title ::
  "ident option \<Rightarrow> ident \<Rightarrow> database \<Rightarrow> announcement list \<times> database" where
  "on_terminal_title user_id terminal_id =
     announce_runs user_id
       (db_read (\<lambda>conn. list_of_option (open_run (latest_for_terminal terminal_id conn))))"

definition end_machine_runs ::
  "ms \<Rightarrow> ident option \<Rightarrow> ident \<Rightarrow> database \<Rightarrow> announcement list \<times> database" where
  "end_machine_runs now user_id machine_id =
     announce_runs user_id (end_open_for_machine now machine_id Run_Gone)"

definition expire_start ::
  "ms \<Rightarrow> ident \<Rightarrow> ident \<Rightarrow> database \<Rightarrow> announcement list \<times> database" where
  "expire_start now user_id rid =
     announce_runs (Some user_id)
       (db_bind (db_read (find_run rid)) (\<lambda>found.
          case found of
            Some run \<Rightarrow>
              if rr_status run = Run_Starting then
                db_bind (insert_event now rid ''status''
                    (J_Object [(''status'', j_id (run_status_as_str Run_Error)),
                       (''source'', j_id ''start''),
                       (''reason'', j_id ''The agent didn't start; see its terminal'')]))
                  (\<lambda>_. changed_run (set_status now rid Run_Error))
              else db_ret []
          | None \<Rightarrow> db_ret []))"

definition RECENT_RUNS_MS :: ms where
  "RECENT_RUNS_MS = 24 * 3600 * 1000"

definition SNAPSHOT_RUN_LIMIT :: nat where
  "SNAPSHOT_RUN_LIMIT = 200"

definition runs_for_snapshot :: "ms \<Rightarrow> ident \<Rightarrow> database \<Rightarrow> agent_run_info list" where
  "runs_for_snapshot now user_id conn =
     map (to_info conn) (list_for_user user_id (now - RECENT_RUNS_MS) None SNAPSHOT_RUN_LIMIT conn)"

section \<open>A person's answer\<close>

text \<open>Before the machine is asked anything: the run and its open, unanswered request.\<close>

definition answer_target ::
  "ident \<Rightarrow> ident \<Rightarrow> agent_answer \<Rightarrow> database
     \<Rightarrow> answer_error + agent_run_row \<times> agent_run_request" where
  "answer_target user_id rid answer conn =
     (case find_for_user rid user_id conn of
        None \<Rightarrow> Inl Ans_NotFound
      | Some run \<Rightarrow>
          if rr_ended_at run \<noteq> None then Inl (Ans_Conflict ''This agent run has ended'')
          else (case open_request (rr_id run) conn of
                  None \<Rightarrow> Inl (Ans_Conflict ''This request isn't waiting for an answer any more'')
                | Some request \<Rightarrow>
                    if rq_id request \<noteq> an_request_id answer
                    then Inl (Ans_Conflict ''This request isn't waiting for an answer any more'')
                    else if rq_answer_sent_at_ms request \<noteq> None
                    then Inl (Ans_Conflict ''An answer was already sent; check the terminal'')
                    else Inr (run, request)))"

text \<open>
  Whether the answer may go out: the keys it becomes, and the device that holds the machine.
  \<open>reachable\<close> is \<^verbatim>\<open>user_can_access_machine\<close>, \<open>supports\<close> is \<^verbatim>\<open>machine_supports\<close>, \<open>modes\<close> the
  lease state.
\<close>

definition answer_guard ::
  "bool \<Rightarrow> (ident \<Rightarrow> bool) \<Rightarrow> mode_map \<Rightarrow> ident \<Rightarrow> agent_run_row \<Rightarrow> agent_run_request \<Rightarrow> agent_answer
     \<Rightarrow> answer_error + ident \<times> agent_key list \<times> ident option" where
  "answer_guard reachable supports modes user_id run request answer =
     (case rr_terminal_id run of
        None \<Rightarrow> Inl (Ans_Conflict ''This run has no terminal to answer in'')
      | Some terminal_id \<Rightarrow>
          (case keys_for request answer of
             Inl e \<Rightarrow> Inl e
           | Inr keys \<Rightarrow>
               let choosing = list_ex (\<lambda>key. case key of Key_Choose _ \<Rightarrow> True | _ \<Rightarrow> False) keys;
                   device = (case an_device_id answer of
                               Some d \<Rightarrow> if d = [] then None else Some d | None \<Rightarrow> None)
               in if \<not> reachable then Inl (Ans_Unavailable ''The machine is offline'')
                  else if \<not> supports AGENT_KEYS_CAPABILITY \<or> choosing \<and> \<not> supports AGENT_CHOOSE_CAPABILITY
                  then Inl (Ans_Unavailable ''Update Offdesk on that machine to answer from here'')
                  else if device = None \<or> get_controller modes user_id (rr_machine_id run) \<noteq> device
                  then Inl (Ans_Conflict ''Take control of the machine first'')
                  else Inr (terminal_id, keys, device)))"

definition unmark_answer :: "ident \<Rightarrow> database \<Rightarrow> database" where
  "unmark_answer request_id conn =
     conn\<lparr>db_agent_run_requests := update_where (\<lambda>q. qr_id q = request_id)
       (\<lambda>q. q\<lparr>qr_answered_at := None, qr_answer := None\<rparr>) (db_agent_run_requests conn)\<rparr>"

text \<open>What is recorded once the keys went out; declining an approval ends the turn.\<close>

definition answer_sent ::
  "ms \<Rightarrow> agent_run_row \<Rightarrow> agent_run_request \<Rightarrow> agent_answer \<Rightarrow> json_value \<Rightarrow> agent_run_row option db_op"
where
  "answer_sent now run request answer summary =
     db_bind (insert_event now (rr_id run) ''answer''
       (J_Object [(''request_id'', j_id (rq_id request)), (''answer'', summary)])) (\<lambda>_.
     db_bind (if rq_kind request = Req_Approval \<and> an_approve answer = Some False
              then db_bind (resolve_open_request now (rr_id run) ''declined'')
                     (\<lambda>_. db_bind (status_to now ''answer'' (rr_id run) Run_Idle) (\<lambda>_. db_ret ()))
              else db_ret ()) (\<lambda>_.
     db_read (find_run (rr_id run))))"

definition finish_answer ::
  "ms \<Rightarrow> bool \<Rightarrow> ident \<Rightarrow> agent_run_row \<Rightarrow> agent_run_request \<Rightarrow> agent_answer \<Rightarrow> json_value
     \<Rightarrow> database \<Rightarrow> (answer_error + agent_run_info) \<times> announcement list \<times> database" where
  "finish_answer now sent user_id run request answer summary conn =
     (if \<not> sent
      then (Inl (Ans_Unavailable ''The machine is offline''), [], unmark_answer (rq_id request) conn)
      else (case answer_sent now run request answer summary conn of
              (None, conn') \<Rightarrow> (Inl Ans_Internal, [], conn')
            | (Some None, conn') \<Rightarrow> (Inl Ans_NotFound, [], conn')
            | (Some (Some row), conn') \<Rightarrow>
                let info = to_info conn' row
                in (Inr info, [(Some user_id, Ev_AgentRunUpdated info)], conn')))"

text \<open>The messages sent to nodes are the second part of the result.\<close>

definition answer_agent_run ::
  "ms \<Rightarrow> bool \<Rightarrow> (ident \<Rightarrow> bool) \<Rightarrow> mode_map \<Rightarrow> bool \<Rightarrow> ident \<Rightarrow> ident \<Rightarrow> agent_answer \<Rightarrow> database
     \<Rightarrow> (answer_error + agent_run_info) \<times> (ident \<times> hub_to_machine) list \<times> announcement list
          \<times> database" where
  "answer_agent_run now reachable supports modes sent user_id rid answer conn =
     (case answer_target user_id rid answer conn of
        Inl e \<Rightarrow> (Inl e, [], [], conn)
      | Inr (run, request) \<Rightarrow>
          (case answer_guard reachable supports modes user_id run request answer of
             Inl e \<Rightarrow> (Inl e, [], [], conn)
           | Inr (terminal_id, keys, device) \<Rightarrow>
               let summary = answer_summary answer device in
               (case mark_answer_sent now (rq_id request) summary conn of
                  (marked, conn1) \<Rightarrow>
                    if marked \<noteq> Some True
                    then (Inl (Ans_Conflict ''An answer was already sent; check the terminal''), [], [],
                          conn1)
                    else
                      let (result, announced, conn2) =
                            finish_answer now sent user_id run request answer summary conn1
                      in (result,
                          if sent then [(rr_machine_id run, H2M_SendAgentKeys terminal_id keys)] else [],
                          announced, conn2))))"

section \<open>Starting a run\<close>

datatype start_error =
    Start_NoFolder
  | Start_BadRequest refusal
  | Start_Unavailable string
  | Start_Machine ustr
  | Start_Internal

definition START_SIZE :: "u16 \<times> u16" where
  "START_SIZE = (120, 36)"

definition text_or_empty :: "ustr option \<Rightarrow> ustr" where
  "text_or_empty t = (case t of None \<Rightarrow> [] | Some s \<Rightarrow> s)"

text \<open>What a node is asked to start: the request checked and normalised.\<close>

definition checked_start ::
  "(ident \<Rightarrow> bool) \<Rightarrow> ident \<Rightarrow> start_agent_run_req \<Rightarrow> ustr list option
     \<Rightarrow> start_error + ustr option \<times> agent_start" where
  "checked_start is_uuid new_run start allowed_dirs =
     (if trim (sr_cwd start) = [] then Inl Start_NoFolder
      else (case normalize_label (text_or_empty (sr_label start)) of
        Inl e \<Rightarrow> Inl (Start_BadRequest e)
      | Inr label \<Rightarrow> (case normalize_prompt (text_or_empty (sr_prompt start)) of
        Inl e \<Rightarrow> Inl (Start_BadRequest e)
      | Inr prompt \<Rightarrow> (case normalize_label (text_or_empty (sr_external_ref start)) of
        Inl e \<Rightarrow> Inl (Start_BadRequest e)
      | Inr external_ref \<Rightarrow>
          let agent_start = \<lparr>st_run_id = new_run, st_agent = sr_agent start, st_prompt = prompt,
                st_permission_mode = sr_permission_mode start, st_external_ref = external_ref,
                st_allowed_dirs = allowed_dirs\<rparr>
          in (case agent_start_validate is_uuid agent_start of
                Inl e \<Rightarrow> Inl (Start_BadRequest e)
              | Inr _ \<Rightarrow> Inr (label, agent_start))))))"

text \<open>
  The row of the run once its terminal exists: the one its hooks already opened there, named
  after the request, or a new one in Starting.
\<close>

definition started_row ::
  "ms \<Rightarrow> ident \<Rightarrow> terminal_info \<Rightarrow> ustr option \<Rightarrow> agent_start \<Rightarrow> agent_run_row option db_op" where
  "started_row now machine_id terminal label agent_start =
     db_bind (db_read (\<lambda>conn. open_run (latest_for_terminal (ti_id terminal) conn))) (\<lambda>found.
       case found of
         Some run \<Rightarrow>
           db_bind (set_origin (rr_id run) label (st_external_ref agent_start))
             (\<lambda>_. db_read (find_run (rr_id run)))
       | None \<Rightarrow>
           db_bind (insert_started now (st_run_id agent_start) machine_id (ti_id terminal)
               (st_agent agent_start) (ti_cwd terminal) label (st_external_ref agent_start))
             (\<lambda>row. db_ret (Some row)))"

definition record_start ::
  "ms \<Rightarrow> ident \<Rightarrow> ident \<Rightarrow> terminal_info \<Rightarrow> ustr option \<Rightarrow> agent_start \<Rightarrow> database
     \<Rightarrow> (start_error + agent_run_info \<times> terminal_info) \<times> announcement list \<times> database" where
  "record_start now user_id machine_id terminal label agent_start conn =
     (case started_row now machine_id terminal label agent_start conn of
        (Some (Some row), conn1) \<Rightarrow>
          (case insert_event now (rr_id row) ''start'' (start_summary agent_start label) conn1 of
             (None, conn2) \<Rightarrow> (Inl Start_Internal, [], conn2)
           | (Some _, conn2) \<Rightarrow>
               let info = to_info conn2 row
               in (Inr (info, terminal), [(Some user_id, Ev_AgentRunUpdated info)], conn2))
      | (_, conn1) \<Rightarrow> (Inl Start_Internal, [], conn1))"

text \<open>\<open>create\<close> is \<^verbatim>\<open>create_terminal_with\<close>: the node's answer, and what arrived meanwhile.\<close>

definition start_agent_run ::
  "ms \<Rightarrow> ident \<Rightarrow> (ident \<Rightarrow> bool) \<Rightarrow> (ident \<Rightarrow> bool)
     \<Rightarrow> (ustr \<Rightarrow> u16 \<times> u16 \<Rightarrow> terminal_opener option \<Rightarrow> agent_start \<Rightarrow> database
          \<Rightarrow> (ustr + terminal_info) \<times> database)
     \<Rightarrow> ident \<Rightarrow> start_agent_run_req \<Rightarrow> terminal_opener option \<Rightarrow> ustr list option \<Rightarrow> database
     \<Rightarrow> (start_error + agent_run_info \<times> terminal_info) \<times> announcement list \<times> database" where
  "start_agent_run now new_run is_uuid supports create user_id start opened_by allowed_dirs conn =
     (case checked_start is_uuid new_run start allowed_dirs of
        Inl e \<Rightarrow> (Inl e, [], conn)
      | Inr (label, agent_start) \<Rightarrow>
          if st_allowed_dirs agent_start \<noteq> None \<and> \<not> supports AGENT_START_DIRS_CAPABILITY then
            (Inl (Start_Unavailable
               ''Update Offdesk on that machine to start agents with this token''), [], conn)
          else if \<not> supports AGENT_START_CAPABILITY then
            (Inl (Start_Unavailable
               ''Update Offdesk on that machine to start agents from here''), [], conn)
          else
            (case create (trim (sr_cwd start)) START_SIZE opened_by agent_start conn of
               (Inl e, conn1) \<Rightarrow> (Inl (Start_Machine e), [], conn1)
             | (Inr terminal, conn1) \<Rightarrow>
                 record_start now user_id (sr_machine_id start) terminal label agent_start conn1))"

end
