(* ===== verification/RunInvariant.thy ===== *)
theory RunInvariant
  imports AgentRuns
begin

text \<open>
  The invariant of agent runs, and that every handler of \<^verbatim>\<open>machine_manager/agent_runs.rs\<close> keeps it:
  a run waits exactly when it has an open request, and an open run is the latest of its terminal.
  A handler is a sequence of steps any of which may fail, so it is verified with triples: from
  a precondition it ends in the postcondition, or fails and leaves what it wrote in a good state.
\<close>

section \<open>Triples\<close>

text \<open>
  From \<open>P\<close>, the operation ends in \<open>Q\<close> with its result, or fails and leaves \<open>W\<close>.
\<close>

definition triple ::
  "(database \<Rightarrow> bool) \<Rightarrow> (database \<Rightarrow> bool) \<Rightarrow> 'a db_op \<Rightarrow> ('a \<Rightarrow> database \<Rightarrow> bool) \<Rightarrow> bool" where
  "triple W P m Q \<longleftrightarrow> (\<forall>conn. P conn \<longrightarrow>
     (case m conn of (None, conn') \<Rightarrow> W conn' | (Some x, conn') \<Rightarrow> Q x conn'))"

lemma tripleI:
  "(\<And>conn. P conn \<Longrightarrow> (case m conn of (None, c) \<Rightarrow> W c | (Some x, c) \<Rightarrow> Q x c)) \<Longrightarrow> triple W P m Q"
  by (simp add: triple_def)

lemma tripleD:
  "triple W P m Q \<Longrightarrow> P conn \<Longrightarrow> (case m conn of (None, c) \<Rightarrow> W c | (Some x, c) \<Rightarrow> Q x c)"
  by (simp add: triple_def)

lemma triple_bind:
  assumes "triple W P m R" and "\<And>x. triple W (R x) (f x) Q"
  shows "triple W P (db_bind m f) Q"
proof (rule tripleI)
  fix conn
  assume "P conn"
  with assms(1) show "case db_bind m f conn of (None, c) \<Rightarrow> W c | (Some x, c) \<Rightarrow> Q x c"
    using assms(2)
    by (cases "m conn") (fastforce simp: triple_def db_bind_def split: option.splits)
qed

lemma triple_ret: "(\<And>c. P c \<Longrightarrow> Q x c) \<Longrightarrow> triple W P (db_ret x) Q"
  by (simp add: triple_def db_ret_def)

lemma triple_read: "triple W P (db_read f) (\<lambda>x c. P c \<and> x = f c)"
  by (simp add: triple_def db_read_def)

lemma triple_pre: "triple W P m Q \<Longrightarrow> (\<And>c. P' c \<Longrightarrow> P c) \<Longrightarrow> triple W P' m Q"
  by (simp add: triple_def)

lemma triple_post: "triple W P m Q \<Longrightarrow> (\<And>x c. Q x c \<Longrightarrow> Q' x c) \<Longrightarrow> triple W P m Q'"
  by (fastforce simp: triple_def split: option.splits)

lemma triple_if:
  "(b \<Longrightarrow> triple W P m Q) \<Longrightarrow> (\<not> b \<Longrightarrow> triple W P n Q) \<Longrightarrow> triple W P (if b then m else n) Q"
  by simp

lemma triple_False: "(\<And>c. \<not> P c) \<Longrightarrow> triple W P m Q"
  by (simp add: triple_def)

lemma triple_snd: "triple W P m (\<lambda>_. W) \<Longrightarrow> P conn \<Longrightarrow> W (snd (m conn))"
  by (cases "m conn") (fastforce simp: triple_def split: option.splits)

section \<open>Waiting runs and open requests, one open run per terminal\<close>

definition has_open :: "ident \<Rightarrow> database \<Rightarrow> bool" where
  "has_open rid conn \<longleftrightarrow> (\<exists>q \<in> set (db_agent_run_requests conn). open_row rid q)"

lemma has_open_filter: "has_open rid conn \<longleftrightarrow> filter (open_row rid) (db_agent_run_requests conn) \<noteq> []"
  by (simp add: has_open_def filter_empty_conv)

definition status_of :: "ident \<Rightarrow> database \<Rightarrow> agent_run_status option" where
  "status_of rid conn = map_option rr_status (find_run rid conn)"

definition waits_ok :: "ident \<Rightarrow> database \<Rightarrow> bool" where
  "waits_ok rid conn \<longleftrightarrow> (status_of rid conn = Some Run_Waiting \<longleftrightarrow> has_open rid conn)"

text \<open>A run is current when no later run was opened in its terminal.\<close>

definition is_latest :: "agent_run_row \<Rightarrow> database \<Rightarrow> bool" where
  "is_latest r conn \<longleftrightarrow>
     (\<forall>tid. rr_terminal_id r = Some tid \<longrightarrow> latest_for_terminal tid conn = Some r)"

definition current :: "ident \<Rightarrow> database \<Rightarrow> bool" where
  "current rid conn \<longleftrightarrow> (\<forall>r. find_run rid conn = Some r \<longrightarrow> is_latest r conn)"

definition terminals_ok :: "ms \<Rightarrow> database \<Rightarrow> bool" where
  "terminals_ok now conn \<longleftrightarrow>
     (\<forall>r \<in> set (db_agent_runs conn). rr_started_at r \<le> now \<and> (rr_ended_at r = None \<longrightarrow> is_latest r conn))"

definition runs_inv :: "ms \<Rightarrow> database \<Rightarrow> bool" where
  "runs_inv now conn \<longleftrightarrow> run_ok conn \<and> (\<forall>rid. waits_ok rid conn) \<and> terminals_ok now conn"

text \<open>In the middle of a handler: the run it works on may be out of step with its request.\<close>

definition runs_inv_but :: "ms \<Rightarrow> ident \<Rightarrow> database \<Rightarrow> bool" where
  "runs_inv_but now rid conn \<longleftrightarrow> run_ok conn \<and> (\<forall>x. x \<noteq> rid \<longrightarrow> waits_ok x conn) \<and>
     terminals_ok now conn \<and> rid \<in> run_ids conn \<and> current rid conn"

definition fresh_request :: "ident \<Rightarrow> database \<Rightarrow> bool" where
  "fresh_request new_req conn \<longleftrightarrow> new_req \<notin> qr_id ` set (db_agent_run_requests conn)"

lemma run_ids_find: "rid \<in> run_ids conn \<longleftrightarrow> find_run rid conn \<noteq> None"
  by (auto simp: run_ids_def find_run_def find_None_iff image_iff)

lemma find_run_id: "find_run rid conn = Some r \<Longrightarrow> rr_id r = rid"
  by (auto simp: find_run_def dest: find_SomeD)

lemma find_run_mem: "find_run rid conn = Some r \<Longrightarrow> r \<in> set (db_agent_runs conn)"
  by (auto simp: find_run_def dest: find_SomeD)

lemma latest_of_mem: "latest_of rs = Some r \<Longrightarrow> r \<in> set rs"
  by (induction rs arbitrary: r) (auto split: option.splits if_splits)

lemma latest_of_map:
  assumes "\<And>r. rr_started_at (f r) = rr_started_at r"
  shows "latest_of (map f rs) = map_option f (latest_of rs)"
  by (induction rs) (auto simp: assms split: option.splits)

lemma latest_of_append:
  "\<forall>x \<in> set rs. rr_started_at x \<le> rr_started_at r \<Longrightarrow> latest_of (rs @ [r]) = Some r"
  by (induction rs) auto

lemma latest_memD:
  assumes "latest_for_terminal tid conn = Some r"
  shows "r \<in> set (db_agent_runs conn)" "rr_terminal_id r = Some tid"
  using latest_of_mem [OF assms [unfolded latest_for_terminal_def]] by auto

lemma latest_find:
  assumes "db_ok conn" "latest_for_terminal tid conn = Some r"
  shows "find_run (rr_id r) conn = Some r"
  using keyed_find [OF db_okD(5) [OF assms(1)] latest_memD(1) [OF assms(2)]]
  by (simp add: find_run_def)

lemma latest_is_latest: "latest_for_terminal tid conn = Some r \<Longrightarrow> is_latest r conn"
  using latest_memD(2) by (fastforce simp: is_latest_def)

lemma latest_current:
  "db_ok conn \<Longrightarrow> latest_for_terminal tid conn = Some r \<Longrightarrow> current (rr_id r) conn"
  by (simp add: current_def latest_find latest_is_latest)

lemma latest_update:
  assumes "\<And>r. rr_started_at (f r) = rr_started_at r" and "\<And>r. rr_terminal_id (f r) = rr_terminal_id r"
  shows "latest_for_terminal tid (update_run rid f conn) =
    map_option (\<lambda>r. if rr_id r = rid then f r else r) (latest_for_terminal tid conn)"
proof -
  let ?g = "\<lambda>r. if rr_id r = rid then f r else r"
  have "filter (\<lambda>r. rr_terminal_id r = Some tid) (map ?g rs) =
      map ?g (filter (\<lambda>r. rr_terminal_id r = Some tid) rs)" for rs
    by (induction rs) (simp_all add: assms)
  then show ?thesis
    by (simp add: latest_for_terminal_def update_run_def update_where_def latest_of_map assms)
qed

text \<open>An update of a run keeps who is the latest of a terminal.\<close>

locale run_update =
  fixes f :: "agent_run_row \<Rightarrow> agent_run_row"
  assumes same_id: "rr_id (f r) = rr_id r"
    and same_start: "rr_started_at (f r) = rr_started_at r"
    and same_terminal: "rr_terminal_id (f r) = rr_terminal_id r"
    and same_machine: "rr_machine_id (f r) = rr_machine_id r"
begin

lemma is_latest_update:
  "is_latest r conn \<Longrightarrow> is_latest (if rr_id r = rid then f r else r) (update_run rid f conn)"
  by (auto simp: is_latest_def latest_update same_start same_terminal)

lemma current_update: "current rid' conn \<Longrightarrow> current rid' (update_run rid f conn)"
  using is_latest_update [of _ conn rid] find_run_id
  by (fastforce simp: current_def find_update_run same_id split: if_splits)

lemma terminals_ok_update:
  assumes "terminals_ok now conn" and "db_ok conn"
    and "current rid conn \<or> (\<forall>r. rr_ended_at (f r) = None \<longrightarrow> rr_ended_at r = None)"
  shows "terminals_ok now (update_run rid f conn)"
  unfolding terminals_ok_def
proof
  fix r'
  assume "r' \<in> set (db_agent_runs (update_run rid f conn))"
  then obtain r where r: "r \<in> set (db_agent_runs conn)"
    and r': "r' = (if rr_id r = rid then f r else r)"
    by (auto simp: update_run_def set_update_where)
  have start: "rr_started_at r' \<le> now"
    using assms(1) r r' by (auto simp: terminals_ok_def same_start)
  have "is_latest r conn" if "rr_ended_at r' = None"
  proof (cases "rr_ended_at r = None")
    case True
    with assms(1) r show ?thesis by (simp add: terminals_ok_def)
  next
    case False
    with that r' have id: "rr_id r = rid" by (auto split: if_splits)
    with False that r' assms(3) have "current rid conn" by auto
    moreover have "find_run rid conn = Some r"
      using keyed_find [OF db_okD(5) [OF assms(2)] r] id by (simp add: find_run_def)
    ultimately show ?thesis by (simp add: current_def)
  qed
  with start is_latest_update [of r conn rid] r'
  show "rr_started_at r' \<le> now \<and> (rr_ended_at r' = None \<longrightarrow> is_latest r' (update_run rid f conn))"
    by simp
qed

end

interpretation run_update_status: run_update "\<lambda>r. r\<lparr>rr_status := status, rr_updated_at := now,
    rr_ended_at := e r\<rparr>" for status now e
  by unfold_locales simp_all

section \<open>What each step does to the invariant\<close>

lemma status_of_update:
  assumes "\<And>r. rr_id (f r) = rr_id r"
  shows "status_of x (update_run rid f conn) =
    (if x = rid then map_option (\<lambda>r. rr_status (f r)) (find_run rid conn) else status_of x conn)"
  by (simp add: status_of_def find_update_run [OF assms] option.map_comp comp_def)

lemma has_open_update_run [simp]: "has_open x (update_run rid f conn) = has_open x conn"
  by (simp add: has_open_def update_run_def)

lemma run_ids_update [simp]:
  "(\<And>r. rr_id (f r) = rr_id r) \<Longrightarrow> run_ids (update_run rid f conn) = run_ids conn"
  by (simp add: run_ids_def update_run_def image_update_where)

lemma fresh_update_run [simp]: "fresh_request q (update_run rid f conn) = fresh_request q conn"
  by (simp add: fresh_request_def update_run_def)

text \<open>Steps that leave the runs alone, and steps that leave runs and requests alone.\<close>

lemma same_runs:
  assumes "db_agent_runs conn' = db_agent_runs conn"
  shows "status_of x conn' = status_of x conn" "terminals_ok now conn' = terminals_ok now conn"
    "current x conn' = current x conn" "run_ids conn' = run_ids conn"
    "find_run x conn' = find_run x conn"
    "latest_for_terminal tid conn' = latest_for_terminal tid conn"
  using assms
  by (simp_all add: status_of_def find_run_def terminals_ok_def current_def is_latest_def
      latest_for_terminal_def run_ids_def)

lemma same_requests:
  assumes "db_agent_run_requests conn' = db_agent_run_requests conn"
  shows "has_open x conn' = has_open x conn" "fresh_request q conn' = fresh_request q conn"
  using assms by (simp_all add: has_open_def fresh_request_def)

lemma resolve_has_open:
  "has_open x (snd (resolve_open_request now rid res conn)) \<longleftrightarrow> x \<noteq> rid \<and> has_open x conn"
proof -
  have "filter (open_row x) (update_where (\<lambda>q. qr_run_id q = rid \<and> qr_resolved_at q = None)
        (\<lambda>q. q\<lparr>qr_resolved_at := Some now, qr_resolution := Some res\<rparr>) qs)
      = (if x = rid then [] else filter (open_row x) qs)" for qs
    by (cases "x = rid"; induction qs) (simp_all add: update_where_def open_row_def [abs_def])
  then show ?thesis
    by (simp add: has_open_filter resolve_open_request_def Let_def)
qed

lemma resolve_result: "fst (resolve_open_request now rid res conn) = Some (has_open rid conn)"
  by (simp add: resolve_open_request_def Let_def has_open_def open_row_def list_ex_iff)

lemma resolve_runs: "db_agent_runs (snd (resolve_open_request now rid res conn)) = db_agent_runs conn"
  by (simp add: resolve_open_request_def Let_def)

lemma resolve_fresh:
  "fresh_request q (snd (resolve_open_request now rid res conn)) = fresh_request q conn"
  by (simp add: fresh_request_def resolve_open_request_def Let_def image_update_where)

lemma set_status_eq:
  fixes t :: ms and e :: "agent_run_row \<Rightarrow> ms option"
  defines "e \<equiv> (\<lambda>r. case rr_ended_at r of None \<Rightarrow> Some t | Some x \<Rightarrow> Some x)"
  shows "set_status t rid st conn =
    (let c1 = update_run rid (\<lambda>r. r\<lparr>rr_status := st, rr_updated_at := t,
                rr_ended_at := (if ends_run st then e r else None)\<rparr>) conn;
         c2 = (if ends_run st then snd (resolve_open_request t rid ''ended'' c1) else c1)
     in (Some (find_run rid c2), c2))"
  by (simp add: set_status_def db_op_defs e_def Let_def resolve_open_request_def split: prod.split)

lemma set_status_inv:
  assumes ok: "run_ok conn" "terminals_ok now conn" "\<forall>x. x \<noteq> rid \<longrightarrow> waits_ok x conn"
    and cur: "ends_run st \<or> current rid conn \<and> rid \<in> run_ids conn \<and> (st = Run_Waiting \<longleftrightarrow> has_open rid conn)"
  shows "runs_inv now (snd (set_status t rid st conn))"
proof -
  let ?e = "\<lambda>r. if ends_run st then (case rr_ended_at r of None \<Rightarrow> Some t | Some x \<Rightarrow> Some x) else None"
  let ?c1 = "update_run rid (\<lambda>r. r\<lparr>rr_status := st, rr_updated_at := t, rr_ended_at := ?e r\<rparr>) conn"
  let ?c2 = "snd (set_status t rid st conn)"
  have runs: "db_agent_runs ?c2 = db_agent_runs ?c1"
    by (simp add: set_status_eq Let_def resolve_runs)
  have status: "status_of x ?c2 = (if x = rid then map_option (\<lambda>_. st) (find_run rid conn)
      else status_of x conn)" for x
    unfolding same_runs(1) [OF runs] by (subst status_of_update) (simp_all add: comp_def)
  have opens: "has_open x ?c2 \<longleftrightarrow> has_open x conn \<and> \<not> (x = rid \<and> ends_run st)" for x
    by (auto simp: set_status_eq Let_def resolve_has_open)
  have "run_ok ?c2" by (rule keepsD [OF keeps_set_status ok(1)])
  moreover have "waits_ok x ?c2" for x
  proof (cases "x = rid")
    case True
    with cur show ?thesis
      unfolding waits_ok_def status opens by (cases st) (auto simp: run_ids_find)
  next
    case False
    with ok(3) show ?thesis unfolding waits_ok_def status opens by simp
  qed
  moreover have "terminals_ok now ?c1"
    by (rule run_update_status.terminals_ok_update [OF ok(2) run_okD(1) [OF ok(1)]])
      (use cur in \<open>auto split: option.splits\<close>)
  ultimately show ?thesis
    by (simp add: runs_inv_def same_runs(2) [OF runs])
qed

lemma set_status_result:
  "rid \<in> run_ids conn \<Longrightarrow> \<exists>row. fst (set_status t rid st conn) = Some (Some row)"
proof -
  assume "rid \<in> run_ids conn"
  then have "rid \<in> run_ids (snd (set_status t rid st conn))"
    by (simp add: set_status_eq Let_def same_runs(4) [OF resolve_runs])
  then show ?thesis by (auto simp: run_ids_find set_status_eq Let_def)
qed

lemma set_status_total: "\<exists>row. fst (set_status t rid st conn) = Some row"
  by (simp add: set_status_eq Let_def)

lemma triple_total:
  assumes "\<And>c. P c \<Longrightarrow> \<exists>x. fst (m c) = Some x \<and> Q x (snd (m c))"
  shows "triple W P m Q"
proof (rule tripleI)
  fix c
  assume "P c"
  then obtain x where "fst (m c) = Some x" "Q x (snd (m c))" using assms by blast
  then show "case m c of (None, c) \<Rightarrow> W c | (Some x, c) \<Rightarrow> Q x c"
    by (cases "m c") simp
qed

lemma runs_inv_but_start:
  assumes "runs_inv now conn" and "rid \<in> run_ids conn" and "current rid conn"
  shows "runs_inv_but now rid conn"
  using assms by (simp add: runs_inv_def runs_inv_but_def)

text \<open>The triples of the steps.\<close>

lemma triple_status:
  "triple W (\<lambda>c. runs_inv_but now rid c \<and> (ends_run st \<or> (st = Run_Waiting \<longleftrightarrow> has_open rid c)))
     (set_status t rid st) (\<lambda>_. runs_inv now)"
  by (rule triple_total) (use set_status_total in \<open>auto simp: runs_inv_but_def intro!: set_status_inv\<close>)

lemma triple_status_end:
  "ends_run st \<Longrightarrow> triple W (runs_inv now) (set_status t rid st) (\<lambda>_. runs_inv now)"
proof (rule triple_total)
  fix c
  assume "ends_run st" and "runs_inv now c"
  then have "runs_inv now (snd (set_status t rid st c))"
    by (intro set_status_inv) (simp_all add: runs_inv_def)
  then show "\<exists>x. fst (set_status t rid st c) = Some x \<and> runs_inv now (snd (set_status t rid st c))"
    using set_status_total by blast
qed

lemma triple_resolve:
  "triple W (runs_inv_but now rid) (resolve_open_request t rid res)
     (\<lambda>_ c. runs_inv_but now rid c \<and> \<not> has_open rid c)"
proof (rule triple_total)
  fix c
  assume c: "runs_inv_but now rid c"
  let ?c = "snd (resolve_open_request t rid res c)"
  have "run_ok ?c" using c by (auto simp: runs_inv_but_def intro: keepsD [OF keeps_resolve])
  with c have "runs_inv_but now rid ?c"
    by (simp add: runs_inv_but_def waits_ok_def same_runs [OF resolve_runs] resolve_has_open)
  then show "\<exists>x. fst (resolve_open_request t rid res c) = Some x \<and>
      runs_inv_but now rid ?c \<and> \<not> has_open rid ?c"
    by (simp add: resolve_result resolve_has_open)
qed

lemma insert_event_same:
  "db_agent_runs (snd (insert_event t rid k j c)) = db_agent_runs c"
  "db_agent_run_requests (snd (insert_event t rid k j c)) = db_agent_run_requests c"
  by (simp_all add: insert_event_eq)

lemma triple_event:
  "triple W (\<lambda>c. runs_inv_but now rid c \<and> Q (has_open rid c)) (insert_event t rid k j)
     (\<lambda>_ c. runs_inv_but now rid c \<and> Q (has_open rid c))"
proof (rule triple_total)
  fix c
  assume c: "runs_inv_but now rid c \<and> Q (has_open rid c)"
  have "run_ok (snd (insert_event t rid k j c))"
    using c by (auto simp: runs_inv_but_def intro: keepsD [OF keeps_insert_event])
  with c show "\<exists>x. fst (insert_event t rid k j c) = Some x \<and>
      runs_inv_but now rid (snd (insert_event t rid k j c)) \<and>
      Q (has_open rid (snd (insert_event t rid k j c)))"
    by (simp add: runs_inv_but_def waits_ok_def same_runs [OF insert_event_same(1)]
        same_requests [OF insert_event_same(2)])
      (simp add: insert_event_eq)
qed

lemma insert_request_effect:
  assumes "fresh_request new_req c" and "rid \<in> run_ids c"
  shows "fst (insert_request t new_req rid k p opts src c) = Some ()"
    and "has_open x (snd (insert_request t new_req rid k p opts src c)) \<longleftrightarrow> x = rid \<or> has_open x c"
    and "db_agent_runs (snd (insert_request t new_req rid k p opts src c)) = db_agent_runs c"
proof -
  let ?c = "snd (resolve_open_request t rid ''superseded'' c)"
  have fr: "new_req \<notin> qr_id ` set (db_agent_run_requests ?c)"
    using assms(1) resolve_fresh by (simp add: fresh_request_def)
  have ex: "rid \<in> rr_id ` set (db_agent_runs ?c)"
    using assms(2) by (simp add: resolve_runs run_ids_def)
  have eq: "insert_request t new_req rid k p opts src c = (Some (), ?c\<lparr>db_agent_run_requests :=
      db_agent_run_requests ?c @ [\<lparr>qr_id = new_req, qr_run_id = rid, qr_kind = k,
        qr_prompt = map_option clip p, qr_options = map clip_option (take 10 opts),
        qr_source = src, qr_created_at = t, qr_resolved_at = None, qr_resolution = None,
        qr_answered_at = None, qr_answer = None\<rparr>]\<rparr>)"
    using fr ex resolve_result [of t rid "''superseded''" c]
    by (cases "resolve_open_request t rid ''superseded'' c")
      (simp add: insert_request_def db_bind_def db_try_def Let_def)
  show "fst (insert_request t new_req rid k p opts src c) = Some ()"
    and "db_agent_runs (snd (insert_request t new_req rid k p opts src c)) = db_agent_runs c"
    by (simp_all add: eq resolve_runs)
  have "has_open x (snd (insert_request t new_req rid k p opts src c)) \<longleftrightarrow>
      has_open x ?c \<or> x = rid"
    by (auto simp: eq has_open_def open_row_def)
  then show "has_open x (snd (insert_request t new_req rid k p opts src c)) \<longleftrightarrow> x = rid \<or> has_open x c"
    by (auto simp: resolve_has_open)
qed

lemma triple_request:
  "triple W (\<lambda>c. runs_inv_but now rid c \<and> fresh_request new_req c)
     (insert_request t new_req rid k p opts src) (\<lambda>_ c. runs_inv_but now rid c \<and> has_open rid c)"
proof (rule triple_total)
  fix c
  assume c: "runs_inv_but now rid c \<and> fresh_request new_req c"
  then have fresh: "fresh_request new_req c" and ex: "rid \<in> run_ids c"
    by (simp_all add: runs_inv_but_def)
  note eff = insert_request_effect [OF fresh ex, where t = t and k = k and p = p and opts = opts
      and src = src]
  have "run_ok (snd (insert_request t new_req rid k p opts src c))"
    using c by (auto simp: runs_inv_but_def intro: keepsD [OF keeps_insert_request])
  with c eff show "\<exists>x. fst (insert_request t new_req rid k p opts src c) = Some x \<and>
      runs_inv_but now rid (snd (insert_request t new_req rid k p opts src c)) \<and>
      has_open rid (snd (insert_request t new_req rid k p opts src c))"
    by (simp add: runs_inv_but_def waits_ok_def same_runs [OF eff(3)])
qed

text \<open>The invariant, seen from the run a handler works on.\<close>

definition at_run :: "ms \<Rightarrow> agent_run_row \<Rightarrow> database \<Rightarrow> bool" where
  "at_run now run conn \<longleftrightarrow> runs_inv now conn \<and> current (rr_id run) conn \<and>
     status_of (rr_id run) conn = Some (rr_status run)"

lemma at_runD:
  assumes "at_run now run conn"
  shows "runs_inv_but now (rr_id run) conn" "runs_inv now conn"
    "has_open (rr_id run) conn \<longleftrightarrow> rr_status run = Run_Waiting"
proof -
  have inv: "runs_inv now conn" and cur: "current (rr_id run) conn"
    and st: "status_of (rr_id run) conn = Some (rr_status run)"
    using assms by (simp_all add: at_run_def)
  then show "runs_inv_but now (rr_id run) conn" and "runs_inv now conn"
    by (auto simp: runs_inv_def runs_inv_but_def status_of_def run_ids_find)
  have "waits_ok (rr_id run) conn" using inv by (simp add: runs_inv_def)
  with st show "has_open (rr_id run) conn \<longleftrightarrow> rr_status run = Run_Waiting"
    by (simp add: waits_ok_def)
qed

lemma latest_at_run:
  assumes "runs_inv now conn" and "latest_for_terminal tid conn = Some run"
  shows "at_run now run conn"
proof -
  have "db_ok conn" using assms(1) by (simp add: runs_inv_def run_okD(1))
  from latest_find [OF this assms(2)] latest_current [OF this assms(2)] assms(1)
  show ?thesis by (simp add: at_run_def status_of_def)
qed

lemma found_at_run:
  assumes "runs_inv now conn" and "find_run rid conn = Some run" and "rr_ended_at run = None"
  shows "at_run now run conn"
proof -
  have "is_latest run conn"
    using assms find_run_mem [OF assms(2)] by (simp add: runs_inv_def terminals_ok_def)
  with assms find_run_id [OF assms(2)] show ?thesis
    by (simp add: at_run_def status_of_def current_def)
qed

lemma ended_status:
  assumes "runs_inv now conn" and "find_run rid conn = Some run"
  shows "rr_ended_at run \<noteq> None \<longleftrightarrow> ends_run (rr_status run)"
  using assms find_run_mem by (auto simp: runs_inv_def run_ok_def ended_ok_def row_ok_def)

context run_update
begin

lemma keeps_at_run:
  assumes "\<And>r. rr_status (f r) = rr_status r" and "\<And>r. rr_ended_at (f r) = rr_ended_at r"
    and "at_run now run c"
  shows "at_run now run (update_run rid f c)"
proof -
  from assms(3) have inv: "run_ok c" "\<forall>x. waits_ok x c" "terminals_ok now c"
    by (simp_all add: at_run_def runs_inv_def)
  have "row_ok (f r)" if "row_ok r" for r
    using that assms(1,2) by (simp add: row_ok_def)
  from keepsD [OF keeps_update_run [OF same_id same_machine this, of rid] inv(1)]
  have "run_ok (update_run rid f c)" by (simp add: db_exec_def)
  moreover have st: "status_of x (update_run rid f c) = status_of x c" for x
    using assms(1) by (subst status_of_update) (simp_all add: same_id status_of_def comp_def)
  moreover have "terminals_ok now (update_run rid f c)"
    by (rule terminals_ok_update [OF inv(3) run_okD(1) [OF inv(1)]]) (simp add: assms(2))
  ultimately show ?thesis
    using assms(3) inv(2)
    by (simp add: at_run_def runs_inv_def waits_ok_def current_update)
qed

end

interpretation run_update_origin: run_update "\<lambda>r. r\<lparr>rr_label := l, rr_external_ref := x\<rparr>" for l x
  by unfold_locales simp_all

interpretation run_update_progress: run_update "\<lambda>r. r\<lparr>rr_progress := p, rr_updated_at := t\<rparr>" for p t
  by unfold_locales simp_all

interpretation run_update_report: run_update "\<lambda>r. r\<lparr>rr_report := p, rr_updated_at := t\<rparr>" for p t
  by unfold_locales simp_all

definition ready :: "ms \<Rightarrow> agent_run_row \<Rightarrow> ident \<Rightarrow> database \<Rightarrow> bool" where
  "ready now run new_req conn \<longleftrightarrow> at_run now run conn \<and> fresh_request new_req conn"

lemma triple_origin:
  "triple W (ready now run req) (set_origin rid l x) (\<lambda>_. ready now run req)"
  by (rule triple_total)
    (auto simp: set_origin_def db_exec_def ready_def intro!: run_update_origin.keeps_at_run)

lemma triple_inherit: "triple W (ready now run req) (inherit t rid prev) (\<lambda>_. ready now run req)"
  unfolding inherit_def Let_def
  by (auto split: option.split intro!: triple_origin triple_ret)

lemma triple_progress:
  "triple W (at_run now run) (set_progress t rid p) (\<lambda>_. runs_inv now)"
  by (rule triple_total)
    (auto simp: set_progress_def db_op_defs intro!: at_runD(2) [OF run_update_progress.keeps_at_run])

lemma triple_report:
  "triple W (at_run now run) (set_report t rid k text link) (\<lambda>_. at_run now run)"
  by (rule triple_total)
    (auto simp: set_report_def db_op_defs intro!: run_update_report.keeps_at_run)

lemma event_at_run:
  "at_run now run c \<Longrightarrow> at_run now run (snd (insert_event t rid k j c))"
  using keepsD [OF keeps_insert_event, of c t rid k j]
  by (simp add: at_run_def runs_inv_def waits_ok_def same_runs [OF insert_event_same(1)]
      same_requests [OF insert_event_same(2)])

lemma event_runs_inv: "runs_inv now c \<Longrightarrow> runs_inv now (snd (insert_event t rid k j c))"
  using keepsD [OF keeps_insert_event, of c t rid k j]
  by (simp add: runs_inv_def waits_ok_def same_runs [OF insert_event_same(1)]
      same_requests [OF insert_event_same(2)])

lemma triple_event_at:
  "triple (runs_inv now) (at_run now run) (insert_event t (rr_id run) k j) (\<lambda>_. at_run now run)"
proof (rule tripleI)
  fix c
  assume "at_run now run c"
  from event_at_run [OF this, of t "rr_id run" k j]
  show "case insert_event t (rr_id run) k j c of (None, c) \<Rightarrow> runs_inv now c | (Some x, c) \<Rightarrow> at_run now run c"
    by (cases "insert_event t (rr_id run) k j c") (auto split: option.split dest: at_runD(2))
qed

text \<open>A run opened in a terminal whose latest run has ended becomes the latest.\<close>

lemma triple_insert_row:
  assumes st: "rr_status row = Run_Working \<or> rr_status row = Run_Starting"
    and row: "rr_terminal_id row = Some tid" "rr_started_at row = now" "rr_ended_at row = None"
      "rr_progress row = None" "rr_report row = None"
  shows "triple (runs_inv now)
    (\<lambda>c. runs_inv now c \<and> fresh_request req c \<and>
       (\<forall>r. latest_for_terminal tid c = Some r \<longrightarrow> rr_ended_at r \<noteq> None))
    (db_bind (db_try (insert_row row)) (\<lambda>_. db_ret row)) (\<lambda>r c. r = row \<and> ready now row req c)"
proof (rule tripleI)
  fix c
  assume c: "runs_inv now c \<and> fresh_request req c \<and>
       (\<forall>r. latest_for_terminal tid c = Some r \<longrightarrow> rr_ended_at r \<noteq> None)"
  let ?ins = "db_bind (db_try (insert_row row)) (\<lambda>_. db_ret row)"
  show "case ?ins c of (None, c) \<Rightarrow> runs_inv now c | (Some r, c) \<Rightarrow> r = row \<and> ready now row req c"
  proof (cases "insert_row row c")
    case None
    with c show ?thesis by (simp add: db_op_defs)
  next
    case (Some c2)
    have "row\<lparr>rr_progress := None, rr_report := None\<rparr> = row" using row by (cases row) simp
    with Some have new: "rr_id row \<notin> run_ids c"
      and c2: "c2 = c\<lparr>db_agent_runs := db_agent_runs c @ [row]\<rparr>"
      by (auto simp: insert_row_def run_ids_def split: if_splits)
    have runs: "db_agent_runs c2 = db_agent_runs c @ [row]"
      and reqs: "db_agent_run_requests c2 = db_agent_run_requests c" by (simp_all add: c2)
    have eq: "?ins c = (Some row, c2)" using Some by (simp add: db_op_defs)
    have inv: "run_ok c" "\<forall>x. waits_ok x c" "terminals_ok now c"
      using c by (simp_all add: runs_inv_def)
    have "row_ok row" using st row by (auto simp: row_ok_def)
    from keepsD [OF keeps_insert_row [OF this] inv(1)] Some
    have ok: "run_ok c2" by (simp add: db_op_defs)
    have "find_run (rr_id row) c = None" using new run_ids_find by blast
    then have find: "find_run x c2 = (if x = rr_id row then Some row else find_run x c)" for x
      unfolding find_run_def runs find_append by (auto split: option.splits)
    have status: "status_of x c2 = (if x = rr_id row then Some (rr_status row) else status_of x c)" for x
      by (simp add: status_of_def find)
    have starts: "\<forall>x \<in> set (db_agent_runs c). rr_started_at x \<le> now"
      using inv(3) by (simp add: terminals_ok_def)
    have latest: "latest_for_terminal x c2 = (if x = tid then Some row else latest_for_terminal x c)" for x
    proof (cases "x = tid")
      case True
      have "latest_of (filter (\<lambda>r. rr_terminal_id r = Some tid) (db_agent_runs c) @ [row]) = Some row"
        by (rule latest_of_append) (use starts row in simp)
      with True row show ?thesis by (simp add: latest_for_terminal_def runs)
    next
      case False
      with row show ?thesis by (simp add: latest_for_terminal_def runs)
    qed
    have none: "\<not> has_open (rr_id row) c"
      using db_okD(6) [OF run_okD(1) [OF inv(1)]] new
      by (auto simp: has_open_def open_row_def keyed_def)
    have waits: "waits_ok x c2" for x
    proof (cases "x = rr_id row")
      case True
      have "rr_status row \<noteq> Run_Waiting" using st by (elim disjE) simp_all
      with True none show ?thesis by (simp add: waits_ok_def status same_requests(1) [OF reqs])
    next
      case False
      from inv(2) have "waits_ok x c" ..
      with False show ?thesis by (simp add: waits_ok_def status same_requests(1) [OF reqs])
    qed
    have old: "is_latest r c2" if "r \<in> set (db_agent_runs c)" "rr_ended_at r = None" for r
    proof -
      have lat: "is_latest r c" using inv(3) that by (simp add: terminals_ok_def)
      have "rr_terminal_id r \<noteq> Some tid"
        using c lat that(2) by (auto simp: is_latest_def)
      with lat show ?thesis by (auto simp: is_latest_def latest)
    qed
    have this_latest: "is_latest row c2" by (simp add: is_latest_def latest row)
    have terms: "terminals_ok now c2"
      unfolding terminals_ok_def runs using starts old this_latest by (auto simp: row)
    have "at_run now row c2"
      using ok waits terms this_latest
      by (simp add: at_run_def runs_inv_def current_def find status)
    then have "ready now row req c2"
      using c same_requests(2) [OF reqs] by (simp add: ready_def)
    with eq show ?thesis by simp
  qed
qed

lemma triple_insert_run:
  assumes "st = Run_Working \<or> st = Run_Starting"
  shows "triple (runs_inv now)
    (\<lambda>c. runs_inv now c \<and> fresh_request req c \<and>
       (\<forall>r. latest_for_terminal tid c = Some r \<longrightarrow> rr_ended_at r \<noteq> None))
    (insert_run now new_run m tid agent cwd st) (\<lambda>row c. ready now row req c \<and> rr_status row = st)"
  unfolding insert_run_def Let_def
  by (rule triple_post [OF triple_insert_row [of _ tid]]) (use assms in auto)

lemma triple_insert_started:
  "triple (runs_inv now)
    (\<lambda>c. runs_inv now c \<and> fresh_request req c \<and>
       (\<forall>r. latest_for_terminal tid c = Some r \<longrightarrow> rr_ended_at r \<noteq> None))
    (insert_started now new_run m tid agent cwd label ext) (\<lambda>row. ready now row req)"
  unfolding insert_started_def Let_def
  by (rule triple_post [OF triple_insert_row [of _ tid]]) auto

lemma triple_pure: "(p \<Longrightarrow> triple W P m Q) \<Longrightarrow> triple W (\<lambda>c. P c \<and> p) m Q"
  by (simp add: triple_def)

lemma triple_weaken:
  assumes "triple W P m Q" and "\<And>c. P' c \<Longrightarrow> P c" and "\<And>x c. Q x c \<Longrightarrow> Q' x c"
  shows "triple W P' m Q'"
  by (rule triple_pre [OF triple_post [OF assms(1,3)] assms(2)])

lemma triple_begin_run:
  assumes "attention \<noteq> None \<or> rr_status run \<noteq> Run_Waiting"
  shows "triple W (ready now run req) (begin_run t req (rr_id run) attention) (\<lambda>_. runs_inv now)"
proof -
  have wait: "triple W (ready now run req)
      (db_bind (insert_request t req (rr_id run) k p opts src) (\<lambda>_. set_status t (rr_id run) Run_Waiting))
      (\<lambda>_. runs_inv now)" for k p opts src
    by (rule triple_bind [OF triple_pre [OF triple_request]])
      (auto simp: ready_def at_runD(1) intro!: triple_pre [OF triple_status])
  have work: "triple W (ready now run req) (set_status t (rr_id run) Run_Working) (\<lambda>_. runs_inv now)"
    if "rr_status run \<noteq> Run_Waiting"
    by (rule triple_pre [OF triple_status])
      (use that in \<open>auto simp: ready_def at_runD\<close>)
  show ?thesis
  proof (cases attention)
    case None
    with assms work show ?thesis by (simp add: begin_run_def)
  next
    case (Some a)
    with wait show ?thesis by (cases a) (simp_all add: begin_run_def)
  qed
qed

lemma triple_changed:
  assumes "triple W P m (\<lambda>_. W)"
  shows "triple W P (changed_run m) (\<lambda>_. W)"
  unfolding changed_run_def by (rule triple_bind [OF assms]) (rule triple_ret)

section \<open>The handlers keep the invariant\<close>

lemma latest_set_status:
  assumes "ends_run st" and "latest_for_terminal tid (snd (set_status t rid st c)) = Some r"
    and "rr_id r = rid \<or> (\<exists>r0. latest_for_terminal tid c = Some r0 \<and> rr_ended_at r0 \<noteq> None)"
  shows "rr_ended_at r \<noteq> None"
proof -
  let ?f = "\<lambda>r. r\<lparr>rr_status := st, rr_updated_at := t, rr_ended_at :=
    (if ends_run st then (case rr_ended_at r of None \<Rightarrow> Some t | Some x \<Rightarrow> Some x) else None)\<rparr>"
  have "db_agent_runs (snd (set_status t rid st c)) = db_agent_runs (update_run rid ?f c)"
    by (simp add: set_status_eq Let_def resolve_runs)
  from same_runs(6) [OF this] assms(2) latest_update [of ?f tid rid c]
  obtain r0 where "latest_for_terminal tid c = Some r0" "r = (if rr_id r0 = rid then ?f r0 else r0)"
    by (cases "latest_for_terminal tid c") auto
  with assms(1,3) show ?thesis by (auto split: option.splits if_splits)
qed

lemma set_status_fresh:
  "fresh_request req (snd (set_status t rid st c)) = fresh_request req c"
  by (simp add: set_status_eq Let_def resolve_fresh)

lemma triple_end_latest:
  "triple W
    (\<lambda>c. runs_inv now c \<and> fresh_request req c \<and> latest_for_terminal tid c = latest)
    (case open_run latest of
       Some old \<Rightarrow> changed_run (set_status t (rr_id old) Run_Done) | None \<Rightarrow> db_ret [])
    (\<lambda>_ c. runs_inv now c \<and> fresh_request req c \<and>
       (\<forall>r. latest_for_terminal tid c = Some r \<longrightarrow> rr_ended_at r \<noteq> None))"
proof (cases "open_run latest")
  case None
  then show ?thesis
    by (auto simp: open_run_def split: option.splits if_splits intro!: triple_ret)
next
  case (Some old)
  then have latest: "latest = Some old" by (auto simp: open_run_def split: option.splits if_splits)
  show ?thesis
    unfolding Some option.case changed_run_def
  proof (rule triple_bind [OF triple_total])
    fix c
    assume c: "runs_inv now c \<and> fresh_request req c \<and> latest_for_terminal tid c = latest"
    let ?c = "snd (set_status t (rr_id old) Run_Done c)"
    have "runs_inv now ?c"
      using c by (intro set_status_inv) (simp_all add: runs_inv_def)
    moreover have "rr_ended_at r \<noteq> None" if r: "latest_for_terminal tid ?c = Some r" for r
    proof (rule latest_set_status [OF _ r])
      have "is_latest old c \<and> rr_terminal_id old = Some tid"
        using c latest latest_is_latest latest_memD(2) by blast
      have "rr_id r = rr_id old"
      proof -
        let ?f = "\<lambda>r. r\<lparr>rr_status := Run_Done, rr_updated_at := t, rr_ended_at :=
          (if ends_run Run_Done then (case rr_ended_at r of None \<Rightarrow> Some t | Some x \<Rightarrow> Some x) else None)\<rparr>"
        have "db_agent_runs ?c = db_agent_runs (update_run (rr_id old) ?f c)"
          by (simp add: set_status_eq Let_def resolve_runs)
        from same_runs(6) [OF this] r latest_update [of ?f tid "rr_id old" c] c latest
        show ?thesis by auto
      qed
      then show "rr_id r = rr_id old \<or>
          (\<exists>r0. latest_for_terminal tid c = Some r0 \<and> rr_ended_at r0 \<noteq> None)" by blast
    qed simp
    ultimately show "\<exists>x. fst (set_status t (rr_id old) Run_Done c) = Some x \<and>
        (\<lambda>_ c. runs_inv now c \<and> fresh_request req c \<and>
          (\<forall>r. latest_for_terminal tid c = Some r \<longrightarrow> rr_ended_at r \<noteq> None)) x ?c"
      using c set_status_total [of t "rr_id old" Run_Done c] by (auto simp: set_status_fresh)
  qed (rule triple_ret, simp)
qed

lemma triple_fresh_run:
  "triple (runs_inv now)
    (\<lambda>c. runs_inv now c \<and> fresh_request req c \<and> latest_for_terminal tid c = latest)
    (fresh_run now new_run req m tid agent view latest) (\<lambda>_. runs_inv now)"
  unfolding fresh_run_def
  by (intro triple_bind [OF triple_end_latest] triple_bind [OF triple_insert_run] triple_pure
      triple_bind [OF triple_inherit] triple_bind [OF triple_begin_run] triple_ret) auto

lemma triple_ends_latest:
  assumes "ends_run st"
  shows "triple W (\<lambda>c. runs_inv now c \<and> P c) (changed_run (set_status t rid st)) (\<lambda>_. runs_inv now)"
  unfolding changed_run_def
  by (intro triple_bind [OF triple_pre [OF triple_status_end [OF assms]]] triple_ret) auto

lemma triple_begin_latest:
  assumes "rr_status run \<noteq> Run_Waiting \<or> attention \<noteq> None"
  shows "triple W (\<lambda>c. runs_inv now c \<and> fresh_request req c \<and> latest_for_terminal tid c = Some run)
    (changed_run (begin_run t req (rr_id run) attention)) (\<lambda>_. runs_inv now)"
  unfolding changed_run_def
  by (intro triple_bind [OF triple_pre [OF triple_begin_run]] triple_ret)
    (use assms in \<open>auto simp: ready_def intro: latest_at_run\<close>)

lemma triple_terminal_agent:
  "triple (runs_inv now) (\<lambda>c. runs_inv now c \<and> fresh_request req c)
    (terminal_agent_runs now new_run req m tid agent view) (\<lambda>_. runs_inv now)"
  unfolding terminal_agent_runs_def
proof (rule triple_bind [OF triple_read])
  fix latest
  define P where "P = (\<lambda>c. (runs_inv now c \<and> fresh_request req c) \<and> latest = latest_for_terminal tid c)"
  have fresh: "triple (runs_inv now) P (fresh_run now new_run req m tid a view latest)
      (\<lambda>_. runs_inv now)" for a
    by (rule triple_pre [OF triple_fresh_run]) (auto simp: P_def)
  have begin_again: "triple (runs_inv now) P (changed_run (begin_run now req (rr_id run) att))
      (\<lambda>_. runs_inv now)"
    if "latest = Some run" "rr_status run \<noteq> Run_Waiting" for run att
    by (rule triple_pre [OF triple_begin_latest]) (use that in \<open>auto simp: P_def\<close>)
  have ends: "triple (runs_inv now) P (changed_run (set_status now rid Run_Done)) (\<lambda>_. runs_inv now)"
    for rid by (rule triple_pre [OF triple_ends_latest [where P = "\<lambda>_. True"]]) (auto simp: P_def)
  have idle: "triple (runs_inv now) P (db_ret ([] :: agent_run_row list)) (\<lambda>_. runs_inv now)"
    by (rule triple_ret) (auto simp: P_def)
  have "triple (runs_inv now) P
     (case (latest, agent) of
        (Some run, Some agent) \<Rightarrow>
          if rr_agent run = agent \<and> rr_status run = Run_Starting then
            changed_run (begin_run now req (rr_id run) (tv_attention view))
          else if rr_agent run = agent \<and> rr_ended_at run = None then db_ret []
          else if rr_agent run = agent \<and> handed_over run then db_ret []
          else if rr_agent run = agent \<and> rr_status run = Run_Gone then
            changed_run (begin_run now req (rr_id run) (tv_attention view))
          else fresh_run now new_run req m tid agent view latest
      | (None, Some agent) \<Rightarrow> fresh_run now new_run req m tid agent view latest
      | (Some run, None) \<Rightarrow>
          if rr_status run = Run_Starting then db_ret []
          else if rr_ended_at run = None then changed_run (set_status now (rr_id run) Run_Done)
          else db_ret []
      | (None, None) \<Rightarrow> db_ret []) (\<lambda>_. runs_inv now)"
  proof (cases latest)
    case None
    show ?thesis by (cases agent) (simp_all add: None idle fresh [unfolded None])
  next
    case (Some run)
    show ?thesis
    proof (cases agent)
      case agent: None
      show ?thesis unfolding Some agent by (simp add: ends idle)
    next
      case agent: (Some a)
      have "triple (runs_inv now) P (changed_run (begin_run now req (rr_id run) att))
          (\<lambda>_. runs_inv now)" if "rr_status run = Run_Starting \<or> rr_status run = Run_Gone" for att
        using that Some by (intro begin_again) auto
      then show ?thesis unfolding agent Some using fresh [of a] Some idle by simp
    qed
  qed
  then show "triple (runs_inv now)
     (\<lambda>c. (runs_inv now c \<and> fresh_request req c) \<and> latest = latest_for_terminal tid c)
     (case (latest, agent) of
        (Some run, Some agent) \<Rightarrow>
          if rr_agent run = agent \<and> rr_status run = Run_Starting then
            changed_run (begin_run now req (rr_id run) (tv_attention view))
          else if rr_agent run = agent \<and> rr_ended_at run = None then db_ret []
          else if rr_agent run = agent \<and> handed_over run then db_ret []
          else if rr_agent run = agent \<and> rr_status run = Run_Gone then
            changed_run (begin_run now req (rr_id run) (tv_attention view))
          else fresh_run now new_run req m tid agent view latest
      | (None, Some agent) \<Rightarrow> fresh_run now new_run req m tid agent view latest
      | (Some run, None) \<Rightarrow>
          if rr_status run = Run_Starting then db_ret []
          else if rr_ended_at run = None then changed_run (set_status now (rr_id run) Run_Done)
          else db_ret []
      | (None, None) \<Rightarrow> db_ret []) (\<lambda>_. runs_inv now)"
    unfolding P_def .
qed

lemma triple_status_to:
  "triple W (\<lambda>c. runs_inv_but now rid c \<and> (ends_run st \<or> (st = Run_Waiting \<longleftrightarrow> has_open rid c)))
    (status_to t src rid st) (\<lambda>_. runs_inv now)"
  unfolding status_to_def
  by (rule triple_bind [OF triple_event [where Q = "\<lambda>b. ends_run st \<or> (st = Run_Waiting \<longleftrightarrow> b)"]])
    (rule triple_status)

lemma triple_moves_on:
  assumes "st \<noteq> Run_Waiting" and "\<not> ends_run st"
  shows "triple W (ready now run req)
    (db_bind (resolve_open_request t (rr_id run) res) (\<lambda>answered.
       if answered \<or> rr_status run \<noteq> st then status_to t src (rr_id run) st else db_ret None))
    (\<lambda>_. runs_inv now)"
proof (rule triple_bind [OF triple_total])
  fix c
  assume c: "ready now run req c"
  let ?c = "snd (resolve_open_request t (rr_id run) res c)"
  have at: "at_run now run c" using c by (simp add: ready_def)
  have "runs_inv_but now (rr_id run) ?c \<and> \<not> has_open (rr_id run) ?c"
    using triple_resolve [of "\<lambda>_. False" now "rr_id run" t res] at_runD(1) [OF at]
    by (cases "resolve_open_request t (rr_id run) res c")
      (auto simp: triple_def split: option.splits)
  moreover have "status_of (rr_id run) ?c = Some (rr_status run)"
    using at by (simp add: at_run_def same_runs [OF resolve_runs])
  ultimately show "\<exists>x. fst (resolve_open_request t (rr_id run) res c) = Some x \<and>
      (\<lambda>_ c. runs_inv_but now (rr_id run) c \<and> \<not> has_open (rr_id run) c \<and>
        status_of (rr_id run) c = Some (rr_status run)) x ?c"
    by (simp add: resolve_result)
next
  fix answered
  have "runs_inv now c" if "runs_inv_but now (rr_id run) c" "\<not> has_open (rr_id run) c"
    "status_of (rr_id run) c = Some st" for c
  proof -
    have "waits_ok x c" for x
      using that assms(1) by (cases "x = rr_id run") (simp_all add: runs_inv_but_def waits_ok_def)
    with that(1) show ?thesis by (simp add: runs_inv_but_def runs_inv_def)
  qed
  then show "triple W (\<lambda>c. runs_inv_but now (rr_id run) c \<and> \<not> has_open (rr_id run) c \<and>
        status_of (rr_id run) c = Some (rr_status run))
      (if answered \<or> rr_status run \<noteq> st then status_to t src (rr_id run) st else db_ret None)
      (\<lambda>_. runs_inv now)"
    using assms
    by (auto intro!: triple_if triple_ret triple_pre [OF triple_status_to])
qed

lemma triple_apply_signal:
  "triple (runs_inv now) (ready now run req) (apply_signal t req src run sig) (\<lambda>_. runs_inv now)"
proof (cases sig)
  case (Sig_Waiting k p opts)
  show ?thesis
    unfolding Sig_Waiting apply_signal.simps
    by (intro triple_bind [OF triple_pre [OF triple_request]]
        triple_bind [OF triple_event [where Q = "\<lambda>b. b"]] triple_pre [OF triple_status])
      (auto simp: ready_def at_runD(1))
next
  case (Sig_Progress p)
  show ?thesis
    unfolding Sig_Progress apply_signal.simps
    by (intro triple_if triple_pre [OF triple_progress] triple_ret) (auto simp: ready_def at_runD(2))
next
  case (Sig_Report k words link)
  have blocked: "triple (runs_inv now) (at_run now run)
      (db_bind (resolve_open_request t (rr_id run) ''blocked'')
        (\<lambda>_. status_to t src (rr_id run) Run_Idle)) (\<lambda>_. runs_inv now)"
    by (intro triple_bind [OF triple_pre [OF triple_resolve]] triple_pre [OF triple_status_to])
      (auto simp: at_runD(1))
  have finished: "triple (runs_inv now) (at_run now run) (status_to t src (rr_id run) Run_Done)
      (\<lambda>_. runs_inv now)"
    by (rule triple_pre [OF triple_status_to]) (auto simp: at_runD(1))
  have other: "triple (runs_inv now) (at_run now run) (db_ret x) (\<lambda>_. runs_inv now)" for x
    by (rule triple_ret) (rule at_runD(2))
  show ?thesis
    unfolding Sig_Report apply_signal.simps
    by (intro triple_bind [OF triple_pre [OF triple_event_at]] triple_bind [OF triple_report])
      (auto simp: ready_def blocked finished other split: agent_report_kind.split)
next
  case Sig_Other
  then show ?thesis by (auto simp: ready_def at_runD(2) intro!: triple_ret)
qed (simp_all add: triple_moves_on)

lemma triple_after_handover:
  "triple (runs_inv now)
    (\<lambda>c. runs_inv now c \<and> fresh_request req c \<and> latest_for_terminal tid c = latest)
    (after_handover t latest sig)
    (\<lambda>_ c. runs_inv now c \<and> fresh_request req c \<and> latest_for_terminal tid c = latest)"
proof -
  define P where "P = (\<lambda>c. runs_inv now c \<and> fresh_request req c \<and> latest_for_terminal tid c = latest)"
  have ev: "triple (runs_inv now) P (insert_event t rid k j) (\<lambda>_. P)" for rid k j
  proof (rule tripleI)
    fix c
    assume "P c"
    then have "P (snd (insert_event t rid k j c))"
      by (simp add: P_def event_runs_inv same_requests [OF insert_event_same(2)]
          same_runs [OF insert_event_same(1)])
    then show "case insert_event t rid k j c of (None, c) \<Rightarrow> runs_inv now c | (Some x, c) \<Rightarrow> P c"
      by (cases "insert_event t rid k j c") (auto simp: P_def split: option.split)
  qed
  have ret: "triple (runs_inv now) P (db_ret x) (\<lambda>_. P)" for x :: bool by (rule triple_ret)
  have ret': "triple (runs_inv now) P (db_ret x) (\<lambda>_. P)" for x :: unit by (rule triple_ret)
  have rd: "triple (runs_inv now) P (db_read g) (\<lambda>_. P)" for g
    by (rule triple_post [OF triple_read]) simp
  have note_end: "triple (runs_inv now) P
      (db_bind (if \<not> ended
                then db_bind (insert_event t rid TURN_ENDED (J_Object [])) (\<lambda>_. db_ret ())
                else db_ret ()) (\<lambda>_. db_ret True)) (\<lambda>_. P)" for ended rid
    by (intro triple_bind [where R = "\<lambda>_. P"] triple_if triple_bind [OF ev] ret ret')
  show ?thesis
    unfolding after_handover_def P_def [symmetric]
    by (auto split: option.split agent_signal.split
        intro!: triple_bind [OF rd] note_end [simplified] ret triple_bind [where R = "\<lambda>_. P"]
          triple_bind [OF ev] ret')
qed

lemma triple_run_for_signal:
  "triple (runs_inv now) (\<lambda>c. runs_inv now c \<and> fresh_request req c)
    (run_for_signal now new_run m tid agent cwd sig)
    (\<lambda>found c. case found of None \<Rightarrow> runs_inv now c | Some (run, _) \<Rightarrow> ready now run req c)"
  unfolding run_for_signal_def
proof (rule triple_bind [OF triple_read])
  fix latest
  define P where "P = (\<lambda>c. (runs_inv now c \<and> fresh_request req c) \<and> latest = latest_for_terminal tid c)"
  define Q where "Q = (\<lambda>found c. case found :: (agent_run_row \<times> bool) option of
    None \<Rightarrow> runs_inv now c | Some (run, _) \<Rightarrow> ready now run req c)"
  have opened: "triple (runs_inv now) P (db_ret (Some (run, False))) Q"
    if "open_run latest = Some run" for run
  proof (rule triple_ret)
    fix c
    assume "P c"
    with that have "latest_for_terminal tid c = Some run"
      by (auto simp: P_def open_run_def split: option.splits if_splits)
    with \<open>P c\<close> show "Q (Some (run, False)) c"
      by (simp add: P_def Q_def ready_def latest_at_run)
  qed
  have none: "triple (runs_inv now) P (db_ret None) Q"
    by (rule triple_ret) (simp add: P_def Q_def)
  have new: "triple (runs_inv now) P
      (db_bind (after_handover now latest sig) (\<lambda>rest.
         if rest then db_ret None
         else db_bind (insert_run now new_run m tid
                (case agent of None \<Rightarrow> RA_Other | Some a \<Rightarrow> a) cwd Run_Working) (\<lambda>run.
              db_bind (inherit now (rr_id run) latest) (\<lambda>_. db_ret (Some (run, True)))))) Q"
    if closed: "open_run latest = None"
  proof (rule triple_bind [OF triple_pre [OF triple_after_handover]])
    show "P c \<Longrightarrow> runs_inv now c \<and> fresh_request req c \<and> latest_for_terminal tid c = latest" for c
      by (auto simp: P_def)
    show "triple (runs_inv now)
      (\<lambda>c. runs_inv now c \<and> fresh_request req c \<and> latest_for_terminal tid c = latest)
      (if rest then db_ret None
         else db_bind (insert_run now new_run m tid
                (case agent of None \<Rightarrow> RA_Other | Some a \<Rightarrow> a) cwd Run_Working) (\<lambda>run.
              db_bind (inherit now (rr_id run) latest) (\<lambda>_. db_ret (Some (run, True))))) Q" for rest
      using closed
      by (intro triple_if triple_ret triple_bind [OF triple_pre [OF triple_insert_run]] triple_pure
          triple_bind [OF triple_inherit])
        (auto simp: Q_def open_run_def split: option.splits if_splits)
  qed
  have "triple (runs_inv now) P
      (case open_run latest of Some run \<Rightarrow> db_ret (Some (run, False))
       | None \<Rightarrow> if opens_nothing sig then db_ret None
           else db_bind (after_handover now latest sig) (\<lambda>rest.
             if rest then db_ret None
             else db_bind (insert_run now new_run m tid
                (case agent of None \<Rightarrow> RA_Other | Some a \<Rightarrow> a) cwd Run_Working) (\<lambda>run.
              db_bind (inherit now (rr_id run) latest) (\<lambda>_. db_ret (Some (run, True)))))) Q"
    by (cases "open_run latest") (simp_all add: opened none new)
  then show "triple (runs_inv now)
      (\<lambda>c. (runs_inv now c \<and> fresh_request req c) \<and> latest = latest_for_terminal tid c)
      (case open_run latest of Some run \<Rightarrow> db_ret (Some (run, False))
       | None \<Rightarrow> if opens_nothing sig then db_ret None
           else db_bind (after_handover now latest sig) (\<lambda>rest.
             if rest then db_ret None
             else db_bind (insert_run now new_run m tid
                (case agent of None \<Rightarrow> RA_Other | Some a \<Rightarrow> a) cwd Run_Working) (\<lambda>run.
              db_bind (inherit now (rr_id run) latest) (\<lambda>_. db_ret (Some (run, True))))))
      (\<lambda>found c. case found of None \<Rightarrow> runs_inv now c | Some (run, _) \<Rightarrow> ready now run req c)"
    unfolding P_def Q_def .
qed

lemma triple_agent_signal:
  "triple (runs_inv now) (\<lambda>c. runs_inv now c \<and> fresh_request req c)
    (agent_signal_runs now new_run req m tid agent cwd src sig) (\<lambda>_. runs_inv now)"
  unfolding agent_signal_runs_def
proof (rule triple_bind [OF triple_run_for_signal])
  fix found :: "(agent_run_row \<times> bool) option"
  have tell: "triple (runs_inv now) (runs_inv now)
      (if opened then changed_run (db_read (find_run rid)) else db_ret []) (\<lambda>_. runs_inv now)" for opened rid
    by (intro triple_if triple_changed triple_ret) (simp add: triple_def db_read_def)
  have said: "triple (runs_inv now) (runs_inv now) (db_ret x) (\<lambda>_. runs_inv now)"
    for x :: "agent_run_row list"
    by (rule triple_ret)
  show "triple (runs_inv now)
      (\<lambda>c. case found of None \<Rightarrow> runs_inv now c | Some (run, _) \<Rightarrow> ready now run req c)
      (case found of None \<Rightarrow> db_ret [] | Some (run, opened) \<Rightarrow>
        db_bind (apply_signal now req src run sig) (\<lambda>changed.
          case changed of Some row \<Rightarrow> db_ret [row]
          | None \<Rightarrow> if opened then changed_run (db_read (find_run (rr_id run))) else db_ret []))
      (\<lambda>_. runs_inv now)"
  proof (cases found)
    case None
    with said show ?thesis by simp
  next
    case (Some pair)
    obtain run opened where pair: "pair = (run, opened)" by (cases pair)
    show ?thesis
      unfolding Some pair option.case prod.case
      by (rule triple_bind [OF triple_apply_signal])
        (use tell [of True] tell [of False] said in \<open>auto split: option.split\<close>)
  qed
qed

text \<open>Events a handler sends do not change the database.\<close>

lemma announced_keeps:
  assumes "triple (runs_inv now) P m (\<lambda>_. runs_inv now)" and "P conn"
  shows "runs_inv now (snd (announce_runs user m conn))"
  using triple_snd [OF assms] by (cases "m conn") (simp add: announce_runs_def split: option.split)

lemma on_terminal_agent_inv:
  assumes "runs_inv now conn" and "fresh_request req conn"
  shows "runs_inv now (snd (on_terminal_agent now new_run req terminal m tid agent conn))"
  using assms
  by (auto simp: on_terminal_agent_def split: option.split
      intro!: announced_keeps [OF triple_terminal_agent])

lemma on_agent_signal_inv:
  assumes "runs_inv now conn" and "fresh_request req conn"
  shows "runs_inv now (snd (on_agent_signal now new_run req terminal m tid agent src sig conn))"
  using assms
  by (auto simp: on_agent_signal_def split: option.split
      intro!: announced_keeps [OF triple_agent_signal])

lemma open_run_latest: "open_run x = Some run \<Longrightarrow> x = Some run"
  by (auto simp: open_run_def split: option.splits if_splits)

lemma on_run_attention_inv:
  assumes "runs_inv now conn" and "fresh_request req conn"
  shows "runs_inv now (snd (on_run_attention now req user tid attention conn))"
  unfolding on_run_attention_def
proof (rule announced_keeps [OF triple_bind [OF triple_read]])
  fix found
  define P where "P = (\<lambda>c. (runs_inv now c \<and> fresh_request req c) \<and>
    found = open_run (latest_for_terminal tid c))"
  have none: "triple (runs_inv now) P (db_ret ([] :: agent_run_row list)) (\<lambda>_. runs_inv now)"
    by (rule triple_ret) (simp add: P_def)
  have ready: "ready now run req c" if "P c" "found = Some run" for run c
    using that open_run_latest [of "latest_for_terminal tid c" run]
    by (auto simp: P_def ready_def intro!: latest_at_run)
  have begins: "triple (runs_inv now) P (changed_run (begin_run now req (rr_id run) attention))
      (\<lambda>_. runs_inv now)" if "found = Some run" "attention \<noteq> None" for run
    by (rule triple_changed, rule triple_pre [OF triple_begin_run]) (use that ready in auto)
  have clears: "triple (runs_inv now) P
      (db_bind (resolve_open_request now (rr_id run) ''cleared'')
        (\<lambda>_. changed_run (set_status now (rr_id run) Run_Working))) (\<lambda>_. runs_inv now)"
    if "found = Some run" for run
    by (intro triple_bind [OF triple_pre [OF triple_resolve]] triple_changed
        triple_pre [OF triple_status])
      (use ready [OF _ that] in \<open>auto simp: ready_def at_runD(1)\<close>)
  have "triple (runs_inv now) P
      (case found of None \<Rightarrow> db_ret []
       | Some run \<Rightarrow>
          if attention \<noteq> None \<and> rr_status run \<noteq> Run_Waiting then
            changed_run (begin_run now req (rr_id run) attention)
          else if attention = None \<and> rr_status run = Run_Waiting then
            db_bind (resolve_open_request now (rr_id run) ''cleared'')
              (\<lambda>_. changed_run (set_status now (rr_id run) Run_Working))
          else db_ret []) (\<lambda>_. runs_inv now)"
    by (cases found) (simp_all only: option.case none, intro triple_if none begins clears, auto)
  then show "triple (runs_inv now)
      (\<lambda>c. (runs_inv now c \<and> fresh_request req c) \<and> found = open_run (latest_for_terminal tid c))
      (case found of None \<Rightarrow> db_ret []
       | Some run \<Rightarrow>
          if attention \<noteq> None \<and> rr_status run \<noteq> Run_Waiting then
            changed_run (begin_run now req (rr_id run) attention)
          else if attention = None \<and> rr_status run = Run_Waiting then
            db_bind (resolve_open_request now (rr_id run) ''cleared'')
              (\<lambda>_. changed_run (set_status now (rr_id run) Run_Working))
          else db_ret []) (\<lambda>_. runs_inv now)"
    unfolding P_def .
qed (simp add: assms)

lemma end_terminal_runs_inv:
  assumes "runs_inv now conn"
  shows "runs_inv now (snd (end_terminal_runs now user tid conn))"
  unfolding end_terminal_runs_def
proof (rule announced_keeps [OF triple_bind [OF triple_read]])
  show "triple (runs_inv now) (\<lambda>c. runs_inv now c \<and> found = open_run (latest_for_terminal tid c))
      (case found of Some run \<Rightarrow> changed_run (set_status now (rr_id run) Run_Gone) | None \<Rightarrow> db_ret [])
      (\<lambda>_. runs_inv now)" for found
    by (cases found) (auto intro!: triple_ends_latest triple_ret)
qed (rule assms)

lemma triple_end_each:
  assumes "ends_run st"
  shows "triple (runs_inv now) (runs_inv now) (end_each t st rids) (\<lambda>_. runs_inv now)"
proof (induction rids)
  case Nil
  show ?case by (simp, rule triple_ret)
next
  case (Cons rid rids)
  show ?case
    unfolding end_each.simps
    by (intro triple_bind [OF triple_status_end [OF assms]] triple_bind [OF Cons] triple_ret)
qed

lemma end_machine_runs_inv:
  assumes "runs_inv now conn"
  shows "runs_inv now (snd (end_machine_runs now user m conn))"
  unfolding end_machine_runs_def end_open_for_machine_def
  by (rule announced_keeps [OF triple_bind [OF triple_read [where P = "runs_inv now"]]])
    (auto intro!: triple_pre [OF triple_end_each] assms)

lemma expire_start_inv:
  assumes "runs_inv now conn"
  shows "runs_inv now (snd (expire_start now user rid conn))"
  unfolding expire_start_def
proof (rule announced_keeps [OF triple_bind [OF triple_read]])
  fix found
  have ev: "triple (runs_inv now) (runs_inv now) (insert_event now rid k j) (\<lambda>_. runs_inv now)" for k j
  proof (rule tripleI)
    fix c
    assume "runs_inv now c"
    from event_runs_inv [OF this, of now rid k j]
    show "case insert_event now rid k j c of (None, c) \<Rightarrow> runs_inv now c | (Some x, c) \<Rightarrow> runs_inv now c"
      by (cases "insert_event now rid k j c") (auto split: option.split)
  qed
  have failed: "triple (runs_inv now) (runs_inv now)
      (db_bind (insert_event now rid k j) (\<lambda>_. changed_run (set_status now rid Run_Error)))
      (\<lambda>_. runs_inv now)" for k j
    by (intro triple_bind [OF ev] triple_changed triple_status_end) simp
  have none: "triple (runs_inv now) (runs_inv now) (db_ret ([] :: agent_run_row list)) (\<lambda>_. runs_inv now)"
    by (rule triple_ret)
  show "triple (runs_inv now) (\<lambda>c. runs_inv now c \<and> found = find_run rid c)
     (case found of
        Some run \<Rightarrow>
          if rr_status run = Run_Starting then
            db_bind (insert_event now rid ''status''
                (J_Object [(''status'', j_id (run_status_as_str Run_Error)),
                   (''source'', j_id ''start''),
                   (''reason'', j_id ''The agent didn't start; see its terminal'')]))
              (\<lambda>_. changed_run (set_status now rid Run_Error))
          else db_ret []
      | None \<Rightarrow> db_ret []) (\<lambda>_. runs_inv now)"
    by (rule triple_pre [where P = "runs_inv now"])
      (cases found, simp_all only: option.case, auto simp only: failed none intro!: triple_if)
qed (rule assms)

end
