(* ===== verification/RunHistory.thy ===== *)
theory RunHistory
  imports RunInvariant
begin

text \<open>
  Histories of agent runs: any sequence of node reports, answers, starts and statements of the
  rest of the hub, run on the database one after the other, and what holds of every database
  it can reach.
\<close>

section \<open>Answers and starts keep the invariant\<close>

lemma requests_update_inv:
  fixes P :: "agent_run_request_row \<Rightarrow> bool" and f :: "agent_run_request_row \<Rightarrow> agent_run_request_row"
  assumes "\<And>q. qr_id (f q) = qr_id q" and "\<And>q. qr_run_id (f q) = qr_run_id q"
    and "\<And>q. qr_resolved_at (f q) = qr_resolved_at q"
  defines "upd \<equiv> (\<lambda>conn. conn\<lparr>db_agent_run_requests :=
    update_where P f (db_agent_run_requests conn)\<rparr>)"
  shows "runs_inv now conn \<Longrightarrow> runs_inv now (upd conn)"
    and "at_run now run conn \<Longrightarrow> at_run now run (upd conn)"
    and "has_open x (upd conn) = has_open x conn"
    and "fresh_request q (upd conn) = fresh_request q conn"
proof -
  have runs: "db_agent_runs (upd conn) = db_agent_runs conn" by (simp add: upd_def)
  have same: "open_row x (f q) = open_row x q" for x q using assms(2,3) by (simp add: open_row_def)
  have "(\<exists>q \<in> set (update_where P f qs). open_row x q) = (\<exists>q \<in> set qs. open_row x q)" for x qs
    by (induction qs) (simp_all add: update_where_def same)
  then show opens: "has_open x (upd conn) = has_open x conn" for x
    by (simp add: has_open_def upd_def)
  show "fresh_request q (upd conn) = fresh_request q conn"
    by (simp add: fresh_request_def upd_def image_update_where assms(1))
  have "run_ok conn \<Longrightarrow> run_ok (upd conn)"
    using keeps_update_requests [of f conn P] assms(1-3) by (simp add: upd_def)
  then show inv: "runs_inv now conn \<Longrightarrow> runs_inv now (upd conn)"
    by (simp add: runs_inv_def waits_ok_def same_runs [OF runs] opens)
  then show "at_run now run conn \<Longrightarrow> at_run now run (upd conn)"
    by (simp add: at_run_def same_runs [OF runs])
qed

lemma mark_answer_inv:
  "runs_inv now conn \<Longrightarrow> runs_inv now (snd (mark_answer_sent t rid j conn))"
  "at_run now run conn \<Longrightarrow> at_run now run (snd (mark_answer_sent t rid j conn))"
  by (simp_all add: mark_answer_sent_def Let_def requests_update_inv)

lemma unmark_answer_inv: "runs_inv now conn \<Longrightarrow> runs_inv now (unmark_answer rid conn)"
  by (simp add: unmark_answer_def requests_update_inv)

lemma triple_answer_sent:
  "triple (runs_inv now) (at_run now run) (answer_sent t run request answer summary)
     (\<lambda>_. runs_inv now)"
proof -
  have declined: "triple (runs_inv now) (at_run now run)
      (db_bind (resolve_open_request t (rr_id run) ''declined'')
         (\<lambda>_. db_bind (status_to t ''answer'' (rr_id run) Run_Idle) (\<lambda>_. db_ret ())))
      (\<lambda>_. runs_inv now)"
    by (intro triple_bind [OF triple_pre [OF triple_resolve]]
        triple_bind [OF triple_pre [OF triple_status_to]] triple_ret)
      (auto simp: at_runD(1))
  have accepted: "triple (runs_inv now) (at_run now run) (db_ret ()) (\<lambda>_. runs_inv now)"
    by (rule triple_ret) (rule at_runD(2))
  have read: "triple (runs_inv now) (runs_inv now) (db_read (find_run x)) (\<lambda>_. runs_inv now)" for x
    by (rule triple_post [OF triple_read]) simp
  show ?thesis
    unfolding answer_sent_def
    by (intro triple_bind [OF triple_event_at] triple_bind [where R = "\<lambda>_. runs_inv now"]
        triple_if declined accepted read)
qed

lemma find_for_user_run: "find_for_user rid user conn = Some run \<Longrightarrow> find_run rid conn = Some run"
  by (auto simp: find_for_user_def split: option.splits if_splits)

lemma answer_targetD:
  assumes "answer_target user rid answer conn = Inr (run, request)"
  shows "find_run rid conn = Some run" "rr_ended_at run = None"
    "open_request rid conn = Some request" "rq_answer_sent_at_ms request = None"
    "rq_id request = an_request_id answer"
proof -
  have "find_for_user rid user conn = Some run" and props: "rr_ended_at run = None"
    "open_request (rr_id run) conn = Some request" "rq_answer_sent_at_ms request = None"
    "rq_id request = an_request_id answer"
    using assms by (auto simp: answer_target_def split: option.splits if_splits)
  from find_for_user_run [OF this(1)] show find: "find_run rid conn = Some run" .
  from find_run_id [OF find] props show "rr_ended_at run = None"
    "open_request rid conn = Some request" "rq_answer_sent_at_ms request = None"
    "rq_id request = an_request_id answer" by simp_all
qed

lemma finish_answer_inv:
  assumes "at_run now run conn"
  shows "runs_inv now (snd (snd (finish_answer t sent user run request answer summary conn)))"
  using triple_snd [OF triple_answer_sent assms, of t request answer summary]
    unmark_answer_inv [OF at_runD(2) [OF assms]]
  by (auto simp: finish_answer_def Let_def split: prod.splits option.splits)

text \<open>What an answer does to the database: nothing, a mark, or a mark and what follows.\<close>

lemma answer_agent_run_cases:
  assumes "Q conn"
    and "\<And>run request summary. answer_target user rid answer conn = Inr (run, request) \<Longrightarrow>
      Q (snd (mark_answer_sent t (rq_id request) summary conn)) \<and>
      Q (snd (snd (finish_answer t sent user run request answer summary
        (snd (mark_answer_sent t (rq_id request) summary conn)))))"
  shows "Q (snd (snd (snd (answer_agent_run t reachable supports modes sent user rid answer conn))))"
proof (cases "answer_target user rid answer conn")
  case (Inl e)
  with assms show ?thesis by (simp add: answer_agent_run_def)
next
  case (Inr target)
  obtain run request where target: "target = (run, request)" by (cases target)
  show ?thesis
  proof (cases "answer_guard reachable supports modes user run request answer")
    case (Inl e)
    with Inr target assms show ?thesis by (simp add: answer_agent_run_def)
  next
    case ok: (Inr out)
    obtain tid keys device where out: "out = (tid, keys, device)" by (cases out)
    let ?sum = "answer_summary answer device"
    obtain marked c1 where m: "mark_answer_sent t (rq_id request) ?sum conn = (marked, c1)"
      by (cases "mark_answer_sent t (rq_id request) ?sum conn")
    obtain result announced c2 where f: "finish_answer t sent user run request answer ?sum c1 =
        (result, announced, c2)"
      by (cases "finish_answer t sent user run request answer ?sum c1")
    have "Q c1" and "Q c2"
      using assms(2) [OF Inr [unfolded target], of ?sum] m f by simp_all
    then show ?thesis
      by (simp add: answer_agent_run_def Inr target ok out m f Let_def)
  qed
qed

lemma answer_agent_run_inv:
  assumes "runs_inv now conn"
  shows "runs_inv now (snd (snd (snd
    (answer_agent_run t reachable supports modes sent user rid answer conn))))"
proof (rule answer_agent_run_cases [where Q = "runs_inv now"], rule assms)
  fix run request summary
  assume target: "answer_target user rid answer conn = Inr (run, request)"
  have "at_run now run conn"
    by (rule found_at_run [OF assms answer_targetD(1,2) [OF target]])
  from finish_answer_inv [OF mark_answer_inv(2) [OF this]] mark_answer_inv(1) [OF assms]
  show "runs_inv now (snd (mark_answer_sent t (rq_id request) summary conn)) \<and>
      runs_inv now (snd (snd (finish_answer t sent user run request answer summary
        (snd (mark_answer_sent t (rq_id request) summary conn)))))" by simp
qed

lemma triple_started_row:
  "triple (runs_inv now) (\<lambda>c. runs_inv now c)
    (started_row now m terminal label start) (\<lambda>_. runs_inv now)"
  unfolding started_row_def
proof (rule triple_bind [OF triple_read])
  fix found
  define P where "P = (\<lambda>c. runs_inv now c \<and> found = open_run (latest_for_terminal (ti_id terminal) c))"
  have named: "triple (runs_inv now) P (db_bind (set_origin (rr_id run) label ext)
      (\<lambda>_. db_read (find_run (rr_id run)))) (\<lambda>_. runs_inv now)" if "found = Some run" for run ext
  proof (rule triple_bind [where R = "\<lambda>_. runs_inv now"])
    show "triple (runs_inv now) P (set_origin (rr_id run) label ext) (\<lambda>_. runs_inv now)"
    proof (rule triple_total)
      fix c
      assume "P c"
      then have inv: "runs_inv now c" and "found = open_run (latest_for_terminal (ti_id terminal) c)"
        by (simp_all add: P_def)
      from trans [OF this(2) [symmetric] that] have "at_run now run c"
        by (rule latest_at_run [OF inv open_run_latest])
      from at_runD(2) [OF run_update_origin.keeps_at_run [OF _ _ this]]
      show "\<exists>x. fst (set_origin (rr_id run) label ext c) = Some x \<and>
          runs_inv now (snd (set_origin (rr_id run) label ext c))"
        by (simp add: set_origin_def db_exec_def)
    qed
  qed (rule triple_post [OF triple_read], simp)
  have opened: "triple (runs_inv now) P
      (db_bind (insert_started now rid m (ti_id terminal) agent cwd label ext)
        (\<lambda>row. db_ret (Some row))) (\<lambda>_. runs_inv now)" if "found = None" for rid agent cwd ext
  proof (rule tripleI)
    fix c
    assume c: "P c"
    obtain req :: ident where "req \<notin> qr_id ` set (db_agent_run_requests c)"
      using ex_new_if_finite [OF infinite_UNIV_listI, of "qr_id ` set (db_agent_run_requests c)"]
      by blast
    with c that have "runs_inv now c \<and> fresh_request req c \<and>
        (\<forall>r. latest_for_terminal (ti_id terminal) c = Some r \<longrightarrow> rr_ended_at r \<noteq> None)"
      by (auto simp: P_def fresh_request_def open_run_def split: option.splits if_splits)
    moreover have trip: "triple (runs_inv now) (\<lambda>c. runs_inv now c \<and> fresh_request req c \<and>
          (\<forall>r. latest_for_terminal (ti_id terminal) c = Some r \<longrightarrow> rr_ended_at r \<noteq> None))
        (db_bind (insert_started now rid m (ti_id terminal) agent cwd label ext)
          (\<lambda>row. db_ret (Some row))) (\<lambda>_. runs_inv now)"
      by (rule triple_bind [OF triple_insert_started], rule triple_ret) (auto simp: ready_def dest: at_runD(2))
    ultimately show "case db_bind (insert_started now rid m (ti_id terminal) agent cwd label ext)
        (\<lambda>row. db_ret (Some row)) c of (None, c) \<Rightarrow> runs_inv now c | (Some x, c) \<Rightarrow> runs_inv now c"
      by (intro tripleD [OF trip])
  qed
  have "triple (runs_inv now) P
     (case found of
        Some run \<Rightarrow> db_bind (set_origin (rr_id run) label (st_external_ref start))
             (\<lambda>_. db_read (find_run (rr_id run)))
      | None \<Rightarrow> db_bind (insert_started now (st_run_id start) m (ti_id terminal)
               (st_agent start) (ti_cwd terminal) label (st_external_ref start))
             (\<lambda>row. db_ret (Some row))) (\<lambda>_. runs_inv now)"
    by (cases found) (simp_all add: named opened)
  then show "triple (runs_inv now)
     (\<lambda>c. runs_inv now c \<and> found = open_run (latest_for_terminal (ti_id terminal) c))
     (case found of
        Some run \<Rightarrow> db_bind (set_origin (rr_id run) label (st_external_ref start))
             (\<lambda>_. db_read (find_run (rr_id run)))
      | None \<Rightarrow> db_bind (insert_started now (st_run_id start) m (ti_id terminal)
               (st_agent start) (ti_cwd terminal) label (st_external_ref start))
             (\<lambda>row. db_ret (Some row))) (\<lambda>_. runs_inv now)"
    unfolding P_def .
qed

lemma record_start_inv:
  assumes "runs_inv now conn"
  shows "runs_inv now (snd (snd (record_start now user m terminal label start conn)))"
proof -
  obtain r c1 where st: "started_row now m terminal label start conn = (r, c1)"
    by (cases "started_row now m terminal label start conn")
  with triple_snd [OF triple_started_row assms, of m terminal label start]
  have inv: "runs_inv now c1" by simp
  have "runs_inv now c2" if "insert_event now rid k j c1 = (x, c2)" for rid k j x c2
    using event_runs_inv [OF inv, of now rid k j] that by simp
  with st inv show ?thesis
    by (auto simp: record_start_def Let_def split: prod.split option.split)
qed

section \<open>Statements of the rest of the hub\<close>

lemma runs_kept:
  assumes "\<And>m. st \<noteq> St_DeleteMachine m"
  shows "db_agent_runs (exec_stmt conn st) = db_agent_runs conn"
    "db_agent_run_requests (exec_stmt conn st) = db_agent_run_requests conn"
    "db_agent_run_events (exec_stmt conn st) = db_agent_run_events conn"
proof -
  note defs = or_unchanged_def or_unchanged_err_def create_machine_def ensure_machine_for_user_def
    Let_def update_machine_status_def update_machine_info_def set_machine_production_def
    insert_terminal_def mark_destroyed_def update_size_def update_metadata_def
    apply_cwd_update_def apply_title_update_def assign_workspace_group_def
    clear_workspace_group_def set_opened_by_def insert_workspace_group_def
    update_workspace_group_sort_order_def update_workspace_group_name_def
    delete_workspace_group_if_auto_def delete_workspace_group_def delete_groups_where_def
    upsert_workspace_layout_def upsert_workspace_layout_checked_def write_layout_def
    delete_workspace_layout_def delete_workspace_layout_checked_def
  show "db_agent_runs (exec_stmt conn st) = db_agent_runs conn"
    "db_agent_run_requests (exec_stmt conn st) = db_agent_run_requests conn"
    "db_agent_run_events (exec_stmt conn st) = db_agent_run_events conn"
    by (cases st; simp add: defs assms split: option.splits)+
qed

lemma latest_of_max:
  "latest_of rs = Some y \<Longrightarrow> x \<in> set rs \<Longrightarrow> rr_started_at x \<le> rr_started_at y"
proof (induction rs arbitrary: x y)
  case (Cons a rs)
  show ?case
  proof (cases "latest_of rs")
    case None
    then have "rs = []" by (cases rs) (auto split: option.splits if_splits)
    with Cons.prems show ?thesis by simp
  next
    case (Some z)
    with Cons.prems Cons.IH [OF Some] show ?thesis by (fastforce split: if_splits)
  qed
qed simp

lemma latest_of_filter: "latest_of rs = Some r \<Longrightarrow> P r \<Longrightarrow> latest_of (filter P rs) = Some r"
proof (induction rs)
  case (Cons x rs)
  show ?case
  proof (cases "latest_of rs")
    case None
    then have "rs = []" by (cases rs) (auto split: option.splits if_splits)
    with Cons.prems show ?thesis by simp
  next
    case (Some y)
    have "rr_started_at z \<le> rr_started_at y" if "latest_of (filter P rs) = Some z" for z
      using latest_of_max [OF Some] latest_of_mem [OF that] by simp
    with Cons Some show ?thesis by (fastforce split: if_splits option.splits)
  qed
qed simp

lemma delete_machine_tables:
  "db_agent_runs (delete_machine m conn) = filter (\<lambda>r. rr_machine_id r \<noteq> m) (db_agent_runs conn)"
  "db_agent_run_requests (delete_machine m conn) = filter (\<lambda>q. qr_run_id q \<notin>
     rr_id ` {r \<in> set (db_agent_runs conn). rr_machine_id r = m}) (db_agent_run_requests conn)"
  "db_agent_run_events (delete_machine m conn) = filter (\<lambda>e. er_run_id e \<notin>
     rr_id ` {r \<in> set (db_agent_runs conn). rr_machine_id r = m}) (db_agent_run_events conn)"
  by (simp_all add: delete_machine_def Let_def)

lemma find_filter_keyed:
  "distinct (map k rs) \<Longrightarrow> find (\<lambda>r. k r = x) (filter P rs) =
    (case find (\<lambda>r. k r = x) rs of None \<Rightarrow> None | Some r \<Rightarrow> if P r then Some r else None)"
proof (induction rs)
  case (Cons a rs)
  show ?case
  proof (cases "k a = x")
    case True
    have "k y \<noteq> x" if "y \<in> set rs" for y
      using imageI [OF that, of k] Cons.prems True by auto
    then have "find (\<lambda>r. k r = x) rs = None" by (simp add: find_None_iff)
    with Cons True show ?thesis by simp
  next
    case False
    with Cons show ?thesis by simp
  qed
qed simp

lemma delete_machine_runs:
  assumes "db_ok conn"
  shows "find_run x (delete_machine m conn) = (case find_run x conn of None \<Rightarrow> None
      | Some r \<Rightarrow> if rr_machine_id r \<noteq> m then Some r else None)"
    and "has_open x (delete_machine m conn) \<longleftrightarrow> has_open x conn \<and>
      (\<forall>r. find_run x conn = Some r \<longrightarrow> rr_machine_id r \<noteq> m)"
proof -
  have keys: "distinct (map rr_id (db_agent_runs conn))"
    using db_okD(5) [OF assms] by (simp add: keyed_def)
  then show "find_run x (delete_machine m conn) = (case find_run x conn of None \<Rightarrow> None
      | Some r \<Rightarrow> if rr_machine_id r \<noteq> m then Some r else None)"
    by (simp add: find_run_def delete_machine_tables find_filter_keyed)
  have gone: "x \<in> rr_id ` {r \<in> set (db_agent_runs conn). rr_machine_id r = m} \<longleftrightarrow>
      (\<exists>r. find_run x conn = Some r \<and> rr_machine_id r = m)"
    using keyed_find [OF db_okD(5) [OF assms]] find_run_mem [of x conn] find_run_id [of x conn]
    by (auto simp: find_run_def)
  show "has_open x (delete_machine m conn) \<longleftrightarrow> has_open x conn \<and>
      (\<forall>r. find_run x conn = Some r \<longrightarrow> rr_machine_id r \<noteq> m)"
    using gone by (auto simp: has_open_def open_row_def delete_machine_tables)
qed

lemma delete_machine_inv:
  assumes "runs_inv now conn"
  shows "runs_inv now (delete_machine m conn)"
proof -
  let ?c = "delete_machine m conn"
  have ok: "run_ok conn" "\<forall>x. waits_ok x conn" "terminals_ok now conn"
    using assms by (simp_all add: runs_inv_def)
  note db = run_okD(1) [OF ok(1)]
  have "db_ok ?c" using exec_stmt_ok [OF db, of "St_DeleteMachine m"] by simp
  moreover have "one_open ?c"
    unfolding one_open_def
  proof
    fix rid
    have "length (filter (open_row rid) (filter Q qs)) \<le> length (filter (open_row rid) qs)" for Q qs
      by (induction qs) auto
    with run_okD(2) [OF ok(1)] show "length (filter (open_row rid) (db_agent_run_requests ?c)) \<le> 1"
      unfolding delete_machine_tables one_open_def by (meson order_trans)
  qed
  moreover have "ended_ok ?c" using run_okD(3) [OF ok(1)] by (simp add: ended_ok_def delete_machine_tables)
  moreover have "history_ok ?c"
    unfolding history_ok_def
  proof
    fix rid
    have "set (event_seqs rid ?c) \<subseteq> set (event_seqs rid conn)"
      by (auto simp: event_seqs_def delete_machine_tables)
    with run_okD(4) [OF ok(1)] show "\<exists>hi. 0 \<le> hi \<and>
        (\<forall>sq \<in> set (event_seqs rid ?c). hi - EVENTS_PER_RUN < sq \<and> 0 < sq \<and> sq \<le> hi)"
      unfolding history_ok_def by (meson subsetD)
  qed
  moreover have "waits_ok x ?c" for x
  proof -
    from ok(2) have "waits_ok x conn" ..
    then show ?thesis
      by (cases "find_run x conn")
        (auto simp: waits_ok_def status_of_def delete_machine_runs [OF db])
  qed
  moreover have "terminals_ok now ?c"
  proof -
    have "latest_for_terminal tid ?c = Some r"
      if "latest_for_terminal tid conn = Some r" "rr_machine_id r \<noteq> m" for tid r
      using latest_of_filter [OF that(1) [unfolded latest_for_terminal_def], of "\<lambda>r. rr_machine_id r \<noteq> m"]
        that(2) by (simp add: latest_for_terminal_def delete_machine_tables conj_commute)
    then show ?thesis
      using ok(3) by (simp add: terminals_ok_def is_latest_def delete_machine_tables)
  qed
  ultimately show ?thesis by (simp add: runs_inv_def run_ok_def)
qed

lemma exec_stmt_inv:
  assumes "runs_inv now conn"
  shows "runs_inv now (exec_stmt conn st)"
proof (cases "\<exists>m. st = St_DeleteMachine m")
  case True
  with assms delete_machine_inv show ?thesis by auto
next
  case False
  then have same: "db_agent_runs (exec_stmt conn st) = db_agent_runs conn"
    "db_agent_run_requests (exec_stmt conn st) = db_agent_run_requests conn"
    "db_agent_run_events (exec_stmt conn st) = db_agent_run_events conn"
    by (simp_all add: runs_kept)
  have ok: "run_ok conn" using assms by (simp add: runs_inv_def)
  have "ended_ok (exec_stmt conn st)"
    using run_okD(3) [OF ok] same(1) by (simp add: ended_ok_def)
  with run_ok_runs [OF ok exec_stmt_ok [OF run_okD(1) [OF ok]] same(2,3)]
  have "run_ok (exec_stmt conn st)" .
  with assms show ?thesis
    by (simp add: runs_inv_def waits_ok_def same_runs [OF same(1)] same_requests [OF same(2)])
qed

lemma runs_inv_later:
  assumes "runs_inv now conn" and "now \<le> later"
  shows "runs_inv later conn"
  using assms by (fastforce simp: runs_inv_def terminals_ok_def)

section \<open>Facts about requests that every handler keeps\<close>

lemma snd_announce [simp]: "snd (announce_runs user m conn) = snd (m conn)"
  by (cases "m conn") (simp add: announce_runs_def split: option.split)

text \<open>
  A property of the database that the statements of \<^verbatim>\<open>db/agent_runs.rs\<close> keep, those that make a
  request under the id \<open>req\<close> included: every handler keeps it.
\<close>

locale run_monitor =
  fixes I :: "database \<Rightarrow> bool" and req :: ident
  assumes update [keeps_intros]: "keeps I (db_exec (update_run rid f))"
    and resolve [keeps_intros]: "keeps I (resolve_open_request now rid res)"
    and event [keeps_intros]: "keeps I (insert_event now rid kind event)"
    and new_row [keeps_intros]: "keeps I (db_try (insert_row row))"
    and request [keeps_intros]: "keeps I (insert_request now req rid request prompt options source)"
begin

lemma set_status [keeps_intros]: "keeps I (set_status now rid status)"
  unfolding set_status_def by (intro keeps_intros)

lemma begin_run [keeps_intros]: "keeps I (begin_run now req rid attention)"
  unfolding begin_run_def
  by (auto split: option.split terminal_attention.split intro!: keeps_intros)

lemma changed [keeps_intros]: "keeps I m \<Longrightarrow> keeps I (changed_run m)"
  unfolding changed_run_def by (intro keeps_intros)

lemma status_to [keeps_intros]: "keeps I (status_to now source rid status)"
  unfolding status_to_def by (intro keeps_intros)

lemma inherit [keeps_intros]: "keeps I (inherit now rid prev)"
  unfolding inherit_def set_origin_def Let_def
  by (auto split: option.split intro!: keeps_intros)

lemma insert_runs [keeps_intros]:
  "keeps I (insert_run now new_run m tid agent cwd status)"
  "keeps I (insert_started now new_run m tid agent cwd label ext)"
  unfolding insert_run_def insert_started_def Let_def by (intro keeps_intros)+

lemma fresh_run [keeps_intros]:
  "keeps I (fresh_run now new_run req m tid agent view latest)"
  unfolding fresh_run_def by (intro keeps_intros)

lemma terminal_agent [keeps_intros]:
  "keeps I (terminal_agent_runs now new_run req m tid agent view)"
  unfolding terminal_agent_runs_def prod.case by (intro keeps_intros)

lemma after_handover [keeps_intros]: "keeps I (after_handover now latest sig)"
proof -
  have "keeps I (case sig of
      Sig_Idle \<Rightarrow> db_bind (if \<not> ended
          then db_bind (insert_event now rid TURN_ENDED (J_Object [])) (\<lambda>_. db_ret ())
          else db_ret ()) (\<lambda>_. db_ret True)
    | Sig_Working \<Rightarrow> db_ret (\<not> ended) | Sig_Progress _ \<Rightarrow> db_ret (\<not> ended) | _ \<Rightarrow> db_ret False)" for ended rid
    by (cases sig) (simp_all only: agent_signal.case, (intro keeps_intros)+)
  then show ?thesis unfolding after_handover_def by (intro keeps_intros)
qed

lemma apply_signal: "keeps I (apply_signal now req source run sig)"
proof (cases sig)
  case (Sig_Report kind t link)
  show ?thesis
    unfolding Sig_Report apply_signal.simps set_report_def
    by (cases kind) (simp_all only: agent_report_kind.case, (intro keeps_intros)+)
qed (simp_all only: apply_signal.simps set_progress_def, (intro keeps_intros)+)

lemma agent_signal [keeps_intros]:
  "keeps I (agent_signal_runs now new_run req m tid agent cwd source sig)"
proof -
  have told: "keeps I (case found of None \<Rightarrow> db_ret []
      | Some (run, opened) \<Rightarrow> db_bind (apply_signal now req source run sig) (\<lambda>changed.
          case changed of Some row \<Rightarrow> db_ret [row]
          | None \<Rightarrow> if opened then changed_run (db_read (find_run (rr_id run))) else db_ret []))"
    for found :: "(agent_run_row \<times> bool) option"
    by (cases found) (auto simp only: option.case prod.case
        intro!: keeps_intros apply_signal split: prod.split)
  show ?thesis
    unfolding agent_signal_runs_def run_for_signal_def
    by (rule keeps_bind) (intro keeps_intros, rule told)
qed

lemma end_each: "keeps I (end_each now status rids)"
  by (induction rids) (simp_all only: end_each.simps, (intro keeps_intros)+)

lemma answer_sent: "keeps I (answer_sent t run request answer summary)"
  unfolding answer_sent_def by (intro keeps_intros)

lemma started_row: "keeps I (started_row now m terminal label start)"
  unfolding started_row_def set_origin_def by (intro keeps_intros)

lemma handlers:
  assumes "I conn"
  shows "I (snd (on_terminal_agent now new_run req terminal m tid agent conn))"
    and "I (snd (on_agent_signal now new_run req terminal m tid agent source sig conn))"
    and "I (snd (on_run_attention now req user tid attention conn))"
    and "I (snd (end_terminal_runs now user tid conn))"
    and "I (snd (end_machine_runs now user m conn))"
    and "I (snd (expire_start now owner rid conn))"
    and "I (snd (snd (record_start now owner m info label start conn)))"
proof -
  have keep: "I (snd (m conn))" if "keeps I m" for m :: "agent_run_row list db_op"
    using keepsD [OF that assms] .
  show "I (snd (on_terminal_agent now new_run req terminal m tid agent conn))"
    using assms by (auto simp: on_terminal_agent_def split: option.split
        intro!: keep terminal_agent)
  show "I (snd (on_agent_signal now new_run req terminal m tid agent source sig conn))"
    using assms by (auto simp: on_agent_signal_def split: option.split
        intro!: keep agent_signal)
  show "I (snd (on_run_attention now req user tid attention conn))"
    unfolding on_run_attention_def snd_announce by (intro keep keeps_intros)
  show "I (snd (end_terminal_runs now user tid conn))"
    unfolding end_terminal_runs_def snd_announce by (intro keep keeps_intros)
  show "I (snd (end_machine_runs now user m conn))"
    unfolding end_machine_runs_def end_open_for_machine_def snd_announce
    by (intro keep keeps_intros end_each)
  show "I (snd (expire_start now owner rid conn))"
    unfolding expire_start_def snd_announce by (intro keep keeps_intros)
  obtain r c1 where st: "started_row now m info label start conn = (r, c1)"
    by (cases "started_row now m info label start conn")
  with keepsD [OF started_row assms] have c1: "I c1" by (metis snd_conv)
  have "I c2" if "insert_event now rid k j c1 = (x, c2)" for rid k j x c2
    using keepsD [OF event c1, of now rid k j] that by simp
  with st c1 show "I (snd (snd (record_start now owner m info label start conn)))"
    by (auto simp: record_start_def Let_def split: prod.split option.split)
qed

end

text \<open>The ids of the requests made so far.\<close>

definition ids_in :: "ident set \<Rightarrow> database \<Rightarrow> bool" where
  "ids_in U conn \<longleftrightarrow> qr_id ` set (db_agent_run_requests conn) \<subseteq> U"

lemma ids_in_fresh: "ids_in U conn \<Longrightarrow> req \<notin> U \<Longrightarrow> fresh_request req conn"
  by (auto simp: ids_in_def fresh_request_def)

lemma ids_in_subset:
  "ids_in U conn \<Longrightarrow> set (db_agent_run_requests conn') \<subseteq> set (db_agent_run_requests conn) \<Longrightarrow>
   ids_in U conn'"
  unfolding ids_in_def by blast

lemma keeps_resolve_requests:
  assumes "\<And>conn P f. I conn \<Longrightarrow> (\<And>q. qr_id (f q) = qr_id q) \<Longrightarrow>
      (\<And>q. qr_answered_at (f q) = qr_answered_at q) \<Longrightarrow> (\<And>q. qr_resolved_at (f q) \<noteq> None) \<Longrightarrow>
      I (conn\<lparr>db_agent_run_requests := update_where P f (db_agent_run_requests conn)\<rparr>)"
  shows "keeps I (resolve_open_request now rid res)"
  by (rule keepsI) (simp add: resolve_open_request_def Let_def, rule assms, simp_all)

interpretation ids: run_monitor "ids_in (insert req U)" req for req U
proof unfold_locales
  show "keeps (ids_in (insert req U)) (db_exec (update_run rid f))" for rid f
    by (rule keeps_exec) (simp add: ids_in_def update_run_def)
  show resolve: "keeps (ids_in (insert req U)) (resolve_open_request now rid res)" for now rid res
    by (rule keeps_resolve_requests) (simp add: ids_in_def image_update_where)
  show "keeps (ids_in (insert req U)) (insert_event now rid kind event)" for now rid kind event
    by (rule keepsI) (simp add: ids_in_def insert_event_same)
  show "keeps (ids_in (insert req U)) (db_try (insert_row row))" for row
  proof (rule keeps_try)
    fix conn conn'
    assume "ids_in (insert req U) conn" and "insert_row row conn = Some conn'"
    then show "ids_in (insert req U) conn'"
      using ids_in_subset [of "insert req U" conn conn'] by (simp add: insert_row_def split: if_splits) auto
  qed
  show "keeps (ids_in (insert req U)) (insert_request now req rid request prompt options source)"
    for now rid request prompt options source
    unfolding insert_request_def Let_def
    by (intro keeps_bind resolve keeps_try) (auto 4 4 simp: ids_in_def split: if_splits)
qed

section \<open>Histories\<close>

datatype run_op =
    Op_Agent ident "terminal_view option" ident ident "run_agent option"
  | Op_Signal ident "terminal_view option" ident ident "run_agent option" string agent_signal
  | Op_Attention "ident option" ident "terminal_attention option"
  | Op_TerminalGone "ident option" ident
  | Op_MachineGone "ident option" ident
  | Op_StartExpired ident ident
  | Op_Answer bool "ident \<Rightarrow> bool" mode_map bool ident ident agent_answer
  | Op_Started ident ident terminal_info "ustr option" agent_start
  | Op_Stmt stmt

text \<open>One step, at its time and with the id its request would get.\<close>

fun run_step :: "ms \<Rightarrow> ident \<Rightarrow> run_op \<Rightarrow> database \<Rightarrow> database" where
  "run_step now req (Op_Agent new_run terminal m tid agent) conn =
     snd (on_terminal_agent now new_run req terminal m tid agent conn)"
| "run_step now req (Op_Signal new_run terminal m tid agent source sig) conn =
     snd (on_agent_signal now new_run req terminal m tid agent source sig conn)"
| "run_step now req (Op_Attention user tid attention) conn =
     snd (on_run_attention now req user tid attention conn)"
| "run_step now req (Op_TerminalGone user tid) conn = snd (end_terminal_runs now user tid conn)"
| "run_step now req (Op_MachineGone user m) conn = snd (end_machine_runs now user m conn)"
| "run_step now req (Op_StartExpired user rid) conn = snd (expire_start now user rid conn)"
| "run_step now req (Op_Answer reachable supports modes sent user rid answer) conn =
     snd (snd (snd (answer_agent_run now reachable supports modes sent user rid answer conn)))"
| "run_step now req (Op_Started user m terminal label start) conn =
     snd (snd (record_start now user m terminal label start conn))"
| "run_step now req (Op_Stmt st) conn = exec_stmt conn st"

type_synonym timed_op = "ms \<times> ident \<times> run_op"

definition run_history :: "timed_op list \<Rightarrow> database \<Rightarrow> database" where
  "run_history steps conn = foldl (\<lambda>c (now, req, op). run_step now req op c) conn steps"

lemma run_step_inv:
  assumes "runs_inv now conn" and "fresh_request req conn"
  shows "runs_inv now (run_step now req op conn)"
  using assms
  by (cases op)
    (simp_all add: on_terminal_agent_inv on_agent_signal_inv on_run_attention_inv
      end_terminal_runs_inv end_machine_runs_inv expire_start_inv answer_agent_run_inv
      record_start_inv exec_stmt_inv del: snd_announce)

lemma run_step_ids:
  assumes "ids_in (insert req U) conn"
  shows "ids_in (insert req U) (run_step now req op conn)"
proof (cases op)
  case (Op_Answer reachable supports modes s user rid answer)
  have mark: "ids_in V (snd (mark_answer_sent t rid j c))" and unmark: "ids_in V (unmark_answer rid c)"
    if "ids_in V c" for V t rid j c
    using that by (simp_all add: mark_answer_sent_def unmark_answer_def Let_def ids_in_def
        image_update_where)
  have finish: "ids_in (insert req U) (snd (snd (finish_answer t s user run request answer summary c)))"
    if "ids_in (insert req U) c" for t s user run request answer summary c
    using keepsD [OF ids.answer_sent that, of t run request answer summary]
      unmark [OF that, of "rq_id request"]
    by (auto simp: finish_answer_def Let_def split: prod.splits option.splits)
  show ?thesis
    unfolding Op_Answer run_step.simps
    by (rule answer_agent_run_cases) (use assms mark finish in auto)
next
  case (Op_Stmt st)
  have "set (db_agent_run_requests (exec_stmt conn st)) \<subseteq> set (db_agent_run_requests conn)"
    using runs_kept(2) [of st conn]
    by (cases "\<exists>m. st = St_DeleteMachine m") (auto simp: delete_machine_tables)
  from ids_in_subset [OF assms this] show ?thesis by (simp add: Op_Stmt)
qed (use ids.handlers [OF assms] in simp_all)

text \<open>Time does not run backwards in a history, and no id is made twice.\<close>

definition timely :: "timed_op list \<Rightarrow> bool" where
  "timely steps \<longleftrightarrow> sorted (map fst steps) \<and> distinct (map (fst \<circ> snd) steps)"

lemma runs_inv_empty: "runs_inv now (empty_db users)"
  by (simp add: runs_inv_def run_ok_empty)
    (simp add: waits_ok_def status_of_def find_run_def has_open_def terminals_ok_def empty_db_def)

lemma history_inv_from:
  assumes "timely steps" and "runs_inv now conn" and "\<forall>s \<in> set steps. now \<le> fst s"
    and "ids_in U conn" and "\<forall>s \<in> set steps. fst (snd s) \<notin> U"
  shows "\<exists>later. runs_inv later (run_history steps conn)"
  using assms
proof (induction steps arbitrary: now conn U)
  case Nil
  then show ?case by (auto simp: run_history_def)
next
  case (Cons s steps)
  obtain t req op where s: "s = (t, req, op)" by (cases s)
  have fresh: "fresh_request req conn" by (rule ids_in_fresh [OF Cons.prems(4)]) (use Cons.prems(5) s in simp)
  have now: "runs_inv t conn" by (rule runs_inv_later [OF Cons.prems(2)]) (use Cons.prems(3) s in simp)
  have "ids_in (insert req U) conn" using Cons.prems(4) by (auto simp: ids_in_def)
  then have ids: "ids_in (insert req U) (run_step t req op conn)" by (rule run_step_ids)
  have "\<exists>later. runs_inv later (run_history steps (run_step t req op conn))"
  proof (rule Cons.IH [OF _ run_step_inv [OF now fresh] _ ids])
    show "timely steps" and "\<forall>s \<in> set steps. t \<le> fst s"
      using Cons.prems(1) s by (simp_all add: timely_def)
    show "\<forall>s \<in> set steps. fst (snd s) \<notin> insert req U"
      using Cons.prems(1,5) s by (auto simp: timely_def image_iff)
  qed
  then show ?case by (simp add: run_history_def s)
qed

lemma history_inv:
  assumes "timely steps"
  shows "\<exists>later. runs_inv later (run_history steps (empty_db users))"
proof (cases steps)
  case Nil
  with runs_inv_empty show ?thesis by (auto simp: run_history_def)
next
  case (Cons s rest)
  show ?thesis
    by (rule history_inv_from [OF assms runs_inv_empty, of "fst s" "{}"])
      (use assms Cons in \<open>auto simp: timely_def ids_in_def empty_db_def\<close>)
qed

lemma newest_request_None [simp]: "newest_request qs = None \<longleftrightarrow> qs = []"
  by (cases qs) (auto split: option.splits if_splits)

lemma open_request_has_open: "open_request rid conn \<noteq> None \<longleftrightarrow> has_open rid conn"
  by (simp add: open_request_def has_open_filter open_row_def [abs_def])

lemma sole_member:
  assumes "\<And>y. y \<in> set xs \<Longrightarrow> y = x" and "x \<in> set xs" and "distinct xs"
  shows "xs = [x]"
proof (cases xs)
  case (Cons a ys)
  show ?thesis
  proof (cases ys)
    case (Cons b zs)
    with \<open>xs = a # ys\<close> assms(1) [of a] assms(1) [of b] assms(3) show ?thesis by simp
  qed (use Cons assms(1) [of a] in simp)
qed (use assms(2) in simp)

text \<open>The run a browser shows as waiting, ended and so on.\<close>

definition example_runs :: "timed_op list" where
  "example_runs =
     [(1, ''a'', Op_Stmt (St_CreateMachine 1 ''m'' ''u'' [] [])),
      (2, ''b'', Op_Signal ''r'' (Some \<lparr>tv_user_id = Some ''u'', tv_cwd = [], tv_attention = None\<rparr>)
                 ''m'' ''t'' (Some RA_Claude) ''hook'' Sig_Working),
      (3, ''c'', Op_Attention (Some ''u'') ''t'' (Some Confirmation))]"

section \<open>Properties\<close>

text \<open>C9. A run waits exactly when it asks. After any history of node reports, answers, starts
  and other statements, with a clock that does not run backwards and request ids made once,
  a stored run is Waiting if and only if it has an open request, which is then the only
  one, and it has an end time if and only if its status is final.\<close>

theorem run_waits_iff_it_asks:
  assumes "timely steps" and "find_run rid (run_history steps (empty_db users)) = Some run"
  shows "(rr_status run = Run_Waiting \<longleftrightarrow>
       open_request rid (run_history steps (empty_db users)) \<noteq> None)
    \<and> length (filter (\<lambda>q. qr_run_id q = rid \<and> qr_resolved_at q = None)
        (db_agent_run_requests (run_history steps (empty_db users)))) \<le> 1
    \<and> (rr_ended_at run \<noteq> None \<longleftrightarrow> ends_run (rr_status run))"
proof -
  obtain later where inv: "runs_inv later (run_history steps (empty_db users))"
    using history_inv [OF assms(1)] by blast
  then have waits: "waits_ok rid (run_history steps (empty_db users))"
    and one: "one_open (run_history steps (empty_db users))"
    by (simp_all add: runs_inv_def run_okD)
  from waits assms(2) have "rr_status run = Run_Waiting \<longleftrightarrow>
      open_request rid (run_history steps (empty_db users)) \<noteq> None"
    by (simp add: open_request_has_open waits_ok_def status_of_def del: not_None_eq)
  with one ended_status [OF inv assms(2)] show ?thesis
    by (simp add: one_open_def open_row_def [abs_def])
qed

lemma run_waits_iff_it_asks_witness:
  "open_request ''r'' (run_history example_runs (empty_db [''u''])) \<noteq> None"
proof -
  have "timely example_runs" by code_simp
  moreover have "map_option rr_status (find_run ''r'' (run_history example_runs (empty_db [''u''])))
      = Some Run_Waiting"
    by code_simp
  then obtain run where "find_run ''r'' (run_history example_runs (empty_db [''u''])) = Some run"
    and "rr_status run = Run_Waiting" by auto
  ultimately show ?thesis using run_waits_iff_it_asks [of example_runs "''r''" "[''u'']" run] by simp
qed



text \<open>A run's history stays small. After any such history no run has more than 500 events,
  and they are numbered without repetition within a window of 500.\<close>

theorem run_history_is_bounded:
  assumes "timely steps"
  shows "length (event_seqs rid (run_history steps (empty_db users))) \<le> 500
    \<and> distinct (event_seqs rid (run_history steps (empty_db users)))"
proof -
  obtain later where inv: "runs_inv later (run_history steps (empty_db users))"
    using history_inv [OF assms(1)] by blast
  then have ok: "run_ok (run_history steps (empty_db users))" by (simp add: runs_inv_def)
  have "distinct (event_seqs rid (run_history steps (empty_db users)))"
    using db_okD(7) [OF run_okD(1) [OF ok]]
    by (auto simp: keyed_def event_seqs_def distinct_map inj_on_def)
  with history_bound [OF ok, of rid] show ?thesis by (simp add: EVENTS_PER_RUN_def)
qed

lemma run_history_is_bounded_witness:
  "length (event_seqs ''r'' (run_history example_runs (empty_db [''u'']))) \<le> 500"
  using run_history_is_bounded [of example_runs "''r''" "[''u'']"] by code_simp

end
