(* ===== verification/RunAnswers.thy ===== *)
theory RunAnswers
  imports RunHistory
begin

text \<open>
  Answers to agents: what is typed, and that it is typed once however many browsers answer at
  the same moment (\<^verbatim>\<open>keys_for\<close> and \<^verbatim>\<open>answer_agent_run\<close> of
  \<^verbatim>\<open>crates/hub/src/machine_manager/agent_runs.rs\<close>).
\<close>

section \<open>The keys of an answer\<close>

lemma digit_allowed:
  assumes "n < 9"
  shows "is_allowed (Key_Digit (of_nat n + 1))"
proof -
  have "n \<in> {0, 1, 2, 3, 4, 5, 6, 7, 8}" using assms by auto
  then show ?thesis by auto
qed

lemma typed_allowed: "typed t = Inr keys \<Longrightarrow> keys \<noteq> [] \<and> list_all is_allowed keys"
  by (auto simp: typed_def split: if_splits)

lemma approve_allowed:
  "is_allowed yes \<Longrightarrow> approve_keys yes approve = Inr keys \<Longrightarrow> keys \<noteq> [] \<and> list_all is_allowed keys"
  by (auto simp: approve_keys_def split: option.splits bool.splits)

lemma trust_allowed: "is_allowed (Key_Choose FOLDER_TRUST_YES)" "is_allowed (Key_Digit 1)"
  by (simp_all add: FOLDER_TRUST_YES_def lit_def no_controls_def is_control_def trim_def trim_start_matches_def
      trim_end_matches_def is_whitespace_def)

section \<open>Answering at the same time\<close>

text \<open>
  A browser's answer reaches the database in three moves: it marks the request, sends the
  keys, and takes the mark back if the node was not reached. Any number of answers to the same
  request may be under way, each somewhere between its moves, and the other handlers of the
  hub may run in between.
\<close>

datatype answer_pc = Pc_Checked | Pc_Marked | Pc_Done

record answers_state =
  as_conn :: database
  as_pc :: "nat \<Rightarrow> answer_pc"
  as_sent :: "nat list"

datatype answering =
    Mv_Mark nat ms json_value
  | Mv_Send nat bool
  | Mv_Other ms ident run_op

definition is_answer :: "run_op \<Rightarrow> bool" where
  "is_answer op = (case op of Op_Answer _ _ _ _ _ _ _ \<Rightarrow> True | _ \<Rightarrow> False)"

fun answer_move :: "ident \<Rightarrow> answers_state \<Rightarrow> answering \<Rightarrow> answers_state" where
  "answer_move q st (Mv_Mark i now answer) =
     (if as_pc st i \<noteq> Pc_Checked then st
      else case mark_answer_sent now q answer (as_conn st) of
        (marked, conn) \<Rightarrow> st\<lparr>as_conn := conn,
          as_pc := (as_pc st)(i := if marked = Some True then Pc_Marked else Pc_Done)\<rparr>)"
| "answer_move q st (Mv_Send i reached) =
     (if as_pc st i \<noteq> Pc_Marked then st
      else if reached then st\<lparr>as_pc := (as_pc st)(i := Pc_Done), as_sent := i # as_sent st\<rparr>
      else st\<lparr>as_conn := unmark_answer q (as_conn st), as_pc := (as_pc st)(i := Pc_Done)\<rparr>)"
| "answer_move q st (Mv_Other now req op) =
     (if is_answer op \<or> req = q then st else st\<lparr>as_conn := run_step now req op (as_conn st)\<rparr>)"

definition answers_start :: "database \<Rightarrow> answers_state" where
  "answers_start conn = \<lparr>as_conn = conn, as_pc = (\<lambda>_. Pc_Checked), as_sent = []\<rparr>"

text \<open>A request that an answer can still mark.\<close>

definition markable :: "ident \<Rightarrow> database \<Rightarrow> bool" where
  "markable q conn \<longleftrightarrow> list_ex (\<lambda>r. qr_id r = q \<and> qr_resolved_at r = None \<and> qr_answered_at r = None)
     (db_agent_run_requests conn)"

lemma markable_iff:
  "markable q conn \<longleftrightarrow> (\<exists>r \<in> set (db_agent_run_requests conn).
     qr_id r = q \<and> qr_resolved_at r = None \<and> qr_answered_at r = None)"
  by (simp add: markable_def list_ex_iff)

lemma markable_cong:
  "db_agent_run_requests conn' = db_agent_run_requests conn \<Longrightarrow> markable q conn' = markable q conn"
  by (simp add: markable_def)

lemma mark_result: "fst (mark_answer_sent now q answer conn) = Some (markable q conn)"
  by (simp add: mark_answer_sent_def Let_def markable_def)

lemma mark_takes: "\<not> markable q (snd (mark_answer_sent now q answer conn))"
proof -
  let ?P = "\<lambda>r. qr_id r = q \<and> qr_resolved_at r = None \<and> qr_answered_at r = None"
  have "\<not> list_ex ?P (update_where ?P (\<lambda>r. r\<lparr>qr_answered_at := Some now, qr_answer := Some answer\<rparr>) qs)"
    for qs by (induction qs) (simp_all add: update_where_def)
  then show ?thesis by (simp add: mark_answer_sent_def Let_def markable_def)
qed

interpretation locked: run_monitor "\<lambda>conn. \<not> (markable q conn \<and> req \<noteq> q)" req for q req
proof unfold_locales
  show "keeps (\<lambda>conn. \<not> (markable q conn \<and> req \<noteq> q)) (db_exec (update_run rid f))" for rid f
    by (rule keeps_exec) (simp add: markable_def update_run_def)
  show resolve: "keeps (\<lambda>conn. \<not> (markable q conn \<and> req \<noteq> q)) (resolve_open_request now rid res)"
    for now rid res
  proof (rule keeps_resolve_requests)
    fix conn :: database and P and f :: "agent_run_request_row \<Rightarrow> agent_run_request_row"
    assume free: "\<not> (markable q conn \<and> req \<noteq> q)" and f: "\<And>r. qr_resolved_at (f r) \<noteq> None"
    have "list_ex (\<lambda>r. qr_id r = q \<and> qr_resolved_at r = None \<and> qr_answered_at r = None) (update_where P f qs)
        \<Longrightarrow> list_ex (\<lambda>r. qr_id r = q \<and> qr_resolved_at r = None \<and> qr_answered_at r = None) qs" for qs
    proof (induction qs)
      case (Cons a qs)
      then show ?case using f [of a] by (cases "P a") (auto simp: update_where_def)
    qed (simp add: update_where_def)
    with free show "\<not> (markable q (conn\<lparr>db_agent_run_requests :=
        update_where P f (db_agent_run_requests conn)\<rparr>) \<and> req \<noteq> q)"
      by (auto simp: markable_def)
  qed
  show "keeps (\<lambda>conn. \<not> (markable q conn \<and> req \<noteq> q)) (insert_event now rid kind event)"
    for now rid kind event
    by (rule keepsI) (simp add: markable_def insert_event_same)
  show "keeps (\<lambda>conn. \<not> (markable q conn \<and> req \<noteq> q)) (db_try (insert_row row))" for row
    by (rule keeps_try) (auto simp: markable_def insert_row_def split: if_splits)
  show "keeps (\<lambda>conn. \<not> (markable q conn \<and> req \<noteq> q))
      (insert_request now req rid request prompt options source)"
    for now rid request prompt options source
    unfolding insert_request_def Let_def
    by (intro keeps_bind resolve keeps_try) (auto simp: markable_def split: if_splits)
qed

lemma other_keeps_lock:
  assumes "\<not> markable q conn" and "\<not> is_answer op" and "req \<noteq> q"
  shows "\<not> markable q (run_step now req op conn)"
proof (cases op)
  case (Op_Stmt st)
  have "set (db_agent_run_requests (exec_stmt conn st)) \<subseteq> set (db_agent_run_requests conn)"
    using runs_kept(2) [of st conn]
    by (cases "\<exists>m. st = St_DeleteMachine m") (auto simp: delete_machine_tables)
  with assms(1) show ?thesis by (auto simp: Op_Stmt markable_iff)
qed (use locked.handlers [where q = q and req = req and conn = conn] assms in \<open>simp_all add: is_answer_def\<close>)

text \<open>At most one answer holds the mark, and none can take it once it is held or used.\<close>

definition answers_ok :: "ident \<Rightarrow> answers_state \<Rightarrow> bool" where
  "answers_ok q st \<longleftrightarrow>
     (\<forall>i j. as_pc st i = Pc_Marked \<longrightarrow> as_pc st j = Pc_Marked \<longrightarrow> i = j) \<and>
     (\<forall>i. as_pc st i = Pc_Marked \<longrightarrow> as_sent st = [] \<and> \<not> markable q (as_conn st)) \<and>
     length (as_sent st) \<le> 1 \<and> (as_sent st \<noteq> [] \<longrightarrow> \<not> markable q (as_conn st))"

lemma answer_move_ok:
  assumes "answers_ok q st"
  shows "answers_ok q (answer_move q st m)"
proof (cases m)
  case (Mv_Mark i now answer)
  obtain marked conn where mark: "mark_answer_sent now q answer (as_conn st) = (marked, conn)"
    by (cases "mark_answer_sent now q answer (as_conn st)")
  with mark_result [of now q answer "as_conn st"] mark_takes [of q now answer "as_conn st"]
  have "marked = Some (markable q (as_conn st))" and "\<not> markable q conn" by simp_all
  with assms mark show ?thesis
    by (auto simp: Mv_Mark answers_ok_def)
next
  case (Mv_Send i reached)
  with assms show ?thesis by (auto simp: answers_ok_def)
next
  case (Mv_Other now req op)
  with assms other_keeps_lock [of q "as_conn st" op req now] show ?thesis
    by (auto simp: answers_ok_def)
qed

interpretation answers: invariant_steps "answer_move q" "answers_ok q" for q
  by unfold_locales (rule answer_move_ok)

section \<open>Properties\<close>

text \<open>C24. Only keys a node accepts are sent. Whatever a person answers to whatever request, the
  keys it becomes are not none, and each passes the check the node makes before typing:
  a digit from 1 to 9, a line of text without control characters, Enter, Escape or a short
  label to choose.\<close>

theorem answers_become_allowed_keys:
  assumes "keys_for request answer = Inr keys"
  shows "keys \<noteq> [] \<and> list_all is_allowed keys"
  using assms
  by (cases "rq_kind request")
    (auto simp: keys_for_def Let_def not_le digit_allowed simp del: is_allowed.simps(2)
      split: option.splits if_splits prod.splits
      dest: typed_allowed approve_allowed [OF trust_allowed(1)] approve_allowed [OF trust_allowed(2)])

lemma answers_become_allowed_keys_witness:
  "[Key_Digit 1] \<noteq> [] \<and> list_all is_allowed [Key_Digit 1]"
  by (rule answers_become_allowed_keys [of "\<lparr>rq_id = ''q'', rq_kind = Req_Approval, rq_prompt = None,
        rq_options = [], rq_source = ''screen'', rq_created_at_ms = 0, rq_answer_sent_at_ms = None\<rparr>"
      "\<lparr>an_request_id = ''q'', an_approve = Some True, an_option_id = None,
        an_text = None, an_device_id = None\<rparr>"]) code_simp

text \<open>C11. An answer is typed at most once. Whatever number of answers to one request are under way
  at the same time, in whatever order their moves and the other handlers' interleave, and
  whichever of the sends fail, at most one answer's keys reach the node.\<close>

theorem answer_typed_at_most_once:
  "length (as_sent (foldl (answer_move q) (answers_start conn) moves)) \<le> 1"
proof -
  have "answers_ok q (answers_start conn)" by (simp add: answers_ok_def answers_start_def)
  from answers.run_inv [OF this, of moves] show ?thesis by (simp add: answers_ok_def)
qed

text \<open>Picking an option presses its number. For a question whose options have distinct ids,
  answering with the id of one of the first nine options presses the digit of its place,
  counted from one; a later one is refused.\<close>

theorem option_presses_its_number:
  assumes "rq_kind request = Req_Question" and "distinct (map qo_id (rq_options request))"
    and "n < length (rq_options request)"
    and "an_option_id answer = Some (qo_id (rq_options request ! n))"
  shows "keys_for request answer =
    (if n < 9 then Inr [Key_Digit (of_nat n + 1)]
     else Inl (Ans_BadRequest ''Only the first nine options can be picked from here''))"
proof -
  have "position (\<lambda>opt. qo_id opt = qo_id (xs ! n)) xs = Some n"
    if "distinct (map qo_id xs)" "n < length xs" for xs :: "agent_question_option list"
    using that
  proof (induction xs arbitrary: n)
    case (Cons x xs)
    show ?case
    proof (cases n)
      case (Suc k)
      with Cons.prems have "xs ! k \<in> set xs" and "qo_id x \<notin> qo_id ` set xs" by simp_all
      then have "qo_id x \<noteq> qo_id (xs ! k)" by (metis imageI)
      with Cons Suc show ?thesis by simp
    qed simp
  qed simp
  from this [OF assms(2,3)] assms(1,4) show ?thesis by (simp add: keys_for_def Let_def)
qed

lemma option_presses_its_number_witness:
  "keys_for \<lparr>rq_id = ''q'', rq_kind = Req_Question, rq_prompt = None,
      rq_options = [\<lparr>qo_id = lit ''a'', qo_label = [], qo_detail = None\<rparr>,
        \<lparr>qo_id = lit ''b'', qo_label = [], qo_detail = None\<rparr>],
      rq_source = ''hook'', rq_created_at_ms = 0, rq_answer_sent_at_ms = None\<rparr>
    \<lparr>an_request_id = ''q'', an_approve = None, an_option_id = Some (lit ''b''), an_text = None,
      an_device_id = None\<rparr> = Inr [Key_Digit 2]"
  using option_presses_its_number [of "\<lparr>rq_id = ''q'', rq_kind = Req_Question, rq_prompt = None,
      rq_options = [\<lparr>qo_id = lit ''a'', qo_label = [], qo_detail = None\<rparr>,
        \<lparr>qo_id = lit ''b'', qo_label = [], qo_detail = None\<rparr>],
      rq_source = ''hook'', rq_created_at_ms = 0, rq_answer_sent_at_ms = None\<rparr>" 1
    "\<lparr>an_request_id = ''q'', an_approve = None, an_option_id = Some (lit ''b''), an_text = None,
      an_device_id = None\<rparr>"]
  by (simp add: lit_def)

text \<open>C38. A declined approval reopens a run that ended meanwhile. When the keys of a declining
  answer have gone out, the run is set Idle and its end time cleared, whatever it became
  while the keys were on their way: a run whose terminal was destroyed in between is open
  again.\<close>

theorem declining_reopens_ended_run:
  assumes "find_run (rr_id run) conn = Some now_ended"
    and "rq_kind request = Req_Approval" and "an_approve answer = Some False"
  shows "\<exists>row. find_run (rr_id run)
        (snd (snd (finish_answer now True user run request answer summary conn))) = Some row
      \<and> rr_status row = Run_Idle \<and> rr_ended_at row = None"
proof -
  let ?rid = "rr_id run"
  have event: "\<exists>x c'. insert_event now ?rid k j c = (Some x, c') \<and> find_run ?rid c' = find_run ?rid c"
    if "find_run ?rid c \<noteq> None" for k j c
    using that same_runs(5) [OF insert_event_same(1), of ?rid now ?rid k j c] run_ids_find [of ?rid c]
    by (simp add: insert_event_eq)
  obtain x c2 where c2: "insert_event now ?rid ''answer''
      (J_Object [(''request_id'', j_id (rq_id request)), (''answer'', summary)]) conn = (Some x, c2)"
    and f2: "find_run ?rid c2 = Some now_ended"
    using event [of conn] assms(1) by (metis option.distinct(1))
  obtain c3 where c3: "resolve_open_request now ?rid ''declined'' c2 = (Some (has_open ?rid c2), c3)"
    using resolve_result [of now ?rid "''declined''" c2] by (metis prod.collapse)
  then have f3: "find_run ?rid c3 = Some now_ended"
    using same_runs(5) [OF resolve_runs, of ?rid now ?rid "''declined''" c2] f2 by simp
  obtain y c4 where c4: "insert_event now ?rid ''status'' (status_event Run_Idle ''answer'') c3 = (Some y, c4)"
    and f4: "find_run ?rid c4 = Some now_ended"
    using event [of c3] f3 by (metis option.distinct(1))
  define row where "row = now_ended\<lparr>rr_status := Run_Idle, rr_updated_at := now, rr_ended_at := None\<rparr>"
  obtain c5 where c5: "set_status now ?rid Run_Idle c4 = (Some (Some row), c5)"
    and f5: "find_run ?rid c5 = Some row"
    using f4 by (simp add: set_status_eq Let_def find_update_run row_def)
  have "answer_sent now run request answer summary conn = (Some (Some row), c5)"
    using assms(2,3) c2 c3 c4 c5 f5
    by (simp add: answer_sent_def status_to_def db_bind_def db_read_def db_ret_def)
  then have "snd (snd (finish_answer now True user run request answer summary conn)) = c5"
    by (simp add: finish_answer_def Let_def)
  with f5 show ?thesis by (simp add: row_def)
qed

text \<open>The decline is checked and marked, the terminal is destroyed, the keys are reported sent.\<close>

lemma declining_reopens_ended_run_witness:
  "let conn = run_history example_runs (empty_db [''u'']);
       answer = \<lparr>an_request_id = ''c'', an_approve = Some False, an_option_id = None,
         an_text = None, an_device_id = Some ''d''\<rparr>;
       (run, request) = (case answer_target ''u'' ''r'' answer conn of Inr target \<Rightarrow> target);
       marked = snd (mark_answer_sent 4 ''c'' J_Null conn);
       gone = snd (end_terminal_runs 5 (Some ''u'') ''t'' marked)
   in map_option rr_ended_at (find_run ''r'' gone) = Some (Some 5)
      \<and> (\<exists>row. find_run ''r'' (snd (snd (finish_answer 6 True ''u'' run request answer J_Null gone)))
             = Some row \<and> rr_status row = Run_Idle \<and> rr_ended_at row = None)"
proof -
  define conn where "conn = run_history example_runs (empty_db [''u''])"
  define answer where "answer = \<lparr>an_request_id = ''c'', an_approve = Some False,
    an_option_id = None, an_text = None, an_device_id = Some ''d''\<rparr>"
  define target where "target = (case answer_target ''u'' ''r'' answer conn of Inr t \<Rightarrow> t)"
  define gone where "gone = snd (end_terminal_runs 5 (Some ''u'') ''t''
    (snd (mark_answer_sent 4 ''c'' J_Null conn)))"
  have facts: "rr_id (fst target) = ''r'' \<and> rq_kind (snd target) = Req_Approval"
    unfolding target_def answer_def conn_def by code_simp
  have ended: "map_option rr_ended_at (find_run ''r'' gone) = Some (Some 5)"
    unfolding gone_def conn_def by code_simp
  then obtain row where "find_run (rr_id (fst target)) gone = Some row" using facts by auto
  from declining_reopens_ended_run [OF this, of "snd target" answer 6 "''u''" J_Null] facts ended
  show ?thesis
    by (simp add: Let_def answer_def [symmetric] conn_def [symmetric] target_def [symmetric]
        gone_def [symmetric] case_prod_beta) (simp add: answer_def)
qed

end
