(* ===== verification/RunHandover.thy ===== *)
theory RunHandover
  imports RunHistory
begin

text \<open>
  What becomes of a run that ended: one handed over with its report stays over until its agent's
  turn has ended, later work in its terminal is a run of its own that keeps the name, and one
  whose terminal or machine went away is resumed when its agent is seen again
  (\<^verbatim>\<open>crates/hub/src/machine_manager/agent_runs.rs\<close>).
\<close>

lemma insert_event_recorded:
  assumes "rid \<in> run_ids conn"
  shows "has_event rid kind (snd (insert_event now rid kind event conn))"
  using assms by (simp add: insert_event_eq has_event_def EVENTS_PER_RUN_def)

lemma open_run_ended: "rr_ended_at run \<noteq> None \<Longrightarrow> open_run (Some run) = None"
  by (simp add: open_run_def)

lemma handed_over_ended: "handed_over run \<Longrightarrow> rr_ended_at run \<noteq> None"
  by (simp add: handed_over_def)

section \<open>Properties\<close>

text \<open>A handed-over run stays over. While the turn in which an agent reported its work
  finished goes on, its tool calls and progress open nothing and change nothing; the end of the
  turn is recorded, with the runs left as they are, and announces nothing.\<close>

theorem handed_over_run_stays_over:
  assumes "latest_for_terminal tid conn = Some run" and "handed_over run"
    and "\<not> has_event (rr_id run) TURN_ENDED conn" and "rr_id run \<in> run_ids conn"
  shows "on_agent_signal now new_run req (Some view) m tid agent source Sig_Working conn = ([], conn)
    \<and> on_agent_signal now new_run req (Some view) m tid agent source (Sig_Progress p) conn = ([], conn)
    \<and> on_agent_signal now new_run req (Some view) m tid agent source Sig_Idle conn =
      ([], snd (insert_event now (rr_id run) TURN_ENDED (J_Object []) conn))
    \<and> has_event (rr_id run) TURN_ENDED
        (snd (on_agent_signal now new_run req (Some view) m tid agent source Sig_Idle conn))"
proof -
  have closed: "open_run (Some run) = None"
    by (rule open_run_ended) (rule handed_over_ended [OF assms(2)])
  have quiet: "on_agent_signal now new_run req (Some view) m tid agent source sig conn = ([], conn)"
    if "sig = Sig_Working \<or> (\<exists>p. sig = Sig_Progress p)" for sig
  proof -
    have "after_handover now (Some run) sig conn = (Some True, conn)"
      using that assms(2,3) by (auto simp: after_handover_def db_op_defs)
    moreover have "\<not> opens_nothing sig" using that by (auto simp: opens_nothing_def)
    ultimately show ?thesis
      by (simp add: on_agent_signal_def agent_signal_runs_def run_for_signal_def announce_runs_def
          db_op_defs assms(1) closed)
  qed
  let ?c = "snd (insert_event now (rr_id run) TURN_ENDED (J_Object []) conn)"
  obtain n c where ev: "insert_event now (rr_id run) TURN_ENDED (J_Object []) conn = (Some n, c)"
    using assms(4) by (simp add: insert_event_eq)
  then have "after_handover now (Some run) Sig_Idle conn = (Some True, ?c)"
    using assms(2,3) by (simp add: after_handover_def db_op_defs)
  then have idle: "on_agent_signal now new_run req (Some view) m tid agent source Sig_Idle conn = ([], ?c)"
    by (simp add: on_agent_signal_def agent_signal_runs_def run_for_signal_def announce_runs_def
        opens_nothing_def db_op_defs assms(1) closed)
  with quiet insert_event_recorded [OF assms(4), of TURN_ENDED now "J_Object []"] show ?thesis
    by simp
qed

text \<open>An agent worked in a terminal and reported its work finished, with its turn's end in the
  history or not.\<close>

definition example_view :: terminal_view where
  "example_view = \<lparr>tv_user_id = Some ''u'', tv_cwd = [], tv_attention = None\<rparr>"

definition finished_run :: agent_run_row where
  "finished_run = \<lparr>rr_id = ''r'', rr_machine_id = ''m'', rr_terminal_id = Some ''t'',
     rr_agent = RA_Claude, rr_cwd = [], rr_status = Run_Done, rr_started_at = 2, rr_updated_at = 3,
     rr_ended_at = Some 3, rr_progress = None,
     rr_report = Some \<lparr>rp_kind = Rep_Finished, rp_text = [100], rp_link = None, rp_at_ms = 3\<rparr>,
     rr_label = None, rr_external_ref = None\<rparr>"

definition runs_db :: "agent_run_row list \<Rightarrow> agent_run_event_row list \<Rightarrow> database" where
  "runs_db runs events = (exec_stmt (empty_db [''u'']) (St_CreateMachine 1 ''m'' ''u'' [] []))
     \<lparr>db_agent_runs := runs, db_agent_run_events := events\<rparr>"

definition turn_ended :: agent_run_event_row where
  "turn_ended = \<lparr>er_run_id = ''r'', er_seq = 1, er_kind = TURN_ENDED, er_event_json = J_Object [],
     er_created_at = 4\<rparr>"

lemma runs_db_tables:
  "db_agent_runs (runs_db runs events) = runs" "db_agent_run_events (runs_db runs events) = events"
  "db_agent_run_requests (runs_db runs events) = []"
  "mr_id ` set (db_machines (runs_db runs events)) = {''m''}"
  by (simp_all add: runs_db_def empty_db_def or_unchanged_def create_machine_def Let_def)

lemma single_run_ok:
  assumes "db_ok conn" and "db_agent_run_requests conn = []" and "rr_machine_id run \<in> machine_ids conn"
    and "\<forall>e \<in> set events. er_run_id e = rr_id run" and "distinct (map er_seq events)"
  shows "db_ok (conn\<lparr>db_agent_runs := [run], db_agent_run_events := events\<rparr>)"
proof -
  have "distinct (map (\<lambda>e. (er_run_id e, er_seq e)) events)"
    using assms(5) by (auto simp: distinct_map inj_on_def)
  with assms show ?thesis
    by (simp add: db_ok_def tabs_ok_def runs_ok_def keyed_def database_simps run_ids_def)
qed

lemma runs_db_ok:
  assumes "rr_id run = ''r''" and "rr_machine_id run = ''m''"
  shows "db_ok (runs_db [run] [])" and "db_ok (runs_db [run] [turn_ended])"
proof -
  have ok: "db_ok (exec_stmt (empty_db [''u'']) (St_CreateMachine 1 ''m'' ''u'' [] []))"
    by (rule exec_stmt_ok) (rule db_ok_empty)
  have tables: "machine_ids (exec_stmt (empty_db [''u'']) (St_CreateMachine 1 ''m'' ''u'' [] [])) = {''m''}"
    "db_agent_run_requests (exec_stmt (empty_db [''u'']) (St_CreateMachine 1 ''m'' ''u'' [] [])) = []"
    by (simp_all add: machine_ids_def empty_db_def or_unchanged_def create_machine_def Let_def)
  have "db_ok (runs_db [run] events)"
    if "\<forall>e \<in> set events. er_run_id e = rr_id run" "distinct (map er_seq events)" for events
    unfolding runs_db_def 
    by (rule single_run_ok [OF ok tables(2)]) (unfold tables(1), use that assms(2) in simp_all)
  then show "db_ok (runs_db [run] [])" and "db_ok (runs_db [run] [turn_ended])"
    by (simp_all add: assms(1) turn_ended_def)
qed

lemma handed_over_run_stays_over_witness:
  "on_agent_signal 4 ''y'' ''d'' (Some example_view) ''m'' ''t'' None ''hook'' Sig_Working (runs_db [finished_run] [])
     = ([], (runs_db [finished_run] []))"
  using handed_over_run_stays_over [of "''t''" "runs_db [finished_run] []" finished_run]
  by (simp add: latest_for_terminal_def runs_db_tables handed_over_def has_event_def run_ids_def)
    (simp add: finished_run_def)

text \<open>Later work is a run of its own. Once that turn has ended, the first tool call in the
  terminal opens a new run there, under the agent seen, in the terminal's folder: it keeps the
  name of the run before it but not the task that run was started for, and the finished run
  stays as it was.\<close>

theorem later_work_is_its_own_run:
  assumes "db_ok conn"
    and "latest_for_terminal tid conn = Some run" and "handed_over run"
    and "has_event (rr_id run) TURN_ENDED conn"
    and "new_run \<notin> run_ids conn" and "m \<in> mr_id ` set (db_machines conn)"
  shows "db_agent_runs
      (snd (on_agent_signal now new_run req (Some view) m tid (Some agent) source Sig_Working conn)) =
    db_agent_runs conn @ [\<lparr>rr_id = new_run, rr_machine_id = m, rr_terminal_id = Some tid,
      rr_agent = agent, rr_cwd = tv_cwd view, rr_status = Run_Working, rr_started_at = now,
      rr_updated_at = now, rr_ended_at = None, rr_progress = None, rr_report = None,
      rr_label = rr_label run, rr_external_ref = None\<rparr>]"
proof -
  have closed: "open_run (Some run) = None"
    by (rule open_run_ended) (rule handed_over_ended [OF assms(3)])
  have rest: "after_handover now (Some run) Sig_Working conn = (Some False, conn)"
    using assms(3,4) by (auto simp: after_handover_def db_op_defs)
  define row where "row = \<lparr>rr_id = new_run, rr_machine_id = m, rr_terminal_id = Some tid,
      rr_agent = agent, rr_cwd = tv_cwd view, rr_status = Run_Working, rr_started_at = now,
      rr_updated_at = now, rr_ended_at = None, rr_progress = None, rr_report = None,
      rr_label = None, rr_external_ref = None\<rparr>"
  define c1 where "c1 = conn\<lparr>db_agent_runs := db_agent_runs conn @ [row]\<rparr>"
  have id: "rr_id row = new_run" and status: "rr_status row = Run_Working" by (simp_all add: row_def)
  have ins: "insert_run now new_run m tid agent (tv_cwd view) Run_Working conn = (Some row, c1)"
    using assms(5,6)
    by (simp add: insert_run_def Let_def insert_row_def db_op_defs run_ids_def row_def c1_def)
  define named where "named = row\<lparr>rr_label := rr_label run, rr_external_ref := None\<rparr>"
  define c2 where "c2 = update_run new_run (\<lambda>r. r\<lparr>rr_label := rr_label run, rr_external_ref := None\<rparr>) c1"
  have "update_where (\<lambda>r. rr_id r = new_run) f (db_agent_runs conn) = db_agent_runs conn" for f
    using assms(5) by (auto simp: update_where_def run_ids_def intro!: map_idI)
  then have runs: "db_agent_runs c2 = db_agent_runs conn @ [named]"
    by (simp add: c2_def update_run_def c1_def named_def id update_where_def)
  have inh: "inherit now new_run (Some run) c1 = (Some (), c2)"
    using assms(3) by (simp add: inherit_def set_origin_def db_exec_def c2_def Let_def)
  have "\<not> has_open new_run conn"
    using db_okD(6) [OF assms(1)] assms(5) by (auto simp: has_open_def open_row_def keyed_def)
  then have none: "\<not> has_open new_run c2" by (simp add: c2_def c1_def has_open_def update_run_def)
  obtain c3 where res: "resolve_open_request now new_run ''answered'' c2 = (Some False, c3)"
    using resolve_result [of now new_run "''answered''" c2] none by (metis prod.collapse)
  then have runs3: "db_agent_runs c3 = db_agent_runs c2"
    using resolve_runs [of now new_run "''answered''" c2] by simp
  have "snd (agent_signal_runs now new_run req m tid (Some agent) (tv_cwd view) source Sig_Working conn)
      = c3"
    by (simp add: agent_signal_runs_def run_for_signal_def db_bind_def db_read_def db_ret_def
        changed_run_def assms(2) closed opens_nothing_def rest ins inh res id status)
  with runs runs3 show ?thesis
    by (simp add: on_agent_signal_def named_def row_def)
qed

lemma later_work_is_its_own_run_witness:
  "map (\<lambda>r. (rr_id r, rr_status r)) (db_agent_runs
      (snd (on_agent_signal 6 ''r2'' ''e'' (Some example_view) ''m'' ''t'' (Some RA_Claude) ''hook''
        Sig_Working (runs_db [finished_run] [turn_ended])))) = [(''r'', Run_Done), (''r2'', Run_Working)]"
proof -
  have run: "rr_terminal_id finished_run = Some ''t''" "handed_over finished_run"
    "rr_id finished_run = ''r''" "rr_machine_id finished_run = ''m''" "rr_status finished_run = Run_Done"
    by (simp_all add: finished_run_def handed_over_def)
  have "latest_for_terminal ''t'' (runs_db [finished_run] [turn_ended]) = Some finished_run"
    "has_event (rr_id finished_run) TURN_ENDED (runs_db [finished_run] [turn_ended])"
    "''r2'' \<notin> run_ids (runs_db [finished_run] [turn_ended])"
    "''m'' \<in> mr_id ` set (db_machines (runs_db [finished_run] [turn_ended]))"
    by (simp_all add: latest_for_terminal_def runs_db_tables run has_event_def run_ids_def
        turn_ended_def)
  from later_work_is_its_own_run [OF runs_db_ok(2) [OF run(3,4)] this(1) run(2) this(2-4),
      of 6 "''e''" example_view RA_Claude "''hook''"]
  show ?thesis by (simp add: runs_db_tables run)
qed

text \<open>A lost run is resumed. When the agent of a run whose terminal or machine had gone is
  seen in its terminal again, and its work was not handed over, that same run is open and
  working again; no run is added.\<close>

theorem gone_run_is_resumed:
  assumes "db_ok conn" and "latest_for_terminal tid conn = Some run"
    and "rr_status run = Run_Gone" and "rr_ended_at run \<noteq> None" and "\<not> handed_over run"
    and "tv_attention view = None"
  shows "find_run (rr_id run)
      (snd (on_terminal_agent now new_run req (Some view) m tid (Some (rr_agent run)) conn)) =
    Some (run\<lparr>rr_status := Run_Working, rr_updated_at := now, rr_ended_at := None\<rparr>)
    \<and> map rr_id (db_agent_runs
        (snd (on_terminal_agent now new_run req (Some view) m tid (Some (rr_agent run)) conn)))
      = map rr_id (db_agent_runs conn)"
proof -
  let ?f = "\<lambda>r. r\<lparr>rr_status := Run_Working, rr_updated_at := now, rr_ended_at := None\<rparr>"
  let ?c = "update_run (rr_id run) ?f conn"
  have "snd (terminal_agent_runs now new_run req m tid (Some (rr_agent run)) view conn) = ?c"
    using assms(3-6)
    by (auto simp: terminal_agent_runs_def db_bind_def db_read_def db_ret_def assms(2)
        changed_run_def begin_run_def set_status_eq Let_def)
  moreover have "map rr_id (update_where P ?f rs) = map rr_id rs" for P rs
    by (simp add: update_where_def)
  ultimately show ?thesis
    using latest_find [OF assms(1,2)]
    by (simp add: on_terminal_agent_def find_update_run) (simp add: update_run_def)
qed

lemma gone_run_is_resumed_witness:
  "map_option rr_status (find_run ''r'' (snd (on_terminal_agent 4 ''x'' ''d'' (Some example_view) ''m'' ''t''
     (Some RA_Claude) (runs_db [finished_run\<lparr>rr_status := Run_Gone, rr_report := None\<rparr>] []))))
   = Some Run_Working"
proof -
  define run where "run = finished_run\<lparr>rr_status := Run_Gone, rr_report := None\<rparr>"
  have run: "rr_id run = ''r''" "rr_machine_id run = ''m''" "rr_terminal_id run = Some ''t''"
    "rr_status run = Run_Gone" "rr_ended_at run \<noteq> None" "\<not> handed_over run"
    "rr_agent run = RA_Claude" "tv_attention example_view = None"
    by (simp_all add: run_def finished_run_def handed_over_def example_view_def)
  have "latest_for_terminal ''t'' (runs_db [run] []) = Some run"
    by (simp add: latest_for_terminal_def runs_db_tables run)
  from gone_run_is_resumed [OF runs_db_ok(1) [OF run(1,2)] this run(4-6,8), of 4 "''x''" "''d''" "''m''"]
  show ?thesis by (simp add: run run_def [symmetric])
qed

end
