(* ===== verification/Screencast.thy ===== *)
theory Screencast
  imports Messages "HOL-Library.Sublist"
begin

text \<open>
  The live picture of an agent's browser (\<^verbatim>\<open>crates/hub/src/agent_browser_stream.rs\<close>). A
  \<^verbatim>\<open>Fanout\<close> hands each frame of one browser to its viewers, each with a flag for the frame
  it has not drawn yet and a slot for the newest frame that came meanwhile; \<^verbatim>\<open>Streams\<close>
  holds one fan-out per machine and browser, and the epochs that order what the node is
  told.

  The lemmas show that the node runs with what the present viewers ask for, that frames
  reach a viewer in order, that a frame is acknowledged once and never left hanging while
  a viewer remains, and that epochs order Start and Stop across the life of fan-outs.
\<close>

section \<open>Fan-out\<close>

definition DEFAULT_WIDTH :: u32 where "DEFAULT_WIDTH = 1280"
definition DEFAULT_HEIGHT :: u32 where "DEFAULT_HEIGHT = 800"
definition DEFAULT_QUALITY :: u32 where "DEFAULT_QUALITY = 60"

record params =
  pa_max_width :: u32
  pa_max_height :: u32
  pa_quality :: u32

definition default_params :: params where
  "default_params = \<lparr>pa_max_width = DEFAULT_WIDTH, pa_max_height = DEFAULT_HEIGHT,
     pa_quality = DEFAULT_QUALITY\<rparr>"

definition clamp_u32 :: "u32 \<Rightarrow> u32 \<Rightarrow> u32 \<Rightarrow> u32" where
  "clamp_u32 lo hi v = (if v < lo then lo else if v > hi then hi else v)"

definition params_clamped :: "u32 \<Rightarrow> u32 \<Rightarrow> u32 \<Rightarrow> params" where
  "params_clamped max_width max_height quality =
     \<lparr>pa_max_width = clamp_u32 200 1920 max_width, pa_max_height = clamp_u32 200 1920 max_height,
      pa_quality = clamp_u32 20 90 quality\<rparr>"

definition params_max :: "params \<Rightarrow> params \<Rightarrow> params" where
  "params_max a b =
     \<lparr>pa_max_width = max (pa_max_width a) (pa_max_width b),
      pa_max_height = max (pa_max_height a) (pa_max_height b),
      pa_quality = max (pa_quality a) (pa_quality b)\<rparr>"

record frame =
  fr_meta :: "u8 list"
  fr_jpeg :: "u8 list"

datatype viewer_msg = Msg_Frame frame | Msg_Destroyed

datatype node_action = Act_Start params nat | Act_Stop nat | Act_Ack

text \<open>
  A viewer's unbounded channel is what was put into it so far (\<open>vw_received\<close>) and whether
  the other end still exists (\<open>vw_open\<close>); a send to a dropped receiver fails.
\<close>

record viewer =
  vw_open :: bool
  vw_received :: "viewer_msg list"
  vw_params :: params
  vw_waiting :: bool
  vw_sent_seq :: nat
  vw_slot :: "(nat \<times> frame) option"

record fanout =
  fo_viewers :: "(nat, viewer) hmap"
  fo_started :: "params option"
  fo_seq :: nat
  fo_node_acked :: nat
  fo_last_frame :: "(nat \<times> frame) option"
  fo_epoch :: nat

definition default_fanout :: fanout where
  "default_fanout = \<lparr>fo_viewers = [], fo_started = None, fo_seq = 0, fo_node_acked = 0,
     fo_last_frame = None, fo_epoch = 0\<rparr>"

text \<open>\<^verbatim>\<open>tx.send(Frame(f)).is_ok()\<close>, then \<^verbatim>\<open>waiting = true; sent_seq = seq\<close>.\<close>

definition send_frame :: "nat \<Rightarrow> frame \<Rightarrow> viewer \<Rightarrow> viewer" where
  "send_frame seq fr v =
     (if vw_open v
      then v\<lparr>vw_received := vw_received v @ [Msg_Frame fr], vw_waiting := True, vw_sent_seq := seq\<rparr>
      else v)"

definition fanout_is_empty :: "fanout \<Rightarrow> bool" where
  "fanout_is_empty f \<longleftrightarrow> fo_viewers f = []"

definition effective :: "fanout \<Rightarrow> params option" where
  "effective f =
     (case map vw_params (hvals (fo_viewers f)) of
        [] \<Rightarrow> None
      | p # ps \<Rightarrow> Some (foldl params_max p ps))"

definition reconcile :: "fanout \<Rightarrow> fanout \<times> node_action list" where
  "reconcile f =
     (let wanted = effective f in
      if wanted = fo_started f then (f, [])
      else let epoch = fo_epoch f + 1
           in (f\<lparr>fo_started := wanted, fo_epoch := epoch\<rparr>,
               [case wanted of Some p \<Rightarrow> Act_Start p epoch | None \<Rightarrow> Act_Stop epoch]))"

definition fanout_add_viewer :: "nat \<Rightarrow> params \<Rightarrow> fanout \<Rightarrow> fanout \<times> node_action list" where
  "fanout_add_viewer vid p f =
     (let v = \<lparr>vw_open = True, vw_received = [], vw_params = p, vw_waiting = False,
               vw_sent_seq = 0, vw_slot = None\<rparr>;
          v = (case fo_last_frame f of Some (seq, fr) \<Rightarrow> send_frame seq fr v | None \<Rightarrow> v)
      in reconcile (f\<lparr>fo_viewers := hput vid v (fo_viewers f)\<rparr>))"

definition fanout_remove_viewer :: "nat \<Rightarrow> fanout \<Rightarrow> fanout \<times> node_action list" where
  "fanout_remove_viewer vid f =
     (case hget (fo_viewers f) vid of
        None \<Rightarrow> (f, [])
      | Some _ \<Rightarrow>
          let viewers = hdel vid (fo_viewers f);
              f = f\<lparr>fo_viewers := viewers\<rparr>;
              f = (if viewers = [] then f\<lparr>fo_last_frame := None\<rparr> else f)
          in reconcile f)"

definition fanout_set_params :: "nat \<Rightarrow> params \<Rightarrow> fanout \<Rightarrow> fanout \<times> node_action list" where
  "fanout_set_params vid p f =
     (case hget (fo_viewers f) vid of
        Some v \<Rightarrow> reconcile (f\<lparr>fo_viewers := hput vid (v\<lparr>vw_params := p\<rparr>) (fo_viewers f)\<rparr>)
      | None \<Rightarrow> (f, []))"

definition offer_frame :: "nat \<Rightarrow> frame \<Rightarrow> viewer \<Rightarrow> viewer" where
  "offer_frame seq fr v =
     (if vw_waiting v then v\<lparr>vw_slot := Some (seq, fr)\<rparr> else send_frame seq fr v)"

definition fanout_on_frame :: "frame \<Rightarrow> fanout \<Rightarrow> fanout \<times> node_action list" where
  "fanout_on_frame fr f =
     (let seq = fo_seq f + 1; f = f\<lparr>fo_seq := seq\<rparr> in
      if fo_viewers f = [] then (f\<lparr>fo_node_acked := seq\<rparr>, [Act_Ack])
      else (f\<lparr>fo_last_frame := Some (seq, fr),
              fo_viewers := hmapv (offer_frame seq fr) (fo_viewers f)\<rparr>, []))"

text \<open>What \<^verbatim>\<open>viewer_ack\<close> does to the viewer: the frame is drawn, the slot goes out.\<close>

definition drawn :: "viewer \<Rightarrow> viewer" where
  "drawn v =
     (case vw_slot v of
        None \<Rightarrow> v\<lparr>vw_waiting := False\<rparr>
      | Some (seq, fr) \<Rightarrow> send_frame seq fr (v\<lparr>vw_waiting := False, vw_slot := None\<rparr>))"

definition fanout_viewer_ack :: "nat \<Rightarrow> fanout \<Rightarrow> fanout \<times> node_action list" where
  "fanout_viewer_ack vid f =
     (case hget (fo_viewers f) vid of
        None \<Rightarrow> (f, [])
      | Some v \<Rightarrow>
          if \<not> vw_waiting v then (f, [])
          else let sent_seq = vw_sent_seq v;
                   f = f\<lparr>fo_viewers := hput vid (drawn v) (fo_viewers f)\<rparr>
               in if sent_seq > fo_node_acked f
                  then (f\<lparr>fo_node_acked := sent_seq\<rparr>, [Act_Ack])
                  else (f, []))"

definition fanout_destroy :: "fanout \<Rightarrow> fanout" where
  "fanout_destroy f =
     f\<lparr>fo_viewers := hmapv (\<lambda>v. if vw_open v
          then v\<lparr>vw_received := vw_received v @ [Msg_Destroyed]\<rparr> else v) (fo_viewers f)\<rparr>"

definition restart_action :: "fanout \<Rightarrow> fanout \<times> node_action option" where
  "restart_action f =
     (let (f', actions) = reconcile (f\<lparr>fo_started := None, fo_node_acked := fo_seq f\<rparr>)
      in (f', case actions of [] \<Rightarrow> None | a # _ \<Rightarrow> Some a))"

section \<open>Streams\<close>

type_synonym stream_key = "ident \<times> ident"

text \<open>
  \<open>st_ended\<close> holds the channels of the viewers whose fan-out was destroyed, with what they
  were sent last: the receivers outlive the senders.
\<close>

record streams =
  st_next_viewer :: nat
  st_fanouts :: "(stream_key, fanout) hmap"
  st_epoch_clock :: nat
  st_last_epochs :: "(stream_key, nat) hmap"
  st_ended :: "(nat \<times> viewer) list"

definition new_streams :: "nat \<Rightarrow> streams" where
  "new_streams millis = \<lparr>st_next_viewer = 0, st_fanouts = [], st_epoch_clock = millis,
     st_last_epochs = [], st_ended = []\<rparr>"

definition retire :: "stream_key \<Rightarrow> fanout \<Rightarrow> bool \<Rightarrow> streams \<Rightarrow> streams" where
  "retire k f remember s =
     s\<lparr>st_epoch_clock := max (st_epoch_clock s) (fo_epoch f),
       st_last_epochs := (if remember then hput k (fo_epoch f) (st_last_epochs s)
                          else hdel k (st_last_epochs s))\<rparr>"

definition epoch_seed :: "stream_key \<Rightarrow> streams \<Rightarrow> nat" where
  "epoch_seed k s =
     max (case hget (st_last_epochs s) k of None \<Rightarrow> 0 | Some e \<Rightarrow> e) (st_epoch_clock s)"

definition streams_add_viewer ::
  "ident \<Rightarrow> ident \<Rightarrow> params \<Rightarrow> streams \<Rightarrow> streams \<times> nat \<times> node_action list" where
  "streams_add_viewer m b p s =
     (let vid = st_next_viewer s + 1;
          k = (m, b);
          seed = epoch_seed k s;
          f = (case hget (st_fanouts s) k of
                 Some f \<Rightarrow> f | None \<Rightarrow> default_fanout\<lparr>fo_epoch := seed\<rparr>);
          (f', actions) = fanout_add_viewer vid p f
      in (s\<lparr>st_next_viewer := vid, st_last_epochs := hdel k (st_last_epochs s),
            st_fanouts := hput k f' (st_fanouts s)\<rparr>, vid, actions))"

definition streams_with ::
  "stream_key \<Rightarrow> (fanout \<Rightarrow> fanout \<times> node_action list) \<Rightarrow> streams \<Rightarrow> streams \<times> node_action list"
where
  "streams_with k op s =
     (case hget (st_fanouts s) k of
        None \<Rightarrow> (s, [])
      | Some f \<Rightarrow>
          let (f', result) = op f
          in if fanout_is_empty f'
             then (retire k f' True (s\<lparr>st_fanouts := hdel k (st_fanouts s)\<rparr>), result)
             else (s\<lparr>st_fanouts := hput k f' (st_fanouts s)\<rparr>, result))"

definition streams_remove_viewer ::
  "ident \<Rightarrow> ident \<Rightarrow> nat \<Rightarrow> streams \<Rightarrow> streams \<times> node_action list" where
  "streams_remove_viewer m b vid = streams_with (m, b) (fanout_remove_viewer vid)"

definition streams_set_params ::
  "ident \<Rightarrow> ident \<Rightarrow> nat \<Rightarrow> params \<Rightarrow> streams \<Rightarrow> streams \<times> node_action list" where
  "streams_set_params m b vid p = streams_with (m, b) (fanout_set_params vid p)"

definition streams_viewer_ack ::
  "ident \<Rightarrow> ident \<Rightarrow> nat \<Rightarrow> streams \<Rightarrow> streams \<times> node_action list" where
  "streams_viewer_ack m b vid = streams_with (m, b) (fanout_viewer_ack vid)"

definition streams_on_frame ::
  "ident \<Rightarrow> ident \<Rightarrow> frame \<Rightarrow> streams \<Rightarrow> streams \<times> node_action list" where
  "streams_on_frame m b fr s =
     (case hget (st_fanouts s) (m, b) of
        Some f \<Rightarrow> (let (f', actions) = fanout_on_frame fr f
                   in (s\<lparr>st_fanouts := hput (m, b) f' (st_fanouts s)\<rparr>, actions))
      | None \<Rightarrow>
          (s, [Act_Stop (case hget (st_last_epochs s) (m, b) of
                           Some e \<Rightarrow> e | None \<Rightarrow> st_epoch_clock s)]))"

text \<open>A fan-out removed and destroyed, as \<^verbatim>\<open>destroy\<close> and the two loops below do.\<close>

definition end_fanout :: "stream_key \<Rightarrow> streams \<Rightarrow> streams" where
  "end_fanout k s =
     (case hget (st_fanouts s) k of
        None \<Rightarrow> s
      | Some f \<Rightarrow> (let f' = fanout_destroy f
          in (retire k f' False (s\<lparr>st_fanouts := hdel k (st_fanouts s)\<rparr>))
               \<lparr>st_ended := st_ended s @ fo_viewers f'\<rparr>))"

definition streams_destroy :: "ident \<Rightarrow> ident \<Rightarrow> streams \<Rightarrow> streams" where
  "streams_destroy m b s =
     (let s = end_fanout (m, b) s
      in s\<lparr>st_last_epochs := hdel (m, b) (st_last_epochs s)\<rparr>)"

definition keys_of_machine :: "ident \<Rightarrow> streams \<Rightarrow> stream_key list" where
  "keys_of_machine m s = filter (\<lambda>k. fst k = m) (hkeys (st_fanouts s))"

definition streams_destroy_machine :: "ident \<Rightarrow> streams \<Rightarrow> streams" where
  "streams_destroy_machine m s =
     (let s = fold end_fanout (keys_of_machine m s) s
      in s\<lparr>st_last_epochs := hretain (\<lambda>k _. fst k \<noteq> m) (st_last_epochs s)\<rparr>)"

fun resync_keys ::
  "(ident \<Rightarrow> bool) \<Rightarrow> stream_key list \<Rightarrow> streams \<Rightarrow> streams \<times> (ident \<times> node_action) list" where
  "resync_keys present [] s = (s, [])"
| "resync_keys present (k # ks) s =
     (if present (snd k)
      then (case hget (st_fanouts s) k of
              None \<Rightarrow> resync_keys present ks s
            | Some f \<Rightarrow>
                let (f', action) = restart_action f;
                    (s', actions) = resync_keys present ks
                      (s\<lparr>st_fanouts := hput k f' (st_fanouts s)\<rparr>)
                in (s', case action of None \<Rightarrow> actions | Some a \<Rightarrow> (snd k, a) # actions))
      else resync_keys present ks (end_fanout k s))"

definition streams_resync_machine ::
  "ident \<Rightarrow> (ident \<Rightarrow> bool) \<Rightarrow> streams \<Rightarrow> streams \<times> (ident \<times> node_action) list" where
  "streams_resync_machine m present s = resync_keys present (keys_of_machine m s) s"


section \<open>The node runs with what the present viewers ask for\<close>

text \<open>A viewer whose socket went away drops its receiver before it is removed.\<close>

definition close_receiver :: "nat \<Rightarrow> fanout \<Rightarrow> fanout" where
  "close_receiver vid f =
     (case hget (fo_viewers f) vid of
        None \<Rightarrow> f
      | Some v \<Rightarrow> f\<lparr>fo_viewers := hput vid (v\<lparr>vw_open := False\<rparr>) (fo_viewers f)\<rparr>)"

datatype fanout_op =
    F_Add nat params
  | F_Remove nat
  | F_SetParams nat params
  | F_Frame frame
  | F_Ack nat
  | F_Restart
  | F_Close nat

fun exec_fanout :: "fanout \<Rightarrow> fanout_op \<Rightarrow> fanout \<times> node_action list" where
  "exec_fanout f (F_Add vid p) = fanout_add_viewer vid p f"
| "exec_fanout f (F_Remove vid) = fanout_remove_viewer vid f"
| "exec_fanout f (F_SetParams vid p) = fanout_set_params vid p f"
| "exec_fanout f (F_Frame fr) = fanout_on_frame fr f"
| "exec_fanout f (F_Ack vid) = fanout_viewer_ack vid f"
| "exec_fanout f F_Restart =
     (let (f', a) = restart_action f in (f', case a of None \<Rightarrow> [] | Some a \<Rightarrow> [a]))"
| "exec_fanout f (F_Close vid) = (close_receiver vid f, [])"

text \<open>What the node does with an action: the parameters its screencast runs with.\<close>

fun apply_node :: "params option \<Rightarrow> node_action \<Rightarrow> params option" where
  "apply_node v (Act_Start p _) = Some p"
| "apply_node v (Act_Stop _) = None"
| "apply_node v Act_Ack = v"

lemma hvals_hput_same:
  "hget m k = Some v0 \<Longrightarrow> g v = g v0 \<Longrightarrow> map g (hvals (hput k v m)) = map g (hvals m)"
  by (induction m) (auto simp: hget_def hput_def hvals_def split: if_splits)

lemma hvals_hmapv_same: "(\<And>v. g (h v) = g v) \<Longrightarrow> map g (hvals (hmapv h m)) = map g (hvals m)"
  by (induction m) (auto simp: hvals_def hmapv_def)

lemma send_frame_fields [simp]:
  "vw_params (send_frame n fr v) = vw_params v" "vw_open (send_frame n fr v) = vw_open v"
  "vw_slot (send_frame n fr v) = vw_slot v"
  by (simp_all add: send_frame_def)

lemma offer_frame_fields [simp]:
  "vw_params (offer_frame n fr v) = vw_params v" "vw_open (offer_frame n fr v) = vw_open v"
  by (simp_all add: offer_frame_def)

lemma drawn_fields [simp]: "vw_params (drawn v) = vw_params v" "vw_open (drawn v) = vw_open v"
  by (simp_all add: drawn_def split: option.splits)

lemma effective_cong:
  "map vw_params (hvals (fo_viewers f)) = map vw_params (hvals (fo_viewers g)) \<Longrightarrow>
    effective f = effective g"
  by (simp add: effective_def)

lemma effective_hput:
  assumes "hget (fo_viewers f) k = Some v0" "fo_viewers g = hput k v (fo_viewers f)"
    and "vw_params v = vw_params v0"
  shows "effective g = effective f"
  using assms hvals_hput_same [of "fo_viewers f" k v0 vw_params v]
  by (intro effective_cong) simp

lemma effective_viewers:
  "fo_viewers f = fo_viewers g \<Longrightarrow> effective f = effective g"
  by (rule effective_cong) simp

lemma effective_None: "effective f = None \<longleftrightarrow> fo_viewers f = []"
  by (cases "fo_viewers f") (simp_all add: effective_def hvals_def)

lemma reconcile_laws:
  "fo_viewers (fst (reconcile f)) = fo_viewers f"
  "fo_started (fst (reconcile f)) = effective f"
  "effective (fst (reconcile f)) = effective f"
  "fo_seq (fst (reconcile f)) = fo_seq f" "fo_node_acked (fst (reconcile f)) = fo_node_acked f"
  "fo_last_frame (fst (reconcile f)) = fo_last_frame f"
  "foldl apply_node (fo_started f) (snd (reconcile f)) = effective f"
  by (auto simp: reconcile_def Let_def effective_def split: option.splits list.splits)

definition fanout_ok :: "fanout \<Rightarrow> bool" where
  "fanout_ok f \<longleftrightarrow> hwf (fo_viewers f) \<and> fo_started f = effective f"

lemma reconcile_mirrors:
  "hwf (fo_viewers f) \<Longrightarrow> reconcile f = (f', es) \<Longrightarrow>
     fanout_ok f' \<and> foldl apply_node (fo_started f) es = fo_started f'"
  using reconcile_laws [of f] by (simp add: fanout_ok_def)

lemma fanout_mirrors:
  assumes "fanout_ok f" "exec_fanout f x = (f', es)"
  shows "fanout_ok f' \<and> foldl apply_node (fo_started f) es = fo_started f'"
proof (cases x)
  case (F_Add vid p)
  with assms show ?thesis
    by (auto simp: fanout_add_viewer_def Let_def fanout_ok_def [of f] dest!: reconcile_mirrors
        [rotated])
next
  case (F_Remove vid)
  with assms show ?thesis
    by (auto simp: fanout_remove_viewer_def Let_def fanout_ok_def split: option.splits
        if_splits dest!: reconcile_mirrors [rotated])
next
  case (F_SetParams vid p)
  with assms show ?thesis
    by (auto simp: fanout_set_params_def fanout_ok_def split: option.splits
        dest!: reconcile_mirrors [rotated])
next
  case (F_Frame fr)
  with assms show ?thesis
    by (auto simp: fanout_on_frame_def Let_def fanout_ok_def intro!: effective_cong
        hvals_hmapv_same [symmetric] split: if_splits)
next
  case (F_Ack vid)
  with assms show ?thesis
    by (auto simp: fanout_viewer_ack_def Let_def fanout_ok_def effective_hput split: if_splits option.splits)
next
  case F_Restart
  let ?g = "f\<lparr>fo_started := None, fo_node_acked := fo_seq f\<rparr>"
  have "foldl apply_node (fo_started f) (snd (reconcile ?g)) = effective f"
    using assms(1) effective_viewers [of ?g f]
    by (auto simp: reconcile_def Let_def fanout_ok_def split: option.splits)
  moreover have "snd (reconcile ?g) = [] \<or> (\<exists>a. snd (reconcile ?g) = [a])"
    by (simp add: reconcile_def Let_def)
  ultimately show ?thesis
    using F_Restart assms reconcile_laws [of ?g] effective_viewers [of ?g f]
    by (auto simp: restart_action_def case_prod_beta fanout_ok_def)
next
  case (F_Close vid)
  with assms show ?thesis
    by (auto simp: close_receiver_def fanout_ok_def effective_hput split: option.splits)
qed

interpretation node: mirrored exec_fanout fo_started apply_node fanout_ok
  by unfold_locales (auto simp: fanout_mirrors dest: fanout_mirrors)

definition fresh_fanout :: "nat \<Rightarrow> fanout" where
  "fresh_fanout seed = default_fanout\<lparr>fo_epoch := seed\<rparr>"

lemma fanout_ok_fresh: "fanout_ok (fresh_fanout seed)"
  by (simp add: fanout_ok_def fresh_fanout_def default_fanout_def effective_def hvals_def)

lemma foldl_params_max:
  "foldl params_max p ps =
     \<lparr>pa_max_width = Max (pa_max_width ` set (p # ps)),
      pa_max_height = Max (pa_max_height ` set (p # ps)),
      pa_quality = Max (pa_quality ` set (p # ps))\<rparr>"
proof (induction ps arbitrary: p)
  case Nil
  then show ?case by simp
next
  case (Cons q ps)
  have "Max (g ` set (params_max p q # ps)) = Max (g ` set (p # q # ps))"
    if "g (params_max p q) = max (g p) (g q)" for g :: "params \<Rightarrow> u32"
    using that by (cases "ps = []") (simp_all add: max.assoc)
  from this [of pa_max_width] this [of pa_max_height] this [of pa_quality] Cons show ?case
    by (simp add: params_max_def)
qed



section \<open>Frames reach a viewer in order\<close>

fun frames_of :: "viewer_msg list \<Rightarrow> frame list" where
  "frames_of [] = []"
| "frames_of (Msg_Frame fr # ms) = fr # frames_of ms"
| "frames_of (Msg_Destroyed # ms) = frames_of ms"

fun arrived :: "fanout_op list \<Rightarrow> frame list" where
  "arrived [] = []"
| "arrived (F_Frame fr # ops) = fr # arrived ops"
| "arrived (_ # ops) = arrived ops"

lemma frames_of_append [simp]: "frames_of (xs @ ys) = frames_of xs @ frames_of ys"
  by (induction xs rule: frames_of.induct) auto

text \<open>
  With \<open>L\<close> the frames that arrived so far, number \<open>n\<close> is the \<open>n\<close>-th of them: what a viewer
  was sent is drawn in order from the first \<open>sent_seq\<close>, and its slot lies beyond.
\<close>

definition viewer_in_order :: "frame list \<Rightarrow> viewer \<Rightarrow> bool" where
  "viewer_in_order L v \<longleftrightarrow>
     vw_sent_seq v \<le> length L \<and> subseq (frames_of (vw_received v)) (take (vw_sent_seq v) L) \<and>
     (case vw_slot v of None \<Rightarrow> True
      | Some (n, fr) \<Rightarrow> vw_waiting v \<and> vw_sent_seq v < n \<and> n \<le> length L \<and> fr = L ! (n - 1))"

definition in_order :: "frame list \<Rightarrow> fanout \<Rightarrow> bool" where
  "in_order L f \<longleftrightarrow> fo_seq f = length L \<and> hwf (fo_viewers f) \<and>
     (case fo_last_frame f of None \<Rightarrow> True
      | Some (n, fr) \<Rightarrow> 0 < n \<and> n \<le> length L \<and> fr = L ! (n - 1)) \<and>
     (\<forall>k v. hget (fo_viewers f) k = Some v \<longrightarrow> viewer_in_order L v)"

lemma take_nth_prefix:
  assumes "m < n" "n \<le> length L" "subseq xs (take m L)"
  shows "subseq (xs @ [L ! (n - 1)]) (take n L)"
proof -
  have "take n L = take (n - 1) L @ [L ! (n - 1)]"
    using assms(1,2) take_Suc_conv_app_nth [of "n - 1" L] by simp
  moreover have "take m L = take m (take (n - 1) L)"
    using assms(1) by (simp add: min_def)
  then have "subseq (take m L) (take (n - 1) L)"
    by (metis prefix_imp_subseq take_is_prefix)
  then have "subseq xs (take (n - 1) L)"
    by (rule subseq_order.order_trans [OF assms(3)])
  then have "subseq (xs @ [L ! (n - 1)]) (take (n - 1) L @ [L ! (n - 1)])"
    by simp
  ultimately show ?thesis by simp
qed

lemma viewer_in_order_fields [simp]:
  "viewer_in_order L (v\<lparr>vw_params := p\<rparr>) = viewer_in_order L v"
  "viewer_in_order L (v\<lparr>vw_open := o'\<rparr>) = viewer_in_order L v"
  by (auto simp: viewer_in_order_def split: option.splits)

lemma viewer_in_order_snoc: "viewer_in_order L v \<Longrightarrow> viewer_in_order (L @ [fr]) v"
  by (auto simp: viewer_in_order_def nth_append split: option.splits)

lemma viewer_in_order_send:
  assumes "viewer_in_order L v" "vw_slot v = None" "vw_sent_seq v < n" "n \<le> length L"
  shows "viewer_in_order L (send_frame n (L ! (n - 1)) v)"
  using assms take_nth_prefix [OF assms(3,4)]
  by (auto simp: viewer_in_order_def send_frame_def)

lemma viewer_in_order_offer:
  assumes "viewer_in_order L v"
  shows "viewer_in_order (L @ [fr]) (offer_frame (Suc (length L)) fr v)"
proof (cases "vw_waiting v")
  case True
  with viewer_in_order_snoc [OF assms, of fr] assms show ?thesis
    by (auto simp: offer_frame_def viewer_in_order_def)
next
  case False
  with assms have "vw_slot v = None" "vw_sent_seq v \<le> length L"
    by (auto simp: viewer_in_order_def split: option.splits)
  then show ?thesis
    using viewer_in_order_send [OF viewer_in_order_snoc [OF assms, of fr], of "Suc (length L)"] False
    by (simp add: offer_frame_def)
qed

lemma viewer_in_order_drawn: "viewer_in_order L v \<Longrightarrow> viewer_in_order L (drawn v)"
proof (cases "vw_slot v")
  case None
  then show "viewer_in_order L v \<Longrightarrow> viewer_in_order L (drawn v)"
    by (simp add: drawn_def viewer_in_order_def)
next
  case (Some x)
  assume v: "viewer_in_order L v"
  obtain n fr where x: "x = (n, fr)" by (cases x)
  let ?w = "v\<lparr>vw_waiting := False, vw_slot := None\<rparr>"
  have "viewer_in_order L ?w" "vw_slot ?w = None" "vw_sent_seq ?w < n" "n \<le> length L"
    "fr = L ! (n - 1)"
    using v Some x by (auto simp: viewer_in_order_def)
  with viewer_in_order_send [of L ?w n] show ?thesis
    by (simp add: drawn_def Some x)
qed


lemma in_orderI:
  assumes "fo_seq f = length L" "hwf (fo_viewers f)"
    and "\<And>n fr. fo_last_frame f = Some (n, fr) \<Longrightarrow> 0 < n \<and> n \<le> length L \<and> fr = L ! (n - 1)"
    and "\<And>k v. hget (fo_viewers f) k = Some v \<Longrightarrow> viewer_in_order L v"
  shows "in_order L f"
  using assms by (auto simp: in_order_def split: option.splits)

lemma in_orderD:
  assumes "in_order L f"
  shows "fo_seq f = length L" "hwf (fo_viewers f)"
    and "fo_last_frame f = Some (n, fr) \<Longrightarrow> 0 < n \<and> n \<le> length L \<and> fr = L ! (n - 1)"
    and "hget (fo_viewers f) k = Some v \<Longrightarrow> viewer_in_order L v"
  using assms by (auto simp: in_order_def split: option.splits)

lemma in_order_hput:
  "in_order L f \<Longrightarrow> viewer_in_order L v \<Longrightarrow> in_order L (f\<lparr>fo_viewers := hput k v (fo_viewers f)\<rparr>)"
  by (rule in_orderI) (auto dest: in_orderD simp: hm_laws split: if_splits)

lemma in_order_reconcile: "in_order L (fst (reconcile f)) = in_order L f"
  by (simp add: in_order_def reconcile_laws)

lemma in_order_acked: "in_order L (f\<lparr>fo_node_acked := n\<rparr>) = in_order L f"
  by (simp add: in_order_def)

lemma in_order_add: "in_order L f \<Longrightarrow> in_order L (fst (fanout_add_viewer vid p f))"
proof -
  assume f: "in_order L f"
  let ?v = "\<lparr>vw_open = True, vw_received = [], vw_params = p, vw_waiting = False,
    vw_sent_seq = 0, vw_slot = None\<rparr>"
  have v: "viewer_in_order L ?v" by (simp add: viewer_in_order_def)
  have "viewer_in_order L
      (case fo_last_frame f of Some (seq, fr) \<Rightarrow> send_frame seq fr ?v | None \<Rightarrow> ?v)"
    using v in_orderD(3) [OF f] viewer_in_order_send [OF v]
    by (auto split: option.splits)
  then show ?thesis
    by (simp add: fanout_add_viewer_def Let_def in_order_reconcile in_order_hput [OF f])
qed

lemma in_order_remove: "in_order L f \<Longrightarrow> in_order L (fst (fanout_remove_viewer vid f))"
  unfolding fanout_remove_viewer_def Let_def
  by (auto simp: in_order_reconcile hm_laws dest: in_orderD intro!: in_orderI
      split: option.splits if_splits)

lemma in_order_set_params: "in_order L f \<Longrightarrow> in_order L (fst (fanout_set_params vid p f))"
  by (auto simp: fanout_set_params_def in_order_reconcile intro!: in_order_hput
      dest: in_orderD(4) split: option.splits)

lemma in_order_frame: "in_order L f \<Longrightarrow> in_order (L @ [fr]) (fst (fanout_on_frame fr f))"
proof -
  assume f: "in_order L f"
  show ?thesis
  proof (cases "fo_viewers f = []")
    case True
    with f show ?thesis
      by (auto simp: fanout_on_frame_def Let_def in_order_def nth_append hm_laws
          split: option.splits)
  next
    case False
    with f in_orderD(4) [OF f] viewer_in_order_offer [of L _ fr] show ?thesis
      by (auto simp: fanout_on_frame_def Let_def in_order_def hget_hmapv)
  qed
qed

lemma in_order_ack: "in_order L f \<Longrightarrow> in_order L (fst (fanout_viewer_ack vid f))"
  by (auto simp: fanout_viewer_ack_def Let_def in_order_acked intro!: in_order_hput
      viewer_in_order_drawn dest: in_orderD(4) split: option.splits)

lemma in_order_close: "in_order L f \<Longrightarrow> in_order L (close_receiver vid f)"
  by (auto simp: close_receiver_def intro!: in_order_hput dest: in_orderD(4) split: option.splits)

lemma in_order_restart: "in_order L f \<Longrightarrow> in_order L (fst (restart_action f))"
  using in_order_reconcile [of L "f\<lparr>fo_started := None, fo_node_acked := fo_seq f\<rparr>"]
  by (simp add: restart_action_def case_prod_beta in_order_def)

lemma in_order_step: "in_order L f \<Longrightarrow> in_order (L @ arrived [x]) (fst (exec_fanout f x))"
  by (cases x) (simp_all add: in_order_add in_order_remove in_order_set_params in_order_frame
      in_order_ack in_order_close in_order_restart case_prod_beta)

definition run_fanout :: "fanout \<Rightarrow> fanout_op list \<Rightarrow> fanout" where
  "run_fanout f ops = fst (run_events exec_fanout f ops)"

lemma run_fanout_simps [simp]:
  "run_fanout f [] = f"
  "run_fanout f (x # xs) = run_fanout (fst (exec_fanout f x)) xs"
  by (simp_all add: run_fanout_def case_prod_beta)

lemma arrived_Cons: "arrived (x # xs) = arrived [x] @ arrived xs"
  by (cases x) simp_all

lemma in_order_run: "in_order L f \<Longrightarrow> in_order (L @ arrived ops) (run_fanout f ops)"
proof (induction ops arbitrary: L f)
  case (Cons x ops)
  have "in_order ((L @ arrived [x]) @ arrived ops) (run_fanout (fst (exec_fanout f x)) ops)"
    by (rule Cons.IH [OF in_order_step [OF Cons.prems]])
  then show ?case by (simp add: arrived_Cons [of x ops])
qed simp

lemma in_order_fresh: "in_order [] (fresh_fanout seed)"
  by (simp add: in_order_def fresh_fanout_def default_fanout_def hm_laws)

text \<open>Frames reach every viewer in the order the node sent them, none twice: what a viewer
  was sent is a subsequence of what arrived, however slowly it draws, whenever it joined,
  and whatever the other viewers do.
\<close>

theorem viewer_frames_are_subsequence:
  assumes "hget (fo_viewers (run_fanout (fresh_fanout seed) ops)) vid = Some v"
  shows "subseq (frames_of (vw_received v)) (arrived ops)"
proof -
  have "in_order (arrived ops) (run_fanout (fresh_fanout seed) ops)"
    using in_order_run [OF in_order_fresh] by simp
  from in_orderD(4) [OF this assms]
  have "subseq (frames_of (vw_received v)) (take (vw_sent_seq v) (arrived ops))"
    by (simp add: viewer_in_order_def)
  then show ?thesis
    by (rule subseq_order.order_trans) (rule prefix_imp_subseq [OF take_is_prefix])
qed

theorem viewer_frames_are_subsequence_witness:
  "let a = \<lparr>fr_meta = [], fr_jpeg = [1]\<rparr>; b = \<lparr>fr_meta = [], fr_jpeg = [2]\<rparr>;
       c = \<lparr>fr_meta = [], fr_jpeg = [3]\<rparr>;
       f = run_fanout (fresh_fanout 0)
             [F_Add 1 default_params, F_Frame a, F_Frame b, F_Frame c, F_Ack 1]
   in \<exists>v. hget (fo_viewers f) 1 = Some v \<and> frames_of (vw_received v) = [a, c] \<and>
          subseq (frames_of (vw_received v)) [a, b, c]"
proof -
  let ?a = "\<lparr>fr_meta = [], fr_jpeg = [1]\<rparr>" and ?b = "\<lparr>fr_meta = [], fr_jpeg = [2]\<rparr>"
  let ?c = "\<lparr>fr_meta = [], fr_jpeg = [3]\<rparr>"
  let ?ops = "[F_Add 1 default_params, F_Frame ?a, F_Frame ?b, F_Frame ?c, F_Ack 1]"
  have "\<exists>v. hget (fo_viewers (run_fanout (fresh_fanout 0) ?ops)) 1 = Some v \<and>
      frames_of (vw_received v) = [?a, ?c]"
    by (simp add: fresh_fanout_def default_fanout_def fanout_add_viewer_def fanout_on_frame_def
        fanout_viewer_ack_def offer_frame_def send_frame_def drawn_def reconcile_def
        effective_def hmap_defs Let_def)
  then obtain v where v: "hget (fo_viewers (run_fanout (fresh_fanout 0) ?ops)) 1 = Some v"
    "frames_of (vw_received v) = [?a, ?c]" by blast
  have "subseq (frames_of (vw_received v)) (arrived ?ops)"
    by (rule viewer_frames_are_subsequence [OF v(1)])
  with v show ?thesis unfolding Let_def by (intro exI [of _ v]) simp
qed


section \<open>A frame is acknowledged once, and not left hanging\<close>

definition acks :: "node_action list \<Rightarrow> nat" where
  "acks es = length (filter (\<lambda>a. a = Act_Ack) es)"

lemma acks_simps [simp]: "acks [] = 0" "acks (xs @ ys) = acks xs + acks ys"
  "acks [Act_Ack] = 1"
  by (simp_all add: acks_def)

lemma acks_reconcile [simp]: "acks (snd (reconcile f)) = 0"
  by (simp add: acks_def reconcile_def Let_def split: option.splits)

lemma acks_restart: "snd (exec_fanout f F_Restart) =
    snd (reconcile (f\<lparr>fo_started := None, fo_node_acked := fo_seq f\<rparr>))"
  by (simp add: restart_action_def reconcile_def Let_def)

lemma acks_step:
  assumes "in_order L f" "fo_node_acked f \<le> fo_seq f"
    and "f' = fst (exec_fanout f x)"
  shows "fo_node_acked f + acks (snd (exec_fanout f x)) \<le> fo_node_acked f' \<and>
    fo_node_acked f' \<le> fo_seq f'"
proof (cases x)
  case (F_Ack vid)
  have "vw_sent_seq v \<le> fo_seq f" if "hget (fo_viewers f) vid = Some v" for v
    using in_orderD(4) [OF assms(1) that] in_orderD(1) [OF assms(1)]
    by (simp add: viewer_in_order_def)
  with F_Ack assms(2) show ?thesis
    by (auto simp: assms(3) fanout_viewer_ack_def Let_def split: option.splits)
next
  case F_Restart
  with assms(2) show ?thesis
    unfolding F_Restart acks_restart assms(3)
    by (simp add: restart_action_def case_prod_beta reconcile_laws)
qed (insert assms(2), auto simp: assms(3) fanout_add_viewer_def fanout_remove_viewer_def
    fanout_set_params_def fanout_on_frame_def close_receiver_def Let_def reconcile_laws
    split: option.splits)

lemma acks_run:
  assumes "in_order L f" "fo_node_acked f \<le> fo_seq f"
  shows "fo_node_acked f + acks (snd (run_events exec_fanout f ops)) \<le>
    fo_node_acked (run_fanout f ops) \<and> fo_node_acked (run_fanout f ops) \<le> fo_seq (run_fanout f ops)"
  using assms
proof (induction ops arbitrary: L f)
  case Nil
  then show ?case by simp
next
  case (Cons x ops)
  let ?f = "fst (exec_fanout f x)"
  note one = acks_step [OF Cons.prems refl, of x]
  have "fo_node_acked ?f + acks (snd (run_events exec_fanout ?f ops)) \<le>
      fo_node_acked (run_fanout ?f ops) \<and> fo_node_acked (run_fanout ?f ops) \<le> fo_seq (run_fanout ?f ops)"
    using Cons.IH [OF in_order_step [OF Cons.prems(1)]] one by blast
  with one show ?case by (simp add: case_prod_beta)
qed

text \<open>The node gets at most one acknowledgement per frame it sent, over any life of the
  fan-out, so it never has more than the frames it is owed credit for.
\<close>

theorem at_most_one_ack_per_frame:
  "acks (snd (run_events exec_fanout (fresh_fanout seed) ops)) \<le> length (arrived ops)"
proof -
  have "in_order (arrived ops) (run_fanout (fresh_fanout seed) ops)"
    using in_order_run [OF in_order_fresh] by simp
  then show ?thesis
    using acks_run [OF in_order_fresh, of seed ops] in_orderD(1)
    by (fastforce simp: fresh_fanout_def default_fanout_def)
qed

text \<open>
  While a frame awaits its acknowledgement, every viewer that can still be reached holds
  it, either drawn next or in its slot.
\<close>

definition holds_newest :: "nat \<Rightarrow> viewer \<Rightarrow> bool" where
  "holds_newest seq v \<longleftrightarrow> vw_waiting v \<and>
     (case vw_slot v of None \<Rightarrow> vw_sent_seq v = seq | Some (n, _) \<Rightarrow> n = seq)"

definition live :: "fanout \<Rightarrow> bool" where
  "live f \<longleftrightarrow>
     (fo_viewers f = [] \<longrightarrow> fo_last_frame f = None) \<and>
     (\<forall>n fr. fo_last_frame f = Some (n, fr) \<longrightarrow> n = fo_seq f) \<and>
     (fo_last_frame f \<noteq> None \<and> fo_node_acked f < fo_seq f \<longrightarrow>
        (\<forall>k v. hget (fo_viewers f) k = Some v \<and> vw_open v \<longrightarrow> holds_newest (fo_seq f) v))"

lemma holds_newest_simps [simp]:
  "holds_newest n (v\<lparr>vw_params := p\<rparr>) = holds_newest n v"
  "holds_newest n (v\<lparr>vw_open := o'\<rparr>) = holds_newest n v"
  "vw_open v \<Longrightarrow> vw_slot v = None \<Longrightarrow> holds_newest n (send_frame n fr v)"
  by (auto simp: holds_newest_def send_frame_def split: option.splits)

lemma live_reconcile [simp]: "live (fst (reconcile f)) = live f"
  by (simp add: live_def reconcile_laws)

lemma live_hput:
  assumes "live f" "fo_viewers f \<noteq> [] \<or> fo_last_frame f = None \<or> holds_newest (fo_seq f) v"
    and "fo_last_frame f \<noteq> None \<Longrightarrow> fo_node_acked f < fo_seq f \<Longrightarrow> vw_open v \<Longrightarrow>
      holds_newest (fo_seq f) v"
  shows "live (f\<lparr>fo_viewers := hput vid v (fo_viewers f)\<rparr>)"
  using assms by (auto simp: live_def hm_laws)

lemma live_add: "live f \<Longrightarrow> live (fst (fanout_add_viewer vid p f))"
  by (auto simp: fanout_add_viewer_def Let_def intro!: live_hput split: option.splits)
    (auto simp: live_def)

lemma live_remove: "live f \<Longrightarrow> live (fst (fanout_remove_viewer vid f))"
proof -
  assume f: "live f"
  let ?vs = "hdel vid (fo_viewers f)"
  have "live (f\<lparr>fo_viewers := [], fo_last_frame := None\<rparr>)" by (simp add: live_def)
  moreover have "?vs \<noteq> [] \<Longrightarrow> live (f\<lparr>fo_viewers := ?vs\<rparr>)"
    using f by (auto simp: live_def hm_laws)
  ultimately show ?thesis
    using f by (simp add: fanout_remove_viewer_def Let_def split: option.splits)
qed

lemma live_same:
  assumes "live f" "hget (fo_viewers f) vid = Some w" "vw_open v \<Longrightarrow> vw_open w"
    and "holds_newest (fo_seq f) v = holds_newest (fo_seq f) w"
  shows "live (f\<lparr>fo_viewers := hput vid v (fo_viewers f)\<rparr>)"
  using assms by (intro live_hput) (auto simp: live_def hm_laws)

lemma live_set_params: "live f \<Longrightarrow> live (fst (fanout_set_params vid p f))"
  by (auto simp: fanout_set_params_def intro!: live_same split: option.splits)

lemma live_close: "live f \<Longrightarrow> live (close_receiver vid f)"
  by (auto simp: close_receiver_def intro!: live_same split: option.splits)

lemma holds_newest_offer:
  assumes "viewer_in_order L v" "vw_open v"
  shows "holds_newest seq (offer_frame seq fr v)"
  using assms by (auto simp: holds_newest_def offer_frame_def send_frame_def viewer_in_order_def
      split: option.splits)

lemma live_frame: "live f \<Longrightarrow> in_order L f \<Longrightarrow> live (fst (fanout_on_frame fr f))"
proof -
  assume f: "live f" "in_order L f"
  have "holds_newest (Suc (fo_seq f)) (offer_frame (Suc (fo_seq f)) fr v)"
    if "hget (fo_viewers f) k = Some v" "vw_open v" for k v
    using holds_newest_offer [OF in_orderD(4) [OF f(2) that(1)] that(2)] .
  moreover have "hmapv g m = [] \<longleftrightarrow> m = []" for g :: "viewer \<Rightarrow> viewer" and m :: "(nat, viewer) hmap"
    by (simp add: hmapv_def)
  ultimately show ?thesis
    using f(1) by (auto simp: live_def fanout_on_frame_def Let_def hget_hmapv)
qed

lemma live_ack:
  assumes "live f" "in_order L f"
  shows "live (fst (fanout_viewer_ack vid f))"
proof (cases "hget (fo_viewers f) vid")
  case None
  with assms(1) show ?thesis by (simp add: fanout_viewer_ack_def)
next
  case (Some v)
  have drawn: "holds_newest (fo_seq f) (drawn v)"
    if "vw_open v" "holds_newest (fo_seq f) v" "vw_sent_seq v < fo_seq f"
    using that by (auto simp: holds_newest_def drawn_def send_frame_def split: option.splits)
  have sent: "vw_sent_seq v \<le> fo_seq f"
    using in_orderD(4) [OF assms(2) Some] in_orderD(1) [OF assms(2)]
    by (simp add: viewer_in_order_def)
  have newest: "vw_open v \<Longrightarrow> holds_newest (fo_seq f) v"
    if "fo_last_frame f \<noteq> None" "fo_node_acked f < fo_seq f"
    using assms(1) Some that by (auto simp: live_def)
  have ne: "fo_viewers f \<noteq> []" using Some by (auto simp: hm_laws)
  show ?thesis
  proof (cases "vw_sent_seq v > fo_node_acked f")
    case True
    let ?g = "f\<lparr>fo_node_acked := vw_sent_seq v\<rparr>"
    have "live ?g" using assms(1) True sent by (auto simp: live_def)
    then have "live (?g\<lparr>fo_viewers := hput vid (drawn v) (fo_viewers ?g)\<rparr>)"
      using newest drawn True ne by (intro live_hput) auto
    then show ?thesis
      using assms(1) Some True by (cases f) (simp add: fanout_viewer_ack_def Let_def)
  next
    case False
    then have "live (f\<lparr>fo_viewers := hput vid (drawn v) (fo_viewers f)\<rparr>)"
      using newest drawn ne by (intro live_hput [OF assms(1)]) auto
    with assms(1) Some False show ?thesis by (simp add: fanout_viewer_ack_def Let_def)
  qed
qed

lemma live_restart: "live f \<Longrightarrow> live (fst (restart_action f))"
proof -
  assume "live f"
  then have "live (f\<lparr>fo_started := None, fo_node_acked := fo_seq f\<rparr>)" by (simp add: live_def)
  then show ?thesis by (simp add: restart_action_def case_prod_beta)
qed

lemma live_run:
  assumes "live f" "in_order L f"
  shows "live (run_fanout f ops)"
  using assms
proof (induction ops arbitrary: L f)
  case (Cons x ops)
  have "live (fst (exec_fanout f x))"
    using Cons.prems
    by (cases x) (simp_all add: live_add live_remove live_set_params live_frame live_ack
        live_restart live_close case_prod_beta)
  then show ?case
    using Cons.IH [OF _ in_order_step [OF Cons.prems(2), of x]] by simp
qed simp

text \<open>
  C18. No frame hangs: when the node waits for an acknowledgement of the newest frame while
  that frame is being shown, any one viewer that can be reached frees it by drawing what
  it is sent. Within two acknowledgements of its own (the frame on its way, then the one
  in its slot) the node has been told, whatever the other viewers do or fail to do.
\<close>

theorem reachable_viewer_frees_the_node:
  assumes "f = run_fanout (fresh_fanout seed) ops"
    and "fo_last_frame f \<noteq> None" "fo_node_acked f < fo_seq f"
    and "hget (fo_viewers f) vid = Some v" "vw_open v"
  shows "let (f1, es1) = fanout_viewer_ack vid f; (f2, es2) = fanout_viewer_ack vid f1
    in fo_node_acked f2 = fo_seq f2 \<and> Act_Ack \<in> set (es1 @ es2)"
proof -
  have ord: "in_order (arrived ops) f"
    unfolding assms(1) using in_order_run [OF in_order_fresh] by simp
  have "live (fresh_fanout seed)"
    by (simp add: live_def fresh_fanout_def default_fanout_def)
  then have "live f" unfolding assms(1) by (rule live_run [OF _ in_order_fresh])
  then have v: "holds_newest (fo_seq f) v" using assms(2-5) by (auto simp: live_def)
  have sent: "vw_sent_seq v \<le> fo_seq f"
    using in_orderD(4) [OF ord assms(4)] in_orderD(1) [OF ord] by (simp add: viewer_in_order_def)
  show ?thesis
  proof (cases "vw_slot v")
    case None
    with v assms(3,4) show ?thesis
      by (simp add: holds_newest_def fanout_viewer_ack_def Let_def drawn_def hm_laws)
  next
    case (Some x)
    with v obtain fr where x: "vw_slot v = Some (fo_seq f, fr)" "vw_waiting v"
      by (cases x) (auto simp: holds_newest_def)
    have "vw_sent_seq v < fo_seq f"
      using in_orderD(4) [OF ord assms(4)] x by (simp add: viewer_in_order_def)
    with x assms(3-5) show ?thesis
      by (auto simp: fanout_viewer_ack_def Let_def drawn_def send_frame_def hm_laws)
  qed
qed

theorem reachable_viewer_frees_the_node_witness:
  "let a = \<lparr>fr_meta = [], fr_jpeg = [1]\<rparr>;
       f = run_fanout (fresh_fanout 0) [F_Add 1 default_params, F_Frame a];
       (f1, es1) = fanout_viewer_ack 1 f; (f2, es2) = fanout_viewer_ack 1 f1
   in fo_node_acked f2 = fo_seq f2 \<and> Act_Ack \<in> set (es1 @ es2)"
  unfolding Let_def
  by (rule reachable_viewer_frees_the_node [unfolded Let_def, OF refl, where v = "\<lparr>vw_open = True,
        vw_received = [Msg_Frame \<lparr>fr_meta = [], fr_jpeg = [1]\<rparr>], vw_params = default_params,
        vw_waiting = True, vw_sent_seq = 1, vw_slot = None\<rparr>"])
    (simp_all add: fresh_fanout_def default_fanout_def fanout_add_viewer_def fanout_on_frame_def
      offer_frame_def send_frame_def reconcile_def effective_def hmap_defs Let_def)


section \<open>Epochs order what a node is told\<close>

datatype stream_op =
    S_Add ident ident params
  | S_Remove ident ident nat
  | S_SetParams ident ident nat params
  | S_Frame ident ident frame
  | S_Ack ident ident nat
  | S_Destroy ident ident
  | S_DestroyMachine ident
  | S_Resync ident "ident \<Rightarrow> bool"

definition for_key :: "stream_key \<Rightarrow> streams \<times> node_action list \<Rightarrow>
    streams \<times> (stream_key \<times> node_action) list" where
  "for_key k r = (fst r, map (Pair k) (snd r))"

fun exec_stream :: "streams \<Rightarrow> stream_op \<Rightarrow> streams \<times> (stream_key \<times> node_action) list" where
  "exec_stream s (S_Add m b p) =
     (let (s', _, actions) = streams_add_viewer m b p s in for_key (m, b) (s', actions))"
| "exec_stream s (S_Remove m b vid) = for_key (m, b) (streams_remove_viewer m b vid s)"
| "exec_stream s (S_SetParams m b vid p) = for_key (m, b) (streams_set_params m b vid p s)"
| "exec_stream s (S_Frame m b fr) = for_key (m, b) (streams_on_frame m b fr s)"
| "exec_stream s (S_Ack m b vid) = for_key (m, b) (streams_viewer_ack m b vid s)"
| "exec_stream s (S_Destroy m b) = (streams_destroy m b s, [])"
| "exec_stream s (S_DestroyMachine m) = (streams_destroy_machine m s, [])"
| "exec_stream s (S_Resync m present) =
     (let (s', actions) = streams_resync_machine m present s
      in (s', map (\<lambda>(b, a). ((m, b), a)) actions))"

fun epoch_of :: "node_action \<Rightarrow> nat option" where
  "epoch_of (Act_Start _ e) = Some e"
| "epoch_of (Act_Stop e) = Some e"
| "epoch_of Act_Ack = None"

definition epoch_bound :: "streams \<Rightarrow> stream_key \<Rightarrow> nat" where
  "epoch_bound s k =
     (case hget (st_fanouts s) k of
        Some f \<Rightarrow> fo_epoch f
      | None \<Rightarrow> (case hget (st_last_epochs s) k of Some e \<Rightarrow> e | None \<Rightarrow> st_epoch_clock s))"

definition streams_ok :: "streams \<Rightarrow> bool" where
  "streams_ok s \<longleftrightarrow>
     hwf (st_fanouts s) \<and> hwf (st_last_epochs s) \<and>
     (\<forall>k e. hget (st_last_epochs s) k = Some e \<longrightarrow> e \<le> st_epoch_clock s)"

text \<open>What a step may do to the epochs: bounds grow, a Start exceeds the old bound.\<close>

definition epoch_law :: "streams \<Rightarrow> (stream_key \<times> node_action) list \<Rightarrow> streams \<Rightarrow> bool" where
  "epoch_law s es s' \<longleftrightarrow>
     (\<forall>k. epoch_bound s k \<le> epoch_bound s' k) \<and>
     (\<forall>k p e. (k, Act_Start p e) \<in> set es \<longrightarrow> epoch_bound s k < e \<and> e \<le> epoch_bound s' k) \<and>
     (\<forall>k e. (k, Act_Stop e) \<in> set es \<longrightarrow> epoch_bound s k \<le> e \<and> e \<le> epoch_bound s' k)"

lemma epoch_lawD:
  assumes "epoch_law s es s'"
  shows "epoch_bound s k \<le> epoch_bound s' k"
    and "(k, a) \<in> set es \<Longrightarrow> epoch_of a = Some e \<Longrightarrow> e \<le> epoch_bound s' k \<and>
      (epoch_bound s k < e \<or> epoch_bound s k \<le> e \<and> a = Act_Stop e)"
proof -
  from assms show "epoch_bound s k \<le> epoch_bound s' k" unfolding epoch_law_def by blast
  assume a: "(k, a) \<in> set es" "epoch_of a = Some e"
  show "e \<le> epoch_bound s' k \<and> (epoch_bound s k < e \<or> epoch_bound s k \<le> e \<and> a = Act_Stop e)"
  proof (cases a)
    case (Act_Start p e')
    with a have "(k, Act_Start p e) \<in> set es" by simp
    with assms show ?thesis unfolding epoch_law_def by blast
  next
    case (Act_Stop e')
    with a have "a = Act_Stop e" "(k, Act_Stop e) \<in> set es" by simp_all
    with assms show ?thesis unfolding epoch_law_def by blast
  qed (use a in simp)
qed

lemma epoch_law_refl: "epoch_law s [] s"
  by (simp add: epoch_law_def)

lemma epoch_law_trans: "epoch_law s es t \<Longrightarrow> epoch_law t es' u \<Longrightarrow> epoch_law s (es @ es') u"
  unfolding epoch_law_def by (fastforce intro: le_trans order.strict_trans1)

lemma reconcile_epoch:
  assumes "reconcile g = (f', es)" "fo_epoch g = fo_epoch f"
  shows "fo_epoch f \<le> fo_epoch f' \<and>
    (\<forall>a e. a \<in> set es \<and> epoch_of a = Some e \<longrightarrow> fo_epoch f < e \<and> e \<le> fo_epoch f')"
  using assms by (auto simp: reconcile_def Let_def split: option.splits if_splits)

lemma fanout_epoch:
  assumes "exec_fanout f x = (f', es)"
  shows "fo_epoch f \<le> fo_epoch f' \<and>
    (\<forall>a e. a \<in> set es \<and> epoch_of a = Some e \<longrightarrow> fo_epoch f < e \<and> e \<le> fo_epoch f')"
proof (cases x)
  case (F_Add vid p)
  then have "exec_fanout f x = reconcile (f\<lparr>fo_viewers := fo_viewers (fst (exec_fanout f x))\<rparr>)"
    by (simp add: fanout_add_viewer_def Let_def reconcile_laws)
  with assms show ?thesis using reconcile_epoch [of "f\<lparr>fo_viewers := fo_viewers f'\<rparr>" f' es f] by simp
next
  case (F_Remove vid)
  with assms have "(f' = f \<and> es = []) \<or> (\<exists>g. reconcile g = (f', es) \<and> fo_epoch g = fo_epoch f)"
    by (auto simp: fanout_remove_viewer_def Let_def split: option.splits)
  then show ?thesis by (auto dest: reconcile_epoch)
next
  case F_Restart
  let ?g = "f\<lparr>fo_started := None, fo_node_acked := fo_seq f\<rparr>"
  have "reconcile ?g = (f', es)"
    using assms F_Restart acks_restart [of f]
    by (simp add: restart_action_def case_prod_beta prod_eq_iff)
  then show ?thesis by (rule reconcile_epoch) simp
next
  case (F_SetParams vid p)
  with assms have "(f' = f \<and> es = []) \<or> (\<exists>g. reconcile g = (f', es) \<and> fo_epoch g = fo_epoch f)"
    by (auto simp: fanout_set_params_def split: option.splits)
  then show ?thesis by (auto dest: reconcile_epoch)
qed (insert assms, auto simp: fanout_on_frame_def fanout_viewer_ack_def close_receiver_def Let_def
    split: option.splits if_splits)


lemma streams_okD:
  assumes "streams_ok s"
  shows "hwf (st_fanouts s)" "hwf (st_last_epochs s)"
    "hget (st_last_epochs s) k = Some e \<Longrightarrow> e \<le> st_epoch_clock s"
  using assms unfolding streams_ok_def by blast+

lemma streams_ok_retire:
  "streams_ok s \<Longrightarrow> streams_ok (retire k f r (s\<lparr>st_fanouts := hdel k (st_fanouts s)\<rparr>))"
  by (auto simp: streams_ok_def retire_def hm_laws max_def split: if_splits)
    (meson le_trans nat_le_linear)+

lemma bound_retire:
  assumes "streams_ok s" "hget (st_fanouts s) k = Some f" "fo_epoch f \<le> fo_epoch f'"
  shows "epoch_bound s j \<le> epoch_bound (retire k f' r (s\<lparr>st_fanouts := hdel k (st_fanouts s)\<rparr>)) j"
    and "fo_epoch f' \<le> epoch_bound (retire k f' r (s\<lparr>st_fanouts := hdel k (st_fanouts s)\<rparr>)) k"
  using assms by (auto simp: epoch_bound_def retire_def hm_laws split: option.splits)

lemma law_with:
  assumes "streams_ok s" "\<And>f f' es. op f = (f', es) \<Longrightarrow> fo_epoch f \<le> fo_epoch f' \<and>
      (\<forall>a e. a \<in> set es \<and> epoch_of a = Some e \<longrightarrow> fo_epoch f < e \<and> e \<le> fo_epoch f')"
  shows "streams_ok (fst (streams_with k op s)) \<and>
    epoch_law s (snd (for_key k (streams_with k op s))) (fst (streams_with k op s))"
proof (cases "hget (st_fanouts s) k")
  case None
  with assms(1) show ?thesis by (simp add: streams_with_def for_key_def epoch_law_refl)
next
  case (Some f)
  obtain f' es where op: "op f = (f', es)" by (cases "op f")
  note grows = assms(2) [OF op]
  have start: "fo_epoch f < e \<and> e \<le> fo_epoch f'"
    if "Act_Start p e \<in> set es \<or> Act_Stop e \<in> set es" for p e
    using grows that by (metis epoch_of.simps(1,2))
  have bound: "epoch_bound s k = fo_epoch f" using Some by (simp add: epoch_bound_def)
  show ?thesis
  proof (cases "fanout_is_empty f'")
    case True
    let ?s = "retire k f' True (s\<lparr>st_fanouts := hdel k (st_fanouts s)\<rparr>)"
    have "epoch_bound s j \<le> epoch_bound ?s j" "fo_epoch f' \<le> epoch_bound ?s k" for j
      using bound_retire [OF assms(1) Some] grows by blast+
    then have "epoch_law s (map (Pair k) es) ?s"
      using start bound by (fastforce simp: epoch_law_def intro: le_trans)
    then show ?thesis
      using True by (simp add: streams_with_def Some op for_key_def streams_ok_retire [OF assms(1)])
  next
    case False
    let ?s = "s\<lparr>st_fanouts := hput k f' (st_fanouts s)\<rparr>"
    have "epoch_bound s j \<le> epoch_bound ?s j" "epoch_bound ?s k = fo_epoch f'" for j
      using grows Some by (auto simp: epoch_bound_def hm_laws split: option.splits)
    then have "epoch_law s (map (Pair k) es) ?s"
      using start bound by (fastforce simp: epoch_law_def)
    moreover have "streams_ok ?s" using assms(1) by (simp add: streams_ok_def)
    ultimately show ?thesis using False by (simp add: streams_with_def Some op for_key_def)
  qed
qed

lemma law_end_fanout:
  assumes "streams_ok s"
  shows "streams_ok (end_fanout k s) \<and> epoch_law s [] (end_fanout k s)"
proof (cases "hget (st_fanouts s) k")
  case None
  with assms show ?thesis by (simp add: end_fanout_def epoch_law_refl)
next
  case (Some f)
  let ?s = "retire k (fanout_destroy f) False (s\<lparr>st_fanouts := hdel k (st_fanouts s)\<rparr>)"
  have same: "epoch_bound (t\<lparr>st_ended := l\<rparr>) j = epoch_bound t j"
    "streams_ok (t\<lparr>st_ended := l\<rparr>) = streams_ok t" for t l j
    by (simp_all add: epoch_bound_def streams_ok_def split: option.splits)
  have "epoch_bound s j \<le> epoch_bound ?s j" for j
    using bound_retire(1) [OF assms Some] by (simp add: fanout_destroy_def)
  then show ?thesis
    using streams_ok_retire [OF assms]
    by (simp add: end_fanout_def Some Let_def epoch_law_def same)
qed

lemma law_end_fanouts:
  "streams_ok s \<Longrightarrow> streams_ok (fold end_fanout ks s) \<and> epoch_law s [] (fold end_fanout ks s)"
proof (induction ks arbitrary: s)
  case (Cons k ks)
  from law_end_fanout [OF Cons.prems, of k] Cons.IH [of "end_fanout k s"] show ?case
    using epoch_law_trans [of s "[]" "end_fanout k s" "[]"] by simp
qed (simp add: epoch_law_refl)

lemma law_forget:
  assumes "streams_ok s" "hwf le" "\<And>k. hget le k = hget (st_last_epochs s) k \<or> hget le k = None"
  shows "streams_ok (s\<lparr>st_last_epochs  := le\<rparr>) \<and> epoch_law s [] (s\<lparr>st_last_epochs  := le\<rparr>)"
proof -
  have "e \<le> st_epoch_clock s" if "hget le k = Some e" for k e
    using that assms(3) [of k] streams_okD(3) [OF assms(1)] by auto
  moreover have "epoch_bound s k \<le> epoch_bound (s\<lparr>st_last_epochs  := le\<rparr>) k" for k
    using assms(3) [of k] streams_okD(3) [OF assms(1), of k]
    by (auto simp: epoch_bound_def split: option.splits)
  ultimately show ?thesis
    using assms(1,2) by (simp add: streams_ok_def epoch_law_def)
qed


lemma streams_ok_put: "streams_ok (s\<lparr>st_fanouts := hput k f m\<rparr>) \<longleftrightarrow> streams_ok (s\<lparr>st_fanouts := hput k g m\<rparr>)"
  if "hwf m" using that by (simp add: streams_ok_def)

lemma law_put:
  assumes "streams_ok s" "hget (st_fanouts s) k = Some f" "fo_epoch f \<le> fo_epoch f'"
    and "\<And>a e. a \<in> set es \<Longrightarrow> epoch_of a = Some e \<Longrightarrow> fo_epoch f < e \<and> e \<le> fo_epoch f'"
  shows "streams_ok (s\<lparr>st_fanouts := hput k f' (st_fanouts s)\<rparr>) \<and>
    epoch_law s (map (Pair k) es) (s\<lparr>st_fanouts := hput k f' (st_fanouts s)\<rparr>)"
proof
  let ?s = "s\<lparr>st_fanouts := hput k f' (st_fanouts s)\<rparr>"
  show "streams_ok ?s" using assms(1) by (simp add: streams_ok_def)
  have "epoch_bound s j \<le> epoch_bound ?s j" "epoch_bound ?s k = fo_epoch f'"
    "epoch_bound s k = fo_epoch f" for j
    using assms(2,3) by (auto simp: epoch_bound_def hm_laws split: option.splits)
  moreover have "fo_epoch f < e \<and> e \<le> fo_epoch f'"
    if "Act_Start p e \<in> set es \<or> Act_Stop e \<in> set es" for p e
    using assms(4) that by (metis epoch_of.simps(1,2))
  ultimately show "epoch_law s (map (Pair k) es) ?s"
    by (fastforce simp: epoch_law_def)
qed

lemma law_resync:
  "streams_ok s \<Longrightarrow> fst ` set ks \<subseteq> {m} \<Longrightarrow> resync_keys present ks s = (s', actions) \<Longrightarrow>
    streams_ok s' \<and> epoch_law s (map (\<lambda>(b, a). ((m, b), a)) actions) s'"
proof (induction present ks s arbitrary: s' actions rule: resync_keys.induct)
  case (1 present s)
  then show ?case by (simp add: epoch_law_refl)
next
  case (2 present k ks s)
  have k: "k = (m, snd k)" using 2(5) by (cases k) auto
  consider (absent) "\<not> present (snd k)" | (none) "present (snd k)" "hget (st_fanouts s) k = None"
    | (some) f where "present (snd k)" "hget (st_fanouts s) k = Some f"
    by (cases "hget (st_fanouts s) k") auto
  then show ?case
  proof cases
    case absent
    note first = law_end_fanout [OF 2(4), of k]
    have "streams_ok s' \<and> epoch_law (end_fanout k s) (map (\<lambda>(b, a). ((m, b), a)) actions) s'"
      using 2(3) [OF absent] first 2(5,6) absent by auto
    then show ?thesis using first epoch_law_trans [of s "[]"] by fastforce
  next
    case none
    with 2(1) [OF none] 2(4-6) show ?thesis by auto
  next
    case some
    obtain f' act where act: "restart_action f = (f', act)" by (cases "restart_action f")
    let ?es = "case act of None \<Rightarrow> [] | Some a \<Rightarrow> [a]"
    let ?t = "s\<lparr>st_fanouts := hput k f' (st_fanouts s)\<rparr>"
    have "exec_fanout f F_Restart = (f', ?es)" using act by simp
    from fanout_epoch [OF this] have first: "streams_ok ?t" "epoch_law s (map (Pair k) ?es) ?t"
      using law_put [OF 2(4) some(2), of f' ?es] by blast+
    obtain u rest where rest: "resync_keys present ks ?t = (u, rest)"
      by (cases "resync_keys present ks ?t")
    then have out: "s' = u" "actions = map (Pair (snd k)) ?es @ rest"
      using 2(6) some act by (auto split: option.splits)
    have "streams_ok u \<and> epoch_law ?t (map (\<lambda>(b, a). ((m, b), a)) rest) u"
      using 2(2) [OF some act [symmetric] refl, of u rest] first(1) 2(5) rest by auto
    moreover have "(\<lambda>(b, a). ((m, b), a)) \<circ> Pair (snd k) = (Pair k :: node_action \<Rightarrow> _)"
      by (subst (2) k) (simp add: fun_eq_iff)
    ultimately show ?thesis
      using epoch_law_trans [OF first(2)] by (simp add: out)
  qed
qed

lemma law_add:
  assumes "streams_ok s"
  shows "streams_ok (fst (exec_stream s (S_Add m b p))) \<and>
    epoch_law s (snd (exec_stream s (S_Add m b p))) (fst (exec_stream s (S_Add m b p)))"
proof -
  let ?k = "(m, b)"
  let ?seed = "epoch_seed ?k s"
  define f where "f = (case hget (st_fanouts s) ?k of
    Some f \<Rightarrow> f | None \<Rightarrow> default_fanout\<lparr>fo_epoch := ?seed\<rparr>)"
  obtain f' es where add: "fanout_add_viewer (st_next_viewer s + 1) p f = (f', es)"
    by (cases "fanout_add_viewer (st_next_viewer s + 1) p f")
  have grows: "fo_epoch f \<le> fo_epoch f' \<and>
      (\<forall>a e. a \<in> set es \<and> epoch_of a = Some e \<longrightarrow> fo_epoch f < e \<and> e \<le> fo_epoch f')"
    by (rule fanout_epoch [of f "F_Add (st_next_viewer s + 1) p"]) (use add in simp)
  let ?s = "s\<lparr>st_next_viewer := st_next_viewer s + 1, st_last_epochs := hdel ?k (st_last_epochs s),
    st_fanouts := hput ?k f' (st_fanouts s)\<rparr>"
  have run: "exec_stream s (S_Add m b p) = (?s, map (Pair ?k) es)"
    using add by (simp add: streams_add_viewer_def f_def Let_def for_key_def)
  have below: "epoch_bound s ?k \<le> fo_epoch f"
    by (simp add: epoch_bound_def f_def epoch_seed_def split: option.splits)
  have "epoch_bound s j \<le> epoch_bound ?s j" "epoch_bound ?s ?k = fo_epoch f'" for j
    using below grows by (auto simp: epoch_bound_def hm_laws split: option.splits)
  moreover have "epoch_bound s ?k < e \<and> e \<le> fo_epoch f'"
    if "Act_Start p e \<in> set es \<or> Act_Stop e \<in> set es" for p e
    using grows below that by (meson epoch_of.simps(1,2) le_less_trans)
  ultimately have "epoch_law s (map (Pair ?k) es) ?s"
    by (fastforce simp: epoch_law_def)
  moreover have "streams_ok ?s"
    using streams_okD [OF assms] by (auto simp: streams_ok_def hm_laws)
  ultimately show ?thesis by (simp add: run del: exec_stream.simps)
qed

lemma law_on_frame:
  assumes "streams_ok s"
  shows "streams_ok (fst (exec_stream s (S_Frame m b fr))) \<and>
    epoch_law s (snd (exec_stream s (S_Frame m b fr))) (fst (exec_stream s (S_Frame m b fr)))"
proof (cases "hget (st_fanouts s) (m, b)")
  case None
  with assms show ?thesis
    by (auto simp: streams_on_frame_def for_key_def epoch_law_def epoch_bound_def
        split: option.splits)
next
  case (Some f)
  obtain f' es where fr: "fanout_on_frame fr f = (f', es)" by (cases "fanout_on_frame fr f")
  with fanout_epoch [of f "F_Frame fr" f' es] law_put [OF assms Some, of f' es] show ?thesis
    by (simp add: streams_on_frame_def for_key_def Some)
qed

lemma stream_step:
  assumes "streams_ok s"
  shows "streams_ok (fst (exec_stream s x)) \<and>
    epoch_law s (snd (exec_stream s x)) (fst (exec_stream s x))"
proof (cases x)
  case (S_Add m b p)
  with law_add [OF assms] show ?thesis by blast
next
  case (S_Remove m b vid)
  with law_with [OF assms fanout_epoch [of _ "F_Remove vid"]] show ?thesis
    by (simp add: streams_remove_viewer_def for_key_def)
next
  case (S_SetParams m b vid p)
  with law_with [OF assms fanout_epoch [of _ "F_SetParams vid p"]] show ?thesis
    by (simp add: streams_set_params_def for_key_def)
next
  case (S_Frame m b fr)
  with law_on_frame [OF assms] show ?thesis by blast
next
  case (S_Ack m b vid)
  with law_with [OF assms fanout_epoch [of _ "F_Ack vid"]] show ?thesis
    by (simp add: streams_viewer_ack_def for_key_def)
next
  case (S_Destroy m b)
  note first = law_end_fanout [OF assms, of "(m, b)"]
  have "streams_ok (streams_destroy m b s) \<and> epoch_law (end_fanout (m, b) s) [] (streams_destroy m b s)"
    unfolding streams_destroy_def Let_def
    using first by (intro law_forget) (auto simp: hm_laws dest: streams_okD)
  with S_Destroy first epoch_law_trans [of s "[]"] show ?thesis by fastforce
next
  case (S_DestroyMachine m)
  note first = law_end_fanouts [OF assms, of "keys_of_machine m s"]
  have "streams_ok (streams_destroy_machine m s) \<and>
      epoch_law (fold end_fanout (keys_of_machine m s) s) [] (streams_destroy_machine m s)"
    unfolding streams_destroy_machine_def Let_def
    using first by (intro law_forget) (auto simp: hget_hretain_key dest: streams_okD)
  with S_DestroyMachine first epoch_law_trans [of s "[]"] show ?thesis by fastforce
next
  case (S_Resync m present)
  obtain s' actions where "resync_keys present (keys_of_machine m s) s = (s', actions)"
    by (cases "resync_keys present (keys_of_machine m s) s")
  with S_Resync law_resync [OF assms _ this, of m] show ?thesis
    by (auto simp: streams_resync_machine_def keys_of_machine_def)
qed


interpretation epochs: monotone_steps "\<lambda>s x. fst (exec_stream s x)" streams_ok
  "\<lambda>s t. \<forall>k. epoch_bound s k \<le> epoch_bound t k"
  by unfold_locales (use stream_step epoch_lawD(1) in \<open>blast intro: le_trans\<close>)+

definition run_streams :: "streams \<Rightarrow> stream_op list \<Rightarrow> streams" where
  "run_streams s ops = fst (run_events exec_stream s ops)"

definition told :: "streams \<Rightarrow> stream_op list \<Rightarrow> (stream_key \<times> node_action) list" where
  "told s ops = snd (run_events exec_stream s ops)"

lemma stream_run: "streams_ok s \<Longrightarrow> streams_ok (run_streams s ops) \<and>
    epoch_law s (told s ops) (run_streams s ops)"
proof (induction ops arbitrary: s)
  case Nil
  then show ?case by (simp add: run_streams_def told_def epoch_law_refl)
next
  case (Cons x ops)
  note one = stream_step [OF Cons.prems, of x]
  with Cons.IH [of "fst (exec_stream s x)"] have
    "streams_ok (run_streams (fst (exec_stream s x)) ops)"
    "epoch_law s (snd (exec_stream s x) @ told (fst (exec_stream s x)) ops)
      (run_streams (fst (exec_stream s x)) ops)"
    by (auto intro: epoch_law_trans)
  then show ?case by (simp add: run_streams_def told_def case_prod_beta)
qed

lemma streams_ok_new: "streams_ok (new_streams millis)"
  by (simp add: streams_ok_def new_streams_def hm_laws)

text \<open>Epochs order what the node is told about a browser, across viewers leaving and
  coming back, fan-outs ending, machines reconnecting and straggler frames: a Start always
  carries a greater epoch than every Start and Stop told before it, and a Stop (also the
  one answering a straggler frame) never a smaller one. So a node that ignores anything
  older than what it last obeyed never ignores a Start and is never stopped by an old
  Stop.
\<close>

theorem epochs_order_node_messages:
  assumes "s = run_streams (new_streams millis) ops1"
    and "(k, a1) \<in> set (told (new_streams millis) ops1)" "epoch_of a1 = Some e1"
    and "(k, a2) \<in> set (told s ops2)" "epoch_of a2 = Some e2"
  shows "e1 \<le> e2 \<and> (e1 = e2 \<longrightarrow> a2 = Act_Stop e2)"
proof -
  have first: "streams_ok s" "epoch_law (new_streams millis) (told (new_streams millis) ops1) s"
    unfolding assms(1) using stream_run [OF streams_ok_new] by blast+
  have second: "epoch_law s (told s ops2) (run_streams s ops2)"
    using stream_run [OF first(1)] by blast
  have "e1 \<le> epoch_bound s k"
    using epoch_lawD(2) [OF first(2) assms(2,3)] by blast
  moreover have "epoch_bound s k < e2 \<or> (epoch_bound s k \<le> e2 \<and> a2 = Act_Stop e2)"
    using epoch_lawD(2) [OF second assms(4,5)] by blast
  ultimately show ?thesis by auto
qed

theorem epochs_order_node_messages_witness:
  "let s = run_streams (new_streams 7) [S_Add ''m'' ''b'' default_params, S_Remove ''m'' ''b'' 1]
   in ((''m'', ''b''), Act_Start default_params 8) \<in> set (told (new_streams 7)
        [S_Add ''m'' ''b'' default_params, S_Remove ''m'' ''b'' 1]) \<and>
      ((''m'', ''b''), Act_Start default_params 10) \<in>
        set (told s [S_Add ''m'' ''b'' default_params]) \<and> (8::nat) \<le> 10"
proof -
  let ?s = "run_streams (new_streams 7) [S_Add ''m'' ''b'' default_params, S_Remove ''m'' ''b'' 1]"
  note defs = run_streams_def told_def new_streams_def for_key_def streams_add_viewer_def
    streams_remove_viewer_def streams_with_def fanout_add_viewer_def fanout_remove_viewer_def
    fanout_is_empty_def retire_def epoch_seed_def default_fanout_def reconcile_def effective_def
    hmap_defs Let_def
  have 1: "((''m'', ''b''), Act_Start default_params 8) \<in> set (told (new_streams 7)
      [S_Add ''m'' ''b'' default_params, S_Remove ''m'' ''b'' 1])"
    by (simp add: defs)
  have 2: "((''m'', ''b''), Act_Start default_params 10) \<in>
      set (told ?s [S_Add ''m'' ''b'' default_params])"
    by (simp add: defs)
  have "(8::nat) \<le> 10"
    by (rule epochs_order_node_messages [OF refl 1 _ 2, THEN conjunct1]) simp_all
  with 1 2 show ?thesis by (simp only: Let_def simp_thms)
qed

lemma end_fanouts_get:
  "hget (st_fanouts (fold end_fanout ks s)) k = (if k \<in> set ks then None else hget (st_fanouts s) k)"
proof (induction ks arbitrary: s)
  case (Cons j ks)
  have "hget (st_fanouts (end_fanout j s)) k = (if k = j then None else hget (st_fanouts s) k)"
    for k by (auto simp: end_fanout_def retire_def Let_def hm_laws split: option.splits)
  then show ?case by (simp add: Cons)
qed simp

lemma end_fanouts_ended:
  "distinct ks \<Longrightarrow> set (st_ended (fold end_fanout ks s)) = set (st_ended s) \<union>
     (\<Union>k \<in> set ks. case hget (st_fanouts s) k of None \<Rightarrow> {}
        | Some f \<Rightarrow> set (fo_viewers (fanout_destroy f)))"
proof (induction ks arbitrary: s)
  case (Cons j ks)
  have "st_ended (end_fanout j s) = st_ended s @
      (case hget (st_fanouts s) j of None \<Rightarrow> [] | Some f \<Rightarrow> fo_viewers (fanout_destroy f))"
    by (simp add: end_fanout_def Let_def split: option.splits)
  moreover have "hget (st_fanouts (end_fanout j s)) k = hget (st_fanouts s) k"
    if "k \<in> set ks" for k
    using end_fanouts_get [of "[j]" s k] that Cons.prems by auto
  ultimately show ?case
    using Cons by (auto split: option.splits)
qed simp

text \<open>When a machine disconnects, exactly its browsers' fan-outs end, and every viewer of
  one that can still be reached is told the browser is gone (its channel's last message);
  the other machines' viewers notice nothing.
\<close>

theorem disconnect_ends_exactly_that_machine:
  assumes "s = run_streams (new_streams millis) ops"
  shows "hget (st_fanouts (streams_destroy_machine m s)) k =
      (if fst k = m then None else hget (st_fanouts s) k) \<and>
    set (st_ended (streams_destroy_machine m s)) = set (st_ended s) \<union>
      {(vid, v\<lparr>vw_received := vw_received v @ (if vw_open v then [Msg_Destroyed] else [])\<rparr>) | vid v b f.
        hget (st_fanouts s) (m, b) = Some f \<and> (vid, v) \<in> set (fo_viewers f)}"
proof -
  have ok: "streams_ok s" unfolding assms using stream_run [OF streams_ok_new] by blast
  have keys: "k \<in> set (keys_of_machine m s) \<longleftrightarrow> fst k = m \<and> hget (st_fanouts s) k \<noteq> None" for k
    by (auto simp: keys_of_machine_def hget_None_iff)
  have "distinct (keys_of_machine m s)"
    using streams_okD(1) [OF ok] by (simp add: keys_of_machine_def hkeys_distinct)
  from end_fanouts_ended [OF this, of s]
  have "set (st_ended (streams_destroy_machine m s)) = set (st_ended s) \<union>
     (\<Union>k \<in> set (keys_of_machine m s). case hget (st_fanouts s) k of None \<Rightarrow> {}
        | Some f \<Rightarrow> set (fo_viewers (fanout_destroy f)))"
    by (simp add: streams_destroy_machine_def Let_def)
  also have "(\<Union>k \<in> set (keys_of_machine m s). case hget (st_fanouts s) k of None \<Rightarrow> {}
        | Some f \<Rightarrow> set (fo_viewers (fanout_destroy f))) =
      {(vid, v\<lparr>vw_received := vw_received v @ (if vw_open v then [Msg_Destroyed] else [])\<rparr>) | vid v b f.
        hget (st_fanouts s) (m, b) = Some f \<and> (vid, v) \<in> set (fo_viewers f)}"
    (is "?L = ?R")
  proof -
    have upd: "(if vw_open v then v\<lparr>vw_received := vw_received v @ [Msg_Destroyed]\<rparr> else v) =
        v\<lparr>vw_received := vw_received v @ (if vw_open v then [Msg_Destroyed] else [])\<rparr>" for v
      by simp
    have img: "x \<in> set (fo_viewers (fanout_destroy f)) \<longleftrightarrow> (\<exists>vid v. x = (vid,
        v\<lparr>vw_received := vw_received v @ (if vw_open v then [Msg_Destroyed] else [])\<rparr>) \<and>
        (vid, v) \<in> set (fo_viewers f))" for x f
      by (force simp: fanout_destroy_def hmapv_def upd)
    have "x \<in> ?L \<longleftrightarrow> (\<exists>b f. hget (st_fanouts s) (m, b) = Some f \<and>
        x \<in> set (fo_viewers (fanout_destroy f)))" for x
    proof
      assume "x \<in> ?L"
      then obtain k where k: "fst k = m" "x \<in> (case hget (st_fanouts s) k of None \<Rightarrow> {}
          | Some f \<Rightarrow> set (fo_viewers (fanout_destroy f)))"
        using keys by blast
      then show "\<exists>b f. hget (st_fanouts s) (m, b) = Some f \<and> x \<in> set (fo_viewers (fanout_destroy f))"
        by (cases k) (auto split: option.splits)
    next
      assume "\<exists>b f. hget (st_fanouts s) (m, b) = Some f \<and> x \<in> set (fo_viewers (fanout_destroy f))"
      then obtain b f where "hget (st_fanouts s) (m, b) = Some f" "x \<in> set (fo_viewers (fanout_destroy f))"
        by blast
      then show "x \<in> ?L" using keys by (intro UN_I [of "(m, b)"]) auto
    qed
    then show ?thesis by (intro set_eqI) (simp only: img, blast)
  qed
  finally show ?thesis
    using keys by (auto simp: streams_destroy_machine_def Let_def end_fanouts_get)
qed

theorem disconnect_ends_exactly_that_machine_witness:
  "hget (st_fanouts (streams_destroy_machine ''m''
     (run_streams (new_streams 7) [S_Add ''m'' ''b'' default_params]))) (''m'', ''b'') = None"
  by (subst disconnect_ends_exactly_that_machine [THEN conjunct1, OF refl]) simp

end
