(* ===== verification/Frames.thy ===== *)
theory Frames
  imports Messages
begin

text \<open>
  The binary frames between node, hub and browser (\<^verbatim>\<open>crates/protocol/src/lib.rs\<close>): terminal
  output of an attach, terminal previews, and screencast frames of an agent browser. Each
  starts with its own magic byte, then lengths as big-endian \<^verbatim>\<open>u16\<close>, then the parts. A
  \<^verbatim>\<open>String\<close> on the wire is its UTF-8; \<^verbatim>\<open>str::from_utf8\<close> is the strict decoder of the
  standard library (no overlong forms, no surrogates).

  The lemmas show that decoding inverts encoding in both directions, and that a frame of
  one kind is never read as another.
\<close>

unbundle bit_operations_syntax

section \<open>UTF-8\<close>

type_synonym bytes = "u8 list"

definition is_scalar :: "nat \<Rightarrow> bool" where
  "is_scalar c \<longleftrightarrow> c < 0xD800 \<or> (0xE000 \<le> c \<and> c \<le> 0x10FFFF)"

definition utf8_char :: "nat \<Rightarrow> nat list" where
  "utf8_char c =
     (if c < 0x80 then [c]
      else if c < 0x800 then [0xC0 + c div 64, 0x80 + c mod 64]
      else if c < 0x10000 then [0xE0 + c div 4096, 0x80 + c div 64 mod 64, 0x80 + c mod 64]
      else [0xF0 + c div 262144, 0x80 + c div 4096 mod 64, 0x80 + c div 64 mod 64,
            0x80 + c mod 64])"

definition as_bytes :: "ustr \<Rightarrow> bytes" where
  "as_bytes t = map of_nat (concat (map utf8_char t))"

definition is_cont :: "nat \<Rightarrow> bool" where
  "is_cont b \<longleftrightarrow> 0x80 \<le> b \<and> b < 0xC0"

text \<open>The first character of a byte sequence and what follows it.\<close>

definition utf8_next :: "nat list \<Rightarrow> (nat \<times> nat list) option" where
  "utf8_next bs =
     (case bs of
        [] \<Rightarrow> None
      | a # bs \<Rightarrow>
          if a < 0x80 then Some (a, bs)
          else if 0xC0 \<le> a \<and> a < 0xE0 then
            (case bs of
               b # rest \<Rightarrow>
                 let c = (a - 0xC0) * 64 + (b - 0x80) in
                 if is_cont b \<and> 0x80 \<le> c then Some (c, rest) else None
             | _ \<Rightarrow> None)
          else if 0xE0 \<le> a \<and> a < 0xF0 then
            (case bs of
               b # d # rest \<Rightarrow>
                 let c = (a - 0xE0) * 4096 + (b - 0x80) * 64 + (d - 0x80) in
                 if is_cont b \<and> is_cont d \<and> 0x800 \<le> c \<and> is_scalar c then Some (c, rest) else None
             | _ \<Rightarrow> None)
          else if 0xF0 \<le> a \<and> a < 0xF8 then
            (case bs of
               b # d # e # rest \<Rightarrow>
                 let c = (a - 0xF0) * 262144 + (b - 0x80) * 4096 + (d - 0x80) * 64 + (e - 0x80) in
                 if is_cont b \<and> is_cont d \<and> is_cont e \<and> 0x10000 \<le> c \<and> is_scalar c
                 then Some (c, rest) else None
             | _ \<Rightarrow> None)
          else None)"

lemma utf8_next_shorter: "utf8_next bs = Some (c, rest) \<Longrightarrow> length rest < length bs"
  by (auto simp: utf8_next_def Let_def split: list.splits if_splits)

function utf8_decode :: "nat list \<Rightarrow> ustr option" where
  "utf8_decode bs =
     (if bs = [] then Some []
      else (case utf8_next bs of
              None \<Rightarrow> None
            | Some (c, rest) \<Rightarrow> map_option (Cons c) (utf8_decode rest)))"
  by auto
termination
  by (relation "measure length") (auto dest: utf8_next_shorter)

declare utf8_decode.simps [simp del]

definition from_utf8 :: "bytes \<Rightarrow> ustr option" where
  "from_utf8 bs = utf8_decode (map unat bs)"

lemma base64_div:
  "r < 64 \<Longrightarrow> (q * 64 + r) div 64 = q" "r < 64 \<Longrightarrow> (q * 64 + r) mod 64 = r" for q r :: nat
  by simp_all

lemma utf8_char_byte: "is_scalar c \<Longrightarrow> b \<in> set (utf8_char c) \<Longrightarrow> b < 256"
  by (auto simp: utf8_char_def is_scalar_def split: if_splits)

lemma div_64_split: "c div 4096 = c div 64 div 64" "c div 262144 = c div 64 div 64 div 64" for c :: nat
  by (simp_all add: div_mult2_eq [symmetric])

lemma utf8_char_digits:
  "c < 0x80 \<Longrightarrow> utf8_char c = [c]"
  "y < 64 \<Longrightarrow> 2 \<le> x \<Longrightarrow> x < 32 \<Longrightarrow> utf8_char (x * 64 + y) = [0xC0 + x, 0x80 + y]"
  "y < 64 \<Longrightarrow> z < 64 \<Longrightarrow> 32 \<le> x * 64 + y \<Longrightarrow> x < 16 \<Longrightarrow>
     utf8_char ((x * 64 + y) * 64 + z) = [0xE0 + x, 0x80 + y, 0x80 + z]"
  "y < 64 \<Longrightarrow> z < 64 \<Longrightarrow> w < 64 \<Longrightarrow> 16 \<le> x * 64 + y \<Longrightarrow>
     utf8_char (((x * 64 + y) * 64 + z) * 64 + w) = [0xF0 + x, 0x80 + y, 0x80 + z, 0x80 + w]"
proof -
  show "utf8_char c = [c]" if "c < 0x80" for c using that by (simp add: utf8_char_def)
next
  assume y: "y < 64"
  show "2 \<le> x \<Longrightarrow> x < 32 \<Longrightarrow> utf8_char (x * 64 + y) = [0xC0 + x, 0x80 + y]"
    using y by (simp add: utf8_char_def)
  assume z: "z < 64"
  define c where "c = (x * 64 + y) * 64 + z"
  have c: "c div 64 = x * 64 + y" "c mod 64 = z" "c div 64 div 64 = x" "c div 64 mod 64 = y"
    unfolding c_def using y z by (simp_all only: base64_div)
  show "32 \<le> x * 64 + y \<Longrightarrow> x < 16 \<Longrightarrow>
      utf8_char ((x * 64 + y) * 64 + z) = [0xE0 + x, 0x80 + y, 0x80 + z]"
    unfolding c_def [symmetric] utf8_char_def div_64_split c using y z by (simp add: c_def)
  assume w: "w < 64"
  define e where "e = c * 64 + w"
  have e: "e div 64 = c" "e mod 64 = w" unfolding e_def using w by (simp_all only: base64_div)
  show "16 \<le> x * 64 + y \<Longrightarrow> utf8_char (((x * 64 + y) * 64 + z) * 64 + w) =
      [0xF0 + x, 0x80 + y, 0x80 + z, 0x80 + w]"
    unfolding c_def [symmetric] e_def [symmetric] utf8_char_def div_64_split e c
    using y by (simp add: e_def c_def)
qed

lemma high_digits: "k * 64 \<le> q * 64 + z \<Longrightarrow> z < 64 \<Longrightarrow> k \<le> q" for q z k :: nat
  by linarith

lemma cont_digit: "is_cont b \<Longrightarrow> b - 0x80 < 64 \<and> 0x80 + (b - 0x80) = b"
  by (auto simp: is_cont_def)

lemma utf8_next_sound:
  assumes "utf8_next bs = Some (c, rest)"
  shows "is_scalar c \<and> bs = utf8_char c @ rest"
proof -
  from assms obtain a bs' where bs: "bs = a # bs'" by (auto simp: utf8_next_def split: list.splits)
  consider (1) "a < 0x80" "c = a" "rest = bs'"
    | (2) b where "0xC0 \<le> a" "a < 0xE0" "bs' = b # rest" "is_cont b" "0x80 \<le> c"
        "c = (a - 0xC0) * 64 + (b - 0x80)"
    | (3) b d where "0xE0 \<le> a" "a < 0xF0" "bs' = b # d # rest" "is_cont b" "is_cont d" "0x800 \<le> c"
        "is_scalar c" "c = (a - 0xE0) * 4096 + (b - 0x80) * 64 + (d - 0x80)"
    | (4) b d e where "0xF0 \<le> a" "a < 0xF8" "bs' = b # d # e # rest" "is_cont b" "is_cont d"
        "is_cont e" "0x10000 \<le> c" "is_scalar c"
        "c = (a - 0xF0) * 262144 + (b - 0x80) * 4096 + (d - 0x80) * 64 + (e - 0x80)"
    using assms bs by (auto simp: utf8_next_def Let_def split: list.splits if_splits)
  then show ?thesis
  proof cases
    case 1
    with bs show ?thesis by (simp add: utf8_char_digits is_scalar_def)
  next
    case 2
    then have "2 \<le> a - 0xC0" "a - 0xC0 < 32" "c < 0x800" using cont_digit by fastforce+
    with 2 bs cont_digit [of b] utf8_char_digits(2) [of "b - 0x80" "a - 0xC0"] show ?thesis
      by (simp add: is_scalar_def)
  next
    case 3
    have c: "c = ((a - 0xE0) * 64 + (b - 0x80)) * 64 + (d - 0x80)" using 3(8) by simp
    have "32 \<le> (a - 0xE0) * 64 + (b - 0x80)"
      using c 3(6) cont_digit [OF 3(5)] by (intro high_digits [of 32 _ "d - 0x80"]) simp_all
    then have "utf8_char c = [0xE0 + (a - 0xE0), 0x80 + (b - 0x80), 0x80 + (d - 0x80)]"
      unfolding c using 3(2) cont_digit [OF 3(4)] cont_digit [OF 3(5)]
      by (intro utf8_char_digits(3)) simp_all
    then show ?thesis
      using 3 bs cont_digit [OF 3(4)] cont_digit [OF 3(5)] by simp
  next
    case 4
    have c: "c = (((a - 0xF0) * 64 + (b - 0x80)) * 64 + (d - 0x80)) * 64 + (e - 0x80)"
      using 4(9) by simp
    have "1024 \<le> ((a - 0xF0) * 64 + (b - 0x80)) * 64 + (d - 0x80)"
      using c 4(7) cont_digit [OF 4(6)] by (intro high_digits [of 1024 _ "e - 0x80"]) simp_all
    then have "16 \<le> (a - 0xF0) * 64 + (b - 0x80)"
      using cont_digit [OF 4(5)] by (intro high_digits [of 16 _ "d - 0x80"]) simp_all
    then have "utf8_char c = [0xF0 + (a - 0xF0), 0x80 + (b - 0x80), 0x80 + (d - 0x80), 0x80 + (e - 0x80)]"
      unfolding c using cont_digit [OF 4(4)] cont_digit [OF 4(5)] cont_digit [OF 4(6)]
      by (intro utf8_char_digits(4)) simp_all
    then show ?thesis
      using 4 bs cont_digit [OF 4(4)] cont_digit [OF 4(5)] cont_digit [OF 4(6)] by simp
  qed
qed

lemma utf8_next_char: "is_scalar c \<Longrightarrow> utf8_next (utf8_char c @ rest) = Some (c, rest)"
proof -
  assume c: "is_scalar c"
  have digits: "c = (c div 64) * 64 + c mod 64"
    "c = ((c div 4096) * 64 + c div 64 mod 64) * 64 + c mod 64"
    "c = (((c div 262144) * 64 + c div 4096 mod 64) * 64 + c div 64 mod 64) * 64 + c mod 64"
    unfolding div_64_split by (simp_all only: div_mult_mod_eq)
  consider "c < 0x80" | "0x80 \<le> c" "c < 0x800" | "0x800 \<le> c" "c < 0x10000" | "0x10000 \<le> c"
    by linarith
  then show ?thesis
  proof cases
    case 1
    then show ?thesis by (simp add: utf8_char_def utf8_next_def)
  next
    case 2
    with digits(1) have "c div 64 < 32" by simp
    with 2 show ?thesis
      by (simp add: utf8_char_def utf8_next_def is_cont_def Let_def)
  next
    case 3
    then have "c div 4096 < 16" by simp
    moreover have "(c div 4096) * 4096 + (c div 64 mod 64) * 64 + c mod 64 = c"
      using digits(2) by simp
    ultimately show ?thesis
      using 3 c by (simp add: utf8_char_def utf8_next_def is_cont_def Let_def)
  next
    case 4
    have "c \<le> 0x10FFFF" using c by (auto simp: is_scalar_def)
    then have "c div 262144 < 8" by simp
    moreover have "(c div 262144) * 262144 + (c div 4096 mod 64) * 4096 + (c div 64 mod 64) * 64 +
        c mod 64 = c"
      using digits(3) by simp
    ultimately show ?thesis
      using 4 c by (simp add: utf8_char_def utf8_next_def is_cont_def Let_def)
  qed
qed

lemma utf8_char_not_Nil [simp]: "utf8_char c \<noteq> []"
  by (simp add: utf8_char_def)

lemma utf8_decode_encode: "list_all is_scalar t \<Longrightarrow> utf8_decode (concat (map utf8_char t)) = Some t"
  by (induction t) (subst utf8_decode.simps; simp add: utf8_next_char)+

lemma utf8_decode_inverse:
  "utf8_decode bs = Some t \<Longrightarrow> bs = concat (map utf8_char t) \<and> list_all is_scalar t"
proof (induction bs arbitrary: t rule: utf8_decode.induct)
  case (1 bs)
  show ?case
  proof (cases "bs = []")
    case True
    with 1(2) show ?thesis by (simp add: utf8_decode.simps)
  next
    case False
    with 1(2) obtain c rest u where u: "utf8_next bs = Some (c, rest)" "utf8_decode rest = Some u"
      "t = c # u"
      by (subst (asm) utf8_decode.simps) (auto split: option.splits)
    with 1(1) [OF False u(1) refl u(2)] utf8_next_sound [OF u(1)] show ?thesis by simp
  qed
qed

lemma map_unat_as_bytes:
  "list_all is_scalar t \<Longrightarrow> map unat (as_bytes t) = concat (map utf8_char t)"
proof -
  assume t: "list_all is_scalar t"
  have "unat (of_nat b :: u8) = b" if "b \<in> set (concat (map utf8_char t))" for b
    using that t utf8_char_byte by (auto simp: list_all_iff unat_of_nat)
  then show ?thesis
    unfolding as_bytes_def map_map comp_def by (rule map_idI)
qed

lemma from_utf8_as_bytes: "list_all is_scalar t \<Longrightarrow> from_utf8 (as_bytes t) = Some t"
  by (simp add: from_utf8_def map_unat_as_bytes utf8_decode_encode)

lemma as_bytes_from_utf8: "from_utf8 bs = Some t \<Longrightarrow> as_bytes t = bs \<and> list_all is_scalar t"
proof -
  assume "from_utf8 bs = Some t"
  then have "map unat bs = concat (map utf8_char t)" "list_all is_scalar t"
    using utf8_decode_inverse by (auto simp: from_utf8_def)
  then have "as_bytes t = map of_nat (map unat bs)" by (simp add: as_bytes_def)
  then show ?thesis using \<open>list_all is_scalar t\<close> by (simp add: comp_def)
qed


section \<open>Frames\<close>

definition ATTACH_FRAME_MAGIC :: u8 where "ATTACH_FRAME_MAGIC = 0x01"
definition TERMINAL_PREVIEW_FRAME_MAGIC :: u8 where "TERMINAL_PREVIEW_FRAME_MAGIC = 0x02"
definition AGENT_BROWSER_FRAME_MAGIC :: u8 where "AGENT_BROWSER_FRAME_MAGIC = 0x03"

datatype frame_error =
    Frame_empty
  | Frame_magic u8
  | Not_an_agent_browser_frame
  | Frame_missing_id_length
  | Frame_truncated
  | Frame_meta_truncated
  | Id_not_utf8

text \<open>\<^verbatim>\<open>len().try_into::<u16>()\<close>, then \<^verbatim>\<open>to_be_bytes\<close> and \<^verbatim>\<open>from_be_bytes\<close>.\<close>

definition try_u16 :: "nat \<Rightarrow> u16 option" where
  "try_u16 n = (if n < 2 ^ 16 then Some (of_nat n) else None)"

definition to_be_bytes :: "u16 \<Rightarrow> bytes" where
  "to_be_bytes x = [ucast (drop_bit 8 x), ucast x]"

definition from_be_bytes :: "u8 \<Rightarrow> u8 \<Rightarrow> u16" where
  "from_be_bytes a b = push_bit 8 (ucast a) OR ucast b"

text \<open>
  The encoders panic on a part of more than 65535 bytes: \<^const>\<open>None\<close>. Decoders take the
  received message.
\<close>

definition encode_attach_output_frame :: "ustr \<Rightarrow> bytes \<Rightarrow> bytes option" where
  "encode_attach_output_frame attach_id data =
     (case try_u16 (length (as_bytes attach_id)) of
        None \<Rightarrow> None
      | Some attach_id_len \<Rightarrow>
          Some (ATTACH_FRAME_MAGIC # to_be_bytes attach_id_len @ as_bytes attach_id @ data))"

definition encode_terminal_preview_output_frame :: "ustr \<Rightarrow> bytes \<Rightarrow> bytes option" where
  "encode_terminal_preview_output_frame terminal_id data =
     (case try_u16 (length (as_bytes terminal_id)) of
        None \<Rightarrow> None
      | Some terminal_id_len \<Rightarrow>
          Some (TERMINAL_PREVIEW_FRAME_MAGIC # to_be_bytes terminal_id_len @
                as_bytes terminal_id @ data))"

definition encode_agent_browser_frame :: "ustr \<Rightarrow> bytes \<Rightarrow> bytes \<Rightarrow> bytes option" where
  "encode_agent_browser_frame browser_id meta jpeg =
     (case try_u16 (length (as_bytes browser_id)) of
        None \<Rightarrow> None
      | Some id_len \<Rightarrow>
          (case try_u16 (length meta) of
             None \<Rightarrow> None
           | Some meta_len \<Rightarrow>
               Some (AGENT_BROWSER_FRAME_MAGIC # to_be_bytes id_len @ as_bytes browser_id @
                     to_be_bytes meta_len @ meta @ jpeg)))"

text \<open>The part both plain decoders share, after the magic byte.\<close>

definition decode_id_body :: "bytes \<Rightarrow> frame_error + ustr \<times> bytes" where
  "decode_id_body body =
     (if length body < 2 then Inl Frame_missing_id_length
      else
        let id_len = unat (from_be_bytes (body ! 0) (body ! 1)) in
        if length body < 2 + id_len then Inl Frame_truncated
        else (case from_utf8 (take id_len (drop 2 body)) of
                None \<Rightarrow> Inl Id_not_utf8
              | Some ident_text \<Rightarrow> Inr (ident_text, drop (2 + id_len) body)))"

definition decode_attach_output_frame :: "bytes \<Rightarrow> frame_error + ustr \<times> bytes" where
  "decode_attach_output_frame fr =
     (if fr = [] then Inl Frame_empty
      else if fr ! 0 \<noteq> ATTACH_FRAME_MAGIC then Inl (Frame_magic (fr ! 0))
      else decode_id_body (drop 1 fr))"

definition decode_terminal_preview_output_frame :: "bytes \<Rightarrow> frame_error + ustr \<times> bytes" where
  "decode_terminal_preview_output_frame fr =
     (if fr = [] then Inl Frame_empty
      else if fr ! 0 \<noteq> TERMINAL_PREVIEW_FRAME_MAGIC then Inl (Frame_magic (fr ! 0))
      else decode_id_body (drop 1 fr))"

definition decode_agent_browser_frame :: "bytes \<Rightarrow> frame_error + ustr \<times> bytes \<times> bytes" where
  "decode_agent_browser_frame fr =
     (if fr = [] \<or> fr ! 0 \<noteq> AGENT_BROWSER_FRAME_MAGIC then Inl Not_an_agent_browser_frame
      else
        let body = drop 1 fr in
        if length body < 2 then Inl Frame_missing_id_length
        else
          let id_len = unat (from_be_bytes (body ! 0) (body ! 1));
              meta_at = 2 + id_len
          in if length body < meta_at + 2 then Inl Frame_truncated
             else
               (case from_utf8 (take (meta_at - 2) (drop 2 body)) of
                  None \<Rightarrow> Inl Id_not_utf8
                | Some ident_text \<Rightarrow>
                    let meta_len = unat (from_be_bytes (body ! meta_at) (body ! (meta_at + 1)));
                        meta_start = meta_at + 2
                    in if length body < meta_start + meta_len then Inl Frame_meta_truncated
                       else Inr (ident_text, take meta_len (drop (1 + meta_start) fr),
                                 drop (1 + meta_start + meta_len) fr)))"

section \<open>Decoding inverts encoding\<close>

lemma be_roundtrip: "from_be_bytes (ucast (drop_bit 8 x)) (ucast x) = (x :: u16)"
  unfolding from_be_bytes_def
  by (rule bit_word_eqI) (auto simp: bit_simps)

lemma no_high_bit: "\<not> bit (b :: u8) (8 + n)"
  using bit_imp_le_length [of b "8 + n"] by auto

lemma be_roundtrip': "to_be_bytes (from_be_bytes a b) = [a, b]"
  unfolding from_be_bytes_def to_be_bytes_def
  by (auto intro!: bit_word_eqI simp: bit_simps no_high_bit)

lemma length_to_be_bytes [simp]: "length (to_be_bytes x) = 2"
  by (simp add: to_be_bytes_def)

lemma to_be_bytes_nth [simp]:
  "to_be_bytes x ! 0 = ucast (drop_bit 8 x)" "to_be_bytes x ! Suc 0 = ucast x"
  "(to_be_bytes x @ ys) ! 0 = ucast (drop_bit 8 x)" "(to_be_bytes x @ ys) ! Suc 0 = ucast x"
  "drop 2 (to_be_bytes x @ ys) = ys"
  by (simp_all add: to_be_bytes_def)

lemma try_u16_Some: "try_u16 n = Some x \<Longrightarrow> unat x = n"
  by (auto simp: try_u16_def unat_of_nat split: if_splits)

lemma decode_id_body_encoded:
  assumes "list_all is_scalar t" "try_u16 (length (as_bytes t)) = Some n"
  shows "decode_id_body (to_be_bytes n @ as_bytes t @ data) = Inr (t, data)"
  using try_u16_Some [OF assms(2)] from_utf8_as_bytes [OF assms(1)]
  by (simp add: decode_id_body_def be_roundtrip)

lemma two_bytes: "2 \<le> length body \<Longrightarrow> body = body ! 0 # body ! 1 # drop 2 body"
  by (cases body; cases "tl body") auto

lemma try_u16_unat: "try_u16 (unat x) = Some (x :: u16)"
  using unsigned_less [of x] by (simp add: try_u16_def)

lemma decode_id_body_Inr:
  assumes "decode_id_body body = Inr (t, data)"
  obtains n where "try_u16 (length (as_bytes t)) = Some n" "list_all is_scalar t"
    "body = to_be_bytes n @ as_bytes t @ data"
proof -
  let ?n = "from_be_bytes (body ! 0) (body ! 1)"
  from assms have len: "2 \<le> length body" "2 + unat ?n \<le> length body"
    and utf8: "from_utf8 (take (unat ?n) (drop 2 body)) = Some t"
    and data: "data = drop (2 + unat ?n) body"
    by (auto simp: decode_id_body_def Let_def split: if_splits option.splits)
  from as_bytes_from_utf8 [OF utf8] have bytes: "as_bytes t = take (unat ?n) (drop 2 body)"
    "list_all is_scalar t" by auto
  then have "length (as_bytes t) = unat ?n" using len by simp
  then have n: "try_u16 (length (as_bytes t)) = Some ?n" by (simp add: try_u16_unat)
  have "drop 2 body = as_bytes t @ data"
    using bytes(1) data by (metis append_take_drop_id drop_drop add.commute)
  then have "body = to_be_bytes ?n @ as_bytes t @ data"
    using two_bytes [OF len(1)] by (simp add: be_roundtrip')
  with n bytes(2) show ?thesis by (rule that)
qed

text \<open>
  C19. Terminal output survives the wire exactly, and only it does: a frame decodes to an
  attach id and data if and only if the encoder makes that frame of them (so a frame has
  one reading, and every malformed or truncated one is refused).
\<close>

theorem attach_frame_iff_encoded:
  "decode_attach_output_frame fr = Inr (t, data) \<longleftrightarrow>
     list_all is_scalar t \<and> encode_attach_output_frame t data = Some fr"
proof
  assume "decode_attach_output_frame fr = Inr (t, data)"
  then obtain body where fr: "fr = ATTACH_FRAME_MAGIC # body" and "decode_id_body body = Inr (t, data)"
    by (cases fr) (auto simp: decode_attach_output_frame_def split: if_splits)
  from this(2) obtain n where "try_u16 (length (as_bytes t)) = Some n" "list_all is_scalar t"
    "body = to_be_bytes n @ as_bytes t @ data"
    by (rule decode_id_body_Inr)
  then show "list_all is_scalar t \<and> encode_attach_output_frame t data = Some fr"
    by (simp add: encode_attach_output_frame_def fr)
next
  assume enc: "list_all is_scalar t \<and> encode_attach_output_frame t data = Some fr"
  then obtain n where n: "try_u16 (length (as_bytes t)) = Some n"
    and fr: "fr = ATTACH_FRAME_MAGIC # to_be_bytes n @ as_bytes t @ data"
    by (auto simp: encode_attach_output_frame_def split: option.splits)
  from decode_id_body_encoded [OF _ n] enc show "decode_attach_output_frame fr = Inr (t, data)"
    by (simp add: decode_attach_output_frame_def fr)
qed

text \<open>The same for terminal previews.\<close>

theorem preview_frame_iff_encoded:
  "decode_terminal_preview_output_frame fr = Inr (t, data) \<longleftrightarrow>
     list_all is_scalar t \<and> encode_terminal_preview_output_frame t data = Some fr"
proof
  assume "decode_terminal_preview_output_frame fr = Inr (t, data)"
  then obtain body where fr: "fr = TERMINAL_PREVIEW_FRAME_MAGIC # body"
    and "decode_id_body body = Inr (t, data)"
    by (cases fr) (auto simp: decode_terminal_preview_output_frame_def split: if_splits)
  from this(2) obtain n where "try_u16 (length (as_bytes t)) = Some n" "list_all is_scalar t"
    "body = to_be_bytes n @ as_bytes t @ data"
    by (rule decode_id_body_Inr)
  then show "list_all is_scalar t \<and> encode_terminal_preview_output_frame t data = Some fr"
    by (simp add: encode_terminal_preview_output_frame_def fr)
next
  assume enc: "list_all is_scalar t \<and> encode_terminal_preview_output_frame t data = Some fr"
  then obtain n where n: "try_u16 (length (as_bytes t)) = Some n"
    and fr: "fr = TERMINAL_PREVIEW_FRAME_MAGIC # to_be_bytes n @ as_bytes t @ data"
    by (auto simp: encode_terminal_preview_output_frame_def split: option.splits)
  from decode_id_body_encoded [OF _ n] enc show "decode_terminal_preview_output_frame fr = Inr (t, data)"
    by (simp add: decode_terminal_preview_output_frame_def fr)
qed

text \<open>A screencast frame decodes to the browser, metadata and picture it was made of, and
  to nothing else.
\<close>

theorem browser_frame_iff_encoded:
  "decode_agent_browser_frame fr = Inr (t, meta, jpeg) \<longleftrightarrow>
     list_all is_scalar t \<and> encode_agent_browser_frame t meta jpeg = Some fr"
proof
  assume dec: "decode_agent_browser_frame fr = Inr (t, meta, jpeg)"
  then obtain body where fr: "fr = AGENT_BROWSER_FRAME_MAGIC # body"
    by (cases fr) (auto simp: decode_agent_browser_frame_def split: if_splits)
  let ?n = "from_be_bytes (body ! 0) (body ! 1)"
  let ?rest = "drop (2 + unat ?n) body"
  let ?m = "from_be_bytes (body ! (2 + unat ?n)) (body ! (2 + unat ?n + 1))"
  from dec fr have len: "2 \<le> length body" "2 + unat ?n + 2 \<le> length body"
      "2 + unat ?n + 2 + unat ?m \<le> length body"
    and utf8: "from_utf8 (take (unat ?n) (drop 2 body)) = Some t"
    and parts: "meta = take (unat ?m) (drop (1 + (2 + unat ?n + 2)) fr)"
      "jpeg = drop (1 + (2 + unat ?n + 2) + unat ?m) fr"
    unfolding decode_agent_browser_frame_def Let_def
    by (simp_all split: if_splits option.splits)
  have parts: "meta = take (unat ?m) (drop 2 ?rest)" "jpeg = drop (2 + unat ?m) ?rest"
    unfolding parts fr by (simp_all add: ac_simps)
  have "decode_id_body body = Inr (t, ?rest)"
    using len utf8 by (simp add: decode_id_body_def Let_def)
  then obtain n where n: "try_u16 (length (as_bytes t)) = Some n" "list_all is_scalar t"
    "body = to_be_bytes n @ as_bytes t @ ?rest"
    by (rule decode_id_body_Inr)
  have m: "?m = from_be_bytes (?rest ! 0) (?rest ! 1)" "length meta = unat ?m"
    using len parts by simp_all
  have "?rest = to_be_bytes ?m @ drop 2 ?rest"
    using two_bytes [of ?rest] len m(1) by (simp add: be_roundtrip')
  moreover have "drop (2 + unat ?m) ?rest = drop (unat ?m) (drop 2 ?rest)"
    by (simp add: add.commute)
  then have "drop 2 ?rest = meta @ jpeg"
    unfolding parts by (simp only: append_take_drop_id)
  ultimately have "fr = AGENT_BROWSER_FRAME_MAGIC # to_be_bytes n @ as_bytes t @ to_be_bytes ?m @
      meta @ jpeg"
    using n(3) fr by metis
  then show "list_all is_scalar t \<and> encode_agent_browser_frame t meta jpeg = Some fr"
    using n m(2) by (simp add: encode_agent_browser_frame_def try_u16_unat)
next
  assume "list_all is_scalar t \<and> encode_agent_browser_frame t meta jpeg = Some fr"
  then obtain n m where t: "list_all is_scalar t" and n: "unat n = length (as_bytes t)"
    and m: "unat m = length meta"
    and fr: "fr = AGENT_BROWSER_FRAME_MAGIC # to_be_bytes n @ as_bytes t @ to_be_bytes m @ meta @ jpeg"
    by (auto simp: encode_agent_browser_frame_def dest: try_u16_Some split: option.splits)
  let ?body = "to_be_bytes n @ as_bytes t @ to_be_bytes m @ meta @ jpeg"
  have "?body ! (2 + unat n) = ucast (drop_bit 8 m)" "?body ! (2 + unat n + 1) = ucast m"
    by (simp_all add: nth_append n)
  then show "decode_agent_browser_frame fr = Inr (t, meta, jpeg)"
    by (simp add: decode_agent_browser_frame_def fr Let_def be_roundtrip n m
        from_utf8_as_bytes [OF t])
qed

text \<open>No confusion: no message is a frame of two kinds, whatever bytes it holds.
\<close>

theorem frame_kinds_are_distinct:
  "length (filter (\<lambda>refused. \<not> refused)
     [isl (decode_attach_output_frame fr), isl (decode_terminal_preview_output_frame fr),
      isl (decode_agent_browser_frame fr)]) \<le> 1"
  by (auto simp: decode_attach_output_frame_def decode_terminal_preview_output_frame_def
      decode_agent_browser_frame_def ATTACH_FRAME_MAGIC_def TERMINAL_PREVIEW_FRAME_MAGIC_def
      AGENT_BROWSER_FRAME_MAGIC_def split: if_splits)

end
