(* ===== verification/AttachRouter.thy ===== *)
theory AttachRouter
  imports Messages
begin

text \<open>
  Routing of attached terminals (\<^verbatim>\<open>crates/hub/src/attach_router.rs\<close>): which socket gets the
  bytes of an attach, which attaches carry a compressed stream, which feed a thumbnail, and
  what each one shows. \<^verbatim>\<open>WsSender\<close> is an opaque channel: a number here.

  The lemmas show that sockets and targets are kept for the same attaches, and what is left
  when a machine disconnects.
\<close>

section \<open>The router\<close>

type_synonym ws_sender = nat

record hub_router =
  hr_senders :: "(ident, ws_sender) hmap"
  hr_compressed :: "ident set"
  hr_previews :: "ident set"
  hr_attach_to_terminal :: "(ident, ident \<times> ident) hmap"

definition new_router :: hub_router where
  "new_router = \<lparr>hr_senders = [], hr_compressed = {}, hr_previews = {}, hr_attach_to_terminal = []\<rparr>"

definition register_with_compression ::
  "ident \<Rightarrow> ident \<Rightarrow> ident \<Rightarrow> ws_sender \<Rightarrow> bool \<Rightarrow> hub_router \<Rightarrow> hub_router" where
  "register_with_compression attach_id machine_id terminal_id tx compressed r =
     r\<lparr>hr_senders := hput attach_id tx (hr_senders r),
       hr_compressed := (if compressed then insert attach_id (hr_compressed r) else hr_compressed r),
       hr_attach_to_terminal := hput attach_id (machine_id, terminal_id) (hr_attach_to_terminal r)\<rparr>"

definition register :: "ident \<Rightarrow> ident \<Rightarrow> ident \<Rightarrow> ws_sender \<Rightarrow> hub_router \<Rightarrow> hub_router" where
  "register attach_id machine_id terminal_id tx r =
     register_with_compression attach_id machine_id terminal_id tx False r"

definition register_preview :: "ident \<Rightarrow> ident \<Rightarrow> ident \<Rightarrow> ws_sender \<Rightarrow> hub_router \<Rightarrow> hub_router" where
  "register_preview attach_id machine_id terminal_id tx r =
     r\<lparr>hr_senders := hput attach_id tx (hr_senders r),
       hr_previews := insert attach_id (hr_previews r),
       hr_attach_to_terminal := hput attach_id (machine_id, terminal_id) (hr_attach_to_terminal r)\<rparr>"

definition main_attaches_of :: "ident \<Rightarrow> ident \<Rightarrow> hub_router \<Rightarrow> ident list" where
  "main_attaches_of machine_id terminal_id r =
     map fst (filter (\<lambda>(a, (m, t)). m = machine_id \<and> t = terminal_id \<and> a \<notin> hr_previews r)
       (hr_attach_to_terminal r))"

definition is_compressed :: "ident \<Rightarrow> hub_router \<Rightarrow> bool" where
  "is_compressed attach_id r \<longleftrightarrow> attach_id \<in> hr_compressed r"

definition lookup_sender :: "ident \<Rightarrow> hub_router \<Rightarrow> ws_sender option" where
  "lookup_sender attach_id r = hget (hr_senders r) attach_id"

definition lookup_terminal :: "ident \<Rightarrow> hub_router \<Rightarrow> (ident \<times> ident) option" where
  "lookup_terminal attach_id r = hget (hr_attach_to_terminal r) attach_id"

definition unregister :: "ident \<Rightarrow> hub_router \<Rightarrow> hub_router" where
  "unregister attach_id r =
     r\<lparr>hr_senders := hdel attach_id (hr_senders r),
       hr_compressed := hr_compressed r - {attach_id},
       hr_previews := hr_previews r - {attach_id},
       hr_attach_to_terminal := hdel attach_id (hr_attach_to_terminal r)\<rparr>"

definition drop_machine :: "ident \<Rightarrow> hub_router \<Rightarrow> hub_router \<times> ident list" where
  "drop_machine machine_id r =
     (let dropped = map fst (filter (\<lambda>(_, (m, _)). m = machine_id) (hr_attach_to_terminal r))
      in (fold (\<lambda>attach r. r\<lparr>hr_compressed := hr_compressed r - {attach},
                              hr_senders := hdel attach (hr_senders r),
                              hr_attach_to_terminal := hdel attach (hr_attach_to_terminal r)\<rparr>)
            dropped r,
          dropped))"

section \<open>Invariant\<close>

definition router_ok :: "hub_router \<Rightarrow> bool" where
  "router_ok r \<longleftrightarrow> hwf (hr_senders r) \<and> hwf (hr_attach_to_terminal r) \<and>
     set (hkeys (hr_senders r)) = set (hkeys (hr_attach_to_terminal r)) \<and>
     hr_compressed r \<subseteq> set (hkeys (hr_senders r))"

datatype router_op =
    R_Register ident ident ident ws_sender bool
  | R_Preview ident ident ident ws_sender
  | R_Unregister ident
  | R_DropMachine ident

fun exec_router :: "hub_router \<Rightarrow> router_op \<Rightarrow> hub_router" where
  "exec_router r (R_Register a m t tx c) = register_with_compression a m t tx c r"
| "exec_router r (R_Preview a m t tx) = register_preview a m t tx r"
| "exec_router r (R_Unregister a) = unregister a r"
| "exec_router r (R_DropMachine m) = fst (drop_machine m r)"

lemma drop_loop:
  "fold (\<lambda>attach r. r\<lparr>hr_compressed := hr_compressed r - {attach},
       hr_senders := hdel attach (hr_senders r),
       hr_attach_to_terminal := hdel attach (hr_attach_to_terminal r)\<rparr>) ks r =
   r\<lparr>hr_compressed := hr_compressed r - set ks, hr_senders := hdels ks (hr_senders r),
     hr_attach_to_terminal := hdels ks (hr_attach_to_terminal r)\<rparr>"
  by (induction ks arbitrary: r) (simp_all add: hdels_def Diff_insert2 [symmetric])

lemma drop_machine_eq:
  "fst (drop_machine m r) =
   r\<lparr>hr_compressed := hr_compressed r - set (snd (drop_machine m r)),
     hr_senders := hdels (snd (drop_machine m r)) (hr_senders r),
     hr_attach_to_terminal := hdels (snd (drop_machine m r)) (hr_attach_to_terminal r)\<rparr>"
  by (simp add: drop_machine_def Let_def drop_loop)

lemma router_ok_new: "router_ok new_router"
  by (simp add: router_ok_def new_router_def hkeys_def)

lemma router_ok_step: "router_ok r \<Longrightarrow> router_ok (exec_router r x)"
  by (cases x) (auto simp: router_ok_def register_with_compression_def register_preview_def
      unregister_def drop_machine_eq)

interpretation router: invariant_steps exec_router router_ok
  by unfold_locales (rule router_ok_step)

lemma keys_where: "a \<in> fst ` {x \<in> S. P x} \<longleftrightarrow> (\<exists>v. (a, v) \<in> S \<and> P (a, v))"
  by force

lemma dropped_iff:
  "router_ok r \<Longrightarrow> a \<in> set (snd (drop_machine m r)) \<longleftrightarrow> (\<exists>t. lookup_terminal a r = Some (m, t))"
  by (simp add: drop_machine_def Let_def lookup_terminal_def router_ok_def hget_Some_iff keys_where)

section \<open>Properties\<close>

text \<open>
  C25. In every router a hub can reach, an attach has a socket exactly when it has a target,
  a compressed stream always has a socket, and the full views of a terminal are exactly the
  attaches that show it and are not marked as thumbnails.
\<close>

theorem router_consistent:
  "let r = foldl exec_router new_router ops in
     (lookup_sender a r = None \<longleftrightarrow> lookup_terminal a r = None) \<and>
     \<not> (is_compressed a r \<and> lookup_sender a r = None) \<and>
     (a \<in> set (main_attaches_of m t r) \<longleftrightarrow>
        lookup_terminal a r = Some (m, t) \<and> a \<notin> hr_previews r)"
proof -
  define r where "r = foldl exec_router new_router ops"
  have ok: "router_ok r" unfolding r_def by (rule router.run_inv [OF router_ok_new])
  have "a \<in> set (main_attaches_of m t r) \<longleftrightarrow>
      lookup_terminal a r = Some (m, t) \<and> a \<notin> hr_previews r"
    using ok by (simp add: main_attaches_of_def lookup_terminal_def router_ok_def hget_Some_iff keys_where)
  with ok show ?thesis
    unfolding r_def [symmetric] Let_def
    by (auto simp: router_ok_def lookup_sender_def lookup_terminal_def is_compressed_def
        hget_None_iff)
qed

text \<open>When a machine disconnects, its attaches, and no others, lose their socket, target
  and compression mark, and they are the ones reported dropped.
\<close>

theorem drop_machine_drops_exactly_its_attaches:
  "let r = foldl exec_router new_router ops; (r', dropped) = drop_machine m r;
       gone = (\<exists>t. lookup_terminal a r = Some (m, t))
   in (a \<in> set dropped \<longleftrightarrow> gone) \<and>
      lookup_sender a r' = (if gone then None else lookup_sender a r) \<and>
      lookup_terminal a r' = (if gone then None else lookup_terminal a r) \<and>
      is_compressed a r' = (is_compressed a r \<and> \<not> gone)"
proof -
  define r where "r = foldl exec_router new_router ops"
  have ok: "router_ok r" unfolding r_def by (rule router.run_inv [OF router_ok_new])
  show ?thesis
    unfolding r_def [symmetric] Let_def case_prod_beta drop_machine_eq
    using dropped_iff [OF ok, of a m]
    by (simp add: lookup_sender_def lookup_terminal_def is_compressed_def hget_hdels)
qed


end
