(* ===== verification/SessionStore.thy ===== *)
theory SessionStore
  imports Store "HOL-Library.List_Lexorder" "HOL-Library.Char_ord" "HOL-Library.Product_Lexorder"
begin

text \<open>
  Agent sessions in the database (\<^verbatim>\<open>crates/hub/src/db/agent_sessions.rs\<close>): the session rows, the
  event log of each and how far each user has read. The three tables refer to users, machines and
  tabs of the main tables, which the statements read.
\<close>

section \<open>Names\<close>

fun kind_name :: "agent_kind \<Rightarrow> string" where
  "kind_name Kind_Claude = ''claude''"
| "kind_name Kind_Codex = ''codex''"
| "kind_name Kind_Grok = ''grok''"
| "kind_name Kind_Kimi = ''kimi''"

definition kind_from_name :: "string \<Rightarrow> agent_kind" where
  "kind_from_name name =
     (if name = ''codex'' then Kind_Codex else if name = ''grok'' then Kind_Grok
      else if name = ''kimi'' then Kind_Kimi else Kind_Claude)"

fun status_name :: "agent_session_status \<Rightarrow> string" where
  "status_name Sess_Starting = ''starting''"
| "status_name Sess_Working = ''working''"
| "status_name Sess_Asked = ''asked''"
| "status_name Sess_Idle = ''idle''"
| "status_name Sess_Error = ''error''"
| "status_name Sess_Disconnected = ''disconnected''"

definition status_from_name :: "string \<Rightarrow> agent_session_status" where
  "status_from_name name =
     (if name = ''starting'' then Sess_Starting else if name = ''working'' then Sess_Working
      else if name = ''asked'' then Sess_Asked else if name = ''idle'' then Sess_Idle
      else if name = ''disconnected'' then Sess_Disconnected else Sess_Error)"

lemma kind_name_roundtrip [simp]: "kind_from_name (kind_name k) = k"
  by (cases k) (simp_all add: kind_from_name_def)

lemma status_name_roundtrip [simp]: "status_from_name (status_name st) = st"
  by (cases st) (simp_all add: status_from_name_def)

section \<open>Rows\<close>

record agent_session_row =
  sr_id :: ident
  sr_user_id :: ident
  sr_row_machine_id :: ident
  sr_agent_kind :: string
  sr_row_cwd :: ustr
  sr_title :: ustr
  sr_status :: string
  sr_auto_run :: bool
  sr_acp_session_id :: "ident option"
  sr_workspace_group_id :: "ident option"
  sr_available_models :: "agent_model_info list"
  sr_current_model_id :: "ident option"
  sr_requested_model_id :: "ident option"
  sr_last_event_seq :: int
  sr_created_at :: ms
  sr_updated_at :: ms

record agent_session_event_row =
  sv_session_id :: ident
  sv_seq :: int
  sv_event :: agent_event
  sv_created_at :: ms

text \<open>The three tables; \<open>sd_seen\<close> is keyed by user and session.\<close>

record session_db =
  sd_sessions :: "agent_session_row list"
  sd_events :: "agent_session_event_row list"
  sd_seen :: "((ident \<times> ident) \<times> int) list"

definition empty_session_db :: session_db where
  "empty_session_db = \<lparr>sd_sessions = [], sd_events = [], sd_seen = []\<rparr>"

definition EVENT_HISTORY_PER_SESSION :: int where
  "EVENT_HISTORY_PER_SESSION = 5000"

text \<open>\<^verbatim>\<open>as i64\<close> of a \<^verbatim>\<open>u64\<close>, and \<^verbatim>\<open>.max(0) as u64\<close> back.\<close>

definition as_i64 :: "nat \<Rightarrow> int" where
  "as_i64 n = (if n < 2 ^ 63 then int n else int n - 2 ^ 64)"

definition seq_of_i64 :: "int \<Rightarrow> nat" where
  "seq_of_i64 i = nat (max i 0)"

definition session_row_to_info :: "agent_session_row \<Rightarrow> agent_session_info" where
  "session_row_to_info row = \<lparr>as_id = sr_id row, as_machine_id = sr_row_machine_id row,
     as_agent_kind = kind_from_name (sr_agent_kind row), as_cwd = sr_row_cwd row,
     as_title = sr_title row, as_status = status_from_name (sr_status row),
     as_auto_run = sr_auto_run row, as_acp_session_id = sr_acp_session_id row,
     as_workspace_group_id = sr_workspace_group_id row,
     as_available_models = sr_available_models row, as_current_model_id = sr_current_model_id row,
     as_last_event_seq = seq_of_i64 (sr_last_event_seq row), as_created_at_ms = sr_created_at row\<rparr>"

section \<open>Statements\<close>

definition insert_session ::
  "ms \<Rightarrow> ident \<Rightarrow> ident \<Rightarrow> ident \<Rightarrow> agent_kind \<Rightarrow> ustr \<Rightarrow> ustr \<Rightarrow> agent_session_status \<Rightarrow> bool
     \<Rightarrow> ident option \<Rightarrow> ident option \<Rightarrow> database \<Rightarrow> session_db \<Rightarrow> session_db option" where
  "insert_session now sid user_id machine_id kind cwd title status auto_run group_id requested main db =
     (if sid \<in> sr_id ` set (sd_sessions db) \<or> user_id \<notin> set (db_users main)
         \<or> machine_id \<notin> mr_id ` set (db_machines main) \<or> \<not> group_exists main group_id then None
      else Some (db\<lparr>sd_sessions := sd_sessions db @
        [\<lparr>sr_id = sid, sr_user_id = user_id, sr_row_machine_id = machine_id,
          sr_agent_kind = kind_name kind, sr_row_cwd = cwd, sr_title = title,
          sr_status = status_name status, sr_auto_run = auto_run, sr_acp_session_id = None,
          sr_workspace_group_id = group_id, sr_available_models = [], sr_current_model_id = None,
          sr_requested_model_id = requested, sr_last_event_seq = 0, sr_created_at = now,
          sr_updated_at = now\<rparr>]\<rparr>))"

definition find_session :: "ident \<Rightarrow> session_db \<Rightarrow> agent_session_row option" where
  "find_session sid db = find (\<lambda>r. sr_id r = sid) (sd_sessions db)"

definition find_sessions_by_user :: "ident \<Rightarrow> session_db \<Rightarrow> agent_session_row list" where
  "find_sessions_by_user user_id db =
     sort_key (\<lambda>r. (sr_created_at r, sr_id r)) (filter (\<lambda>r. sr_user_id r = user_id) (sd_sessions db))"

definition set_when :: "'a option \<Rightarrow> ('a \<Rightarrow> agent_session_row \<Rightarrow> agent_session_row) \<Rightarrow> ms \<Rightarrow> ident
    \<Rightarrow> session_db \<Rightarrow> session_db" where
  "set_when v f now sid db =
     (case v of None \<Rightarrow> db
      | Some x \<Rightarrow> db\<lparr>sd_sessions := update_where (\<lambda>r. sr_id r = sid)
          (\<lambda>r. (f x r)\<lparr>sr_updated_at := now\<rparr>) (sd_sessions db)\<rparr>)"

definition apply_update ::
  "ms \<Rightarrow> ident \<Rightarrow> agent_session_status option \<Rightarrow> ustr option \<Rightarrow> ident option
     \<Rightarrow> agent_model_info list option \<Rightarrow> ident option \<Rightarrow> session_db \<Rightarrow> session_db" where
  "apply_update now sid status title acp models model db =
     set_when model (\<lambda>m r. r\<lparr>sr_current_model_id := Some m\<rparr>) now sid
      (set_when models (\<lambda>ms r. r\<lparr>sr_available_models := ms\<rparr>) now sid
       (set_when acp (\<lambda>a r. r\<lparr>sr_acp_session_id := Some a\<rparr>) now sid
        (set_when title (\<lambda>t r. r\<lparr>sr_title := t\<rparr>) now sid
         (set_when status (\<lambda>st r. r\<lparr>sr_status := status_name st\<rparr>) now sid db))))"

definition set_session_status :: "ms \<Rightarrow> ident \<Rightarrow> agent_session_status \<Rightarrow> session_db \<Rightarrow> session_db" where
  "set_session_status now sid status = apply_update now sid (Some status) None None None None"

definition bump_last_event_seq :: "ms \<Rightarrow> ident \<Rightarrow> nat \<Rightarrow> session_db \<Rightarrow> session_db" where
  "bump_last_event_seq now sid sq db = db\<lparr>sd_sessions := update_where (\<lambda>r. sr_id r = sid)
     (\<lambda>r. r\<lparr>sr_last_event_seq := max (sr_last_event_seq r) (as_i64 sq), sr_updated_at := now\<rparr>)
     (sd_sessions db)\<rparr>"

definition last_event_seq :: "ident \<Rightarrow> session_db \<Rightarrow> nat option" where
  "last_event_seq sid db = map_option (\<lambda>r. seq_of_i64 (sr_last_event_seq r)) (find_session sid db)"

definition delete_session :: "ident \<Rightarrow> session_db \<Rightarrow> session_db" where
  "delete_session sid db = db\<lparr>sd_events := filter (\<lambda>e. sv_session_id e \<noteq> sid) (sd_events db),
     sd_seen := filter (\<lambda>((_, s), _). s \<noteq> sid) (sd_seen db),
     sd_sessions := filter (\<lambda>r. sr_id r \<noteq> sid) (sd_sessions db)\<rparr>"

definition live_status :: "string \<Rightarrow> bool" where
  "live_status st \<longleftrightarrow> st \<in> set [''starting'', ''working'', ''asked'', ''idle'']"

definition mark_machine_sessions_disconnected ::
  "ms \<Rightarrow> ident \<Rightarrow> session_db \<Rightarrow> session_db \<times> agent_session_row list" where
  "mark_machine_sessions_disconnected now machine_id db =
     (let P = (\<lambda>r. sr_row_machine_id r = machine_id \<and> live_status (sr_status r));
          rows = filter P (sd_sessions db)
      in if rows = [] then (db, rows)
         else (db\<lparr>sd_sessions := update_where P
                 (\<lambda>r. r\<lparr>sr_status := ''disconnected'', sr_updated_at := now\<rparr>) (sd_sessions db)\<rparr>,
               map (\<lambda>r. r\<lparr>sr_status := ''disconnected''\<rparr>) rows))"

text \<open>\<^verbatim>\<open>INSERT OR IGNORE\<close>: a number already logged, or a session unknown to the table, inserts
  nothing; a broken foreign key is not ignored, it fails.\<close>

definition session_seqs :: "ident \<Rightarrow> session_db \<Rightarrow> int list" where
  "session_seqs sid db = map sv_seq (filter (\<lambda>e. sv_session_id e = sid) (sd_events db))"

definition insert_session_event ::
  "ms \<Rightarrow> ident \<Rightarrow> nat \<Rightarrow> agent_event \<Rightarrow> session_db \<Rightarrow> session_db option" where
  "insert_session_event now sid sq event db =
     (let logged = as_i64 sq \<in> set (session_seqs sid db) in
      if \<not> logged \<and> find_session sid db = None then None
      else let db1 = (if logged then db
             else db\<lparr>sd_events := sd_events db @ [\<lparr>sv_session_id = sid, sv_seq = as_i64 sq,
                    sv_event = event, sv_created_at = now\<rparr>]\<rparr>)
           in Some (case session_seqs sid db1 of
               [] \<Rightarrow> db1
             | x # xs \<Rightarrow> db1\<lparr>sd_events := filter (\<lambda>e. \<not> (sv_session_id e = sid
                 \<and> sv_seq e \<le> fold max xs x - EVENT_HISTORY_PER_SESSION)) (sd_events db1)\<rparr>))"

definition events_page :: "ident \<Rightarrow> nat \<Rightarrow> nat \<Rightarrow> session_db \<Rightarrow> (nat \<times> agent_event) list" where
  "events_page sid from_seq limit db =
     map (\<lambda>e. (seq_of_i64 (sv_seq e), sv_event e))
       (take limit (sort_key sv_seq (filter (\<lambda>e. sv_session_id e = sid \<and> as_i64 from_seq < sv_seq e)
          (sd_events db))))"

definition upsert_seen ::
  "ident \<Rightarrow> ident \<Rightarrow> nat \<Rightarrow> database \<Rightarrow> session_db \<Rightarrow> (session_db \<times> nat) option" where
  "upsert_seen user_id sid sq main db =
     (if user_id \<notin> set (db_users main) \<or> find_session sid db = None then None
      else let seen = (case map_of (sd_seen db) (user_id, sid) of
                         None \<Rightarrow> as_i64 sq | Some old \<Rightarrow> max old (as_i64 sq))
           in Some (db\<lparr>sd_seen := AList.update (user_id, sid) seen (sd_seen db)\<rparr>, seq_of_i64 seen))"

definition seen_by_user :: "ident \<Rightarrow> session_db \<Rightarrow> (ident \<times> nat) list" where
  "seen_by_user user_id db =
     map (\<lambda>((_, sid), sq). (sid, seq_of_i64 sq)) (filter (\<lambda>((u, _), _). u = user_id) (sd_seen db))"

text \<open>The cascades of a deleted machine and of a deleted tab.\<close>

definition sessions_without_machine :: "ident \<Rightarrow> session_db \<Rightarrow> session_db" where
  "sessions_without_machine machine_id db =
     fold delete_session (map sr_id (filter (\<lambda>r. sr_row_machine_id r = machine_id) (sd_sessions db))) db"

definition sessions_without_group :: "ident \<Rightarrow> session_db \<Rightarrow> session_db" where
  "sessions_without_group group_id db = db\<lparr>sd_sessions :=
     update_where (\<lambda>r. sr_workspace_group_id r = Some group_id)
       (\<lambda>r. r\<lparr>sr_workspace_group_id := None\<rparr>) (sd_sessions db)\<rparr>"

end
