(* ===== verification/Registry.thy ===== *)
theory Registry
  imports AgentRuns SessionStore Screencast
begin

text \<open>
  The hub's machine registry (\<^verbatim>\<open>MachineManager\<close> of \<^verbatim>\<open>crates/hub/src/machine_manager.rs\<close>): which
  machines are connected, the terminals and agent browsers of each, the terminals of machines
  that are away, and the requests waiting for a node's answer.

  An operation takes the registry to what it sends out, in order, and the new registry. Sends to
  browsers go through \<^verbatim>\<open>send_event\<close> (the event bus numbers and stores them); a waiting request is
  answered at most once because its sender is taken out of the map. Identifiers made by
  \<^verbatim>\<open>Uuid::new_v4\<close> and the time are arguments. A database connection is always available, and a
  failing statement changes nothing. Hash maps are iterated in the order of their entries.
\<close>

section \<open>Answers of nodes\<close>

datatype upload_reply = Reply_Ack ident u64 | Reply_Done ident ustr u64

datatype upload_failure =
    UpFail_Machine ident upload_error_code ustr
  | UpFail_Outdated | UpFail_NoMachine | UpFail_Disconnected | UpFail_Timeout

record fs_read_data =
  frd_name :: ustr
  frd_path :: ustr
  frd_mime :: ustr
  frd_size :: u64
  frd_data_base64 :: ustr
  frd_sha256 :: "ident option"

record fs_write_data =
  fwd_path :: ustr
  fwd_size :: u64
  fwd_sha256 :: ident

datatype fs_write_failure =
    FsWFail_Machine fs_write_error_code ustr "ident option"
  | FsWFail_Outdated | FsWFail_NoMachine | FsWFail_Disconnected | FsWFail_Timeout

datatype fs_read_failure =
    FsRFail_Machine fs_read_error_code ustr "u64 option" "ustr option"
  | FsRFail_Outdated | FsRFail_NoMachine | FsRFail_Disconnected | FsRFail_Timeout

datatype pending_result =
    Res_Composer composer_receipt
  | Res_TerminalCreated ident ustr ustr u16 u16
  | Res_FsList "dir_entry list"
  | Res_ForegroundProcess bool "ustr option"
  | Res_FsRead "fs_read_failure + fs_read_data"
  | Res_FsWrite "fs_write_failure + fs_write_data"
  | Res_Upload "upload_failure + upload_reply"
  | Res_AgentBrowser "ustr + json"

section \<open>State\<close>

record machine_connection =
  mc_conn_id :: ident
  mc_info :: machine_info
  mc_user_id :: "ident option"
  mc_terminals :: "(ident, terminal_info) hmap"
  mc_latest_stats :: "resource_stats option"
  mc_capabilities :: "ident list"
  mc_agent_browsers :: "(ident, agent_browser_info) hmap"
  mc_version :: "ustr option"
  mc_installed_agents :: "installed_agent list"

record registry =
  rg_machines :: "(ident, machine_connection) hmap"
  rg_pending :: "ident list"
  rg_browser_requests :: "(ident, ident) hmap"
  rg_streams :: streams
  rg_viewers :: "(ident \<times> ident, (ident, nat) hmap) hmap"
  rg_timers :: "(ident \<times> ident, ident) hmap"
  rg_activity :: "(ident \<times> ident, ms) hmap"
  rg_mode :: mode_map
  rg_db :: database
  rg_sessions :: session_db
  rg_persisted :: "(ident, terminal_info list) hmap"
  rg_openers :: "(ident, terminal_opener) hmap"

text \<open>
  What leaves the registry: an event for one user (or for everyone), an answer to a waiting
  request, the news that a request will not be answered, a message to a machine.
\<close>

datatype effect =
    Fx_Event "ident option" browser_event
  | Fx_Reply ident "ustr + pending_result"
  | Fx_Failed ident
  | Fx_Send ident hub_to_machine

type_synonym hub_op = "registry \<Rightarrow> effect list \<times> registry"

definition skip :: hub_op where
  "skip s = ([], s)"

definition emit :: "effect list \<Rightarrow> hub_op" where
  "emit es s = (es, s)"

definition quiet :: "(registry \<Rightarrow> registry) \<Rightarrow> hub_op" where
  "quiet f s = ([], f s)"

definition and_then :: "hub_op \<Rightarrow> hub_op \<Rightarrow> hub_op" where
  "and_then m n s = (let (es, s1) = m s; (fs, s2) = n s1 in (es @ fs, s2))"

fun each :: "('a \<Rightarrow> hub_op) \<Rightarrow> 'a list \<Rightarrow> hub_op" where
  "each f [] = skip"
| "each f (x # xs) = and_then (f x) (each f xs)"

definition reading :: "(registry \<Rightarrow> 'a) \<Rightarrow> ('a \<Rightarrow> hub_op) \<Rightarrow> hub_op" where
  "reading f m s = m (f s) s"

definition on_conn :: "ident \<Rightarrow> (machine_connection \<Rightarrow> hub_op) \<Rightarrow> hub_op" where
  "on_conn machine_id f = reading (\<lambda>s. hget (rg_machines s) machine_id)
     (\<lambda>found. case found of None \<Rightarrow> skip | Some conn \<Rightarrow> f conn)"

definition put_conn :: "ident \<Rightarrow> machine_connection \<Rightarrow> hub_op" where
  "put_conn machine_id conn = quiet (\<lambda>s. s\<lparr>rg_machines := hput machine_id conn (rg_machines s)\<rparr>)"

definition on_db :: "(database \<Rightarrow> database) \<Rightarrow> hub_op" where
  "on_db f = quiet (\<lambda>s. s\<lparr>rg_db := f (rg_db s)\<rparr>)"

definition announcing :: "(database \<Rightarrow> announcement list \<times> database) \<Rightarrow> hub_op" where
  "announcing f s = (let (es, db) = f (rg_db s)
     in (map (\<lambda>(user, ev). Fx_Event user ev) es, s\<lparr>rg_db := db\<rparr>))"

section \<open>Starting up\<close>

definition u16_or :: "int \<Rightarrow> u16 \<Rightarrow> u16" where
  "u16_or i fallback = (if 0 \<le> i \<and> i < 2 ^ 16 then word_of_int i else fallback)"

definition terminal_of_row :: "terminal_session_row \<Rightarrow> terminal_info" where
  "terminal_of_row row = \<lparr>ti_id = ts_id row, ti_machine_id = ts_machine_id row,
     ti_title = ts_title row, ti_cwd = ts_cwd row,
     ti_title_source = title_source_from_name (ts_title_source row),
     ti_workspace_group_id = ts_workspace_group_id row,
     ti_cols = u16_or (ts_cols row) 80, ti_rows = u16_or (ts_rows row) 24, ti_reachable = False,
     ti_attention = None, ti_opened_by = opener_from_row row, ti_last_activity_ms = None\<rparr>"

definition startup_terminals :: "database \<Rightarrow> (ident, terminal_info list) hmap" where
  "startup_terminals db = foldl (\<lambda>m row.
     hput (ts_machine_id row)
       ((case hget m (ts_machine_id row) of None \<Rightarrow> [] | Some ts \<Rightarrow> ts) @ [terminal_of_row row]) m)
     [] (find_all_active db)"

definition new_registry :: "nat \<Rightarrow> database \<Rightarrow> session_db \<Rightarrow> registry" where
  "new_registry millis db sessions = \<lparr>rg_machines = [], rg_pending = [], rg_browser_requests = [],
     rg_streams = new_streams millis, rg_viewers = [], rg_timers = [], rg_activity = [],
     rg_mode = [], rg_db = db, rg_sessions = sessions, rg_persisted = startup_terminals db,
     rg_openers = []\<rparr>"

section \<open>Waiting requests\<close>

definition register_pending :: "ident \<Rightarrow> hub_op" where
  "register_pending request_id =
     quiet (\<lambda>s. s\<lparr>rg_pending := List.insert request_id (rg_pending s)\<rparr>)"

definition remove_pending :: "ident \<Rightarrow> hub_op" where
  "remove_pending request_id =
     quiet (\<lambda>s. s\<lparr>rg_pending := removeAll request_id (rg_pending s)\<rparr>)"

text \<open>\<^verbatim>\<open>if let Some(tx) = pending.remove(&request_id)\<close>, then the answer.\<close>

definition resolve_pending :: "ident \<Rightarrow> ustr + pending_result \<Rightarrow> hub_op" where
  "resolve_pending request_id result s =
     (if request_id \<in> set (rg_pending s)
      then ([Fx_Reply request_id result], s\<lparr>rg_pending := removeAll request_id (rg_pending s)\<rparr>)
      else ([], s))"

definition drop_pending :: "ident \<Rightarrow> hub_op" where
  "drop_pending request_id s =
     (if request_id \<in> set (rg_pending s)
      then ([Fx_Failed request_id], s\<lparr>rg_pending := removeAll request_id (rg_pending s)\<rparr>)
      else ([], s))"

section \<open>Who may see what\<close>

definition connection_visible_to :: "machine_connection \<Rightarrow> ident \<Rightarrow> bool" where
  "connection_visible_to conn user_id \<longleftrightarrow>
     (case mc_user_id conn of None \<Rightarrow> True | Some owner \<Rightarrow> owner = user_id)"

definition db_machine_belongs_to_user :: "registry \<Rightarrow> ident \<Rightarrow> ident \<Rightarrow> bool" where
  "db_machine_belongs_to_user s user_id machine_id \<longleftrightarrow>
     (case find_machine_by_id (rg_db s) machine_id of
        None \<Rightarrow> False | Some machine \<Rightarrow> mr_user_id machine = user_id)"

definition offline_machine_name :: "registry \<Rightarrow> ident \<Rightarrow> ident \<Rightarrow> ustr option" where
  "offline_machine_name s user_id machine_id =
     (case find_machine_by_id (rg_db s) machine_id of
        None \<Rightarrow> None
      | Some machine \<Rightarrow> if mr_user_id machine = user_id then Some (mr_name machine) else None)"

definition machine_supports :: "registry \<Rightarrow> ident \<Rightarrow> ident \<Rightarrow> bool" where
  "machine_supports s machine_id capability \<longleftrightarrow>
     (case hget (rg_machines s) machine_id of
        None \<Rightarrow> False | Some conn \<Rightarrow> capability \<in> set (mc_capabilities conn))"

definition PREVIEW_CAPABILITY :: ident where
  "PREVIEW_CAPABILITY = ''preview-tcp-v1''"

text \<open>The connection a preview stream may use, by its id.\<close>

definition preview_connection :: "registry \<Rightarrow> ident \<Rightarrow> ident \<Rightarrow> ident option" where
  "preview_connection s user machine =
     (case hget (rg_machines s) machine of
        None \<Rightarrow> None
      | Some conn \<Rightarrow>
          if \<not> connection_visible_to conn user \<or> PREVIEW_CAPABILITY \<notin> set (mc_capabilities conn)
          then None else Some (mc_conn_id conn))"

definition list_machines :: "registry \<Rightarrow> machine_info list" where
  "list_machines s = map mc_info (hvals (rg_machines s))"

definition list_machines_for_user :: "registry \<Rightarrow> ident \<Rightarrow> machine_info list" where
  "list_machines_for_user s user_id =
     map mc_info (filter (\<lambda>conn. connection_visible_to conn user_id) (hvals (rg_machines s)))"

definition set_machine_version :: "ident \<Rightarrow> ustr option \<Rightarrow> hub_op" where
  "set_machine_version machine_id version =
     on_conn machine_id (\<lambda>conn. put_conn machine_id (conn\<lparr>mc_version := version\<rparr>))"

definition machine_versions_for_user ::
  "registry \<Rightarrow> ident \<Rightarrow> (machine_info \<times> ustr option) list" where
  "machine_versions_for_user s user_id =
     map (\<lambda>conn. (mc_info conn, mc_version conn))
       (filter (\<lambda>conn. connection_visible_to conn user_id) (hvals (rg_machines s)))"

definition machine_info_from_row :: "machine_row \<Rightarrow> machine_info" where
  "machine_info_from_row row = \<lparr>mi_id = mr_id row, mi_name = mr_name row,
     mi_os = text_or_empty (mr_os row), mi_home_dir = text_or_empty (mr_home_dir row),
     mi_production = mr_production row\<rparr>"

definition append_missing_db_machines ::
  "database \<Rightarrow> ident \<Rightarrow> machine_info list \<Rightarrow> machine_info list" where
  "append_missing_db_machines db user_id machines =
     machines @ map machine_info_from_row
       (filter (\<lambda>row. mr_id row \<notin> mi_id ` set machines) (find_machines_by_user db user_id))"

definition list_known_machines_for_user :: "registry \<Rightarrow> ident \<Rightarrow> machine_info list" where
  "list_known_machines_for_user s user_id =
     append_missing_db_machines (rg_db s) user_id (list_machines_for_user s user_id)"

definition for_machine :: "ident option \<Rightarrow> ident \<Rightarrow> bool" where
  "for_machine wanted mid \<longleftrightarrow> (case wanted of None \<Rightarrow> True | Some machine_id \<Rightarrow> mid = machine_id)"

definition list_terminals :: "registry \<Rightarrow> ident option \<Rightarrow> terminal_info list" where
  "list_terminals s machine_id =
     concat (map (\<lambda>(_, conn). hvals (mc_terminals conn))
       (filter (\<lambda>(mid, _). for_machine machine_id mid) (rg_machines s)))"

definition visible_machine_ids :: "registry \<Rightarrow> ident \<Rightarrow> ident list" where
  "visible_machine_ids s user_id =
     hkeys (filter (\<lambda>(_, conn). connection_visible_to conn user_id) (rg_machines s))"

definition list_terminals_for_user ::
  "registry \<Rightarrow> ident \<Rightarrow> ident option \<Rightarrow> terminal_info list" where
  "list_terminals_for_user s user_id machine_id =
     concat (map (\<lambda>(_, conn). hvals (mc_terminals conn))
       (filter (\<lambda>(mid, conn). connection_visible_to conn user_id \<and> for_machine machine_id mid)
         (rg_machines s)))
     @ concat (map snd
       (filter (\<lambda>(mid, _). mid \<notin> set (visible_machine_ids s user_id) \<and> for_machine machine_id mid
           \<and> db_machine_belongs_to_user s user_id mid) (rg_persisted s)))"

definition user_can_access_machine :: "registry \<Rightarrow> ident \<Rightarrow> ident \<Rightarrow> bool" where
  "user_can_access_machine s user_id machine_id \<longleftrightarrow>
     (case hget (rg_machines s) machine_id of
        None \<Rightarrow> False | Some conn \<Rightarrow> connection_visible_to conn user_id)"

definition machine_info_for_user :: "registry \<Rightarrow> ident \<Rightarrow> ident \<Rightarrow> machine_info option" where
  "machine_info_for_user s user_id machine_id =
     (case hget (rg_machines s) machine_id of
        None \<Rightarrow> None
      | Some conn \<Rightarrow> if connection_visible_to conn user_id then Some (mc_info conn) else None)"

definition stash_of :: "registry \<Rightarrow> ident \<Rightarrow> terminal_info list" where
  "stash_of s machine_id = (case hget (rg_persisted s) machine_id of None \<Rightarrow> [] | Some ts \<Rightarrow> ts)"

definition user_can_access_terminal :: "registry \<Rightarrow> ident \<Rightarrow> ident \<Rightarrow> ident \<Rightarrow> bool" where
  "user_can_access_terminal s user_id machine_id terminal_id \<longleftrightarrow>
     (case hget (rg_machines s) machine_id of
        Some conn \<Rightarrow> connection_visible_to conn user_id \<and> hhas (mc_terminals conn) terminal_id
      | None \<Rightarrow> list_ex (\<lambda>t. ti_id t = terminal_id) (stash_of s machine_id)
                \<and> db_machine_belongs_to_user s user_id machine_id)"

definition get_machine_stats :: "registry \<Rightarrow> ident \<Rightarrow> resource_stats option" where
  "get_machine_stats s machine_id =
     (case hget (rg_machines s) machine_id of None \<Rightarrow> None | Some conn \<Rightarrow> mc_latest_stats conn)"

definition terminal_dimensions :: "registry \<Rightarrow> ident \<Rightarrow> ident \<Rightarrow> (u16 \<times> u16) option" where
  "terminal_dimensions s machine_id terminal_id =
     (case hget (rg_machines s) machine_id of
        None \<Rightarrow> None
      | Some conn \<Rightarrow> map_option (\<lambda>t. (ti_cols t, ti_rows t)) (hget (mc_terminals conn) terminal_id))"

definition set_machine_production :: "ident \<Rightarrow> bool \<Rightarrow> hub_op" where
  "set_machine_production machine_id production = on_conn machine_id (\<lambda>conn.
     put_conn machine_id (conn\<lparr>mc_info := (mc_info conn)\<lparr>mi_production := production\<rparr>\<rparr>))"

section \<open>News for one user\<close>

definition publish :: "ident \<Rightarrow> browser_event \<Rightarrow> hub_op" where
  "publish user_id event = emit [Fx_Event (Some user_id) event]"

definition publish_workspace_group_deleted :: "ident \<Rightarrow> ident \<Rightarrow> ident \<Rightarrow> hub_op" where
  "publish_workspace_group_deleted user_id machine_id group_id =
     publish user_id (Ev_WorkspaceGroupDeleted machine_id group_id)"

definition when_op :: "bool \<Rightarrow> hub_op \<Rightarrow> hub_op" where
  "when_op b m = (if b then m else skip)"

section \<open>Machines come and go\<close>

definition unreachable :: "(ident, terminal_info) hmap \<Rightarrow> terminal_info list" where
  "unreachable terminals = map (\<lambda>t. t\<lparr>ti_reachable := False\<rparr>) (hvals terminals)"

definition stash :: "ident \<Rightarrow> (ident, terminal_info) hmap \<Rightarrow> hub_op" where
  "stash machine_id terminals = when_op (terminals \<noteq> [])
     (quiet (\<lambda>s. s\<lparr>rg_persisted := hput machine_id (unreachable terminals) (rg_persisted s)\<rparr>))"

text \<open>
  The senders of the machine's agent browser requests are dropped in a task of their own; here
  they go at once.
\<close>

definition drop_agent_browsers :: "ident \<Rightarrow> machine_connection \<Rightarrow> hub_op" where
  "drop_agent_browsers machine_id conn =
     and_then (quiet (\<lambda>s. s\<lparr>rg_activity := hretain (\<lambda>(machine, _) _. machine \<noteq> machine_id)
                              (rg_activity s)\<rparr>))
    (and_then (emit (map (\<lambda>browser_id. Fx_Event (mc_user_id conn)
                 (Ev_AgentBrowserDestroyed machine_id browser_id)) (hkeys (mc_agent_browsers conn))))
    (and_then (quiet (\<lambda>s. s\<lparr>rg_streams := streams_destroy_machine machine_id (rg_streams s)\<rparr>))
    (reading (\<lambda>s. hkeys (filter (\<lambda>(_, machine). machine = machine_id) (rg_browser_requests s)))
      (\<lambda>ids. and_then
        (quiet (\<lambda>s. s\<lparr>rg_browser_requests := fold hdel ids (rg_browser_requests s)\<rparr>))
        (each drop_pending ids)))))"

definition new_connection ::
  "ident \<Rightarrow> machine_info \<Rightarrow> ident option \<Rightarrow> ident list \<Rightarrow> machine_connection" where
  "new_connection conn_id info user_id capabilities = \<lparr>mc_conn_id = conn_id, mc_info = info,
     mc_user_id = user_id, mc_terminals = [], mc_latest_stats = None,
     mc_capabilities = capabilities, mc_agent_browsers = [], mc_version = None,
     mc_installed_agents = []\<rparr>"

definition register_machine ::
  "ident \<Rightarrow> machine_info \<Rightarrow> ident option \<Rightarrow> ident list \<Rightarrow> hub_op" where
  "register_machine conn_id info user_id capabilities =
     reading (\<lambda>s. hget (rg_machines s) (mi_id info)) (\<lambda>old.
       and_then (put_conn (mi_id info) (new_connection conn_id info user_id capabilities))
      (and_then (case old of
           None \<Rightarrow> skip
         | Some old_conn \<Rightarrow> and_then (drop_agent_browsers (mi_id info) old_conn)
                              (stash (mi_id info) (mc_terminals old_conn)))
      (emit [Fx_Event user_id (Ev_MachineOnline info)])))"

definition remove_conn :: "ident \<Rightarrow> hub_op" where
  "remove_conn machine_id = quiet (\<lambda>s. s\<lparr>rg_machines := hdel machine_id (rg_machines s)\<rparr>)"

definition disconnect_sessions :: "ms \<Rightarrow> ident \<Rightarrow> hub_op" where
  "disconnect_sessions now machine_id s =
     (let (db, rows) = mark_machine_sessions_disconnected now machine_id (rg_sessions s)
      in (map (\<lambda>row. Fx_Event (Some (sr_user_id row))
                 (Ev_AgentSessionUpdated (session_row_to_info row))) rows,
          s\<lparr>rg_sessions := db\<rparr>))"

definition unregister_machine :: "ms \<Rightarrow> ident \<Rightarrow> ident \<Rightarrow> hub_op" where
  "unregister_machine now machine_id conn_id = on_conn machine_id (\<lambda>conn.
     when_op (mc_conn_id conn = conn_id)
      (and_then (remove_conn machine_id)
      (and_then (drop_agent_browsers machine_id conn)
      (and_then (disconnect_sessions now machine_id)
      (and_then (announcing (end_machine_runs now (mc_user_id conn) machine_id))
      (and_then (emit (map (\<lambda>t. Fx_Event (mc_user_id conn)
                   (Ev_TerminalReachableChanged machine_id (ti_id t) False))
                   (unreachable (mc_terminals conn))))
      (and_then (stash machine_id (mc_terminals conn))
      (emit [Fx_Event (mc_user_id conn) (Ev_MachineOffline machine_id)]))))))))"

text \<open>The answer is whether the machine was this user's.\<close>

definition remove_machine ::
  "ident \<Rightarrow> ident \<Rightarrow> registry \<Rightarrow> bool \<times> effect list \<times> registry" where
  "remove_machine user_id machine_id s =
     (if \<not> db_machine_belongs_to_user s user_id machine_id then (False, [], s)
      else (True, and_then (remove_conn machine_id)
        (and_then (quiet (\<lambda>s. s\<lparr>rg_persisted := hdel machine_id (rg_persisted s),
                     rg_mode := clear_machine_mode user_id machine_id (rg_mode s),
                     rg_db := delete_machine machine_id (rg_db s),
                     rg_sessions := sessions_without_machine machine_id (rg_sessions s)\<rparr>))
        (publish user_id (Ev_MachineRemoved machine_id))) s))"

section \<open>Tabs\<close>

definition prune_auto_tab_if_empty :: "ident option \<Rightarrow> ident \<Rightarrow> ident \<Rightarrow> hub_op" where
  "prune_auto_tab_if_empty user_id machine_id group_id s =
     (case user_id of
        None \<Rightarrow> ([], s)
      | Some user \<Rightarrow>
          if count_active_in_workspace_group (rg_db s) group_id \<noteq> 0 then ([], s)
          else
            let (db, count) = delete_workspace_group_if_auto user machine_id group_id (rg_db s)
            in if 0 < count
               then publish_workspace_group_deleted user machine_id group_id
                      (s\<lparr>rg_db := fst (delete_workspace_layout user machine_id group_id db),
                         rg_sessions := sessions_without_group group_id (rg_sessions s)\<rparr>)
               else ([], s\<lparr>rg_db := db\<rparr>))"

text \<open>Where the terminal is: on the live connection or among those of a machine that is away.\<close>

definition assign_live ::
  "ident \<Rightarrow> ident \<Rightarrow> ident option \<Rightarrow> machine_connection \<Rightarrow> registry
     \<Rightarrow> (terminal_info \<times> ident option \<times> registry) option" where
  "assign_live machine_id terminal_id group_id conn s =
     (case hget (mc_terminals conn) terminal_id of
        None \<Rightarrow> None
      | Some t \<Rightarrow>
          let t' = t\<lparr>ti_workspace_group_id := group_id\<rparr>
          in Some (t', ti_workspace_group_id t, s\<lparr>rg_machines := hput machine_id
               (conn\<lparr>mc_terminals := hput terminal_id t' (mc_terminals conn)\<rparr>) (rg_machines s)\<rparr>))"

fun update_first :: "('a \<Rightarrow> bool) \<Rightarrow> ('a \<Rightarrow> 'a) \<Rightarrow> 'a list \<Rightarrow> 'a list" where
  "update_first P f [] = []"
| "update_first P f (x # xs) = (if P x then f x # xs else x # update_first P f xs)"

definition assign_stashed ::
  "ident \<Rightarrow> ident \<Rightarrow> ident option \<Rightarrow> registry \<Rightarrow> (terminal_info \<times> ident option \<times> registry) option"
where
  "assign_stashed machine_id terminal_id group_id s =
     (case find (\<lambda>t. ti_id t = terminal_id) (stash_of s machine_id) of
        None \<Rightarrow> None
      | Some t \<Rightarrow> Some (t\<lparr>ti_workspace_group_id := group_id\<rparr>, ti_workspace_group_id t,
          s\<lparr>rg_persisted := hput machine_id
              (update_first (\<lambda>t. ti_id t = terminal_id) (\<lambda>t. t\<lparr>ti_workspace_group_id := group_id\<rparr>)
                (stash_of s machine_id)) (rg_persisted s)\<rparr>))"

definition assigned ::
  "ident \<Rightarrow> ident \<Rightarrow> ident \<Rightarrow> ident option \<Rightarrow> registry
     \<Rightarrow> (terminal_info \<times> ident option \<times> registry) option" where
  "assigned user_id machine_id terminal_id group_id s =
     (case hget (rg_machines s) machine_id of
        None \<Rightarrow> assign_stashed machine_id terminal_id group_id s
      | Some conn \<Rightarrow>
          if \<not> connection_visible_to conn user_id then None
          else (case assign_live machine_id terminal_id group_id conn s of
                  Some found \<Rightarrow> Some found
                | None \<Rightarrow> assign_stashed machine_id terminal_id group_id s))"

definition set_terminal_workspace_group ::
  "ms \<Rightarrow> ident \<Rightarrow> ident \<Rightarrow> ident \<Rightarrow> ident option \<Rightarrow> registry
     \<Rightarrow> (string + terminal_info) \<times> effect list \<times> registry" where
  "set_terminal_workspace_group now user_id machine_id terminal_id group_id s =
     (case assigned user_id machine_id terminal_id group_id s of
        None \<Rightarrow> (Inl ''Terminal not found'', [], s)
      | Some (terminal, previous, s1) \<Rightarrow>
          (case insert_terminal now (ti_id terminal) (ti_machine_id terminal) (ti_title terminal)
                  (ti_cwd terminal) (ti_cols terminal) (ti_rows terminal) (rg_db s1) of
             None \<Rightarrow> (Inl ''DB error'', [], s1)
           | Some db1 \<Rightarrow>
               (case assign_workspace_group terminal_id group_id db1 of
                  None \<Rightarrow> (Inl ''DB error'', [], s1\<lparr>rg_db := db1\<rparr>)
                | Some db2 \<Rightarrow>
                    (Inr terminal, and_then
                      (case previous of
                         Some g \<Rightarrow> when_op (Some g \<noteq> group_id)
                                     (prune_auto_tab_if_empty (Some user_id) machine_id g)
                       | None \<Rightarrow> skip)
                      (publish user_id (Ev_TerminalUpdated terminal)) (s1\<lparr>rg_db := db2\<rparr>)))))"

definition ungroup :: "ident \<Rightarrow> terminal_info \<Rightarrow> terminal_info" where
  "ungroup group_id t = (if ti_workspace_group_id t = Some group_id
     then t\<lparr>ti_workspace_group_id := None\<rparr> else t)"

definition ungrouped :: "ident \<Rightarrow> terminal_info list \<Rightarrow> terminal_info list" where
  "ungrouped group_id ts = map (ungroup group_id)
     (filter (\<lambda>t. ti_workspace_group_id t = Some group_id) ts)"

definition clear_workspace_group_assignments :: "ident \<Rightarrow> ident \<Rightarrow> ident \<Rightarrow> hub_op" where
  "clear_workspace_group_assignments user_id machine_id group_id =
     reading (\<lambda>s. (case hget (rg_machines s) machine_id of
                      Some conn \<Rightarrow> if connection_visible_to conn user_id
                                   then ungrouped group_id (hvals (mc_terminals conn)) else []
                    | None \<Rightarrow> []) @ ungrouped group_id (stash_of s machine_id)) (\<lambda>updated.
       and_then (on_conn machine_id (\<lambda>conn. when_op (connection_visible_to conn user_id)
         (put_conn machine_id (conn\<lparr>mc_terminals := hmapv (ungroup group_id) (mc_terminals conn)\<rparr>))))
      (and_then (quiet (\<lambda>s. if hhas (rg_persisted s) machine_id
           then s\<lparr>rg_persisted := hput machine_id (map (ungroup group_id) (stash_of s machine_id))
                    (rg_persisted s)\<rparr> else s))
       (each (\<lambda>t. publish user_id (Ev_TerminalUpdated t)) updated)))"

section \<open>Messages to nodes\<close>

text \<open>
  \<open>accepts\<close> says whether the machine's command channel still takes a message; its receiver can
  be gone before the machine is unregistered.
\<close>

definition send_to_machine ::
  "bool \<Rightarrow> ident \<Rightarrow> hub_to_machine \<Rightarrow> registry \<Rightarrow> (ustr + unit) \<times> effect list" where
  "send_to_machine accepts machine_id msg s =
     (if \<not> hhas (rg_machines s) machine_id
      then (Inl (lit (''Machine '' @ machine_id @ '' not found'')), [])
      else if \<not> accepts then (Inl (lit ''Machine disconnected''), [])
      else (Inr (), [Fx_Send machine_id msg]))"

definition destroy_terminal ::
  "bool \<Rightarrow> ident \<Rightarrow> ident \<Rightarrow> registry \<Rightarrow> (ustr + unit) \<times> effect list" where
  "destroy_terminal accepts machine_id terminal_id =
     send_to_machine accepts machine_id (H2M_DestroyTerminal terminal_id)"

definition put_terminal :: "ident \<Rightarrow> machine_connection \<Rightarrow> ident \<Rightarrow> terminal_info \<Rightarrow> hub_op" where
  "put_terminal machine_id conn terminal_id t =
     put_conn machine_id (conn\<lparr>mc_terminals := hput terminal_id t (mc_terminals conn)\<rparr>)"

definition on_terminal ::
  "ident \<Rightarrow> ident \<Rightarrow> (machine_connection \<Rightarrow> terminal_info \<Rightarrow> hub_op) \<Rightarrow> hub_op" where
  "on_terminal machine_id terminal_id f = on_conn machine_id (\<lambda>conn.
     case hget (mc_terminals conn) terminal_id of None \<Rightarrow> skip | Some t \<Rightarrow> f conn t)"

definition resize_terminal :: "ident \<Rightarrow> ident \<Rightarrow> u16 \<Rightarrow> u16 \<Rightarrow> hub_op" where
  "resize_terminal machine_id terminal_id cols rows =
     on_terminal machine_id terminal_id (\<lambda>conn t.
       let t' = t\<lparr>ti_cols := cols, ti_rows := rows\<rparr> in
       and_then (put_terminal machine_id conn terminal_id t')
      (and_then (on_db (update_size terminal_id cols rows))
       (emit [Fx_Event (mc_user_id conn) (Ev_TerminalResized t')])))"

definition apply_optimistic_resize :: "ident \<Rightarrow> ident \<Rightarrow> u16 \<Rightarrow> u16 \<Rightarrow> hub_op" where
  "apply_optimistic_resize = resize_terminal"

end
