(* ===== verification/HubMessages.thy ===== *)
theory HubMessages
  imports Registry
begin

text \<open>
  What a node tells the hub (\<^verbatim>\<open>MachineManager::handle_machine_message\<close> of
  \<^verbatim>\<open>crates/hub/src/machine_manager.rs\<close>): terminals created, renamed, resized and gone, the full
  list after a reconnect, agent sessions, agent browsers, and the answers to waiting requests.
\<close>

section \<open>Terminals\<close>

definition created_terminal ::
  "ident \<Rightarrow> ident \<Rightarrow> ustr \<Rightarrow> ustr \<Rightarrow> u16 \<Rightarrow> u16 \<Rightarrow> terminal_opener option \<Rightarrow> terminal_info" where
  "created_terminal machine_id terminal_id title cwd cols rows opened_by =
     \<lparr>ti_id = terminal_id, ti_machine_id = machine_id, ti_title = title, ti_cwd = cwd,
      ti_title_source = Src_None, ti_workspace_group_id = None, ti_cols = cols, ti_rows = rows,
      ti_reachable = True, ti_attention = None, ti_opened_by = opened_by,
      ti_last_activity_ms = None\<rparr>"

text \<open>A statement that fails is logged and changes nothing.\<close>

definition try_db :: "(database \<Rightarrow> database option) \<Rightarrow> hub_op" where
  "try_db f = on_db (\<lambda>db. case f db of None \<Rightarrow> db | Some db' \<Rightarrow> db')"

definition terminal_created ::
  "ms \<Rightarrow> ident \<Rightarrow> ident \<Rightarrow> ident \<Rightarrow> ustr \<Rightarrow> ustr \<Rightarrow> u16 \<Rightarrow> u16 \<Rightarrow> hub_op" where
  "terminal_created now machine_id request_id terminal_id title cwd cols rows =
     reading (\<lambda>s. hget (rg_openers s) request_id) (\<lambda>opened_by.
       and_then (on_conn machine_id (\<lambda>conn.
         let t = created_terminal machine_id terminal_id title cwd cols rows opened_by in
         and_then (put_terminal machine_id conn terminal_id t)
           (emit [Fx_Event (mc_user_id conn) (Ev_TerminalCreated t)])))
      (and_then (try_db (insert_terminal now terminal_id machine_id title cwd cols rows))
      (and_then (case opened_by of None \<Rightarrow> skip
                 | Some opener \<Rightarrow> on_db (set_opened_by terminal_id opener))
       (resolve_pending request_id (Inr (Res_TerminalCreated terminal_id title cwd cols rows))))))"

definition prune_tab_of :: "ident option \<Rightarrow> ident \<Rightarrow> ident option \<Rightarrow> hub_op" where
  "prune_tab_of user_id machine_id group_id =
     (case group_id of None \<Rightarrow> skip | Some g \<Rightarrow> prune_auto_tab_if_empty user_id machine_id g)"

definition group_of_terminal :: "machine_connection \<Rightarrow> ident \<Rightarrow> ident option" where
  "group_of_terminal conn terminal_id =
     (case hget (mc_terminals conn) terminal_id of
        None \<Rightarrow> None | Some t \<Rightarrow> ti_workspace_group_id t)"

definition forget_terminal :: "ident \<Rightarrow> machine_connection \<Rightarrow> ident \<Rightarrow> hub_op" where
  "forget_terminal machine_id conn terminal_id =
     put_conn machine_id (conn\<lparr>mc_terminals := hdel terminal_id (mc_terminals conn)\<rparr>)"

text \<open>What follows once a terminal's row is closed: its tab, its run, the news.\<close>

definition terminal_gone ::
  "ms \<Rightarrow> ident option \<Rightarrow> ident \<Rightarrow> ident \<Rightarrow> ident option \<Rightarrow> hub_op" where
  "terminal_gone now user_id machine_id terminal_id group_id =
     and_then (prune_tab_of user_id machine_id group_id)
    (and_then (announcing (end_terminal_runs now user_id terminal_id))
     (emit [Fx_Event user_id (Ev_TerminalDestroyed machine_id terminal_id)]))"

definition terminal_destroyed :: "ms \<Rightarrow> ident \<Rightarrow> ident \<Rightarrow> hub_op" where
  "terminal_destroyed now machine_id terminal_id = on_conn machine_id (\<lambda>conn.
     and_then (forget_terminal machine_id conn terminal_id)
    (and_then (on_db (mark_destroyed now terminal_id))
     (terminal_gone now (mc_user_id conn) machine_id terminal_id
        (group_of_terminal conn terminal_id))))"

definition handle_terminal_destroyed_internal :: "ms \<Rightarrow> ident \<Rightarrow> ident \<Rightarrow> hub_op" where
  "handle_terminal_destroyed_internal now machine_id terminal_id =
     reading (\<lambda>s. hget (rg_machines s) machine_id) (\<lambda>found.
       case found of
         None \<Rightarrow> terminal_gone now None machine_id terminal_id None
       | Some conn \<Rightarrow>
           and_then (forget_terminal machine_id conn terminal_id)
          (and_then (on_db (mark_destroyed now terminal_id))
           (terminal_gone now (mc_user_id conn) machine_id terminal_id
              (group_of_terminal conn terminal_id))))"

definition renames_session :: "terminal_info \<Rightarrow> ustr \<Rightarrow> terminal_title_source \<Rightarrow> bool" where
  "renames_session t title src \<longleftrightarrow>
     src = Src_Osc \<and> session_title (ti_title t) \<noteq> session_title title"

definition terminal_title ::
  "ident \<Rightarrow> ident \<Rightarrow> ustr \<Rightarrow> terminal_title_source \<Rightarrow> hub_op" where
  "terminal_title machine_id terminal_id title src s =
     (let (db, outcome) = apply_title_update terminal_id title src (rg_db s) in
      if outcome \<noteq> Title_Updated then ([], s\<lparr>rg_db := db\<rparr>)
      else on_terminal machine_id terminal_id (\<lambda>conn t.
             let t' = t\<lparr>ti_title := title, ti_title_source := src\<rparr> in
             and_then (put_terminal machine_id conn terminal_id t')
            (and_then (emit [Fx_Event (mc_user_id conn) (Ev_TerminalUpdated t')])
             (when_op (renames_session t title src)
                (announcing (on_terminal_title (mc_user_id conn) terminal_id)))))
           (s\<lparr>rg_db := db\<rparr>))"

definition terminal_attention_changed ::
  "ms \<Rightarrow> ident \<Rightarrow> ident \<Rightarrow> ident \<Rightarrow> terminal_attention option \<Rightarrow> hub_op" where
  "terminal_attention_changed now new_req machine_id terminal_id attention =
     on_terminal machine_id terminal_id (\<lambda>conn t.
       when_op (ti_attention t \<noteq> attention)
        (let t' = t\<lparr>ti_attention := attention\<rparr> in
         and_then (put_terminal machine_id conn terminal_id t')
        (and_then (emit [Fx_Event (mc_user_id conn) (Ev_TerminalUpdated t')])
         (announcing (on_run_attention now new_req (mc_user_id conn) terminal_id attention)))))"

definition terminal_activity :: "ident \<Rightarrow> ident \<Rightarrow> ms \<Rightarrow> hub_op" where
  "terminal_activity machine_id terminal_id at_ms =
     on_terminal machine_id terminal_id (\<lambda>conn t.
       when_op (ti_last_activity_ms t \<noteq> Some at_ms)
        (let t' = t\<lparr>ti_last_activity_ms := Some at_ms\<rparr> in
         and_then (put_terminal machine_id conn terminal_id t')
           (emit [Fx_Event (mc_user_id conn) (Ev_TerminalUpdated t')])))"

definition terminal_view_of :: "registry \<Rightarrow> ident \<Rightarrow> ident \<Rightarrow> terminal_view option" where
  "terminal_view_of s machine_id terminal_id =
     (case hget (rg_machines s) machine_id of
        None \<Rightarrow> None
      | Some conn \<Rightarrow> map_option (\<lambda>t. \<lparr>tv_user_id = mc_user_id conn, tv_cwd = ti_cwd t,
          tv_attention = ti_attention t\<rparr>) (hget (mc_terminals conn) terminal_id))"

definition terminal_agent ::
  "ms \<Rightarrow> ident \<Rightarrow> ident \<Rightarrow> ident \<Rightarrow> ident \<Rightarrow> run_agent option \<Rightarrow> hub_op" where
  "terminal_agent now new_run new_req machine_id terminal_id agent =
     reading (\<lambda>s. terminal_view_of s machine_id terminal_id) (\<lambda>view.
       announcing (on_terminal_agent now new_run new_req view machine_id terminal_id agent))"

definition agent_signal ::
  "ms \<Rightarrow> ident \<Rightarrow> ident \<Rightarrow> ident \<Rightarrow> ident \<Rightarrow> run_agent option \<Rightarrow> ident \<Rightarrow> agent_signal \<Rightarrow> hub_op"
where
  "agent_signal now new_run new_req machine_id terminal_id agent source signal =
     reading (\<lambda>s. terminal_view_of s machine_id terminal_id) (\<lambda>view.
       announcing (on_agent_signal now new_run new_req view machine_id terminal_id agent source
         signal))"

definition terminal_cwd :: "ident \<Rightarrow> ident \<Rightarrow> ustr \<Rightarrow> hub_op" where
  "terminal_cwd machine_id terminal_id cwd s =
     (let (db, updated) = apply_cwd_update terminal_id cwd (rg_db s) in
      when_op updated (on_terminal machine_id terminal_id (\<lambda>conn t.
        let t' = t\<lparr>ti_cwd := cwd\<rparr> in
        and_then (put_terminal machine_id conn terminal_id t')
          (emit [Fx_Event (mc_user_id conn) (Ev_TerminalUpdated t')])))
        (s\<lparr>rg_db := db\<rparr>))"

section \<open>The full list after a reconnect\<close>

text \<open>
  What the hub keeps of a reported terminal: the tab, title and opener of the stash, or else
  of the stored row.
\<close>

definition adopted :: "(ident, terminal_info) hmap \<Rightarrow> database \<Rightarrow> terminal_info \<Rightarrow> terminal_info" where
  "adopted persisted db t =
     (case hget persisted (ti_id t) of
        Some p \<Rightarrow> t\<lparr>ti_workspace_group_id := ti_workspace_group_id p, ti_title := ti_title p,
                    ti_title_source := ti_title_source p, ti_opened_by := ti_opened_by p\<rparr>
      | None \<Rightarrow>
          (case find_by_id db (ti_id t) of
             None \<Rightarrow> t
           | Some row \<Rightarrow> t\<lparr>ti_title := ts_title row,
               ti_title_source := title_source_from_name (ts_title_source row),
               ti_workspace_group_id := ts_workspace_group_id row,
               ti_opened_by := opener_from_row row\<rparr>))"

definition report_terminal ::
  "ms \<Rightarrow> ident \<Rightarrow> (ident, terminal_info) hmap \<Rightarrow> terminal_info \<Rightarrow> hub_op" where
  "report_terminal now machine_id persisted reported = on_conn machine_id (\<lambda>conn.
     reading rg_db (\<lambda>db.
       let t = adopted persisted db reported in
       and_then (put_terminal machine_id conn (ti_id t) t)
         (if hhas persisted (ti_id t)
          then and_then
            (on_db (update_metadata (ti_id t) (ti_title t) (ti_cwd t) (ti_cols t) (ti_rows t)))
            (emit [Fx_Event (mc_user_id conn) (Ev_TerminalReachableChanged machine_id (ti_id t) True)])
          else and_then
            (try_db (insert_terminal now (ti_id t) machine_id (ti_title t) (ti_cwd t) (ti_cols t)
               (ti_rows t)))
            (emit [Fx_Event (mc_user_id conn) (Ev_TerminalCreated t)]))))"

definition bury_terminal :: "ms \<Rightarrow> ident option \<Rightarrow> ident \<Rightarrow> terminal_info \<Rightarrow> hub_op" where
  "bury_terminal now user_id machine_id old =
     and_then (on_db (mark_destroyed now (ti_id old)))
       (terminal_gone now user_id machine_id (ti_id old) (ti_workspace_group_id old))"

definition by_id :: "terminal_info list \<Rightarrow> (ident, terminal_info) hmap" where
  "by_id ts = fold (\<lambda>t. hput (ti_id t) t) ts []"

definition existing_terminals :: "ms \<Rightarrow> ident \<Rightarrow> terminal_info list \<Rightarrow> hub_op" where
  "existing_terminals now machine_id terminals =
     reading (\<lambda>s. stash_of s machine_id) (\<lambda>persisted.
       and_then (quiet (\<lambda>s. s\<lparr>rg_persisted := hdel machine_id (rg_persisted s)\<rparr>))
       (on_conn machine_id (\<lambda>conn.
          and_then (each (report_terminal now machine_id (by_id persisted)) terminals)
            (each (bury_terminal now (mc_user_id conn) machine_id)
              (filter (\<lambda>t. ti_id t \<notin> ti_id ` set terminals) persisted)))))"

section \<open>Agent sessions\<close>

definition announce_session :: "ident \<Rightarrow> hub_op" where
  "announce_session session_id = reading (\<lambda>s. find_session session_id (rg_sessions s))
     (\<lambda>found. case found of
        None \<Rightarrow> skip
      | Some row \<Rightarrow> emit [Fx_Event (Some (sr_user_id row))
          (Ev_AgentSessionUpdated (session_row_to_info row))])"

definition on_sessions :: "(session_db \<Rightarrow> session_db) \<Rightarrow> hub_op" where
  "on_sessions f = quiet (\<lambda>s. s\<lparr>rg_sessions := f (rg_sessions s)\<rparr>)"

definition agent_session_update ::
  "ms \<Rightarrow> ident \<Rightarrow> agent_session_status option \<Rightarrow> ustr option \<Rightarrow> ident option
     \<Rightarrow> agent_model_info list option \<Rightarrow> ident option \<Rightarrow> hub_op" where
  "agent_session_update now session_id status title acp models model =
     and_then (on_sessions (apply_update now session_id status title acp models model))
       (announce_session session_id)"

definition agent_session_exited :: "ms \<Rightarrow> ident \<Rightarrow> hub_op" where
  "agent_session_exited now session_id =
     and_then (on_sessions (set_session_status now session_id Sess_Disconnected))
       (announce_session session_id)"

definition agent_session_event :: "ms \<Rightarrow> ident \<Rightarrow> nat \<Rightarrow> agent_event \<Rightarrow> hub_op" where
  "agent_session_event now session_id sq event s =
     (case find_session session_id (rg_sessions s) of
        None \<Rightarrow> ([], s)
      | Some row \<Rightarrow>
          if sq \<le> seq_of_i64 (sr_last_event_seq row) then ([], s)
          else (case insert_session_event now session_id sq event (rg_sessions s) of
                  None \<Rightarrow> ([], s)
                | Some db \<Rightarrow> ([Fx_Event (Some (sr_user_id row))
                      (Ev_AgentSessionEvent session_id sq event)],
                    s\<lparr>rg_sessions := bump_last_event_seq now session_id sq db\<rparr>)))"

section \<open>Agent browsers\<close>

definition forget_activity :: "ident \<Rightarrow> ident \<Rightarrow> hub_op" where
  "forget_activity machine_id browser_id =
     quiet (\<lambda>s. s\<lparr>rg_activity := hdel (machine_id, browser_id) (rg_activity s)\<rparr>)"

text \<open>Who drives the page is the hub's: whatever the node reports, what is known stays.\<close>

definition keep_control :: "agent_browser_info \<Rightarrow> agent_browser_info \<Rightarrow> agent_browser_info" where
  "keep_control known browser = browser\<lparr>ab_controller := ab_controller known,
     ab_controller_device_id := ab_controller_device_id known,
     ab_controller_since := ab_controller_since known, ab_handoff := ab_handoff known,
     ab_reclaimed := ab_reclaimed known\<rparr>"

definition upsert_agent_browser :: "ident \<Rightarrow> agent_browser_info \<Rightarrow> hub_op" where
  "upsert_agent_browser machine_id reported = on_conn machine_id (\<lambda>conn.
     let known = hget (mc_agent_browsers conn) (ab_id reported);
         named = reported\<lparr>ab_machine_id := Some machine_id\<rparr>;
         browser = (case known of None \<Rightarrow> named | Some k \<Rightarrow> keep_control k named)
     in and_then (put_conn machine_id
          (conn\<lparr>mc_agent_browsers := hput (ab_id browser) browser (mc_agent_browsers conn)\<rparr>))
        (if known = Some browser then skip
         else emit [Fx_Event (mc_user_id conn)
           (case known of None \<Rightarrow> Ev_AgentBrowserCreated browser
                        | Some _ \<Rightarrow> Ev_AgentBrowserUpdated browser)]))"

fun node_message :: "ident \<Rightarrow> node_action \<Rightarrow> hub_to_machine" where
  "node_message browser_id (Act_Start p epoch) = H2M_AgentBrowserScreencastStart browser_id
     (pa_max_width p) (pa_max_height p) (pa_quality p) epoch"
| "node_message browser_id (Act_Stop epoch) = H2M_AgentBrowserScreencastStop browser_id epoch"
| "node_message browser_id Act_Ack = H2M_AgentBrowserFrameAck browser_id"

text \<open>What \<^verbatim>\<open>send_to_machine\<close> answers is ignored here.\<close>

definition send_node_actions :: "ident \<Rightarrow> ident \<Rightarrow> node_action list \<Rightarrow> hub_op" where
  "send_node_actions machine_id browser_id actions = on_conn machine_id (\<lambda>_.
     emit (map (\<lambda>a. Fx_Send machine_id (node_message browser_id a)) actions))"

definition agent_browser_destroyed :: "ident \<Rightarrow> ident \<Rightarrow> hub_op" where
  "agent_browser_destroyed machine_id browser_id =
     and_then (forget_activity machine_id browser_id)
    (and_then (on_conn machine_id (\<lambda>conn.
       when_op (hhas (mc_agent_browsers conn) browser_id)
        (and_then (put_conn machine_id
           (conn\<lparr>mc_agent_browsers := hdel browser_id (mc_agent_browsers conn)\<rparr>))
         (emit [Fx_Event (mc_user_id conn) (Ev_AgentBrowserDestroyed machine_id browser_id)]))))
     (quiet (\<lambda>s. s\<lparr>rg_streams := streams_destroy machine_id browser_id (rg_streams s)\<rparr>)))"

definition resync_streams :: "ident \<Rightarrow> ident list \<Rightarrow> hub_op" where
  "resync_streams machine_id ids s =
     (let (streams, actions) = streams_resync_machine machine_id (\<lambda>b. b \<in> set ids) (rg_streams s)
      in each (\<lambda>(browser_id, action). send_node_actions machine_id browser_id [action]) actions
           (s\<lparr>rg_streams := streams\<rparr>))"

definition replace_agent_browsers :: "ident \<Rightarrow> agent_browser_info list \<Rightarrow> hub_op" where
  "replace_agent_browsers machine_id browsers = on_conn machine_id (\<lambda>conn.
     let ids = map ab_id browsers;
         gone = filter (\<lambda>b. b \<notin> set ids) (hkeys (mc_agent_browsers conn))
     in and_then (put_conn machine_id
          (conn\<lparr>mc_agent_browsers := fold hdel gone (mc_agent_browsers conn)\<rparr>))
       (and_then (each (forget_activity machine_id) gone)
       (and_then (emit (map (\<lambda>b. Fx_Event (mc_user_id conn) (Ev_AgentBrowserDestroyed machine_id b))
                   gone))
       (and_then (each (upsert_agent_browser machine_id) browsers)
        (resync_streams machine_id ids)))))"

section \<open>One message\<close>

definition EMPTY_OBJECT :: json where
  "EMPTY_OBJECT = lit ''{}''"

definition resource_stats_report :: "ident \<Rightarrow> resource_stats \<Rightarrow> hub_op" where
  "resource_stats_report machine_id stats = on_conn machine_id (\<lambda>conn.
     and_then (put_conn machine_id (conn\<lparr>mc_latest_stats := Some stats\<rparr>))
       (emit [Fx_Event (mc_user_id conn) (Ev_MachineStats machine_id stats)]))"

text \<open>The answers to waiting requests.\<close>

fun reply_of :: "machine_to_hub \<Rightarrow> (ident \<times> (ustr + pending_result)) option" where
  "reply_of (M2H_TerminalCreateError request_id error) = Some (request_id, Inl error)"
| "reply_of (M2H_FsListResult request_id entries) = Some (request_id, Inr (Res_FsList entries))"
| "reply_of (M2H_FsListError request_id error) = Some (request_id, Inl error)"
| "reply_of (M2H_FsReadResult request_id nm path mime sz dat sha) =
     Some (request_id, Inr (Res_FsRead (Inr \<lparr>frd_name = nm, frd_path = path, frd_mime = mime,
       frd_size = sz, frd_data_base64 = dat, frd_sha256 = sha\<rparr>)))"
| "reply_of (M2H_FsReadError request_id code message sz path) =
     Some (request_id, Inr (Res_FsRead (Inl (FsRFail_Machine code message sz path))))"
| "reply_of (M2H_FsWriteResult request_id path sz sha) =
     Some (request_id, Inr (Res_FsWrite (Inr \<lparr>fwd_path = path, fwd_size = sz, fwd_sha256 = sha\<rparr>)))"
| "reply_of (M2H_FsWriteError request_id code message sha) =
     Some (request_id, Inr (Res_FsWrite (Inl (FsWFail_Machine code message sha))))"
| "reply_of (M2H_AttachUploadAck request_id upload_id received) =
     Some (request_id, Inr (Res_Upload (Inr (Reply_Ack upload_id received))))"
| "reply_of (M2H_AttachUploadResult request_id upload_id path sz) =
     Some (request_id, Inr (Res_Upload (Inr (Reply_Done upload_id path sz))))"
| "reply_of (M2H_AttachUploadError request_id upload_id code message) =
     Some (request_id, Inr (Res_Upload (Inl (UpFail_Machine upload_id code message))))"
| "reply_of (M2H_ForegroundProcessResult request_id has process_name) =
     Some (request_id, Inr (Res_ForegroundProcess has process_name))"
| "reply_of (M2H_ComposerResult request_id receipt) = Some (request_id, Inr (Res_Composer receipt))"
| "reply_of (M2H_AgentBrowserResult request_id result error) =
     Some (request_id, Inr (Res_AgentBrowser (case error of
       Some e \<Rightarrow> Inl e
     | None \<Rightarrow> Inr (case result of None \<Rightarrow> EMPTY_OBJECT | Some v \<Rightarrow> v))))"
| "reply_of _ = None"

text \<open>The time of the message and the identifiers it may need.\<close>

record stamp =
  sp_now :: ms
  sp_new_run :: ident
  sp_new_req :: ident

fun handle_machine_message :: "stamp \<Rightarrow> ident \<Rightarrow> machine_to_hub \<Rightarrow> hub_op" where
  "handle_machine_message p m (M2H_Register _ _ _ _ _ _ _) = skip"
| "handle_machine_message p m (M2H_TerminalCreated r t title cwd cols rows) =
     terminal_created (sp_now p) m r t title cwd cols rows"
| "handle_machine_message p m (M2H_TerminalDestroyed t) = terminal_destroyed (sp_now p) m t"
| "handle_machine_message p m (M2H_TerminalTitle t title src) = terminal_title m t title src"
| "handle_machine_message p m (M2H_TerminalAttention t attention) =
     terminal_attention_changed (sp_now p) (sp_new_req p) m t attention"
| "handle_machine_message p m (M2H_TerminalActivity t at_ms) =
     terminal_activity m t at_ms"
| "handle_machine_message p m (M2H_TerminalAgent t agent) =
     terminal_agent (sp_now p) (sp_new_run p) (sp_new_req p) m t agent"
| "handle_machine_message p m (M2H_InstalledAgents agents) =
     on_conn m (\<lambda>conn. put_conn m (conn\<lparr>mc_installed_agents := agents\<rparr>))"
| "handle_machine_message p m (M2H_AgentSignal t agent source signal) =
     agent_signal (sp_now p) (sp_new_run p) (sp_new_req p) m t agent source signal"
| "handle_machine_message p m (M2H_TerminalCwd t cwd) = terminal_cwd m t cwd"
| "handle_machine_message p m (M2H_ExistingTerminals ts) = existing_terminals (sp_now p) m ts"
| "handle_machine_message p m M2H_Pong = skip"
| "handle_machine_message p m (M2H_ResourceStats stats) = resource_stats_report m stats"
| "handle_machine_message p m (M2H_AttachDied _ _) = skip"
| "handle_machine_message p m (M2H_TerminalDied t _) =
     handle_terminal_destroyed_internal (sp_now p) m t"
| "handle_machine_message p m (M2H_TerminalResized t cols rows) = resize_terminal m t cols rows"
| "handle_machine_message p m (M2H_AgentSessionUpdate sid status title acp models model) =
     agent_session_update (sp_now p) sid status title acp models model"
| "handle_machine_message p m (M2H_AgentSessionEvent sid sq event) =
     agent_session_event (sp_now p) sid sq event"
| "handle_machine_message p m (M2H_AgentSessionExited sid _) = agent_session_exited (sp_now p) sid"
| "handle_machine_message p m (M2H_AgentBrowserCreated browser) = upsert_agent_browser m browser"
| "handle_machine_message p m (M2H_AgentBrowserUpdated browser) = upsert_agent_browser m browser"
| "handle_machine_message p m (M2H_AgentBrowserDestroyed b) = agent_browser_destroyed m b"
| "handle_machine_message p m (M2H_ExistingAgentBrowsers browsers) = replace_agent_browsers m browsers"
| "handle_machine_message p m msg =
     (case reply_of msg of None \<Rightarrow> skip | Some (request_id, result) \<Rightarrow>
        resolve_pending request_id result)"

end
