(* ===== verification/BrowserControl.thy ===== *)
theory BrowserControl
  imports HubMessages
begin

text \<open>
  Who drives an agent browser (the control part of \<^verbatim>\<open>crates/hub/src/machine_manager.rs\<close>): a
  person takes the page from their device, the agent reclaims it, a controller whose viewers are
  all gone loses it after a grace period, and input goes to the node only from the device in
  control. Each viewer of a screencast counts for its device.

  A timer is the device whose absence it waits out; its task is a later step
  (\<open>expire_control\<close>) that the scheduler may take once the grace period is over. The times of
  input (\<^verbatim>\<open>Instant\<close>) are milliseconds.
\<close>

section \<open>Looking up\<close>

definition agent_browser_info_of :: "registry \<Rightarrow> ident \<Rightarrow> ident \<Rightarrow> agent_browser_info option" where
  "agent_browser_info_of s machine_id browser_id =
     (case hget (rg_machines s) machine_id of
        None \<Rightarrow> None | Some conn \<Rightarrow> hget (mc_agent_browsers conn) browser_id)"

definition agent_browser_exists :: "registry \<Rightarrow> ident \<Rightarrow> ident \<Rightarrow> bool" where
  "agent_browser_exists s machine_id browser_id \<longleftrightarrow>
     (case hget (rg_machines s) machine_id of
        None \<Rightarrow> False | Some conn \<Rightarrow> hhas (mc_agent_browsers conn) browser_id)"

definition list_agent_browsers_for_user :: "registry \<Rightarrow> ident \<Rightarrow> ident \<Rightarrow> agent_browser_info list" where
  "list_agent_browsers_for_user s user_id machine_id =
     (case hget (rg_machines s) machine_id of
        None \<Rightarrow> []
      | Some conn \<Rightarrow> if connection_visible_to conn user_id then hvals (mc_agent_browsers conn) else [])"

definition overlay_agent_browser_control ::
  "registry \<Rightarrow> ident \<Rightarrow> agent_browser_info list \<Rightarrow> agent_browser_info list" where
  "overlay_agent_browser_control s machine_id infos =
     map (\<lambda>info. case agent_browser_info_of s machine_id (ab_id info) of
                   None \<Rightarrow> info | Some known \<Rightarrow> keep_control known info) infos"

definition device_viewers :: "registry \<Rightarrow> ident \<Rightarrow> ident \<Rightarrow> ident \<Rightarrow> nat" where
  "device_viewers s machine_id browser_id device_id =
     (case hget (rg_viewers s) (machine_id, browser_id) of
        None \<Rightarrow> 0
      | Some devices \<Rightarrow> (case hget devices device_id of None \<Rightarrow> 0 | Some n \<Rightarrow> n))"

section \<open>The release timer\<close>

text \<open>The person in control, when none of their device's viewers is open.\<close>

definition absent_controller :: "registry \<Rightarrow> ident \<Rightarrow> ident \<Rightarrow> ident option" where
  "absent_controller s machine_id browser_id =
     (case agent_browser_info_of s machine_id browser_id of
        None \<Rightarrow> None
      | Some info \<Rightarrow>
          if ab_controller info \<noteq> Ctl_Human then None
          else (case ab_controller_device_id info of
                  None \<Rightarrow> None
                | Some device \<Rightarrow>
                    if device_viewers s machine_id browser_id device = 0 then Some device else None))"

definition reconcile_control_timer :: "ident \<Rightarrow> ident \<Rightarrow> hub_op" where
  "reconcile_control_timer machine_id browser_id = quiet (\<lambda>s.
     case absent_controller s machine_id browser_id of
       None \<Rightarrow> s\<lparr>rg_timers := hdel (machine_id, browser_id) (rg_timers s)\<rparr>
     | Some device \<Rightarrow>
         if hget (rg_timers s) (machine_id, browser_id) = Some device then s
         else s\<lparr>rg_timers := hput (machine_id, browser_id) device
                  (hdel (machine_id, browser_id) (rg_timers s))\<rparr>)"

section \<open>Control changes hands\<close>

datatype control_change = Change_Take ident | Change_Release | Change_Handoff ustr

definition released :: "agent_browser_info \<Rightarrow> agent_browser_info" where
  "released b = b\<lparr>ab_controller := Ctl_Agent, ab_controller_device_id := None,
     ab_controller_since := None, ab_handoff := None\<rparr>"

definition same_controller :: "agent_browser_info \<Rightarrow> ident \<Rightarrow> bool" where
  "same_controller b device \<longleftrightarrow>
     ab_controller b = Ctl_Human \<and> ab_controller_device_id b = Some device"

fun changed_browser :: "ms \<Rightarrow> control_change \<Rightarrow> agent_browser_info \<Rightarrow> agent_browser_info" where
  "changed_browser now (Change_Take device) b = b\<lparr>ab_controller := Ctl_Human,
     ab_controller_device_id := Some device, ab_reclaimed := None,
     ab_controller_since := (if same_controller b device then ab_controller_since b else Some now)\<rparr>"
| "changed_browser now Change_Release b = released b"
| "changed_browser now (Change_Handoff reason) b =
     b\<lparr>ab_handoff := Some \<lparr>ho_reason = reason, ho_requested_at = now\<rparr>\<rparr>"

fun resets_activity :: "control_change \<Rightarrow> agent_browser_info \<Rightarrow> bool" where
  "resets_activity (Change_Take device) b = (\<not> same_controller b device)"
| "resets_activity Change_Release b = True"
| "resets_activity (Change_Handoff _) b = False"

definition put_browser :: "ident \<Rightarrow> machine_connection \<Rightarrow> ident \<Rightarrow> agent_browser_info \<Rightarrow> hub_op" where
  "put_browser machine_id conn browser_id b =
     put_conn machine_id (conn\<lparr>mc_agent_browsers := hput browser_id b (mc_agent_browsers conn)\<rparr>)"

definition browser_news :: "machine_connection \<Rightarrow> agent_browser_info \<Rightarrow> agent_browser_info \<Rightarrow> hub_op" where
  "browser_news conn before after = when_op (after \<noteq> before)
     (emit [Fx_Event (mc_user_id conn) (Ev_AgentBrowserUpdated after)])"

definition found_browser ::
  "registry \<Rightarrow> ident \<Rightarrow> ident \<Rightarrow> (machine_connection \<times> agent_browser_info) option" where
  "found_browser s machine_id browser_id =
     (case hget (rg_machines s) machine_id of
        None \<Rightarrow> None
      | Some conn \<Rightarrow> map_option (Pair conn) (hget (mc_agent_browsers conn) browser_id))"

text \<open>The answer, \<^const>\<open>None\<close> for an unknown browser, with what is sent and the new state.\<close>

type_synonym 'a hub_query = "registry \<Rightarrow> 'a option \<times> effect list \<times> registry"

definition apply_agent_browser_control ::
  "ms \<Rightarrow> ident \<Rightarrow> ident \<Rightarrow> control_change \<Rightarrow> agent_browser_info hub_query" where
  "apply_agent_browser_control now machine_id browser_id change s =
     (case found_browser s machine_id browser_id of
        None \<Rightarrow> (None, [], s)
      | Some (conn, b) \<Rightarrow>
          let b' = changed_browser now change b in
          (Some b', and_then (put_browser machine_id conn browser_id b')
             (and_then (when_op (resets_activity change b) (forget_activity machine_id browser_id))
               (browser_news conn b b')) s))"

definition change_agent_browser_control ::
  "ms \<Rightarrow> ident \<Rightarrow> ident \<Rightarrow> control_change \<Rightarrow> agent_browser_info hub_query" where
  "change_agent_browser_control now machine_id browser_id change s =
     (case apply_agent_browser_control now machine_id browser_id change s of
        (None, es, s1) \<Rightarrow> (None, es, s1)
      | (Some info, es, s1) \<Rightarrow>
          let (fs, s2) = reconcile_control_timer machine_id browser_id s1 in (Some info, es @ fs, s2))"

definition RECLAIM_IDLE :: ms where
  "RECLAIM_IDLE = 30 * 1000"

definition AGENT_BROWSER_CONTROL_GRACE :: ms where
  "AGENT_BROWSER_CONTROL_GRACE = 120 * 1000"

datatype reclaim_outcome = Reclaimed agent_browser_info | UserActive ms

text \<open>How long the agent must still wait, if a person operated the page too recently.\<close>

definition reclaim_wait :: "ms \<Rightarrow> ident \<Rightarrow> ident \<Rightarrow> bool \<Rightarrow> registry \<Rightarrow> ms option" where
  "reclaim_wait now machine_id browser_id force s =
     (if force then None
      else (case hget (rg_activity s) (machine_id, browser_id) of
              None \<Rightarrow> None
            | Some last_at \<Rightarrow>
                if now - last_at < RECLAIM_IDLE then Some (RECLAIM_IDLE - (now - last_at)) else None))"

definition taken_back :: "ms \<Rightarrow> ustr \<Rightarrow> agent_browser_info \<Rightarrow> agent_browser_info" where
  "taken_back now reason b = (released b)\<lparr>ab_reclaimed := Some \<lparr>rc_reason = reason, rc_at = now,
     rc_device_id = ab_controller_device_id b\<rparr>\<rparr>"

definition reclaim_agent_browser_control ::
  "ms \<Rightarrow> ident \<Rightarrow> ident \<Rightarrow> ustr \<Rightarrow> bool \<Rightarrow> reclaim_outcome hub_query" where
  "reclaim_agent_browser_control now machine_id browser_id reason force s =
     (case found_browser s machine_id browser_id of
        None \<Rightarrow> (None, [], s)
      | Some (conn, b) \<Rightarrow>
          if ab_controller b = Ctl_Agent then
            let b' = b\<lparr>ab_handoff := None\<rparr> in
            (Some (Reclaimed b'), and_then (put_browser machine_id conn browser_id b')
               (and_then (browser_news conn b b') (reconcile_control_timer machine_id browser_id)) s)
          else
            (case reclaim_wait now machine_id browser_id force s of
               Some wait \<Rightarrow> (Some (UserActive (wait + 1)), [], s)
             | None \<Rightarrow>
                 let b' = taken_back now reason b in
                 (Some (Reclaimed b'), and_then (put_browser machine_id conn browser_id b')
                    (and_then (forget_activity machine_id browser_id)
                    (and_then (browser_news conn b b')
                      (reconcile_control_timer machine_id browser_id))) s)))"

definition drop_answer :: "'a hub_query \<Rightarrow> hub_op" where
  "drop_answer q s = snd (q s)"

definition expire_control :: "ms \<Rightarrow> ident \<Rightarrow> ident \<Rightarrow> ident \<Rightarrow> hub_op" where
  "expire_control now machine_id browser_id device_id =
     and_then
       (reading (\<lambda>s. (case agent_browser_info_of s machine_id browser_id of
                         None \<Rightarrow> False | Some info \<Rightarrow> same_controller info device_id)
                      \<and> device_viewers s machine_id browser_id device_id = 0)
         (\<lambda>still_absent. when_op still_absent
            (drop_answer (apply_agent_browser_control now machine_id browser_id Change_Release))))
       (quiet (\<lambda>s. if hget (rg_timers s) (machine_id, browser_id) = Some device_id
          then s\<lparr>rg_timers := hdel (machine_id, browser_id) (rg_timers s)\<rparr> else s))"

datatype control_wait = Wait_Agent | Wait_Resolved

definition control_ready :: "control_wait \<Rightarrow> agent_browser_info \<Rightarrow> bool" where
  "control_ready wait_for info \<longleftrightarrow>
     (case wait_for of
        Wait_Agent \<Rightarrow> ab_controller info = Ctl_Agent
      | Wait_Resolved \<Rightarrow> ab_controller info = Ctl_Agent \<and> ab_handoff info = None)"

section \<open>Input\<close>

fun operating :: "agent_browser_input_event \<Rightarrow> bool" where
  "operating (In_Mouse Mouse_Move _ _ _ buttons _ _) = (buttons \<noteq> 0)"
| "operating _ = True"

text \<open>The event goes to the node only if this device is in control; the answer says it went.\<close>

definition agent_browser_input ::
  "bool \<Rightarrow> ms \<Rightarrow> ident \<Rightarrow> ident \<Rightarrow> ident \<Rightarrow> agent_browser_input_event \<Rightarrow> registry
     \<Rightarrow> bool \<times> effect list \<times> registry" where
  "agent_browser_input accepts now machine_id browser_id device_id event s =
     (case sanitized event of
        None \<Rightarrow> (False, [], s)
      | Some event \<Rightarrow>
          (case found_browser s machine_id browser_id of
             None \<Rightarrow> (False, [], s)
           | Some (conn, b) \<Rightarrow>
               if \<not> same_controller b device_id then (False, [], s)
               else (accepts,
                 if accepts then [Fx_Send machine_id (H2M_AgentBrowserInput browser_id event)] else [],
                 if operating event
                 then s\<lparr>rg_activity := hput (machine_id, browser_id) now (rg_activity s)\<rparr> else s)))"

section \<open>Viewers\<close>

record agent_browser_viewer =
  av_machine_id :: ident
  av_browser_id :: ident
  av_id :: nat
  av_device_id :: "ident option"

definition on_streams :: "(streams \<Rightarrow> streams \<times> node_action list) \<Rightarrow> ident \<Rightarrow> ident \<Rightarrow> hub_op" where
  "on_streams f machine_id browser_id s =
     (let (streams, actions) = f (rg_streams s)
      in send_node_actions machine_id browser_id actions (s\<lparr>rg_streams := streams\<rparr>))"

definition agent_browser_frame :: "ident \<Rightarrow> ident \<Rightarrow> frame \<Rightarrow> hub_op" where
  "agent_browser_frame machine_id browser_id fr =
     on_streams (streams_on_frame machine_id browser_id fr) machine_id browser_id"

definition devices_of :: "registry \<Rightarrow> ident \<Rightarrow> ident \<Rightarrow> (ident, nat) hmap" where
  "devices_of s machine_id browser_id =
     (case hget (rg_viewers s) (machine_id, browser_id) of None \<Rightarrow> [] | Some ds \<Rightarrow> ds)"

definition count_viewer :: "ident \<Rightarrow> ident \<Rightarrow> ident \<Rightarrow> hub_op" where
  "count_viewer machine_id browser_id device = quiet (\<lambda>s.
     s\<lparr>rg_viewers := hput (machine_id, browser_id)
        (hput device (device_viewers s machine_id browser_id device + 1)
          (devices_of s machine_id browser_id)) (rg_viewers s)\<rparr>)"

definition attach_agent_browser_viewer ::
  "ident \<Rightarrow> ident \<Rightarrow> params \<Rightarrow> ident option \<Rightarrow> registry
     \<Rightarrow> agent_browser_viewer \<times> effect list \<times> registry" where
  "attach_agent_browser_viewer machine_id browser_id p device_id s =
     (let (streams, vid, actions) = streams_add_viewer machine_id browser_id p (rg_streams s)
      in (\<lparr>av_machine_id = machine_id, av_browser_id = browser_id, av_id = vid,
           av_device_id = device_id\<rparr>,
          and_then (send_node_actions machine_id browser_id actions)
            (case device_id of
               None \<Rightarrow> skip
             | Some device \<Rightarrow> and_then (count_viewer machine_id browser_id device)
                 (reconcile_control_timer machine_id browser_id)) (s\<lparr>rg_streams := streams\<rparr>)))"

definition viewer_drew :: "agent_browser_viewer \<Rightarrow> hub_op" where
  "viewer_drew v = on_streams (streams_viewer_ack (av_machine_id v) (av_browser_id v) (av_id v))
     (av_machine_id v) (av_browser_id v)"

definition viewer_set_params :: "agent_browser_viewer \<Rightarrow> params \<Rightarrow> hub_op" where
  "viewer_set_params v p =
     on_streams (streams_set_params (av_machine_id v) (av_browser_id v) (av_id v) p)
       (av_machine_id v) (av_browser_id v)"

definition uncount :: "ident \<Rightarrow> (ident, nat) hmap \<Rightarrow> (ident, nat) hmap" where
  "uncount device devices =
     (case hget devices device of
        None \<Rightarrow> devices
      | Some n \<Rightarrow> if n - 1 = 0 then hdel device devices else hput device (n - 1) devices)"

definition uncount_viewer :: "ident \<Rightarrow> ident \<Rightarrow> ident \<Rightarrow> hub_op" where
  "uncount_viewer machine_id browser_id device = quiet (\<lambda>s.
     case hget (rg_viewers s) (machine_id, browser_id) of
       None \<Rightarrow> s
     | Some devices \<Rightarrow>
         let devices' = uncount device devices in
         s\<lparr>rg_viewers := (if devices' = [] then hdel (machine_id, browser_id) (rg_viewers s)
             else hput (machine_id, browser_id) devices' (rg_viewers s))\<rparr>)"

text \<open>Dropping a viewer; the tasks it spawns run at once.\<close>

definition drop_viewer :: "agent_browser_viewer \<Rightarrow> hub_op" where
  "drop_viewer v =
     and_then (case av_device_id v of
         None \<Rightarrow> skip
       | Some device \<Rightarrow> and_then (uncount_viewer (av_machine_id v) (av_browser_id v) device)
           (reconcile_control_timer (av_machine_id v) (av_browser_id v)))
       (on_streams (streams_remove_viewer (av_machine_id v) (av_browser_id v) (av_id v))
         (av_machine_id v) (av_browser_id v))"

end
