(* ===== verification/Requests.thy ===== *)
theory Requests
  imports BrowserControl
begin

text \<open>
  Requests the hub sends to a node and waits for (\<^verbatim>\<open>create_terminal_with\<close>,
  \<^verbatim>\<open>check_foreground_process\<close>, \<^verbatim>\<open>read_file\<close>, \<^verbatim>\<open>write_file\<close>, the upload steps, \<^verbatim>\<open>list_directory\<close>,
  \<^verbatim>\<open>submit_composer\<close> and \<^verbatim>\<open>agent_browser\<close> of \<^verbatim>\<open>crates/hub/src/machine_manager.rs\<close>).

  Each is two steps: the request is registered and sent, or fails at once; and its wait ends, by
  an answer, by its sender being dropped, or by the time running out. The steps of a request are
  separate so that others run in between.
\<close>

section \<open>Sending and waiting\<close>

datatype send_failure = Send_NoMachine | Send_Disconnected

datatype wait_end = Wait_Answered "ustr + pending_result" | Wait_Dropped | Wait_TimedOut

text \<open>Registered first; taken out again when it cannot be sent.\<close>

definition send_request ::
  "bool \<Rightarrow> ident \<Rightarrow> ident \<Rightarrow> hub_to_machine \<Rightarrow> registry
     \<Rightarrow> send_failure option \<times> effect list \<times> registry" where
  "send_request accepts request_id machine_id msg s =
     (let s1 = snd (register_pending request_id s) in
      if \<not> hhas (rg_machines s1) machine_id
      then (Some Send_NoMachine, remove_pending request_id s1)
      else if \<not> accepts then (Some Send_Disconnected, remove_pending request_id s1)
      else (None, [Fx_Send machine_id msg], s1))"

text \<open>An answered request is gone from the map; the other two ends remove it.\<close>

definition end_wait :: "ident \<Rightarrow> wait_end \<Rightarrow> hub_op" where
  "end_wait request_id e =
     (case e of Wait_Answered _ \<Rightarrow> skip | _ \<Rightarrow> remove_pending request_id)"

section \<open>Terminals\<close>

definition machine_not_found :: "ident \<Rightarrow> ustr" where
  "machine_not_found machine_id = lit (''Machine '' @ machine_id @ '' not found'')"

definition refused_text :: "ident \<Rightarrow> send_failure \<Rightarrow> ustr" where
  "refused_text machine_id f =
     (case f of Send_NoMachine \<Rightarrow> machine_not_found machine_id
      | Send_Disconnected \<Rightarrow> lit ''Machine disconnected'')"

definition ended_text :: "string \<Rightarrow> wait_end \<Rightarrow> ustr + pending_result" where
  "ended_text timeout e =
     (case e of Wait_Answered result \<Rightarrow> result | Wait_Dropped \<Rightarrow> Inl (lit ''Machine disconnected'')
      | Wait_TimedOut \<Rightarrow> Inl (lit timeout))"

definition forget_opener :: "ident \<Rightarrow> hub_op" where
  "forget_opener request_id = quiet (\<lambda>s. s\<lparr>rg_openers := hdel request_id (rg_openers s)\<rparr>)"

definition note_opener :: "ident \<Rightarrow> terminal_opener option \<Rightarrow> hub_op" where
  "note_opener request_id opened_by =
     (case opened_by of None \<Rightarrow> skip
      | Some opener \<Rightarrow> quiet (\<lambda>s. s\<lparr>rg_openers := hput request_id opener (rg_openers s)\<rparr>))"

text \<open>\<^verbatim>\<open>create_terminal_with\<close> up to the wait, and from its end.\<close>

definition create_terminal_send ::
  "bool \<Rightarrow> ident \<Rightarrow> ident \<Rightarrow> ustr \<Rightarrow> u16 \<times> u16 \<Rightarrow> ustr option \<Rightarrow> terminal_opener option
     \<Rightarrow> agent_start option \<Rightarrow> registry \<Rightarrow> ustr option \<times> effect list \<times> registry" where
  "create_terminal_send accepts request_id machine_id cwd dims startup opened_by start s =
     (let (_, s1) = note_opener request_id opened_by s in
      case send_request accepts request_id machine_id
             (H2M_CreateTerminal request_id cwd (fst dims) (snd dims) startup start) s1 of
        (None, es, s2) \<Rightarrow> (None, es, s2)
      | (Some f, es, s2) \<Rightarrow>
          (Some (refused_text machine_id f), es,
           snd (forget_opener request_id s2)))"

definition create_terminal_end ::
  "ident \<Rightarrow> ident \<Rightarrow> terminal_opener option \<Rightarrow> wait_end \<Rightarrow> registry
     \<Rightarrow> (ustr + terminal_info) \<times> effect list \<times> registry" where
  "create_terminal_end request_id machine_id opened_by e s =
     ((case ended_text ''Timeout waiting for terminal creation'' e of
         Inl err \<Rightarrow> Inl err
       | Inr (Res_TerminalCreated tid title cwd cols rows) \<Rightarrow>
           Inr (created_terminal machine_id tid title cwd cols rows opened_by)
       | Inr _ \<Rightarrow> Inl (lit ''Unexpected response'')),
      and_then (end_wait request_id e) (forget_opener request_id) s)"

definition check_foreground_send ::
  "bool \<Rightarrow> ident \<Rightarrow> ident \<Rightarrow> ident \<Rightarrow> registry \<Rightarrow> ustr option \<times> effect list \<times> registry" where
  "check_foreground_send accepts request_id machine_id terminal_id s =
     (case send_request accepts request_id machine_id
             (H2M_CheckForegroundProcess request_id terminal_id) s of
        (f, es, s1) \<Rightarrow> (map_option (refused_text machine_id) f, es, s1))"

definition check_foreground_end ::
  "ident \<Rightarrow> wait_end \<Rightarrow> registry \<Rightarrow> (ustr + bool \<times> ustr option) \<times> effect list \<times> registry" where
  "check_foreground_end request_id e s =
     ((case ended_text ''Timeout'' e of
         Inl err \<Rightarrow> Inl err
       | Inr (Res_ForegroundProcess has nm) \<Rightarrow> Inr (has, nm)
       | Inr _ \<Rightarrow> Inl (lit ''Unexpected response'')), end_wait request_id e s)"

section \<open>Files\<close>

definition list_directory_send ::
  "bool \<Rightarrow> ident \<Rightarrow> ident \<Rightarrow> ustr \<Rightarrow> bool \<Rightarrow> registry \<Rightarrow> ustr option \<times> effect list \<times> registry" where
  "list_directory_send accepts request_id machine_id path show_hidden s =
     (case send_request accepts request_id machine_id (H2M_FsListDir request_id path show_hidden) s of
        (f, es, s1) \<Rightarrow> (map_option (refused_text machine_id) f, es, s1))"

definition list_directory_end ::
  "ident \<Rightarrow> wait_end \<Rightarrow> registry \<Rightarrow> (ustr + dir_entry list) \<times> effect list \<times> registry" where
  "list_directory_end request_id e s =
     ((case ended_text ''Timeout'' e of
         Inl err \<Rightarrow> Inl err
       | Inr (Res_FsList entries) \<Rightarrow> Inr entries
       | Inr _ \<Rightarrow> Inl (lit ''Unexpected response'')), end_wait request_id e s)"

definition FS_READ_CAPABILITY :: ident where
  "FS_READ_CAPABILITY = ''fs-read-v1''"

definition FS_WRITE_CAPABILITY :: ident where
  "FS_WRITE_CAPABILITY = ''fs-write-v1''"

definition UPLOAD_CHUNKED_CAPABILITY :: ident where
  "UPLOAD_CHUNKED_CAPABILITY = ''upload-chunked-v1''"

definition read_file_send ::
  "bool \<Rightarrow> ident \<Rightarrow> ident \<Rightarrow> ustr \<Rightarrow> ustr option \<Rightarrow> registry
     \<Rightarrow> fs_read_failure option \<times> effect list \<times> registry" where
  "read_file_send accepts request_id machine_id path cwd s =
     (if \<not> machine_supports s machine_id FS_READ_CAPABILITY
      then (Some (if hhas (rg_machines s) machine_id then FsRFail_Outdated else FsRFail_NoMachine), [], s)
      else (case send_request accepts request_id machine_id (H2M_FsReadFile request_id path cwd) s of
              (f, es, s1) \<Rightarrow> (map_option (\<lambda>f. case f of Send_NoMachine \<Rightarrow> FsRFail_NoMachine
                                 | Send_Disconnected \<Rightarrow> FsRFail_Disconnected) f, es, s1)))"

definition read_file_end ::
  "ident \<Rightarrow> wait_end \<Rightarrow> registry \<Rightarrow> (fs_read_failure + fs_read_data) \<times> effect list \<times> registry" where
  "read_file_end request_id e s =
     ((case e of
         Wait_Answered (Inr (Res_FsRead result)) \<Rightarrow> result
       | Wait_TimedOut \<Rightarrow> Inl FsRFail_Timeout
       | _ \<Rightarrow> Inl FsRFail_Disconnected), end_wait request_id e s)"

definition write_file_send ::
  "bool \<Rightarrow> ident \<Rightarrow> ident \<Rightarrow> ustr \<Rightarrow> ustr \<Rightarrow> ident \<Rightarrow> registry
     \<Rightarrow> fs_write_failure option \<times> effect list \<times> registry" where
  "write_file_send accepts request_id machine_id path data_base64 base_sha256 s =
     (if \<not> machine_supports s machine_id FS_WRITE_CAPABILITY
      then (Some (if hhas (rg_machines s) machine_id then FsWFail_Outdated else FsWFail_NoMachine), [], s)
      else (case send_request accepts request_id machine_id
                  (H2M_FsWriteFile request_id path data_base64 base_sha256) s of
              (f, es, s1) \<Rightarrow> (map_option (\<lambda>f. case f of Send_NoMachine \<Rightarrow> FsWFail_NoMachine
                                 | Send_Disconnected \<Rightarrow> FsWFail_Disconnected) f, es, s1)))"

definition write_file_end ::
  "ident \<Rightarrow> wait_end \<Rightarrow> registry \<Rightarrow> (fs_write_failure + fs_write_data) \<times> effect list \<times> registry" where
  "write_file_end request_id e s =
     ((case e of
         Wait_Answered (Inr (Res_FsWrite result)) \<Rightarrow> result
       | Wait_TimedOut \<Rightarrow> Inl FsWFail_Timeout
       | _ \<Rightarrow> Inl FsWFail_Disconnected), end_wait request_id e s)"

definition supports_chunked_upload :: "registry \<Rightarrow> ident \<Rightarrow> upload_failure option" where
  "supports_chunked_upload s machine_id =
     (if machine_supports s machine_id UPLOAD_CHUNKED_CAPABILITY then None
      else Some (if hhas (rg_machines s) machine_id then UpFail_Outdated else UpFail_NoMachine))"

definition upload_send ::
  "bool \<Rightarrow> ident \<Rightarrow> ident \<Rightarrow> hub_to_machine \<Rightarrow> registry
     \<Rightarrow> upload_failure option \<times> effect list \<times> registry" where
  "upload_send accepts request_id machine_id msg s =
     (case send_request accepts request_id machine_id msg s of
        (f, es, s1) \<Rightarrow> (map_option (\<lambda>f. case f of Send_NoMachine \<Rightarrow> UpFail_NoMachine
                           | Send_Disconnected \<Rightarrow> UpFail_Disconnected) f, es, s1))"

definition upload_await ::
  "ident \<Rightarrow> wait_end \<Rightarrow> registry \<Rightarrow> (upload_failure + upload_reply) \<times> effect list \<times> registry" where
  "upload_await request_id e s =
     ((case e of
         Wait_Answered (Inr (Res_Upload result)) \<Rightarrow> result
       | Wait_TimedOut \<Rightarrow> Inl UpFail_Timeout
       | _ \<Rightarrow> Inl UpFail_Disconnected), end_wait request_id e s)"

section \<open>Composer messages and agent browser commands\<close>

definition submit_composer_send ::
  "bool \<Rightarrow> ident \<Rightarrow> ident \<Rightarrow> ident \<Rightarrow> composer_message \<Rightarrow> registry
     \<Rightarrow> composer_receipt option \<times> effect list \<times> registry" where
  "submit_composer_send accepts request_id machine_id attach_id message s =
     (case send_request accepts request_id machine_id
             (H2M_AttachComposer request_id attach_id message) s of
        (f, es, s1) \<Rightarrow> (map_option (\<lambda>f. \<lparr>cr_id = cm_id message, cr_status = Composer_Failed,
            cr_detail = refused_text machine_id f\<rparr>) f, es, s1))"

definition COMPOSER_UNKNOWN :: ustr where
  "COMPOSER_UNKNOWN = lit ''Delivery could not be confirmed. Check the terminal before sending anything again.''"

text \<open>Here the entry is removed however the wait ended.\<close>

definition submit_composer_end ::
  "ident \<Rightarrow> ident \<Rightarrow> wait_end \<Rightarrow> registry \<Rightarrow> composer_receipt \<times> effect list \<times> registry" where
  "submit_composer_end request_id mid e s =
     (let unknown = \<lparr>cr_id = mid, cr_status = Composer_Unknown, cr_detail = COMPOSER_UNKNOWN\<rparr> in
      (case e of
         Wait_Answered (Inr (Res_Composer receipt)) \<Rightarrow> if cr_id receipt = mid then receipt else unknown
       | _ \<Rightarrow> unknown, remove_pending request_id s))"

datatype agent_browser_error = AB_Offline ustr | AB_Node ustr | AB_Timeout

definition note_browser_request :: "ident \<Rightarrow> ident \<Rightarrow> hub_op" where
  "note_browser_request request_id machine_id =
     quiet (\<lambda>s. s\<lparr>rg_browser_requests := hput request_id machine_id (rg_browser_requests s)\<rparr>)"

definition forget_browser_request :: "ident \<Rightarrow> hub_op" where
  "forget_browser_request request_id =
     quiet (\<lambda>s. s\<lparr>rg_browser_requests := hdel request_id (rg_browser_requests s)\<rparr>)"

definition agent_browser_send ::
  "bool \<Rightarrow> ident \<Rightarrow> ident \<Rightarrow> agent_browser_command \<Rightarrow> registry
     \<Rightarrow> agent_browser_error option \<times> effect list \<times> registry" where
  "agent_browser_send accepts request_id machine_id command s =
     (let (_, s1) = note_browser_request request_id machine_id s in
      case send_request accepts request_id machine_id (H2M_AgentBrowser request_id command) s1 of
        (None, es, s2) \<Rightarrow> (None, es, s2)
      | (Some f, es, s2) \<Rightarrow>
          (Some (AB_Offline (case f of
               Send_NoMachine \<Rightarrow> lit (''Machine '' @ machine_id @ '' is offline'')
             | Send_Disconnected \<Rightarrow> lit ''Machine disconnected'')),
           es,
           snd (forget_browser_request request_id s2)))"

definition agent_browser_end ::
  "ident \<Rightarrow> wait_end \<Rightarrow> registry \<Rightarrow> (agent_browser_error + json) \<times> effect list \<times> registry" where
  "agent_browser_end request_id e s =
     ((case e of
         Wait_Answered (Inr (Res_AgentBrowser (Inr v))) \<Rightarrow> Inr v
       | Wait_Answered (Inr (Res_AgentBrowser (Inl err))) \<Rightarrow> Inl (AB_Node err)
       | Wait_Answered (Inr _) \<Rightarrow> Inl (AB_Node (lit ''Unexpected response''))
       | Wait_Answered (Inl err) \<Rightarrow> Inl (AB_Node err)
       | Wait_Dropped \<Rightarrow> Inl (AB_Offline (lit ''Machine disconnected''))
       | Wait_TimedOut \<Rightarrow> Inl AB_Timeout),
      and_then (end_wait request_id e) (forget_browser_request request_id) s)"

end
