(* ===== verification/HubRules.thy ===== *)
theory HubRules
  imports Requests
begin

text \<open>
  The calls the rest of the hub makes on its machine registry, as one step function, and the
  rules its operations are verified with: from an invariant, what an operation sends satisfies a
  predicate and the new state satisfies the invariant.
\<close>

section \<open>Calls\<close>

datatype hub_call =
    Hub_Message stamp ident machine_to_hub
  | Hub_Register ident machine_info "ident option" "ident list"
  | Hub_Unregister ms ident ident
  | Hub_Remove ident ident
  | Hub_SetGroup ms ident ident ident "ident option"
  | Hub_ClearGroup ident ident ident
  | Hub_SetProduction ident bool
  | Hub_SetVersion ident "ustr option"
  | Hub_Resize ident ident u16 u16
  | Hub_Control ms ident ident control_change
  | Hub_Reclaim ms ident ident ustr bool
  | Hub_Expire ms ident ident ident
  | Hub_Input bool ms ident ident ident agent_browser_input_event
  | Hub_Frame ident ident frame
  | Hub_AttachViewer ident ident params "ident option"
  | Hub_ViewerDrew agent_browser_viewer
  | Hub_ViewerParams agent_browser_viewer params
  | Hub_DropViewer agent_browser_viewer
  | Hub_Create bool ident ident ustr "u16 \<times> u16" "ustr option" "terminal_opener option"
      "agent_start option"
  | Hub_CreateEnd ident ident "terminal_opener option" wait_end
  | Hub_Request bool ident ident hub_to_machine
  | Hub_RequestEnd ident wait_end
  | Hub_Browser bool ident ident agent_browser_command
  | Hub_BrowserEnd ident wait_end

fun exec_hub :: "registry \<Rightarrow> hub_call \<Rightarrow> effect list \<times> registry" where
  "exec_hub s (Hub_Message p m msg) = handle_machine_message p m msg s"
| "exec_hub s (Hub_Register c info user caps) = register_machine c info user caps s"
| "exec_hub s (Hub_Unregister now m c) = unregister_machine now m c s"
| "exec_hub s (Hub_Remove user m) = snd (remove_machine user m s)"
| "exec_hub s (Hub_SetGroup now user m t g) = snd (set_terminal_workspace_group now user m t g s)"
| "exec_hub s (Hub_ClearGroup user m g) = clear_workspace_group_assignments user m g s"
| "exec_hub s (Hub_SetProduction m p) = Registry.set_machine_production m p s"
| "exec_hub s (Hub_SetVersion m v) = set_machine_version m v s"
| "exec_hub s (Hub_Resize m t cols rows) = apply_optimistic_resize m t cols rows s"
| "exec_hub s (Hub_Control now m b change) = snd (change_agent_browser_control now m b change s)"
| "exec_hub s (Hub_Reclaim now m b reason force) =
     snd (reclaim_agent_browser_control now m b reason force s)"
| "exec_hub s (Hub_Expire now m b d) = expire_control now m b d s"
| "exec_hub s (Hub_Input accepts now m b d ev) = snd (agent_browser_input accepts now m b d ev s)"
| "exec_hub s (Hub_Frame m b fr) = agent_browser_frame m b fr s"
| "exec_hub s (Hub_AttachViewer m b p d) = snd (attach_agent_browser_viewer m b p d s)"
| "exec_hub s (Hub_ViewerDrew v) = viewer_drew v s"
| "exec_hub s (Hub_ViewerParams v p) = viewer_set_params v p s"
| "exec_hub s (Hub_DropViewer v) = drop_viewer v s"
| "exec_hub s (Hub_Create accepts r m cwd dims startup opener start) =
     snd (create_terminal_send accepts r m cwd dims startup opener start s)"
| "exec_hub s (Hub_CreateEnd r m opener e) = snd (create_terminal_end r m opener e s)"
| "exec_hub s (Hub_Request accepts r m msg) = snd (send_request accepts r m msg s)"
| "exec_hub s (Hub_RequestEnd r e) = end_wait r e s"
| "exec_hub s (Hub_Browser accepts r m command) = snd (agent_browser_send accepts r m command s)"
| "exec_hub s (Hub_BrowserEnd r e) = snd (agent_browser_end r e s)"

section \<open>Rules\<close>

text \<open>
  From \<open>P\<close>, everything the operation sends satisfies \<open>Q\<close> and the new state satisfies \<open>R\<close>.
\<close>

definition ensures ::
  "(registry \<Rightarrow> bool) \<Rightarrow> hub_op \<Rightarrow> (effect \<Rightarrow> bool) \<Rightarrow> (registry \<Rightarrow> bool) \<Rightarrow> bool" where
  "ensures P m Q R \<longleftrightarrow> (\<forall>s. P s \<longrightarrow> (\<forall>e \<in> set (fst (m s)). Q e) \<and> R (snd (m s)))"

abbreviation sound :: "(registry \<Rightarrow> bool) \<Rightarrow> (effect \<Rightarrow> bool) \<Rightarrow> hub_op \<Rightarrow> bool" where
  "sound I Q m \<equiv> ensures I m Q I"

named_theorems hub_rules "how the combinators of hub operations keep an invariant"

lemma ensuresI:
  "(\<And>s. P s \<Longrightarrow> (\<forall>e \<in> set (fst (m s)). Q e) \<and> R (snd (m s))) \<Longrightarrow> ensures P m Q R"
  by (simp add: ensures_def)

lemma ensuresD:
  "ensures P m Q R \<Longrightarrow> P s \<Longrightarrow> (\<forall>e \<in> set (fst (m s)). Q e) \<and> R (snd (m s))"
  by (simp add: ensures_def)

lemma ensures_pre: "ensures P' m Q R \<Longrightarrow> (\<And>s. P s \<Longrightarrow> P' s) \<Longrightarrow> ensures P m Q R"
  unfolding ensures_def by blast

lemma ensures_skip [hub_rules]: "(\<And>s. P s \<Longrightarrow> R s) \<Longrightarrow> ensures P skip Q R"
  by (simp add: ensures_def skip_def)

lemma ensures_emit [hub_rules]:
  "(\<And>e. e \<in> set es \<Longrightarrow> Q e) \<Longrightarrow> (\<And>s. P s \<Longrightarrow> R s) \<Longrightarrow> ensures P (emit es) Q R"
  by (simp add: ensures_def emit_def)

lemma ensures_quiet: "(\<And>s. P s \<Longrightarrow> R (f s)) \<Longrightarrow> ensures P (quiet f) Q R"
  by (simp add: ensures_def quiet_def)

lemma ensures_seq:
  assumes "ensures P m Q R'" and "ensures R' n Q R"
  shows "ensures P (and_then m n) Q R"
  using assms by (fastforce simp: ensures_def and_then_def Let_def split: prod.splits)

lemma sound_seq: "sound I Q m \<Longrightarrow> sound I Q n \<Longrightarrow> sound I Q (and_then m n)"
  by (rule ensures_seq)

lemma sound_skip: "sound I Q skip"
  by (rule ensures_skip)

lemma sound_emit: "(\<And>e. e \<in> set es \<Longrightarrow> Q e) \<Longrightarrow> sound I Q (emit es)"
  by (rule ensures_emit)

lemma sound_each: "(\<And>x. x \<in> set xs \<Longrightarrow> sound I Q (f x)) \<Longrightarrow> sound I Q (each f xs)"
  by (induction xs) (auto intro: ensures_seq hub_rules)

lemma ensures_reading: "(\<And>s. P s \<Longrightarrow> ensures (\<lambda>s'. s' = s) (m (f s)) Q R) \<Longrightarrow> ensures P (reading f m) Q R"
  by (simp add: ensures_def reading_def)

lemma ensures_when [hub_rules]:
  "(b \<Longrightarrow> ensures P m Q R) \<Longrightarrow> (\<And>s. P s \<Longrightarrow> R s) \<Longrightarrow> ensures P (when_op b m) Q R"
  by (simp add: when_op_def ensures_skip)

lemma ensures_if [hub_rules]:
  "(b \<Longrightarrow> ensures P m Q R) \<Longrightarrow> (\<not> b \<Longrightarrow> ensures P n Q R) \<Longrightarrow> ensures P (if b then m else n) Q R"
  by simp

lemma ensures_option [hub_rules]:
  "(x = None \<Longrightarrow> ensures P m Q R) \<Longrightarrow> (\<And>y. x = Some y \<Longrightarrow> ensures P (f y) Q R)
     \<Longrightarrow> ensures P (case x of None \<Rightarrow> m | Some y \<Rightarrow> f y) Q R"
  by (cases x) auto

lemma sound_when: "(b \<Longrightarrow> sound I Q m) \<Longrightarrow> sound I Q (when_op b m)"
  by (rule ensures_when)

lemma sound_if: "(b \<Longrightarrow> sound I Q m) \<Longrightarrow> (\<not> b \<Longrightarrow> sound I Q n) \<Longrightarrow> sound I Q (if b then m else n)"
  by (rule ensures_if)

lemma sound_option:
  "(x = None \<Longrightarrow> sound I Q m) \<Longrightarrow> (\<And>y. x = Some y \<Longrightarrow> sound I Q (f y))
     \<Longrightarrow> sound I Q (case x of None \<Rightarrow> m | Some y \<Rightarrow> f y)"
  by (rule ensures_option)

text \<open>Inside \<open>on_conn\<close> the connection is the one the state has.\<close>

definition has_conn :: "ident \<Rightarrow> machine_connection \<Rightarrow> registry \<Rightarrow> bool" where
  "has_conn m conn s \<longleftrightarrow> hget (rg_machines s) m = Some conn"

lemma ensures_on_conn:
  assumes "\<And>conn. ensures (\<lambda>s. P s \<and> has_conn m conn s) (f conn) Q R"
    and "\<And>s. P s \<Longrightarrow> hget (rg_machines s) m = None \<Longrightarrow> R s"
  shows "ensures P (on_conn m f) Q R"
proof (rule ensuresI)
  fix s
  assume s: "P s"
  show "(\<forall>e \<in> set (fst (on_conn m f s)). Q e) \<and> R (snd (on_conn m f s))"
  proof (cases "hget (rg_machines s) m")
    case None
    then show ?thesis using assms(2) [OF s] by (simp add: on_conn_def reading_def skip_def)
  next
    case (Some conn)
    then show ?thesis using ensuresD [OF assms(1) [of conn], of s] s
      by (simp add: on_conn_def reading_def has_conn_def)
  qed
qed

lemma ensures_on_terminal:
  assumes "\<And>conn t. hget (mc_terminals conn) tid = Some t \<Longrightarrow>
      ensures (\<lambda>s. P s \<and> has_conn m conn s) (f conn t) Q R"
    and "\<And>s. P s \<Longrightarrow> R s"
  shows "ensures P (on_terminal m tid f) Q R"
  unfolding on_terminal_def
  by (rule ensures_on_conn, rule ensures_option) (auto intro: ensures_skip assms)

lemma ensures_put_conn:
  "(\<And>s. P s \<Longrightarrow> R (s\<lparr>rg_machines := hput m conn (rg_machines s)\<rparr>)) \<Longrightarrow> ensures P (put_conn m conn) Q R"
  unfolding put_conn_def by (rule ensures_quiet)

lemma ensures_on_db:
  "(\<And>s. P s \<Longrightarrow> R (s\<lparr>rg_db := f (rg_db s)\<rparr>)) \<Longrightarrow> ensures P (on_db f) Q R"
  unfolding on_db_def by (rule ensures_quiet)

lemma ensures_announcing:
  "(\<And>s u ev. P s \<Longrightarrow> (u, ev) \<in> set (fst (f (rg_db s))) \<Longrightarrow> Q (Fx_Event u ev))
     \<Longrightarrow> (\<And>s. P s \<Longrightarrow> R (s\<lparr>rg_db := snd (f (rg_db s))\<rparr>)) \<Longrightarrow> ensures P (announcing f) Q R"
  by (fastforce simp: ensures_def announcing_def Let_def split: prod.splits)

lemma ensures_resolve:
  "(\<And>s. P s \<Longrightarrow> r \<in> set (rg_pending s) \<Longrightarrow> Q (Fx_Reply r result))
     \<Longrightarrow> (\<And>s. P s \<Longrightarrow> R s \<and> R (s\<lparr>rg_pending := removeAll r (rg_pending s)\<rparr>))
     \<Longrightarrow> ensures P (resolve_pending r result) Q R"
  by (auto simp: ensures_def resolve_pending_def)

lemma ensures_drop_pending:
  "(\<And>s. P s \<Longrightarrow> r \<in> set (rg_pending s) \<Longrightarrow> Q (Fx_Failed r))
     \<Longrightarrow> (\<And>s. P s \<Longrightarrow> R s \<and> R (s\<lparr>rg_pending := removeAll r (rg_pending s)\<rparr>))
     \<Longrightarrow> ensures P (drop_pending r) Q R"
  by (auto simp: ensures_def drop_pending_def)

lemma announce_runs_target:
  "(u, ev) \<in> set (fst (announce_runs user m db)) \<Longrightarrow> u = user"
  by (auto simp: announce_runs_def split: option.splits prod.splits)

lemmas run_announcements = end_terminal_runs_def on_terminal_title_def on_run_attention_def
  end_machine_runs_def expire_start_def

text \<open>Operations on parts no invariant below reads: only the stored part changes.\<close>

lemma hget_hput_same: "hget (hput k v m) k = Some v"
  by (simp add: hm.get_put)

end
