(* ===== verification/HubIsolation.thy ===== *)
theory HubIsolation
  imports HubRules
begin

text \<open>
  Where the registry's news goes: what a node says reaches the user the node belongs to, or the
  user of the agent session it names, and nobody else; its answers reach the request they name.
\<close>

section \<open>Whom a message concerns\<close>

fun session_named :: "machine_to_hub \<Rightarrow> ident option" where
  "session_named (M2H_AgentSessionUpdate sid _ _ _ _ _) = Some sid"
| "session_named (M2H_AgentSessionEvent sid _ _) = Some sid"
| "session_named (M2H_AgentSessionExited sid _) = Some sid"
| "session_named _ = None"

fun request_named :: "machine_to_hub \<Rightarrow> ident option" where
  "request_named (M2H_TerminalCreated r _ _ _ _ _) = Some r"
| "request_named msg = map_option fst (reply_of msg)"

definition session_user :: "session_db \<Rightarrow> ident \<Rightarrow> ident option" where
  "session_user db sid = map_option sr_user_id (find_session sid db)"

text \<open>A message of machine \<open>m\<close>, whose node belongs to \<open>owner\<close>, concerns this effect.\<close>

fun concerned :: "ident \<Rightarrow> ident option \<Rightarrow> session_db \<Rightarrow> machine_to_hub \<Rightarrow> effect \<Rightarrow> bool" where
  "concerned m owner db msg (Fx_Event u ev) \<longleftrightarrow> u = owner \<or>
     (\<exists>sid user. session_named msg = Some sid \<and> session_user db sid = Some user \<and> u = Some user)"
| "concerned m owner db msg (Fx_Send m' _) \<longleftrightarrow> m' = m"
| "concerned m owner db msg (Fx_Reply r _) \<longleftrightarrow> request_named msg = Some r"
| "concerned m owner db msg (Fx_Failed _) \<longleftrightarrow> False"

definition node_of :: "ident \<Rightarrow> ident option \<Rightarrow> registry \<Rightarrow> bool" where
  "node_of m owner s \<longleftrightarrow> (\<exists>conn. hget (rg_machines s) m = Some conn \<and> mc_user_id conn = owner)"

lemma node_of_simps [simp]:
  "node_of m owner (s\<lparr>rg_db := db\<rparr>) = node_of m owner s"
  "node_of m owner (s\<lparr>rg_sessions := sd\<rparr>) = node_of m owner s"
  "node_of m owner (s\<lparr>rg_pending := ps\<rparr>) = node_of m owner s"
  "node_of m owner (s\<lparr>rg_persisted := st\<rparr>) = node_of m owner s"
  "node_of m owner (s\<lparr>rg_activity := ac\<rparr>) = node_of m owner s"
  "node_of m owner (s\<lparr>rg_streams := str\<rparr>) = node_of m owner s"
  "node_of m owner (s\<lparr>rg_machines := hput m conn (rg_machines s)\<rparr>) \<longleftrightarrow> mc_user_id conn = owner"
  by (simp_all add: node_of_def hm.get_put)

lemma owned_conn: "node_of m owner s \<Longrightarrow> has_conn m conn s \<Longrightarrow> mc_user_id conn = owner"
  by (simp add: node_of_def has_conn_def)

text \<open>The rules for a machine's own operations: the connection looked up is the owner's.\<close>

lemma owned_on_conn:
  assumes "\<And>conn. mc_user_id conn = owner \<Longrightarrow> sound (node_of m owner) Q (f conn)"
  shows "sound (node_of m owner) Q (on_conn m f)"
proof (rule ensures_on_conn)
  fix conn
  show "ensures (\<lambda>s. node_of m owner s \<and> has_conn m conn s) (f conn) Q (node_of m owner)"
  proof (rule ensuresI)
    fix s
    assume "node_of m owner s \<and> has_conn m conn s"
    then show "(\<forall>e \<in> set (fst (f conn s)). Q e) \<and> node_of m owner (snd (f conn s))"
      using ensuresD [OF assms] owned_conn by blast
  qed
qed

lemma owned_on_terminal:
  assumes "\<And>conn t. mc_user_id conn = owner \<Longrightarrow> sound (node_of m owner) Q (f conn t)"
  shows "sound (node_of m owner) Q (on_terminal m tid f)"
  unfolding on_terminal_def
  by (rule owned_on_conn, rule sound_option) (simp_all add: sound_skip assms)

lemma owned_put_conn:
  "mc_user_id conn = owner \<Longrightarrow> sound (node_of m owner) Q (put_conn m conn)"
  by (rule ensures_put_conn) simp

lemma owned_put_terminal:
  "mc_user_id conn = owner \<Longrightarrow> sound (node_of m owner) Q (put_terminal m conn tid t)"
  unfolding put_terminal_def by (rule owned_put_conn) simp

lemma owned_on_db: "sound (node_of m owner) Q (on_db f)"
  by (rule ensures_on_db) simp

lemma owned_reading:
  "(\<And>x. sound (node_of m owner) Q (g x)) \<Longrightarrow> sound (node_of m owner) Q (reading f g)"
  by (simp add: ensures_def reading_def)

lemma owned_announcing:
  "(\<And>u ev db. (u, ev) \<in> set (fst (f db)) \<Longrightarrow> Q (Fx_Event u ev))
     \<Longrightarrow> sound (node_of m owner) Q (announcing f)"
  by (rule ensures_announcing) auto

lemma owned_resolve: "Q (Fx_Reply r x) \<Longrightarrow> sound (node_of m owner) Q (resolve_pending r x)"
  by (rule ensures_resolve) auto

lemma owned_quiet:
  "(\<And>s. node_of m owner (f s) = node_of m owner s) \<Longrightarrow> sound (node_of m owner) Q (quiet f)"
  by (rule ensures_quiet) simp

lemma owned_prune:
  assumes "\<And>ev. Q (Fx_Event owner ev)"
  shows "sound (node_of m owner) Q (prune_auto_tab_if_empty owner machine g)"
  using assms
  by (auto simp: ensures_def prune_auto_tab_if_empty_def publish_workspace_group_deleted_def
      publish_def emit_def Let_def split: option.splits prod.splits)

lemmas owned_rules = sound_seq owned_on_conn owned_on_terminal owned_put_conn owned_put_terminal
  owned_on_db owned_reading owned_announcing owned_resolve owned_quiet owned_prune sound_each
  sound_skip sound_emit sound_when sound_if sound_option

section \<open>Each operation\<close>

lemma owned_gone:
  assumes "\<forall>ev. Q (Fx_Event owner ev)"
  shows "sound (node_of m owner) Q (terminal_gone now owner machine tid g)"
  using assms
  unfolding terminal_gone_def prune_tab_of_def end_terminal_runs_def
  by (intro owned_rules) (auto dest!: announce_runs_target)

lemma owned_destroyed:
  assumes "\<forall>ev. Q (Fx_Event owner ev)"
  shows "sound (node_of m owner) Q (terminal_destroyed now m tid)"
  using assms
  unfolding terminal_destroyed_def forget_terminal_def
  by (intro owned_rules) (auto intro!: owned_gone)

lemma owned_died:
  assumes "\<forall>ev. Q (Fx_Event owner ev)"
  shows "sound (node_of m owner) Q (handle_terminal_destroyed_internal now m tid)"
proof (rule ensuresI)
  fix s
  assume s: "node_of m owner s"
  then have "handle_terminal_destroyed_internal now m tid s = terminal_destroyed now m tid s"
    by (auto simp: node_of_def handle_terminal_destroyed_internal_def terminal_destroyed_def
        reading_def on_conn_def)
  with ensuresD [OF owned_destroyed [OF assms] s]
  show "(\<forall>e \<in> set (fst (handle_terminal_destroyed_internal now m tid s)). Q e)
      \<and> node_of m owner (snd (handle_terminal_destroyed_internal now m tid s))" by simp
qed

lemma owned_installed:
  "sound (node_of m owner) Q (on_conn m (\<lambda>conn. put_conn m (conn\<lparr>mc_installed_agents := agents\<rparr>)))"
  by (intro owned_rules) simp

lemma owned_attention:
  assumes "\<forall>ev. Q (Fx_Event owner ev)"
  shows "sound (node_of m owner) Q (terminal_attention_changed now new_req m tid attention)"
  using assms
  unfolding terminal_attention_changed_def Let_def on_run_attention_def
  by (intro owned_rules) (auto dest!: announce_runs_target)

lemma owned_terminal_ops:
  assumes "\<forall>ev. Q (Fx_Event owner ev)"
  shows "sound (node_of m owner) Q (terminal_activity m tid at_ms)"
    and "sound (node_of m owner) Q (resize_terminal m tid cols rows)"
    and "sound (node_of m owner) Q (resource_stats_report m stats)"
    and "sound (node_of m owner) Q (upsert_agent_browser m browser)"
  using assms
  unfolding terminal_activity_def resize_terminal_def resource_stats_report_def
    upsert_agent_browser_def Let_def
  by (intro owned_rules; auto)+

lemma owned_title:
  assumes "\<forall>ev. Q (Fx_Event owner ev)"
  shows "sound (node_of m owner) Q (terminal_title m tid title src)"
proof -
  let ?rest = "on_terminal m tid (\<lambda>conn t.
      let t' = t\<lparr>ti_title := title, ti_title_source := src\<rparr> in
      and_then (put_terminal m conn tid t')
     (and_then (emit [Fx_Event (mc_user_id conn) (Ev_TerminalUpdated t')])
      (when_op (renames_session t title src) (announcing (on_terminal_title (mc_user_id conn) tid)))))"
  have rest: "sound (node_of m owner) Q ?rest"
    using assms unfolding Let_def on_terminal_title_def
    by (intro owned_rules) (auto dest!: announce_runs_target)
  show ?thesis
  proof (rule ensuresI)
    fix s
    assume "node_of m owner s"
    then have "node_of m owner (s\<lparr>rg_db := db\<rparr>)" for db by simp
    from ensuresD [OF rest this]
    show "(\<forall>e \<in> set (fst (terminal_title m tid title src s)). Q e)
        \<and> node_of m owner (snd (terminal_title m tid title src s))"
      using \<open>node_of m owner s\<close> by (auto simp: terminal_title_def split: prod.splits)
  qed
qed

lemma owned_cwd:
  assumes "\<forall>ev. Q (Fx_Event owner ev)"
  shows "sound (node_of m owner) Q (terminal_cwd m tid cwd)"
proof -
  let ?rest = "\<lambda>b. when_op b (on_terminal m tid (\<lambda>conn t.
      let t' = t\<lparr>ti_cwd := cwd\<rparr> in
      and_then (put_terminal m conn tid t')
        (emit [Fx_Event (mc_user_id conn) (Ev_TerminalUpdated t')])))"
  have rest: "sound (node_of m owner) Q (?rest b)" for b
    using assms unfolding Let_def by (intro owned_rules) auto
  show ?thesis
  proof (rule ensuresI)
    fix s
    assume "node_of m owner s"
    then have "node_of m owner (s\<lparr>rg_db := db\<rparr>)" for db by simp
    from ensuresD [OF rest this]
    show "(\<forall>e \<in> set (fst (terminal_cwd m tid cwd s)). Q e)
        \<and> node_of m owner (snd (terminal_cwd m tid cwd s))"
      by (auto simp: terminal_cwd_def split: prod.splits)
  qed
qed

lemma owned_created:
  assumes "\<forall>ev. Q (Fx_Event owner ev)" "Q (Fx_Reply r (Inr (Res_TerminalCreated tid title cwd cols rows)))"
  shows "sound (node_of m owner) Q (terminal_created now m r tid title cwd cols rows)"
  using assms
  unfolding terminal_created_def try_db_def Let_def
  by (intro owned_rules) auto

lemma owned_existing:
  assumes "\<forall>ev. Q (Fx_Event owner ev)"
  shows "sound (node_of m owner) Q (existing_terminals now m ts)"
  using assms
  unfolding existing_terminals_def report_terminal_def bury_terminal_def try_db_def Let_def
  by (intro owned_rules) (auto intro!: owned_gone)

lemma on_terminal_agent_target:
  "(u, ev) \<in> set (fst (on_terminal_agent now new_run new_req view m tid agent db))
     \<Longrightarrow> \<exists>v. view = Some v \<and> u = tv_user_id v"
  by (auto simp: on_terminal_agent_def dest: announce_runs_target split: option.splits)

lemma on_agent_signal_target:
  "(u, ev) \<in> set (fst (on_agent_signal now new_run new_req view m tid agent source signal db))
     \<Longrightarrow> \<exists>v. view = Some v \<and> u = tv_user_id v"
  by (auto simp: on_agent_signal_def dest: announce_runs_target split: option.splits)

lemma owned_view:
  "node_of m owner s \<Longrightarrow> terminal_view_of s m tid = Some view \<Longrightarrow> tv_user_id view = owner"
  by (auto simp: node_of_def terminal_view_of_def)

lemma owned_runs:
  assumes "\<forall>ev. Q (Fx_Event owner ev)"
  shows "sound (node_of m owner) Q (terminal_agent now new_run new_req m tid agent)"
    and "sound (node_of m owner) Q (agent_signal now new_run new_req m tid agent source signal)"
  using assms
  unfolding terminal_agent_def agent_signal_def
  by (intro ensures_reading ensures_announcing;
      auto dest!: on_terminal_agent_target on_agent_signal_target dest: owned_view)+

lemma owned_browser_ops:
  assumes "\<forall>ev. Q (Fx_Event owner ev)" "\<forall>msg. Q (Fx_Send m msg)"
  shows "sound (node_of m owner) Q (agent_browser_destroyed m b)"
    and "sound (node_of m owner) Q (replace_agent_browsers m browsers)"
proof -
  have send: "sound (node_of m owner) Q (send_node_actions m b as)" for b as
    using assms unfolding send_node_actions_def by (intro owned_rules) auto
  have each: "sound (node_of m owner) Q
      (each (\<lambda>(browser_id, action). send_node_actions m browser_id [action]) xs)" for xs
    by (intro owned_rules) (auto intro: send)
  have resync: "sound (node_of m owner) Q (resync_streams m ids)" for ids
  proof (rule ensuresI)
    fix s
    assume "node_of m owner s"
    then have "node_of m owner (s\<lparr>rg_streams := str\<rparr>)" for str by simp
    from ensuresD [OF each this]
    show "(\<forall>e \<in> set (fst (resync_streams m ids s)). Q e) \<and> node_of m owner (snd (resync_streams m ids s))"
      by (simp add: resync_streams_def split: prod.split)
  qed
  show "sound (node_of m owner) Q (agent_browser_destroyed m b)"
    using assms unfolding agent_browser_destroyed_def forget_activity_def
    by (intro owned_rules) auto
  show "sound (node_of m owner) Q (replace_agent_browsers m browsers)"
    using assms unfolding replace_agent_browsers_def forget_activity_def Let_def
    by (intro owned_rules) (auto intro!: resync owned_terminal_ops)
qed

text \<open>The user of a session never changes: its updates find the same one.\<close>

lemma find_session_after_update:
  "(\<And>r. P r \<Longrightarrow> key (f r) = key r) \<Longrightarrow>
     map_option key (find (\<lambda>r. sr_id r = sid) (update_where P f rows)) =
     map_option key (find (\<lambda>r. sr_id r = sid) rows)"
  if "\<And>r. sr_id (f r) = sr_id r" for key
  using that by (induction rows) (auto simp: update_where_def)

lemma session_user_set_when:
  assumes "\<And>x r. sr_id (f x r) = sr_id r" "\<And>x r. sr_user_id (f x r) = sr_user_id r"
  shows "session_user (set_when v f now sid0 db) sid = session_user db sid"
  using assms
  by (cases v) (auto simp: session_user_def find_session_def set_when_def intro!: find_session_after_update)

lemma session_user_apply_update [simp]:
  "session_user (apply_update now sid0 status title acp models model db) sid = session_user db sid"
  by (simp add: apply_update_def session_user_set_when)

lemma session_user_set_status [simp]:
  "session_user (set_session_status now sid0 status db) sid = session_user db sid"
  by (simp add: set_session_status_def)

lemma owned_sessions:
  assumes "\<forall>ev. Q (Fx_Event owner ev)"
    and "\<forall>u ev. session_user db sid = Some u \<longrightarrow> Q (Fx_Event (Some u) ev)"
  shows "ensures (\<lambda>s. node_of m owner s \<and> rg_sessions s = db)
           (agent_session_update now sid status title acp models model) Q (node_of m owner)"
    and "ensures (\<lambda>s. node_of m owner s \<and> rg_sessions s = db)
           (agent_session_exited now sid) Q (node_of m owner)"
    and "ensures (\<lambda>s. node_of m owner s \<and> rg_sessions s = db)
           (agent_session_event now sid sq event) Q (node_of m owner)"
proof -
  let ?R = "\<lambda>s. node_of m owner s \<and> session_user (rg_sessions s) sid = session_user db sid"
  have announce: "ensures ?R (announce_session sid) Q (node_of m owner)"
  proof (rule ensuresI)
    fix s
    assume R: "?R s"
    show "(\<forall>e \<in> set (fst (announce_session sid s)). Q e) \<and> node_of m owner (snd (announce_session sid s))"
    proof (cases "find_session sid (rg_sessions s)")
      case None
      then show ?thesis using R by (simp add: announce_session_def reading_def skip_def)
    next
      case (Some row)
      then have "session_user (rg_sessions s) sid = Some (sr_user_id row)"
        by (simp add: session_user_def)
      then have "session_user db sid = Some (sr_user_id row)" using R by simp
      then show ?thesis using R Some assms(2) by (simp add: announce_session_def reading_def emit_def)
    qed
  qed
  show "ensures (\<lambda>s. node_of m owner s \<and> rg_sessions s = db)
           (agent_session_update now sid status title acp models model) Q (node_of m owner)"
    unfolding agent_session_update_def on_sessions_def
    by (rule ensures_seq [OF _ announce], rule ensures_quiet) auto
  show "ensures (\<lambda>s. node_of m owner s \<and> rg_sessions s = db)
           (agent_session_exited now sid) Q (node_of m owner)"
    unfolding agent_session_exited_def on_sessions_def
    by (rule ensures_seq [OF _ announce], rule ensures_quiet) auto
  show "ensures (\<lambda>s. node_of m owner s \<and> rg_sessions s = db)
           (agent_session_event now sid sq event) Q (node_of m owner)"
    using assms(2)
    by (auto simp: ensures_def agent_session_event_def session_user_def split: option.splits)
qed

section \<open>Every message\<close>

lemma reply_message:
  assumes "reply_of msg = Some (r, x)"
  shows "handle_machine_message p m msg = resolve_pending r x"
    and "request_named msg = Some r" and "session_named msg = None"
  using assms by (cases msg; simp)+

lemmas owned_message_rules = owned_destroyed owned_attention owned_terminal_ops owned_title
  owned_cwd owned_existing owned_runs owned_browser_ops owned_created owned_died owned_installed
  sound_skip

lemma message_concerns:
  assumes "node_of m owner s"
  shows "(\<forall>e \<in> set (fst (handle_machine_message p m msg s)). concerned m owner (rg_sessions s) msg e)
      \<and> node_of m owner (snd (handle_machine_message p m msg s))"
proof -
  let ?Q = "concerned m owner (rg_sessions s) msg"
  have "ensures (\<lambda>s'. node_of m owner s' \<and> rg_sessions s' = rg_sessions s)
      (handle_machine_message p m msg) ?Q (node_of m owner)"
    if "session_named msg \<noteq> None"
    by (insert that, cases msg) (auto intro!: owned_sessions)
  moreover have "sound (node_of m owner) ?Q (handle_machine_message p m msg)"
    if "session_named msg = None"
  proof (cases "reply_of msg")
    case (Some rx)
    then obtain r x where "reply_of msg = Some (r, x)" by (cases rx) auto
    then show ?thesis
      by (simp add: reply_message) (rule owned_resolve, simp add: reply_message)
  next
    case None
    with that show ?thesis
      by (cases msg) (auto intro!: owned_message_rules)
  qed
  ultimately show ?thesis using assms by (auto simp: ensures_def)
qed


definition example_machine :: "ident \<Rightarrow> machine_info" where
  "example_machine m = \<lparr>mi_id = m, mi_name = lit m, mi_os = lit ''linux'', mi_home_dir = lit ''/root'',
     mi_production = False\<rparr>"

definition empty_registry :: "ident list \<Rightarrow> registry" where
  "empty_registry users = new_registry 0 (empty_db users) empty_session_db"

definition two_nodes :: registry where
  "two_nodes = (empty_registry [''ann'', ''bob''])\<lparr>rg_machines :=
     [(''a'', new_connection ''c1'' (example_machine ''a'') (Some ''ann'') []),
      (''b'', new_connection ''c2'' (example_machine ''b'') (Some ''bob'') [])]\<rparr>"

definition example_stats :: resource_stats where
  "example_stats = \<lparr>rs_cpu_percent = Finite 1, rs_memory_total = 2, rs_memory_used = 1, rs_disks = []\<rparr>"

definition example_stamp :: stamp where
  "example_stamp = \<lparr>sp_now = 5, sp_new_run = ''run'', sp_new_req = ''req''\<rparr>"


text \<open>
  A terminal that dies on a node the hub does not know: \<^verbatim>\<open>TerminalDestroyed\<close> says nothing,
  \<^verbatim>\<open>TerminalDied\<close>, said to mirror it, tells every user.
\<close>

lemma unknown_node_terminal_died:
  assumes "hget (rg_machines s) m = None"
  shows "fst (terminal_destroyed now m tid s) = []"
    and "Fx_Event None (Ev_TerminalDestroyed m tid) \<in> set (fst (handle_terminal_destroyed_internal now m tid s))"
  using assms
  by (auto simp: terminal_destroyed_def handle_terminal_destroyed_internal_def on_conn_def reading_def
      skip_def terminal_gone_def prune_tab_of_def and_then_def emit_def Let_def split: prod.split)

end
