(* ===== verification/RegistryTypes.thy ===== *)
theory RegistryTypes
  imports HubIsolation
begin

text \<open>
  The registry is well formed, always: its maps have one entry per key, what is filed under a
  machine says it is that machine's, what is filed under an identifier carries it, and the
  terminals of a machine that is away are marked unreachable.
\<close>

section \<open>Well-formed registries\<close>

definition conn_ok :: "ident \<Rightarrow> machine_connection \<Rightarrow> bool" where
  "conn_ok m conn \<longleftrightarrow> mi_id (mc_info conn) = m \<and> hwf (mc_terminals conn) \<and> hwf (mc_agent_browsers conn) \<and>
     (\<forall>k t. hget (mc_terminals conn) k = Some t \<longrightarrow> ti_id t = k \<and> ti_machine_id t = m) \<and>
     (\<forall>k b. hget (mc_agent_browsers conn) k = Some b \<longrightarrow> ab_id b = k \<and> ab_machine_id b = Some m)"

definition stash_ok :: "ident \<Rightarrow> terminal_info list \<Rightarrow> bool" where
  "stash_ok m ts \<longleftrightarrow> distinct (map ti_id ts) \<and>
     (\<forall>t \<in> set ts. ti_machine_id t = m \<and> \<not> ti_reachable t)"

definition registry_ok :: "registry \<Rightarrow> bool" where
  "registry_ok s \<longleftrightarrow> hwf (rg_machines s) \<and> hwf (rg_persisted s) \<and>
     (\<forall>m conn. hget (rg_machines s) m = Some conn \<longrightarrow> conn_ok m conn) \<and>
     (\<forall>m ts. hget (rg_persisted s) m = Some ts \<longrightarrow> stash_ok m ts)"

text \<open>What a node promises: the terminals it lists are its own (\<^verbatim>\<open>hub_conn.rs\<close> fills its id in).\<close>

fun honest :: "hub_call \<Rightarrow> bool" where
  "honest (Hub_Message _ m (M2H_ExistingTerminals ts)) \<longleftrightarrow> (\<forall>t \<in> set ts. ti_machine_id t = m)"
| "honest _ \<longleftrightarrow> True"

lemma conn_ok_new [simp]: "conn_ok (mi_id info) (new_connection c info user caps)"
  by (simp add: conn_ok_def new_connection_def hm.get_none)

lemma conn_ok_terminal:
  "conn_ok m conn \<Longrightarrow> ti_id t = tid \<Longrightarrow> ti_machine_id t = m
     \<Longrightarrow> conn_ok m (conn\<lparr>mc_terminals := hput tid t (mc_terminals conn)\<rparr>)"
  by (auto simp: conn_ok_def hm.get_put split: if_splits)

lemma conn_ok_terminal_gone:
  "conn_ok m conn \<Longrightarrow> conn_ok m (conn\<lparr>mc_terminals := hdel tid (mc_terminals conn)\<rparr>)"
  by (auto simp: conn_ok_def hm.get_del split: if_splits)

lemma conn_ok_browser:
  "conn_ok m conn \<Longrightarrow> ab_id b = bid \<Longrightarrow> ab_machine_id b = Some m
     \<Longrightarrow> conn_ok m (conn\<lparr>mc_agent_browsers := hput bid b (mc_agent_browsers conn)\<rparr>)"
  by (auto simp: conn_ok_def hm.get_put split: if_splits)

lemma conn_ok_browsers_gone:
  "conn_ok m conn \<Longrightarrow> conn_ok m (conn\<lparr>mc_agent_browsers := hdels bids (mc_agent_browsers conn)\<rparr>)"
  by (auto simp: conn_ok_def hget_hdels split: if_splits)

lemma conn_ok_browser_gone:
  "conn_ok m conn \<Longrightarrow> conn_ok m (conn\<lparr>mc_agent_browsers := hdel bid (mc_agent_browsers conn)\<rparr>)"
  by (auto simp: conn_ok_def hm.get_del split: if_splits)

lemma conn_ok_fields [simp]:
  "conn_ok m (conn\<lparr>mc_version := v\<rparr>) = conn_ok m conn"
  "conn_ok m (conn\<lparr>mc_latest_stats := st\<rparr>) = conn_ok m conn"
  "conn_ok m (conn\<lparr>mc_installed_agents := as\<rparr>) = conn_ok m conn"
  "conn_ok m (conn\<lparr>mc_info := (mc_info conn)\<lparr>mi_production := p\<rparr>\<rparr>) = conn_ok m conn"
  by (simp_all add: conn_ok_def)

lemmas conn_ok_updates = conn_ok_terminal conn_ok_terminal_gone conn_ok_browser conn_ok_browser_gone
  conn_ok_browsers_gone

lemma conn_ok_found:
  "conn_ok m conn \<Longrightarrow> hget (mc_terminals conn) tid = Some t \<Longrightarrow> ti_id t = tid \<and> ti_machine_id t = m"
  "conn_ok m conn \<Longrightarrow> hget (mc_agent_browsers conn) bid = Some b \<Longrightarrow> ab_id b = bid \<and> ab_machine_id b = Some m"
  by (auto simp: conn_ok_def)

lemma registry_ok_fields [simp]:
  "registry_ok (s\<lparr>rg_db := db\<rparr>) = registry_ok s"
  "registry_ok (s\<lparr>rg_sessions := sd\<rparr>) = registry_ok s"
  "registry_ok (s\<lparr>rg_pending := ps\<rparr>) = registry_ok s"
  "registry_ok (s\<lparr>rg_activity := ac\<rparr>) = registry_ok s"
  "registry_ok (s\<lparr>rg_streams := str\<rparr>) = registry_ok s"
  "registry_ok (s\<lparr>rg_browser_requests := rs\<rparr>) = registry_ok s"
  "registry_ok (s\<lparr>rg_viewers := vs\<rparr>) = registry_ok s"
  "registry_ok (s\<lparr>rg_timers := tm\<rparr>) = registry_ok s"
  "registry_ok (s\<lparr>rg_mode := mo\<rparr>) = registry_ok s"
  "registry_ok (s\<lparr>rg_openers := os\<rparr>) = registry_ok s"
  by (simp_all add: registry_ok_def)

lemma registry_ok_put_conn:
  "registry_ok s \<Longrightarrow> conn_ok m conn \<Longrightarrow> registry_ok (s\<lparr>rg_machines := hput m conn (rg_machines s)\<rparr>)"
  by (auto simp: registry_ok_def hm.get_put)

lemma registry_ok_drop_conn:
  "registry_ok s \<Longrightarrow> registry_ok (s\<lparr>rg_machines := hdel m (rg_machines s)\<rparr>)"
  by (auto simp: registry_ok_def hm.get_del split: if_splits)

lemma registry_ok_put_stash:
  "registry_ok s \<Longrightarrow> stash_ok m ts \<Longrightarrow> registry_ok (s\<lparr>rg_persisted := hput m ts (rg_persisted s)\<rparr>)"
  by (auto simp: registry_ok_def hm.get_put)

lemma registry_ok_drop_stash:
  "registry_ok s \<Longrightarrow> registry_ok (s\<lparr>rg_persisted := hdel m (rg_persisted s)\<rparr>)"
  by (auto simp: registry_ok_def hm.get_del split: if_splits)

lemma registry_ok_conn: "registry_ok s \<Longrightarrow> hget (rg_machines s) m = Some conn \<Longrightarrow> conn_ok m conn"
  by (simp add: registry_ok_def)

lemma registry_ok_stash: "registry_ok s \<Longrightarrow> stash_ok m (stash_of s m)"
  by (auto simp: registry_ok_def stash_of_def stash_ok_def split: option.split)

lemma stash_ok_unreachable: "conn_ok m conn \<Longrightarrow> stash_ok m (unreachable (mc_terminals conn))"
proof -
  assume c: "conn_ok m conn"
  have ids: "map ti_id (map (\<lambda>t. t\<lparr>ti_reachable := False\<rparr>) (hvals terms)) = hkeys terms"
    if "\<forall>(k, t) \<in> set terms. ti_id t = k" for terms :: "(ident, terminal_info) hmap"
    using that by (induction terms) (auto simp: hvals_def hkeys_def)
  have entry: "ti_id t = k \<and> ti_machine_id t = m" if "(k, t) \<in> set (mc_terminals conn)" for k t
    using c that by (auto simp: conn_ok_def hwf_def hget_def)
  then have "map ti_id (unreachable (mc_terminals conn)) = hkeys (mc_terminals conn)"
    unfolding unreachable_def by (intro ids) auto
  then have "distinct (map ti_id (unreachable (mc_terminals conn)))"
    using c by (simp add: conn_ok_def hkeys_distinct)
  with entry show ?thesis by (auto simp: stash_ok_def unreachable_def hvals_def)
qed

section \<open>Rules\<close>

abbreviation typed :: "hub_op \<Rightarrow> bool" where
  "typed m \<equiv> sound registry_ok (\<lambda>_. True) m"

lemma typed_snd: "typed m \<Longrightarrow> registry_ok s \<Longrightarrow> m s = (es, s') \<Longrightarrow> registry_ok s'"
  using ensuresD [of registry_ok m "\<lambda>_. True" registry_ok s] by simp

lemma typed_on_conn:
  assumes "\<And>conn. conn_ok m conn \<Longrightarrow> typed (f conn)"
  shows "typed (on_conn m f)"
proof (rule ensures_on_conn)
  fix conn
  show "ensures (\<lambda>s. registry_ok s \<and> has_conn m conn s) (f conn) (\<lambda>_. True) registry_ok"
    using assms registry_ok_conn by (auto simp: ensures_def has_conn_def)
qed

lemma typed_on_terminal:
  assumes "\<And>conn t. conn_ok m conn \<Longrightarrow> ti_id t = tid \<Longrightarrow> ti_machine_id t = m \<Longrightarrow> typed (f conn t)"
  shows "typed (on_terminal m tid f)"
  unfolding on_terminal_def
proof (rule typed_on_conn)
  fix conn
  assume c: "conn_ok m conn"
  show "typed (case hget (mc_terminals conn) tid of None \<Rightarrow> skip | Some t \<Rightarrow> f conn t)"
    using assms [OF c] conn_ok_found(1) [OF c] by (intro sound_option) (auto intro: sound_skip)
qed

lemma typed_put_conn: "conn_ok m conn \<Longrightarrow> typed (put_conn m conn)"
  by (rule ensures_put_conn) (rule registry_ok_put_conn)

lemma typed_put_terminal:
  "conn_ok m conn \<Longrightarrow> ti_id t = tid \<Longrightarrow> ti_machine_id t = m \<Longrightarrow> typed (put_terminal m conn tid t)"
  unfolding put_terminal_def by (intro typed_put_conn conn_ok_terminal)

lemma typed_quiet: "(\<And>s. registry_ok s \<Longrightarrow> registry_ok (f s)) \<Longrightarrow> typed (quiet f)"
  by (rule ensures_quiet)

lemma typed_on_db: "typed (on_db f)"
  by (rule ensures_on_db) simp

lemma typed_announcing: "typed (announcing f)"
  by (rule ensures_announcing) auto

lemma typed_resolve: "typed (resolve_pending r x)"
  by (rule ensures_resolve) auto

lemma typed_drop_pending: "typed (drop_pending r)"
  by (rule ensures_drop_pending) auto

lemma typed_emit: "typed (emit es)"
  by (rule sound_emit) simp

lemma typed_reading: "(\<And>x. typed (g x)) \<Longrightarrow> typed (reading f g)"
  by (simp add: ensures_def reading_def)

lemma typed_prune: "typed (prune_auto_tab_if_empty user machine g)"
  by (auto simp: ensures_def prune_auto_tab_if_empty_def publish_workspace_group_deleted_def
      publish_def emit_def Let_def split: option.splits prod.splits)

lemmas typed_rules = sound_seq typed_on_conn typed_on_terminal typed_put_conn typed_put_terminal
  typed_quiet typed_on_db typed_announcing typed_resolve typed_drop_pending typed_emit typed_reading
  typed_prune sound_each sound_skip sound_when sound_if sound_option

section \<open>Every call\<close>

lemma typed_gone: "typed (terminal_gone now owner machine tid g)"
  unfolding terminal_gone_def prune_tab_of_def by (intro typed_rules)

lemma typed_terminal_ops:
  "typed (terminal_destroyed now m tid)"
  "typed (handle_terminal_destroyed_internal now m tid)"
  "typed (terminal_attention_changed now new_req m tid attention)"
  "typed (terminal_activity m tid at_ms)"
  "typed (resize_terminal m tid cols rows)"
  "typed (resource_stats_report m stats)"
  subgoal unfolding terminal_destroyed_def forget_terminal_def
    by (intro typed_rules typed_gone conn_ok_updates)
  subgoal
  proof (rule ensuresI)
    fix s
    assume s: "registry_ok s"
    have *: "typed (and_then (forget_terminal m conn tid) (and_then (on_db (mark_destroyed now tid))
        (terminal_gone now (mc_user_id conn) m tid (group_of_terminal conn tid))))"
      if "conn_ok m conn" for conn
      using that unfolding forget_terminal_def by (intro typed_rules typed_gone conn_ok_updates)
    show "(\<forall>e \<in> set (fst (handle_terminal_destroyed_internal now m tid s)). True)
        \<and> registry_ok (snd (handle_terminal_destroyed_internal now m tid s))"
      using ensuresD [OF typed_gone s] ensuresD [OF * s] registry_ok_conn [OF s]
      by (auto simp: handle_terminal_destroyed_internal_def reading_def split: option.split)
  qed
  subgoal unfolding terminal_attention_changed_def Let_def by (intro typed_rules; simp)
  subgoal unfolding terminal_activity_def Let_def by (intro typed_rules; simp)
  subgoal unfolding resize_terminal_def Let_def by (intro typed_rules; simp)
  subgoal unfolding resource_stats_report_def by (intro typed_rules; simp)
  done

lemma typed_after_db:
  assumes "typed m" "registry_ok s"
  shows "registry_ok (snd (m (s\<lparr>rg_db := db\<rparr>)))"
  using ensuresD [OF assms(1), of "s\<lparr>rg_db := db\<rparr>"] assms(2) by simp

lemma typed_title: "typed (terminal_title m tid title src)"
proof -
  have "typed (on_terminal m tid (\<lambda>conn t.
      let t' = t\<lparr>ti_title := title, ti_title_source := src\<rparr> in
      and_then (put_terminal m conn tid t')
     (and_then (emit [Fx_Event (mc_user_id conn) (Ev_TerminalUpdated t')])
      (when_op (renames_session t title src) (announcing (on_terminal_title (mc_user_id conn) tid))))))"
    unfolding Let_def by (intro typed_rules; simp)
  from typed_after_db [OF this] show ?thesis
    by (intro ensuresI) (auto simp: terminal_title_def split: prod.split)
qed

lemma typed_cwd: "typed (terminal_cwd m tid cwd)"
proof -
  have "typed (when_op b (on_terminal m tid (\<lambda>conn t.
      let t' = t\<lparr>ti_cwd := cwd\<rparr> in
      and_then (put_terminal m conn tid t')
        (emit [Fx_Event (mc_user_id conn) (Ev_TerminalUpdated t')]))))" for b
    unfolding Let_def by (intro typed_rules; simp)
  from typed_after_db [OF this] show ?thesis
    by (intro ensuresI) (auto simp: terminal_cwd_def split: prod.split)
qed

lemma created_terminal_ids [simp]:
  "ti_id (created_terminal m tid title cwd cols rows opener) = tid"
  "ti_machine_id (created_terminal m tid title cwd cols rows opener) = m"
  by (simp_all add: created_terminal_def)

lemma typed_created: "typed (terminal_created now m r tid title cwd cols rows)"
  unfolding terminal_created_def try_db_def Let_def by (intro typed_rules; simp)

lemma adopted_ids [simp]:
  "ti_id (adopted persisted db t) = ti_id t" "ti_machine_id (adopted persisted db t) = ti_machine_id t"
  by (simp_all add: adopted_def split: option.splits)

lemma typed_existing:
  assumes "\<forall>t \<in> set ts. ti_machine_id t = m"
  shows "typed (existing_terminals now m ts)"
  using assms
  unfolding existing_terminals_def report_terminal_def bury_terminal_def try_db_def Let_def
  by (intro typed_rules typed_gone; simp add: registry_ok_drop_stash)

lemma typed_runs:
  "typed (terminal_agent now new_run new_req m tid agent)"
  "typed (agent_signal now new_run new_req m tid agent source signal)"
  unfolding terminal_agent_def agent_signal_def by (intro typed_rules)+

lemma typed_send: "typed (send_node_actions m b as)"
  unfolding send_node_actions_def by (intro typed_rules)

lemma typed_after_streams:
  assumes "typed m" "registry_ok s"
  shows "registry_ok (snd (m (s\<lparr>rg_streams := str\<rparr>)))"
  using ensuresD [OF assms(1), of "s\<lparr>rg_streams := str\<rparr>"] assms(2) by simp

lemma typed_upsert: "typed (upsert_agent_browser m browser)"
proof -
  have "ab_id (keep_control k b) = ab_id b \<and> ab_machine_id (keep_control k b) = ab_machine_id b" for k b
    by (simp add: keep_control_def)
  then show ?thesis
    unfolding upsert_agent_browser_def Let_def
    by (intro typed_rules conn_ok_updates) (auto split: option.split)
qed

lemma typed_browser_ops:
  "typed (agent_browser_destroyed m b)"
  "typed (replace_agent_browsers m browsers)"
proof -
  show "typed (agent_browser_destroyed m b)"
    unfolding agent_browser_destroyed_def forget_activity_def
    by (intro typed_rules conn_ok_updates; simp)
  have each: "typed (each (\<lambda>(browser_id, action). send_node_actions m browser_id [action]) xs)" for xs
    by (intro typed_rules) (auto intro: typed_send)
  have resync: "typed (resync_streams m ids)" for ids
    using typed_after_streams [OF each]
    by (intro ensuresI) (simp add: resync_streams_def split: prod.split)
  show "typed (replace_agent_browsers m browsers)"
    unfolding replace_agent_browsers_def forget_activity_def Let_def hdels_def [symmetric]
    by (intro typed_rules typed_upsert conn_ok_updates resync; simp)
qed

lemma typed_sessions:
  "typed (agent_session_update now sid status title acp models model)"
  "typed (agent_session_exited now sid)"
  "typed (agent_session_event now sid sq event)"
  subgoal unfolding agent_session_update_def on_sessions_def announce_session_def
    by (intro typed_rules; simp)
  subgoal unfolding agent_session_exited_def on_sessions_def announce_session_def
    by (intro typed_rules; simp)
  subgoal by (auto simp: ensures_def agent_session_event_def split: option.split)
  done

lemma typed_message:
  assumes "honest (Hub_Message p m msg)"
  shows "typed (handle_machine_message p m msg)"
proof (cases "reply_of msg")
  case (Some rx)
  then obtain r x where "reply_of msg = Some (r, x)" by (cases rx) auto
  then show ?thesis by (simp add: reply_message typed_resolve)
next
  case None
  have installed: "typed (on_conn m (\<lambda>conn. put_conn m (conn\<lparr>mc_installed_agents := agents\<rparr>)))" for agents
    by (intro typed_rules) simp
  from None assms show ?thesis
    by (cases msg) (auto intro!: typed_terminal_ops typed_title typed_cwd typed_existing typed_runs
        typed_browser_ops typed_upsert typed_created typed_sessions installed sound_skip)
qed

lemma typed_drop_browsers: "typed (drop_agent_browsers m conn)"
  unfolding drop_agent_browsers_def by (intro typed_rules; simp)

lemma typed_stash: "conn_ok m conn \<Longrightarrow> typed (stash m (mc_terminals conn))"
  unfolding stash_def by (intro typed_rules) (simp add: registry_ok_put_stash stash_ok_unreachable)

lemma typed_register: "typed (register_machine c info user caps)"
proof (rule ensuresI)
  fix s
  assume s: "registry_ok s"
  let ?m = "mi_id info"
  let ?op = "\<lambda>old. and_then (put_conn ?m (new_connection c info user caps))
      (and_then (case old of None \<Rightarrow> skip | Some conn \<Rightarrow>
          and_then (drop_agent_browsers ?m conn) (stash ?m (mc_terminals conn)))
        (emit [Fx_Event user (Ev_MachineOnline info)]))"
  have "typed (?op (hget (rg_machines s) ?m))"
    using registry_ok_conn [OF s, of ?m]
    by (intro typed_rules typed_drop_browsers typed_stash) auto
  from ensuresD [OF this s]
  show "(\<forall>e \<in> set (fst (register_machine c info user caps s)). True)
      \<and> registry_ok (snd (register_machine c info user caps s))"
    by (simp add: register_machine_def reading_def)
qed

lemma typed_unregister: "typed (unregister_machine now m c)"
proof -
  have "typed (disconnect_sessions now m)"
    by (auto simp: ensures_def disconnect_sessions_def Let_def split: prod.split)
  then show ?thesis
    unfolding unregister_machine_def remove_conn_def
    by (intro typed_rules typed_drop_browsers typed_stash; simp add: registry_ok_drop_conn)
qed

lemma ungroup_ids [simp]:
  "ti_id (ungroup g t) = ti_id t" "ti_machine_id (ungroup g t) = ti_machine_id t"
  "ti_reachable (ungroup g t) = ti_reachable t"
  by (simp_all add: ungroup_def)

lemma conn_ok_ungroup:
  "conn_ok m conn \<Longrightarrow> conn_ok m (conn\<lparr>mc_terminals := hmapv (ungroup g) (mc_terminals conn)\<rparr>)"
  by (auto simp: conn_ok_def hget_hmapv)

lemma stash_ok_ungroup: "stash_ok m ts \<Longrightarrow> stash_ok m (map (ungroup g) ts)"
  by (auto simp: stash_ok_def comp_def)

lemma typed_clear: "typed (clear_workspace_group_assignments user m g)"
  unfolding clear_workspace_group_assignments_def publish_def
  by (intro typed_rules conn_ok_ungroup)
    (auto intro: registry_ok_put_stash stash_ok_ungroup registry_ok_stash)

lemma map_update_first:
  "(\<And>x. key (f x) = key x) \<Longrightarrow> map key (update_first P f xs) = map key xs"
  by (induction xs) auto

lemma set_update_first: "set (update_first P f xs) \<subseteq> set xs \<union> f ` set xs"
  by (induction xs) auto

lemma stash_ok_assign:
  "stash_ok m ts \<Longrightarrow> stash_ok m (update_first P (\<lambda>t. t\<lparr>ti_workspace_group_id := g\<rparr>) ts)"
  using set_update_first [of P "\<lambda>t. t\<lparr>ti_workspace_group_id := g\<rparr>" ts]
  by (fastforce simp: stash_ok_def map_update_first)

lemma assigned_ok:
  assumes s: "registry_ok s" and a: "assigned user m tid g s = Some (t, previous, s')"
  shows "registry_ok s'"
proof -
  have stashed: "registry_ok s'" if "assign_stashed m tid g s = Some (t, previous, s')"
    using that s
    by (auto simp: assign_stashed_def intro!: registry_ok_put_stash stash_ok_assign registry_ok_stash
        split: option.splits)
  have live: "registry_ok s'"
    if "hget (rg_machines s) m = Some conn" "assign_live m tid g conn s = Some (t, previous, s')" for conn
  proof -
    from registry_ok_conn [OF s that(1)] have c: "conn_ok m conn" .
    with that(2) s show ?thesis
      using conn_ok_found(1) [OF c]
      by (auto simp: assign_live_def Let_def intro!: registry_ok_put_conn conn_ok_terminal split: option.splits)
  qed
  from a stashed live show ?thesis
    by (auto simp: assigned_def split: option.splits if_splits)
qed

lemma typed_set_group:
  assumes s: "registry_ok s"
  shows "registry_ok (snd (snd (set_terminal_workspace_group now user m tid g s)))"
proof -
  have tail: "typed (and_then
      (case previous of Some p \<Rightarrow> when_op (Some p \<noteq> g) (prune_auto_tab_if_empty (Some user) m p)
                      | None \<Rightarrow> skip) (publish user (Ev_TerminalUpdated t)))" for previous t
    unfolding publish_def by (intro typed_rules)
  show ?thesis
  proof (cases "assigned user m tid g s")
    case None
    with s show ?thesis by (simp add: set_terminal_workspace_group_def)
  next
    case (Some r)
    then obtain t previous s1 where r: "assigned user m tid g s = Some (t, previous, s1)"
      by (cases r) auto
    note s1 = assigned_ok [OF s r]
    have tail': "registry_ok (snd (and_then
        (case previous of Some p \<Rightarrow> when_op (Some p \<noteq> g) (prune_auto_tab_if_empty (Some user) m p)
                        | None \<Rightarrow> skip) (publish user (Ev_TerminalUpdated t)) (s1\<lparr>rg_db := db\<rparr>)))" for db
      using ensuresD [OF tail, of "s1\<lparr>rg_db := db\<rparr>"] s1 by simp
    show ?thesis
    proof (cases "insert_terminal now (ti_id t) (ti_machine_id t) (ti_title t) (ti_cwd t) (ti_cols t)
        (ti_rows t) (rg_db s1)")
      case None
      with s1 r show ?thesis by (simp add: set_terminal_workspace_group_def)
    next
      case (Some db1)
      then show ?thesis
        using s1 r tail'
        by (cases "assign_workspace_group tid g db1") (simp_all add: set_terminal_workspace_group_def)
    qed
  qed
qed

lemma typed_remove: "registry_ok s \<Longrightarrow> registry_ok (snd (snd (remove_machine user m s)))"
proof -
  have "typed (and_then (remove_conn m)
        (and_then (quiet (\<lambda>s. s\<lparr>rg_persisted := hdel m (rg_persisted s),
                     rg_mode := clear_machine_mode user m (rg_mode s),
                     rg_db := delete_machine m (rg_db s),
                     rg_sessions := sessions_without_machine m (rg_sessions s)\<rparr>))
        (publish user (Ev_MachineRemoved m))))"
    unfolding remove_conn_def publish_def
    by (intro typed_rules) (simp_all add: registry_ok_drop_conn registry_ok_drop_stash)
  then show "registry_ok s \<Longrightarrow> ?thesis" by (simp add: remove_machine_def ensures_def)
qed

lemma changed_browser_ids [simp]:
  "ab_id (changed_browser now c b) = ab_id b" "ab_machine_id (changed_browser now c b) = ab_machine_id b"
  by (cases c; simp add: released_def)+

lemma taken_back_ids [simp]:
  "ab_id (taken_back now reason b) = ab_id b" "ab_machine_id (taken_back now reason b) = ab_machine_id b"
  by (simp_all add: taken_back_def released_def)

lemma typed_reconcile: "typed (reconcile_control_timer m b)"
  unfolding reconcile_control_timer_def by (rule typed_quiet) (simp split: option.split)

lemma found_browser_ok:
  "registry_ok s \<Longrightarrow> found_browser s m bid = Some (conn, b)
     \<Longrightarrow> conn_ok m conn \<and> ab_id b = bid \<and> ab_machine_id b = Some m"
  by (auto simp: found_browser_def split: option.splits dest: registry_ok_conn conn_ok_found(2))

lemma typed_put_browser:
  "conn_ok m conn \<Longrightarrow> ab_id b = bid \<Longrightarrow> ab_machine_id b = Some m \<Longrightarrow> typed (put_browser m conn bid b)"
  unfolding put_browser_def by (intro typed_rules conn_ok_updates)

lemma typed_apply_control:
  assumes "registry_ok s"
  shows "registry_ok (snd (snd (apply_agent_browser_control now m bid change s)))"
proof (cases "found_browser s m bid")
  case None
  with assms show ?thesis by (simp add: apply_agent_browser_control_def)
next
  case (Some cb)
  then obtain conn b where f: "found_browser s m bid = Some (conn, b)" by (cases cb) auto
  let ?b = "changed_browser now change b"
  have "typed (and_then (put_browser m conn bid ?b)
      (and_then (when_op (resets_activity change b) (forget_activity m bid)) (browser_news conn b ?b)))"
    using found_browser_ok [OF assms f] unfolding forget_activity_def browser_news_def
    by (intro typed_rules typed_put_browser; simp)
  from ensuresD [OF this assms] f show ?thesis by (simp add: apply_agent_browser_control_def Let_def)
qed

lemma typed_control:
  assumes "registry_ok s"
  shows "registry_ok (snd (snd (change_agent_browser_control now m bid change s)))"
  using typed_apply_control [OF assms, of now m bid change]
  by (auto simp: change_agent_browser_control_def split: prod.split option.split
      intro: typed_snd [OF typed_reconcile])

lemma typed_reclaim:
  assumes "registry_ok s"
  shows "registry_ok (snd (snd (reclaim_agent_browser_control now m bid reason force s)))"
proof (cases "found_browser s m bid")
  case None
  with assms show ?thesis by (simp add: reclaim_agent_browser_control_def)
next
  case (Some cb)
  then obtain conn b where f: "found_browser s m bid = Some (conn, b)" by (cases cb) auto
  note ok = found_browser_ok [OF assms f]
  have "typed (and_then (put_browser m conn bid (b\<lparr>ab_handoff := None\<rparr>))
      (and_then (browser_news conn b (b\<lparr>ab_handoff := None\<rparr>)) (reconcile_control_timer m bid)))"
    using ok unfolding browser_news_def by (intro typed_rules typed_put_browser typed_reconcile; simp)
  moreover have "typed (and_then (put_browser m conn bid (taken_back now reason b))
      (and_then (forget_activity m bid) (and_then (browser_news conn b (taken_back now reason b))
        (reconcile_control_timer m bid))))"
    using ok unfolding browser_news_def forget_activity_def
    by (intro typed_rules typed_put_browser typed_reconcile; simp)
  ultimately show ?thesis
    using assms f
    by (auto simp: reclaim_agent_browser_control_def ensures_def Let_def split: option.split)
qed

lemma typed_expire: "typed (expire_control now m bid d)"
proof -
  have "typed (drop_answer (apply_agent_browser_control now m bid Change_Release))"
    by (auto simp: ensures_def drop_answer_def typed_apply_control)
  then show ?thesis unfolding expire_control_def by (intro typed_rules; simp)
qed

lemma typed_streams: "typed (on_streams f m b)"
  using typed_after_streams [OF typed_send]
  by (intro ensuresI) (simp add: on_streams_def split: prod.split)

lemma typed_viewers:
  "registry_ok s \<Longrightarrow> registry_ok (snd (snd (attach_agent_browser_viewer m b p d s)))"
  "typed (drop_viewer v)"
proof -
  have counted: "typed (case d of None \<Rightarrow> skip
      | Some device \<Rightarrow> and_then (count_viewer m b device) (reconcile_control_timer m b))"
    unfolding count_viewer_def by (intro typed_rules typed_reconcile; simp)
  show "registry_ok (snd (snd (attach_agent_browser_viewer m b p d s)))" if "registry_ok s"
    using typed_after_streams [OF sound_seq [OF typed_send counted] that]
    by (simp add: attach_agent_browser_viewer_def split: prod.split)
  show "typed (drop_viewer v)"
    unfolding drop_viewer_def uncount_viewer_def Let_def
    by (intro typed_rules typed_reconcile typed_streams; simp split: option.split)
qed

lemma typed_requests:
  "registry_ok s \<Longrightarrow> registry_ok (snd (snd (send_request accepts r m msg s)))"
  "typed (end_wait r e)" "typed (forget_opener r)" "typed (note_opener r opener)"
  "typed (forget_browser_request r)" "typed (note_browser_request r m)"
  by (auto simp: ensures_def send_request_def register_pending_def remove_pending_def quiet_def
      end_wait_def forget_opener_def note_opener_def forget_browser_request_def skip_def
      note_browser_request_def Let_def split: wait_end.split option.split)

lemma typed_create_send:
  "registry_ok s \<Longrightarrow>
     registry_ok (snd (snd (create_terminal_send accepts r m cwd dims startup opener start s)))"
  "registry_ok s \<Longrightarrow> registry_ok (snd (snd (agent_browser_send accepts r m command s)))"
proof -
  assume s: "registry_ok s"
  have noted: "registry_ok (snd (note_opener r opener s))" "registry_ok (snd (note_browser_request r m s))"
    using typed_requests s by (auto simp: ensures_def)
  show "registry_ok (snd (snd (create_terminal_send accepts r m cwd dims startup opener start s)))"
    using typed_requests(1) [OF noted(1), of accepts r m
        "H2M_CreateTerminal r cwd (fst dims) (snd dims) startup start"] typed_requests(3)
    by (auto simp: create_terminal_send_def ensures_def split: prod.splits option.splits)
  show "registry_ok (snd (snd (agent_browser_send accepts r m command s)))"
    using typed_requests(1) [OF noted(2), of accepts r m "H2M_AgentBrowser r command"] typed_requests(5)
    by (auto simp: agent_browser_send_def ensures_def split: prod.splits option.splits)
qed

lemma typed_call:
  assumes "registry_ok s" "honest c"
  shows "registry_ok (snd (exec_hub s c))"
proof -
  have simple: "typed (Registry.set_machine_production m b)" "typed (set_machine_version m v)"
    "typed (apply_optimistic_resize m t cols rows)" "typed (agent_browser_frame m b' fr)"
    "typed (viewer_drew vw)" "typed (viewer_set_params vw p)" for m b v t cols rows b' fr vw p
    unfolding Registry.set_machine_production_def set_machine_version_def apply_optimistic_resize_def
      agent_browser_frame_def viewer_drew_def viewer_set_params_def
    by (intro typed_rules typed_terminal_ops typed_streams; simp)+
  have ends: "typed (and_then (end_wait r e) (forget_opener r))"
    "typed (and_then (end_wait r e) (forget_browser_request r))" for r e
    by (intro typed_rules typed_requests)+
  have input: "registry_ok (snd (snd (agent_browser_input accepts now m b d ev s)))" for accepts now m b d ev
    using assms(1) by (simp add: agent_browser_input_def split: option.split prod.split)
  show ?thesis
  proof (cases c)
    case (Hub_Message p m msg)
    with assms show ?thesis using ensuresD [OF typed_message] by simp
  qed (use assms(1) in \<open>simp_all add: input typed_remove typed_set_group typed_control typed_reclaim
      typed_viewers(1) typed_create_send typed_requests(1) create_terminal_end_def agent_browser_end_def
      ensuresD [OF typed_register] ensuresD [OF typed_unregister] ensuresD [OF typed_clear]
      ensuresD [OF simple(1)] ensuresD [OF simple(2)] ensuresD [OF simple(3)] ensuresD [OF simple(4)]
      ensuresD [OF simple(5)] ensuresD [OF simple(6)] ensuresD [OF typed_expire]
      ensuresD [OF typed_viewers(2)] ensuresD [OF ends(1)] ensuresD [OF ends(2)]
      ensuresD [OF typed_requests(2)]\<close>)
qed

section \<open>From the start on\<close>

definition stashes_ok :: "ident set \<Rightarrow> (ident, terminal_info list) hmap \<Rightarrow> bool" where
  "stashes_ok ids m \<longleftrightarrow> hwf m \<and> (\<forall>mid ts. hget m mid = Some ts \<longrightarrow> stash_ok mid ts \<and> ti_id ` set ts \<subseteq> ids)"

lemma terminal_of_row_fields [simp]:
  "ti_id (terminal_of_row row) = ts_id row" "ti_machine_id (terminal_of_row row) = ts_machine_id row"
  "\<not> ti_reachable (terminal_of_row row)"
  by (simp_all add: terminal_of_row_def)

lemma stashes_ok_file:
  assumes "stashes_ok ids m" "ts_id row \<notin> ids"
  shows "stashes_ok (insert (ts_id row) ids) (hput (ts_machine_id row)
     ((case hget m (ts_machine_id row) of None \<Rightarrow> [] | Some ts \<Rightarrow> ts) @ [terminal_of_row row]) m)"
proof -
  let ?k = "ts_machine_id row"
  define old where "old = (case hget m ?k of None \<Rightarrow> [] | Some ts \<Rightarrow> ts)"
  have old: "stash_ok ?k old" "ti_id ` set old \<subseteq> ids"
    using assms(1)
    by (cases "hget m ?k"; simp add: old_def stashes_ok_def stash_ok_def)+
  have "ts_id row \<notin> ti_id ` set old" using old(2) assms(2) by blast
  with old have new: "stash_ok ?k (old @ [terminal_of_row row])"
    "ti_id ` set (old @ [terminal_of_row row]) \<subseteq> insert (ts_id row) ids"
    by (auto simp: stash_ok_def)
  have "stash_ok mid ts \<and> ti_id ` set ts \<subseteq> insert (ts_id row) ids"
    if "hget (hput ?k (old @ [terminal_of_row row]) m) mid = Some ts" for mid ts
    using that new assms(1)
    by (cases "mid = ?k") (simp_all add: hm.get_put stashes_ok_def subset_insertI2)
  then show ?thesis using assms(1) unfolding old_def [symmetric] by (simp add: stashes_ok_def)
qed

lemma stashes_ok_rows:
  assumes "stashes_ok ids m" "distinct (map ts_id rows)" "ids \<inter> ts_id ` set rows = {}"
  shows "\<exists>ids'. stashes_ok ids' (foldl (\<lambda>m row. hput (ts_machine_id row)
     ((case hget m (ts_machine_id row) of None \<Rightarrow> [] | Some ts \<Rightarrow> ts) @ [terminal_of_row row]) m) m rows)"
  using assms
proof (induction rows arbitrary: ids m)
  case Nil
  then show ?case by auto
next
  case (Cons row rows)
  then show ?case using Cons.IH [OF stashes_ok_file, of ids m row] by auto
qed

lemma startup_ok:
  assumes "distinct (map ts_id (db_terminal_sessions db))"
  shows "registry_ok (new_registry millis db sessions)"
proof -
  have "distinct (map ts_id (find_all_active db))"
    using assms unfolding find_all_active_def
    by (metis (no_types, lifting) distinct_map distinct_sort inj_on_subset distinct_filter filter_is_subset set_sort)
  moreover have "stashes_ok {} []" by (simp add: stashes_ok_def hm.get_none)
  ultimately obtain ids where "stashes_ok ids (startup_terminals db)"
    unfolding startup_terminals_def using stashes_ok_rows [of "{}" "[]" "find_all_active db"] by auto
  then show ?thesis by (simp add: registry_ok_def new_registry_def stashes_ok_def hm.get_none)
qed

definition hub_run :: "registry \<Rightarrow> hub_call list \<Rightarrow> registry" where
  "hub_run s cs = foldl (\<lambda>s c. snd (exec_hub s c)) s cs"

interpretation typing: invariant_steps "\<lambda>s c. if honest c then snd (exec_hub s c) else s" registry_ok
  by unfold_locales (simp add: typed_call)

lemma hub_run_honest:
  "\<forall>c \<in> set cs. honest c \<Longrightarrow>
     hub_run s cs = foldl (\<lambda>s c. if honest c then snd (exec_hub s c) else s) s cs"
  by (induction cs arbitrary: s) (simp_all add: hub_run_def)

lemma hub_run_ok: "registry_ok s \<Longrightarrow> \<forall>c \<in> set cs. honest c \<Longrightarrow> registry_ok (hub_run s cs)"
  by (simp add: hub_run_honest typing.run_inv)



end
