(* ===== verification/Snapshot.thy ===== *)
theory Snapshot
  imports BrowserControl
begin

text \<open>
  What a browser is given when it connects (\<^verbatim>\<open>MachineManager::snapshot_for_user\<close> of
  \<^verbatim>\<open>crates/hub/src/machine_manager.rs\<close>). The last event number is read before anything else and
  is an argument here, as are the parser of a stored pane layout, the focused terminal of a user
  (a table of its own) and the clock.
\<close>

record machine_stats_snapshot =
  mt_machine_id :: ident
  mt_stats :: resource_stats

record browser_state_snapshot =
  bs_snapshot_seq :: nat
  bs_last_focused_terminal_id :: "ident option"
  bs_machines :: "machine_info list"
  bs_terminals :: "terminal_info list"
  bs_workspace_groups :: "workspace_group_info list"
  bs_workspace_layouts :: "workspace_layout_info list"
  bs_machine_stats :: "machine_stats_snapshot list"
  bs_control_leases :: "control_lease_snapshot list"
  bs_agent_sessions :: "agent_session_info list"
  bs_agent_session_seen :: "(ident \<times> nat) list"
  bs_agent_browsers :: "agent_browser_info list"
  bs_agent_runs :: "agent_run_info list"

definition visible_conns :: "registry \<Rightarrow> ident \<Rightarrow> machine_connection list" where
  "visible_conns s user_id =
     filter (\<lambda>conn. connection_visible_to conn user_id) (hvals (rg_machines s))"

definition group_info_of_row :: "workspace_group_row \<Rightarrow> workspace_group_info" where
  "group_info_of_row g = \<lparr>wg_id = wr_id g, wg_machine_id = wr_machine_id g, wg_name = wr_name g,
     wg_sort_order = wr_sort_order g\<rparr>"

text \<open>A layout that no longer parses is left out.\<close>

definition layout_of_row ::
  "(json \<Rightarrow> workspace_layout_node option option) \<Rightarrow> workspace_layout_row
     \<Rightarrow> workspace_layout_info option" where
  "layout_of_row parse row =
     map_option (\<lambda>root. \<lparr>wl_machine_id = wy_machine_id row, wl_group_key = wy_group_key row,
         wl_root = root, wl_updated_at = wy_updated_at row\<rparr>) (parse (wy_root_json row))"

text \<open>The machines that are away but left terminals behind, with their rows.\<close>

definition away_machines ::
  "registry \<Rightarrow> ident \<Rightarrow> (machine_row \<times> terminal_info list) list" where
  "away_machines s user_id =
     List.map_filter (\<lambda>(mid, ts). case find_machine_by_id (rg_db s) mid of
         None \<Rightarrow> None
       | Some row \<Rightarrow> if mr_user_id row = user_id then Some (row, ts) else None)
       (filter (\<lambda>(mid, _). mid \<notin> (mi_id \<circ> mc_info) ` set (visible_conns s user_id)) (rg_persisted s))"

definition snapshot_terminals :: "registry \<Rightarrow> ident \<Rightarrow> terminal_info list" where
  "snapshot_terminals s user_id =
     concat (map (hvals \<circ> mc_terminals) (visible_conns s user_id))
     @ concat (map snd (away_machines s user_id))"

definition snapshot_machines :: "registry \<Rightarrow> ident \<Rightarrow> machine_info list" where
  "snapshot_machines s user_id =
     append_missing_db_machines (rg_db s) user_id
       (map mc_info (visible_conns s user_id)
        @ map (machine_info_from_row \<circ> fst) (away_machines s user_id))"

definition stats_of_conn :: "machine_connection \<Rightarrow> machine_stats_snapshot option" where
  "stats_of_conn conn =
     map_option (\<lambda>stats. \<lparr>mt_machine_id = mi_id (mc_info conn), mt_stats = stats\<rparr>)
       (mc_latest_stats conn)"

definition snapshot_for_user ::
  "(json \<Rightarrow> workspace_layout_node option option) \<Rightarrow> (ident \<Rightarrow> ident option) \<Rightarrow> ms \<Rightarrow> nat
     \<Rightarrow> registry \<Rightarrow> ident \<Rightarrow> browser_state_snapshot" where
  "snapshot_for_user parse_layout focus now last_seq s user_id =
     (let visible = visible_conns s user_id;
          terminals = snapshot_terminals s user_id
      in \<lparr>bs_snapshot_seq = last_seq,
          bs_last_focused_terminal_id =
            (case focus user_id of
               None \<Rightarrow> None
             | Some tid \<Rightarrow> if tid \<in> ti_id ` set terminals then Some tid else None),
          bs_machines = snapshot_machines s user_id,
          bs_terminals = terminals,
          bs_workspace_groups =
            map group_info_of_row (find_workspace_groups_by_user (rg_db s) user_id),
          bs_workspace_layouts =
            List.map_filter (layout_of_row parse_layout)
              (find_workspace_layouts_by_user (rg_db s) user_id),
          bs_machine_stats = List.map_filter stats_of_conn visible,
          bs_control_leases =
            filter (\<lambda>l. cl_machine_id l \<in> (mi_id \<circ> mc_info) ` set visible)
              (get_control_leases (rg_mode s) user_id),
          bs_agent_sessions =
            map session_row_to_info (find_sessions_by_user user_id (rg_sessions s)),
          bs_agent_session_seen = seen_by_user user_id (rg_sessions s),
          bs_agent_browsers = sort_key ab_id (concat (map (hvals \<circ> mc_agent_browsers) visible)),
          bs_agent_runs = runs_for_snapshot now user_id (rg_db s)\<rparr>)"

end
