(* ===== verification/TerminalMirror.thy ===== *)
theory TerminalMirror
  imports RegistryTypes Snapshot
begin

text \<open>
  The browsers' list of terminals. A browser starts from a snapshot and follows the events; what
  it then shows of each terminal (its title, tab and opener) is what the hub has, through
  disconnects, overlapping reconnects and the full lists of reconnected nodes.
\<close>

section \<open>What a browser shows\<close>

type_synonym face = "ustr \<times> terminal_title_source \<times> ident option \<times> terminal_opener option"

definition face :: "terminal_info \<Rightarrow> face" where
  "face t = (ti_title t, ti_title_source t, ti_workspace_group_id t, ti_opened_by t)"

type_synonym terminal_parts =
  "(ident, terminal_info list) hmap \<times> (ident \<Rightarrow> (ident, terminal_info) hmap option)"

definition term_part :: "registry \<Rightarrow> terminal_parts" where
  "term_part s = (rg_persisted s, \<lambda>m. map_option mc_terminals (hget (rg_machines s) m))"

definition stashed :: "(ident, terminal_info list) hmap \<Rightarrow> ident \<Rightarrow> ident \<Rightarrow> face option" where
  "stashed away m tid =
     map_option face (find (\<lambda>t. ti_id t = tid) (case hget away m of None \<Rightarrow> [] | Some ts \<Rightarrow> ts))"

text \<open>The hub's own list: a live terminal, or else one of a machine that is away.\<close>

fun filed :: "terminal_parts \<Rightarrow> ident \<times> ident \<Rightarrow> face option" where
  "filed (away, conns) (m, tid) =
     (case conns m of
        None \<Rightarrow> stashed away m tid
      | Some ts \<Rightarrow> (case hget ts tid of None \<Rightarrow> stashed away m tid | Some t \<Rightarrow> Some (face t)))"

definition shown :: "registry \<Rightarrow> ident \<times> ident \<Rightarrow> face option" where
  "shown s = filed (term_part s)"

text \<open>What a browser does with an event.\<close>

definition show_terminal ::
  "terminal_info \<Rightarrow> (ident \<times> ident \<Rightarrow> face option) \<Rightarrow> ident \<times> ident \<Rightarrow> face option" where
  "show_terminal t V = V((ti_machine_id t, ti_id t) \<mapsto> face t)"

fun see_event :: "(ident \<times> ident \<Rightarrow> face option) \<Rightarrow> browser_event \<Rightarrow> ident \<times> ident \<Rightarrow> face option" where
  "see_event V (Ev_TerminalCreated t) = show_terminal t V"
| "see_event V (Ev_TerminalUpdated t) = show_terminal t V"
| "see_event V (Ev_TerminalResized t) = show_terminal t V"
| "see_event V (Ev_TerminalDestroyed m tid) = V((m, tid) := None)"
| "see_event V (Ev_MachineRemoved m) = (\<lambda>(m', tid). if m' = m then None else V (m', tid))"
| "see_event V _ = V"

fun see :: "(ident \<times> ident \<Rightarrow> face option) \<Rightarrow> effect \<Rightarrow> ident \<times> ident \<Rightarrow> face option" where
  "see V (Fx_Event _ ev) = see_event V ev"
| "see V _ = V"

definition unseen :: "effect \<Rightarrow> bool" where
  "unseen e \<longleftrightarrow> (\<forall>V. see V e = V)"

text \<open>A machine whose terminals are live has none stashed.\<close>

definition phased :: "registry \<Rightarrow> bool" where
  "phased s \<longleftrightarrow> (\<forall>m conn. hget (rg_machines s) m = Some conn \<longrightarrow> mc_terminals conn \<noteq> [] \<longrightarrow>
     stash_of s m = [])"

text \<open>
  What the calls must respect: a node lists its terminals before it reports on them, only a
  connected node lists, and a terminal is only put into a tab the database has.
\<close>

fun orderly :: "registry \<Rightarrow> hub_call \<Rightarrow> bool" where
  "orderly s (Hub_Message _ m (M2H_ExistingTerminals ts)) \<longleftrightarrow>
     hhas (rg_machines s) m \<and> (\<forall>t \<in> set ts. ti_machine_id t = m)"
| "orderly s (Hub_Message _ m (M2H_TerminalCreated _ _ _ _ _ _)) \<longleftrightarrow> stash_of s m = []"
| "orderly s (Hub_Message _ m (M2H_TerminalDestroyed _)) \<longleftrightarrow> stash_of s m = []"
| "orderly s (Hub_Message _ m (M2H_TerminalDied _ _)) \<longleftrightarrow> stash_of s m = []"
| "orderly s (Hub_SetGroup _ _ m _ g) \<longleftrightarrow>
     m \<in> mr_id ` set (db_machines (rg_db s)) \<and> group_exists (rg_db s) g"
| "orderly s _ \<longleftrightarrow> True"

lemma orderly_honest: "orderly s c \<Longrightarrow> honest c"
  by (cases c rule: honest.cases) auto

section \<open>Operations a browser's list does not notice\<close>

definition mirror :: "hub_op \<Rightarrow> registry \<Rightarrow> bool" where
  "mirror m s \<longleftrightarrow> foldl see (shown s) (fst (m s)) = shown (snd (m s))"

abbreviation still :: "terminal_parts \<Rightarrow> hub_op \<Rightarrow> bool" where
  "still T m \<equiv> sound (\<lambda>s. term_part s = T) unseen m"

lemma unseen_run: "\<forall>e \<in> set es. unseen e \<Longrightarrow> foldl see V es = V"
  by (induction es arbitrary: V) (simp_all add: unseen_def)

lemma still_mirror: "(\<And>T. still T m) \<Longrightarrow> mirror m s \<and> term_part (snd (m s)) = term_part s"
  using ensuresD [of "\<lambda>x. term_part x = term_part s" m unseen "\<lambda>x. term_part x = term_part s" s]
  by (simp add: mirror_def shown_def unseen_run)

lemma mirror_seq: "mirror m s \<Longrightarrow> mirror n (snd (m s)) \<Longrightarrow> mirror (and_then m n) s"
  unfolding mirror_def and_then_def by (cases "m s"; cases "n (snd (m s))") simp

lemma mirror_seq_still:
  assumes "mirror m s" and "\<And>T. still T n"
  shows "mirror (and_then m n) s"
  by (rule mirror_seq [OF assms(1) conjunct1 [OF still_mirror [OF assms(2)]]])

lemma and_then_assoc: "and_then m (and_then n k) = and_then (and_then m n) k"
  by (rule ext) (simp add: and_then_def Let_def case_prod_unfold)

lemma snd_and_then: "snd (and_then m n s) = snd (n (snd (m s)))"
  by (simp add: and_then_def Let_def case_prod_unfold)

lemma term_part_fields [simp]:
  "term_part (s\<lparr>rg_db := db\<rparr>) = term_part s"
  "term_part (s\<lparr>rg_sessions := sd\<rparr>) = term_part s"
  "term_part (s\<lparr>rg_pending := ps\<rparr>) = term_part s"
  "term_part (s\<lparr>rg_activity := ac\<rparr>) = term_part s"
  "term_part (s\<lparr>rg_streams := str\<rparr>) = term_part s"
  "term_part (s\<lparr>rg_browser_requests := rs\<rparr>) = term_part s"
  "term_part (s\<lparr>rg_viewers := vs\<rparr>) = term_part s"
  "term_part (s\<lparr>rg_timers := tm\<rparr>) = term_part s"
  "term_part (s\<lparr>rg_mode := mo\<rparr>) = term_part s"
  "term_part (s\<lparr>rg_openers := os\<rparr>) = term_part s"
  by (simp_all add: term_part_def)

lemma unseen_simps [simp]:
  "unseen (Fx_Reply r x)" "unseen (Fx_Failed r)" "unseen (Fx_Send m msg)"
  "unseen (Fx_Event u (Ev_MachineOnline i))" "unseen (Fx_Event u (Ev_MachineOffline m))"
  "unseen (Fx_Event u (Ev_TerminalReachableChanged m tid b))"
  "unseen (Fx_Event u (Ev_WorkspaceGroupDeleted m g))" "unseen (Fx_Event u (Ev_MachineStats m st))"
  "unseen (Fx_Event u (Ev_AgentSessionUpdated si))" "unseen (Fx_Event u (Ev_AgentSessionEvent sid sq ev))"
  "unseen (Fx_Event u (Ev_AgentRunUpdated run))" "unseen (Fx_Event u (Ev_AgentBrowserCreated br))"
  "unseen (Fx_Event u (Ev_AgentBrowserUpdated br))" "unseen (Fx_Event u (Ev_AgentBrowserDestroyed m bid))"
  by (simp_all add: unseen_def)

lemma announced_run:
  "(u, ev) \<in> set (fst (announce_runs user m db)) \<Longrightarrow> \<exists>run. ev = Ev_AgentRunUpdated run"
  by (auto simp: announce_runs_def split: option.splits prod.splits)

lemma still_put_conn:
  assumes "mc_terminals conn' = mc_terminals conn"
  shows "ensures (\<lambda>s. term_part s = T \<and> has_conn m conn s) (put_conn m conn') unseen (\<lambda>s. term_part s = T)"
  using assms by (intro ensures_put_conn) (auto simp: term_part_def has_conn_def hm.get_put)

lemma still_on_conn:
  assumes "\<And>conn. ensures (\<lambda>s. term_part s = T \<and> has_conn m conn s) (f conn) unseen (\<lambda>s. term_part s = T)"
  shows "still T (on_conn m f)"
  by (rule ensures_on_conn) (rule assms)

text \<open>The first step inside \<open>on_conn\<close> stores a connection with the same terminals.\<close>

lemma still_put_then:
  assumes "mc_terminals conn' = mc_terminals conn" "still T m"
  shows "ensures (\<lambda>s. term_part s = T \<and> has_conn k conn s) (and_then (put_conn k conn') m) unseen
     (\<lambda>s. term_part s = T)"
  by (rule ensures_seq [OF still_put_conn [OF assms(1)] assms(2)])

lemma still_weaken: "still T m \<Longrightarrow> ensures (\<lambda>s. term_part s = T \<and> P s) m unseen (\<lambda>s. term_part s = T)"
  by (auto simp: ensures_def)

lemma still_on_db: "still T (on_db f)"
  by (rule ensures_on_db) simp

lemma still_announce: "still T (announcing (announce_runs user op))"
  by (rule ensures_announcing) (auto dest: announced_run)

lemma still_resolve: "still T (resolve_pending r x)"
  by (rule ensures_resolve) auto

lemma still_drop_pending: "still T (drop_pending r)"
  by (rule ensures_drop_pending) auto

lemma still_quiet: "(\<And>s. term_part (f s) = term_part s) \<Longrightarrow> still T (quiet f)"
  by (rule ensures_quiet) simp

lemma still_reading: "(\<And>x. still T (g x)) \<Longrightarrow> still T (reading f g)"
  by (simp add: ensures_def reading_def)

lemma still_prune: "still T (prune_auto_tab_if_empty user machine g)"
  by (auto simp: ensures_def prune_auto_tab_if_empty_def publish_workspace_group_deleted_def
      publish_def emit_def Let_def split: option.splits prod.splits)

lemmas still_rules = sound_seq still_on_conn still_put_then still_put_conn still_on_db still_announce
  still_resolve still_drop_pending still_quiet still_reading still_prune sound_each sound_skip
  sound_emit sound_when sound_if sound_option

lemma still_gone_rest: "still T (and_then (prune_tab_of user m g) (announcing (end_terminal_runs now user tid)))"
  unfolding prune_tab_of_def end_terminal_runs_def by (intro still_rules)

lemma still_runs:
  "still T (terminal_agent now new_run new_req m tid agent)"
  "still T (agent_signal now new_run new_req m tid agent source signal)"
  unfolding terminal_agent_def agent_signal_def on_terminal_agent_def on_agent_signal_def
  by (intro still_rules ensures_announcing; auto dest: announced_run split: option.splits)+

lemma still_stats: "still T (resource_stats_report m stats)"
  unfolding resource_stats_report_def by (intro still_rules) auto

lemma still_installed:
  "still T (on_conn m (\<lambda>conn. put_conn m (conn\<lparr>mc_installed_agents := agents\<rparr>)))"
  by (intro still_rules) simp

lemma still_send: "still T (send_node_actions m b as)"
  unfolding send_node_actions_def by (intro still_rules still_weaken) auto

lemma still_upsert: "still T (upsert_agent_browser m browser)"
  unfolding upsert_agent_browser_def Let_def
  by (intro still_rules) (auto split: option.split)

lemma still_streams: "still T (on_streams f m b)"
proof (rule ensuresI)
  fix s
  assume "term_part s = T"
  then have "term_part (s\<lparr>rg_streams := str\<rparr>) = T" for str by simp
  from ensuresD [OF still_send this]
  show "(\<forall>e \<in> set (fst (on_streams f m b s)). unseen e) \<and> term_part (snd (on_streams f m b s)) = T"
    by (simp add: on_streams_def split: prod.split)
qed

lemma still_resync: "still T (resync_streams m ids)"
proof (rule ensuresI)
  fix s
  assume "term_part s = T"
  then have s: "term_part (s\<lparr>rg_streams := str\<rparr>) = T" for str by simp
  have "still T (each (\<lambda>(browser_id, action). send_node_actions m browser_id [action]) xs)" for xs
    by (intro still_rules) (auto intro: still_send)
  from ensuresD [OF this s]
  show "(\<forall>e \<in> set (fst (resync_streams m ids s)). unseen e) \<and> term_part (snd (resync_streams m ids s)) = T"
    by (simp add: resync_streams_def split: prod.split)
qed

lemma still_browser_ops:
  "still T (agent_browser_destroyed m b)" "still T (replace_agent_browsers m browsers)"
  subgoal
    unfolding agent_browser_destroyed_def forget_activity_def
    by (intro still_rules ensures_when) auto
  subgoal
    unfolding replace_agent_browsers_def forget_activity_def Let_def
    by (intro still_rules still_upsert still_resync) auto
  done

lemma still_sessions:
  "still T (agent_session_update now sid status title acp models model)"
  "still T (agent_session_exited now sid)"
  "still T (agent_session_event now sid sq event)"
  subgoal unfolding agent_session_update_def on_sessions_def announce_session_def
    by (intro still_rules; simp)
  subgoal unfolding agent_session_exited_def on_sessions_def announce_session_def
    by (intro still_rules; simp)
  subgoal by (auto simp: ensures_def agent_session_event_def split: option.split)
  done

section \<open>Operations a browser's list follows\<close>

lemma mirrorI: "foldl see (shown s) (fst (m s)) = shown (snd (m s)) \<Longrightarrow> mirror m s"
  by (simp add: mirror_def)

lemma mirror_skip: "mirror skip s"
  by (simp add: mirror_def skip_def)

lemma shown_put_terminal:
  assumes "hget (rg_machines s) m = Some conn" "ti_id t = tid" "ti_machine_id t = m"
  shows "shown (snd (put_terminal m conn tid t s)) = show_terminal t (shown s)"
proof -
  have "shown (snd (put_terminal m conn tid t s)) (m', tid') = show_terminal t (shown s) (m', tid')" for m' tid'
    using assms
    by (auto simp: shown_def term_part_def show_terminal_def put_terminal_def put_conn_def quiet_def hm.get_put)
  then show ?thesis by auto
qed

text \<open>A terminal stored on its connection, then told.\<close>

lemma mirror_put_tell:
  assumes "hget (rg_machines s) m = Some conn" "ti_id t = tid" "ti_machine_id t = m"
    and "\<And>V. see_event V ev = show_terminal t V"
  shows "mirror (and_then (put_terminal m conn tid t) (emit [Fx_Event u ev])) s"
  using shown_put_terminal [OF assms(1-3)] assms(4)
  by (simp add: mirror_def and_then_def emit_def Let_def case_prod_unfold put_terminal_def put_conn_def quiet_def)

lemma mirror_put_tell_then:
  assumes "hget (rg_machines s) m = Some conn" "ti_id t = tid" "ti_machine_id t = m"
    and "\<And>V. see_event V ev = show_terminal t V" and "\<And>T. still T n"
  shows "mirror (and_then (and_then (put_terminal m conn tid t) (emit [Fx_Event u ev])) n) s"
  by (rule mirror_seq_still [OF mirror_put_tell [OF assms(1-4)] assms(5)])

lemma mirror_reading: "mirror (g (f s)) s \<Longrightarrow> mirror (reading f g) s"
  by (simp add: mirror_def reading_def)

lemma mirror_on_terminal:
  assumes "registry_ok s"
    and "\<And>conn t. hget (rg_machines s) m = Some conn \<Longrightarrow> hget (mc_terminals conn) tid = Some t \<Longrightarrow>
      ti_id t = tid \<Longrightarrow> ti_machine_id t = m \<Longrightarrow> mirror (f conn t) s"
  shows "mirror (on_terminal m tid f) s"
proof (cases "hget (rg_machines s) m")
  case None
  then show ?thesis by (simp add: mirror_def on_terminal_def on_conn_def reading_def skip_def)
next
  case (Some conn)
  note c = registry_ok_conn [OF assms(1) Some]
  show ?thesis
  proof (cases "hget (mc_terminals conn) tid")
    case None
    with Some show ?thesis by (simp add: mirror_def on_terminal_def on_conn_def reading_def skip_def)
  next
    case (Some t)
    from assms(2) [OF \<open>hget (rg_machines s) m = Some conn\<close> Some] conn_ok_found(1) [OF c Some]
      \<open>hget (rg_machines s) m = Some conn\<close> Some
    show ?thesis by (simp add: mirror_def on_terminal_def on_conn_def reading_def)
  qed
qed

lemma mirror_attention:
  assumes "registry_ok s"
  shows "mirror (terminal_attention_changed now new_req m tid attention) s"
proof -
  have rest: "still T (announcing (on_run_attention now new_req u k attention))" for T u k
    unfolding on_run_attention_def by (intro still_rules)
  show ?thesis
    unfolding terminal_attention_changed_def Let_def and_then_assoc when_op_def
    by (rule mirror_on_terminal [OF assms])
      (auto intro!: mirror_put_tell_then mirror_skip rest)
qed

lemma mirror_activity:
  assumes "registry_ok s"
  shows "mirror (terminal_activity m tid at_ms) s"
  unfolding terminal_activity_def Let_def when_op_def
  by (rule mirror_on_terminal [OF assms]) (auto intro!: mirror_put_tell mirror_skip)

text \<open>Writing to the database in between changes nothing that is seen.\<close>

lemma put_db_tell:
  "and_then (put_terminal m conn tid t) (and_then (on_db f) (emit es)) =
   and_then (and_then (put_terminal m conn tid t) (emit es)) (on_db f)"
  by (rule ext) (simp add: and_then_def put_terminal_def put_conn_def on_db_def emit_def quiet_def)

lemma mirror_resize:
  assumes "registry_ok s"
  shows "mirror (resize_terminal m tid cols rows) s"
  unfolding resize_terminal_def Let_def put_db_tell
  by (rule mirror_on_terminal [OF assms])
    (auto intro!: mirror_put_tell_then still_on_db)

lemma mirror_after_db: "mirror m (s\<lparr>rg_db := db\<rparr>) \<Longrightarrow> foldl see (shown s) (fst (m (s\<lparr>rg_db := db\<rparr>))) =
    shown (snd (m (s\<lparr>rg_db := db\<rparr>)))"
  by (simp add: mirror_def shown_def)

lemma mirror_title:
  assumes "registry_ok s"
  shows "mirror (terminal_title m tid title src) s"
proof -
  have rest: "still T (when_op b (announcing (on_terminal_title u k)))" for T u b k
    unfolding on_terminal_title_def by (intro still_rules)
  have "mirror (on_terminal m tid (\<lambda>conn t.
      let t' = t\<lparr>ti_title := title, ti_title_source := src\<rparr> in
      and_then (put_terminal m conn tid t')
     (and_then (emit [Fx_Event (mc_user_id conn) (Ev_TerminalUpdated t')])
      (when_op (renames_session t title src) (announcing (on_terminal_title (mc_user_id conn) tid))))))
     (s\<lparr>rg_db := db\<rparr>)" for db
    unfolding Let_def and_then_assoc
    by (rule mirror_on_terminal)
      (auto simp: assms intro!: mirror_put_tell_then rest)
  from mirror_after_db [OF this] show ?thesis
    by (intro mirrorI) (auto simp: terminal_title_def shown_def split: prod.split)
qed

lemma mirror_cwd:
  assumes "registry_ok s"
  shows "mirror (terminal_cwd m tid cwd) s"
proof -
  have "mirror (when_op b (on_terminal m tid (\<lambda>conn t.
      let t' = t\<lparr>ti_cwd := cwd\<rparr> in
      and_then (put_terminal m conn tid t')
        (emit [Fx_Event (mc_user_id conn) (Ev_TerminalUpdated t')])))) (s\<lparr>rg_db := db\<rparr>)" for b db
    unfolding Let_def when_op_def
    by (auto simp: assms intro!: mirror_on_terminal mirror_put_tell mirror_skip)
  from mirror_after_db [OF this] show ?thesis
    by (intro mirrorI) (auto simp: terminal_cwd_def split: prod.split)
qed

lemma mirror_created:
  "mirror (terminal_created now m r tid title cwd cols rows) s"
proof -
  have rest: "still T (and_then (try_db (insert_terminal now tid m title cwd cols rows))
      (and_then (case opener of None \<Rightarrow> skip | Some o' \<Rightarrow> on_db (set_opened_by tid o'))
       (resolve_pending r x)))" for T opener x
    unfolding try_db_def by (intro still_rules)
  have "mirror (on_conn m (\<lambda>conn. let t = created_terminal m tid title cwd cols rows opener in
         and_then (put_terminal m conn tid t)
           (emit [Fx_Event (mc_user_id conn) (Ev_TerminalCreated t)]))) s" for opener
  proof (cases "hget (rg_machines s) m")
    case None
    then show ?thesis by (simp add: mirror_def on_conn_def reading_def skip_def)
  next
    case (Some conn)
    have "mirror (and_then (put_terminal m conn tid (created_terminal m tid title cwd cols rows opener))
        (emit [Fx_Event (mc_user_id conn)
          (Ev_TerminalCreated (created_terminal m tid title cwd cols rows opener))])) s"
      by (rule mirror_put_tell [OF Some]) simp_all
    with Some show ?thesis by (simp add: mirror_def on_conn_def reading_def Let_def)
  qed
  then show ?thesis
    unfolding terminal_created_def
    by (intro mirror_reading mirror_seq_still rest)
qed

text \<open>Nothing seen so far, and the terminals are now these.\<close>

definition hushed :: "hub_op \<Rightarrow> registry \<Rightarrow> terminal_parts \<Rightarrow> bool" where
  "hushed m s T \<longleftrightarrow> (\<forall>e \<in> set (fst (m s)). unseen e) \<and> term_part (snd (m s)) = T"

lemma hushed_still:
  assumes "\<And>T. still T m"
  shows "hushed m s (term_part s)"
  using ensuresD [OF assms [of "term_part s"], of s] by (simp add: hushed_def)

lemma hushed_seq:
  assumes "hushed m s T" "\<And>T. still T n"
  shows "hushed (and_then m n) s T"
  using assms(1) ensuresD [OF assms(2) [of T], of "snd (m s)"]
  by (auto simp: hushed_def and_then_def Let_def case_prod_unfold)

lemma mirror_hushed_tell:
  assumes "hushed m s T" and "filed T = see_event (shown s) ev"
  shows "mirror (and_then m (emit [Fx_Event u ev])) s"
  using assms unseen_run [of "fst (m s)" "shown s"]
  by (simp add: hushed_def mirror_def shown_def and_then_def emit_def Let_def case_prod_unfold)

lemma hushed_bury:
  "hushed (and_then (and_then m (prune_tab_of u k g)) (announcing (end_terminal_runs now u' tid))) s T"
  if "hushed m s T"
  unfolding prune_tab_of_def end_terminal_runs_def
  by (intro hushed_seq that still_rules)

definition live_terminals :: "registry \<Rightarrow> ident \<Rightarrow> (ident, terminal_info) hmap" where
  "live_terminals s m = (case hget (rg_machines s) m of None \<Rightarrow> [] | Some conn \<Rightarrow> mc_terminals conn)"

lemma filed_iff:
  "filed (away, snd (term_part s)) (m, tid) =
     (case hget (live_terminals s m) tid of None \<Rightarrow> stashed away m tid | Some t \<Rightarrow> Some (face t))"
  by (simp add: term_part_def live_terminals_def hm.get_none split: option.split)

lemma shown_iff:
  "shown s (m, tid) =
     (case hget (live_terminals s m) tid of None \<Rightarrow> stashed (rg_persisted s) m tid | Some t \<Rightarrow> Some (face t))"
  using filed_iff [of "rg_persisted s" s m tid] by (simp add: shown_def term_part_def)

lemma stashed_Nil [simp]: "(case hget away m of None \<Rightarrow> [] | Some ts \<Rightarrow> ts) = [] \<Longrightarrow> stashed away m tid = None"
  by (simp add: stashed_def)

text \<open>Forgetting a terminal of a machine that has none stashed.\<close>

lemma forgotten:
  assumes "hget (rg_machines s) m = Some conn" "stash_of s m = []"
  shows "\<exists>T. hushed (forget_terminal m conn tid) s T \<and> filed T = (shown s)((m, tid) := None)"
proof -
  let ?s = "snd (forget_terminal m conn tid s)"
  have "stashed (rg_persisted s) m k = None" for k
    using assms(2) by (simp add: stash_of_def)
  then have "shown ?s (m', k) = ((shown s)((m, tid) := None)) (m', k)" for m' k
    using assms(1)
    by (auto simp: shown_iff live_terminals_def forget_terminal_def put_conn_def quiet_def hm.get_put
        hm.get_del split: option.split)
  then have "filed (term_part ?s) = (shown s)((m, tid) := None)"
    by (auto simp: shown_def)
  moreover have "hushed (forget_terminal m conn tid) s (term_part ?s)"
    by (simp add: hushed_def forget_terminal_def put_conn_def quiet_def)
  ultimately show ?thesis by blast
qed

lemma mirror_destroyed:
  assumes "stash_of s m = []"
  shows "mirror (terminal_destroyed now m tid) s"
proof (cases "hget (rg_machines s) m")
  case None
  then show ?thesis by (simp add: mirror_def terminal_destroyed_def on_conn_def reading_def skip_def)
next
  case (Some conn)
  from forgotten [OF this assms] obtain T where
    T: "hushed (forget_terminal m conn tid) s T" "filed T = (shown s)((m, tid) := None)" by blast
  have "mirror (and_then (forget_terminal m conn tid) (and_then (on_db (mark_destroyed now tid))
      (terminal_gone now (mc_user_id conn) m tid (group_of_terminal conn tid)))) s"
    unfolding terminal_gone_def and_then_assoc
    by (rule mirror_hushed_tell [OF hushed_bury [OF hushed_seq [OF T(1) still_on_db]]]) (simp add: T(2))
  with Some show ?thesis by (simp add: mirror_def terminal_destroyed_def on_conn_def reading_def)
qed

lemma died_known:
  "hget (rg_machines s) m = Some conn \<Longrightarrow>
     handle_terminal_destroyed_internal now m tid s = terminal_destroyed now m tid s"
  by (simp add: handle_terminal_destroyed_internal_def terminal_destroyed_def reading_def on_conn_def)

lemma mirror_died:
  assumes "stash_of s m = []"
  shows "mirror (handle_terminal_destroyed_internal now m tid) s"
proof (cases "hget (rg_machines s) m")
  case None
  have gone: "(shown s)((m, tid) := None) = shown s"
    using None assms by (auto simp: fun_eq_iff shown_iff live_terminals_def hm.get_none stash_of_def)
  have "hushed skip s (term_part s)" by (simp add: hushed_def skip_def)
  from mirror_hushed_tell [OF hushed_bury [OF this], of "Ev_TerminalDestroyed m tid"]
  have "mirror (and_then (and_then (and_then skip (prune_tab_of None m None))
      (announcing (end_terminal_runs now None tid))) (emit [Fx_Event None (Ev_TerminalDestroyed m tid)])) s"
    using gone by (simp add: shown_def)
  moreover have "and_then skip k = k" for k
    by (rule ext) (simp add: and_then_def skip_def)
  ultimately show ?thesis
    using None by (simp add: mirror_def handle_terminal_destroyed_internal_def reading_def
        terminal_gone_def and_then_assoc)
next
  case (Some conn)
  with mirror_destroyed [OF assms, of now tid] show ?thesis by (simp add: mirror_def died_known)
qed

section \<open>The full list\<close>

text \<open>The list with a given stash, which the hub has already put away.\<close>

definition shown_with ::
  "(ident, terminal_info list) hmap \<Rightarrow> registry \<Rightarrow> ident \<times> ident \<Rightarrow> face option" where
  "shown_with away s = filed (away, snd (term_part s))"

lemma shown_with_iff:
  "shown_with away s (m, tid) =
     (case hget (live_terminals s m) tid of None \<Rightarrow> stashed away m tid | Some t \<Rightarrow> Some (face t))"
  by (simp only: shown_with_def filed_iff)

lemma hget_by_id:
  "distinct (map ti_id ts) \<Longrightarrow> hget (by_id ts) tid = find (\<lambda>t. ti_id t = tid) ts"
proof -
  have step: "hget (fold (\<lambda>t. hput (ti_id t) t) ts m) tid =
      (case find (\<lambda>t. ti_id t = tid) ts of Some t \<Rightarrow> Some t | None \<Rightarrow> hget m tid)"
    if "distinct (map ti_id ts)" for ts m
    using that
  proof (induction ts arbitrary: m)
    case (Cons t ts)
    have "find (\<lambda>t'. ti_id t' = ti_id t) ts = None"
      using Cons.prems unfolding find_None_iff by (metis distinct.simps(2) image_eqI list.simps(9) set_map)
    with Cons show ?case by (auto simp: hm.get_put split: option.split)
  qed simp
  show "distinct (map ti_id ts) \<Longrightarrow> ?thesis"
    by (simp add: by_id_def step hm.get_none split: option.split)
qed

lemma by_id_Nil [simp]: "by_id [] = []"
  by (simp add: by_id_def)

lemma face_adopted:
  "hget persisted (ti_id t) = Some p \<Longrightarrow> face (adopted persisted db t) = face p"
  by (simp add: adopted_def face_def)

text \<open>
  One reported terminal: a terminal of the stash stays as it is shown, a new one is told. \<open>keeps\<close>
  says that the terminals of the stash are shown as the stash has them.
\<close>

definition keeps_stash ::
  "(ident, terminal_info list) hmap \<Rightarrow> (ident, terminal_info) hmap \<Rightarrow> ident \<Rightarrow> registry \<Rightarrow> bool" where
  "keeps_stash away persisted m s \<longleftrightarrow>
     (\<forall>tid p. hget persisted tid = Some p \<longrightarrow> shown_with away s (m, tid) = Some (face p))"

lemma shown_with_put:
  assumes "hget (rg_machines s) m = Some conn"
  shows "shown_with away (snd (put_terminal m conn tid t s)) = (shown_with away s)((m, tid) \<mapsto> face t)"
proof -
  have "shown_with away (snd (put_terminal m conn tid t s)) (m', k)
      = ((shown_with away s)((m, tid) \<mapsto> face t)) (m', k)" for m' k
    using assms
    by (auto simp: shown_with_iff live_terminals_def put_terminal_def put_conn_def quiet_def hm.get_put)
  then show ?thesis by auto
qed

lemma report_one:
  fixes now :: ms
  assumes conn: "hget (rg_machines s) m = Some conn" and mid: "ti_machine_id t = m"
    and keeps: "keeps_stash away persisted m s"
  defines "s' \<equiv> snd (report_terminal now m persisted t s)"
  shows "foldl see (shown_with away s) (fst (report_terminal now m persisted t s)) = shown_with away s'
    \<and> keeps_stash away persisted m s'
    \<and> (\<exists>conn'. hget (rg_machines s') m = Some conn'
         \<and> (\<forall>k. hhas (mc_terminals conn') k \<longleftrightarrow> hhas (mc_terminals conn) k \<or> k = ti_id t))
    \<and> rg_persisted s' = rg_persisted s"
proof -
  define a where "a = adopted persisted (rg_db s) t"
  have a: "ti_id a = ti_id t" "ti_machine_id a = m" by (simp_all add: a_def mid)
  let ?s1 = "snd (put_terminal m conn (ti_id t) a s)"
  have s1: "hget (rg_machines ?s1) m = Some (conn\<lparr>mc_terminals := hput (ti_id t) a (mc_terminals conn)\<rparr>)"
    "rg_persisted ?s1 = rg_persisted s"
    by (simp_all add: put_terminal_def put_conn_def quiet_def hm.get_put)
  have same: "snd (term_part s') = snd (term_part ?s1)" "rg_machines s' = rg_machines ?s1"
    "rg_persisted s' = rg_persisted ?s1"
    using conn
    by (simp_all add: s'_def report_terminal_def on_conn_def reading_def Let_def and_then_def a_def
        put_terminal_def put_conn_def quiet_def on_db_def try_db_def emit_def term_part_def)
  have shown': "shown_with away s' = (shown_with away s)((m, ti_id t) \<mapsto> face a)"
    using shown_with_put [OF conn, of away "ti_id t" a] same(1) by (simp add: shown_with_def)
  have events: "foldl see V (fst (report_terminal now m persisted t s))
      = (if hhas persisted (ti_id t) then V else V((m, ti_id t) \<mapsto> face a))" for V
    using conn a
    by (simp add: report_terminal_def on_conn_def reading_def Let_def and_then_def a_def [symmetric]
        put_terminal_def put_conn_def quiet_def on_db_def try_db_def emit_def show_terminal_def)
  have known: "(shown_with away s)((m, ti_id t) \<mapsto> face a) = shown_with away s"
    if "hhas persisted (ti_id t)"
  proof -
    from that obtain p where p: "hget persisted (ti_id t) = Some p" by (auto simp: hhas_def)
    then have "shown_with away s (m, ti_id t) = Some (face a)"
      using keeps by (simp add: keeps_stash_def a_def face_adopted)
    then show ?thesis by (simp add: fun_upd_idem)
  qed
  have "keeps_stash away persisted m s'"
    using keeps by (auto simp: keeps_stash_def shown' a_def face_adopted)
  moreover have "\<exists>conn'. hget (rg_machines s') m = Some conn'
      \<and> (\<forall>k. hhas (mc_terminals conn') k \<longleftrightarrow> hhas (mc_terminals conn) k \<or> k = ti_id t)"
    by (rule exI [of _ "conn\<lparr>mc_terminals := hput (ti_id t) a (mc_terminals conn)\<rparr>"])
      (auto simp: same s1 hhas_def hm.get_put)
  ultimately show ?thesis
    using known by (auto simp: events shown' same s1)
qed

lemma report_all:
  fixes now :: ms
  assumes "hget (rg_machines s) m = Some conn" and "\<forall>t \<in> set ts. ti_machine_id t = m"
    and "keeps_stash away persisted m s"
  shows "foldl see (shown_with away s) (fst (each (report_terminal now m persisted) ts s))
      = shown_with away (snd (each (report_terminal now m persisted) ts s))
    \<and> (\<exists>conn'. hget (rg_machines (snd (each (report_terminal now m persisted) ts s))) m = Some conn'
         \<and> (\<forall>k. hhas (mc_terminals conn') k \<longleftrightarrow> hhas (mc_terminals conn) k \<or> k \<in> ti_id ` set ts))
    \<and> rg_persisted (snd (each (report_terminal now m persisted) ts s)) = rg_persisted s"
  using assms
proof (induction ts arbitrary: s conn)
  case Nil
  then show ?case by (auto simp: skip_def)
next
  case (Cons t ts)
  let ?r = "report_terminal now m persisted t s"
  from report_one [OF Cons.prems(1) _ Cons.prems(3), of t now] Cons.prems(2)
  obtain conn1 where one: "foldl see (shown_with away s) (fst ?r) = shown_with away (snd ?r)"
    "keeps_stash away persisted m (snd ?r)" "hget (rg_machines (snd ?r)) m = Some conn1"
    "\<forall>k. hhas (mc_terminals conn1) k \<longleftrightarrow> hhas (mc_terminals conn) k \<or> k = ti_id t"
    "rg_persisted (snd ?r) = rg_persisted s"
    by auto
  from Cons.IH [OF one(3) _ one(2)] Cons.prems(2) one
  show ?case by (auto simp: and_then_def Let_def case_prod_unfold)
qed

text \<open>Terminals the node no longer has, one after the other.\<close>

lemma bury_all:
  "foldl see V (fst (each (bury_terminal now u m) olds s)) (m', tid) =
     (if m' = m \<and> tid \<in> ti_id ` set olds then None else V (m', tid))
   \<and> term_part (snd (each (bury_terminal now u m) olds s)) = term_part s"
proof (induction olds arbitrary: s V)
  case Nil
  then show ?case by (simp add: skip_def)
next
  case (Cons t olds)
  have "hushed (on_db (mark_destroyed now (ti_id t))) s (term_part s)"
    by (rule hushed_still) (rule still_on_db)
  note h = hushed_bury [OF this, of u m "ti_workspace_group_id t" now u "ti_id t"]
  have "foldl see W (fst (bury_terminal now u m t s)) = W((m, ti_id t) := None)
      \<and> term_part (snd (bury_terminal now u m t s)) = term_part s" for W
    using h unseen_run
    by (simp add: hushed_def bury_terminal_def terminal_gone_def and_then_assoc)
      (simp add: and_then_def [of _ "emit _"] emit_def Let_def case_prod_unfold)
  with Cons.IH show ?case by (auto simp: and_then_def Let_def case_prod_unfold)
qed

lemma mirror_existing:
  assumes ok: "registry_ok s" "phased s" and conn: "hget (rg_machines s) m = Some conn"
    and mine: "\<forall>t \<in> set ts. ti_machine_id t = m"
  shows "mirror (existing_terminals now m ts) s"
proof -
  let ?away = "rg_persisted s" and ?p = "stash_of s m"
  let ?per = "by_id ?p" and ?gone = "filter (\<lambda>t. ti_id t \<notin> ti_id ` set ts) ?p"
  define s1 where "s1 = s\<lparr>rg_persisted := hdel m ?away\<rparr>"
  define r where "r = each (report_terminal now m ?per) ts s1"
  define b where "b = each (bury_terminal now (mc_user_id conn) m) ?gone (snd r)"
  have run: "existing_terminals now m ts s = (fst r @ fst b, snd b)"
    using conn
    by (simp add: existing_terminals_def reading_def and_then_def quiet_def on_conn_def s1_def r_def b_def
        Let_def case_prod_unfold)
  have find: "hget ?per tid = find (\<lambda>t. ti_id t = tid) ?p" for tid
    using registry_ok_stash [OF ok(1), of m] by (simp add: hget_by_id stash_ok_def)
  have away: "stashed ?away m tid = map_option face (find (\<lambda>t. ti_id t = tid) ?p)" for tid
    by (simp add: stashed_def stash_of_def)
  have live: "mc_terminals conn = []" if "?p \<noteq> []"
    using ok(2) conn that by (auto simp: phased_def)
  have "keeps_stash ?away ?per m s1"
    using live conn
    by (cases "?p = []")
      (simp_all add: keeps_stash_def shown_with_iff find away live_terminals_def s1_def hm.get_none)
  moreover have "hget (rg_machines s1) m = Some conn" by (simp add: s1_def conn)
  ultimately obtain conn' where
    told: "foldl see (shown_with ?away s1) (fst r) = shown_with ?away (snd r)" and
    conn': "hget (rg_machines (snd r)) m = Some conn'"
      "\<forall>k. hhas (mc_terminals conn') k \<longleftrightarrow> hhas (mc_terminals conn) k \<or> k \<in> ti_id ` set ts" and
    per: "rg_persisted (snd r) = hdel m ?away"
    using report_all [of s1 m conn ts ?away ?per now] mine unfolding r_def by (auto simp: s1_def)
  have "shown_with ?away s1 = shown s"
    by (simp add: shown_with_def shown_def term_part_def s1_def)
  have "foldl see (shown s) (fst r @ fst b) (m', tid) = shown (snd b) (m', tid)" for m' tid
  proof -
    have b: "foldl see (shown_with ?away (snd r)) (fst b) (m', tid) =
        (if m' = m \<and> tid \<in> ti_id ` set ?gone then None else shown_with ?away (snd r) (m', tid))"
      "term_part (snd b) = term_part (snd r)"
      using bury_all [of "shown_with ?away (snd r)" now "mc_user_id conn" m ?gone "snd r" m' tid]
      unfolding b_def by simp_all
    have final: "shown (snd b) = shown (snd r)" using b(2) by (simp add: shown_def)
    show ?thesis
    proof (cases "m' = m")
      case False
      then show ?thesis
        using told b(1) \<open>shown_with ?away s1 = shown s\<close>
        by (simp add: final shown_iff shown_with_iff per stashed_def hm.get_del split: option.split)
    next
      case True
      have none: "stashed (hdel m ?away) m tid = None" by (simp add: hm.get_del)
      show ?thesis
      proof (cases "hhas (mc_terminals conn') tid")
        case l: True
        have "tid \<notin> ti_id ` set ?gone"
        proof (cases "?p = []")
          case False
          then have "tid \<in> ti_id ` set ts"
            using l conn'(2) live by (simp add: hhas_def hm.get_none)
          moreover have "k \<notin> ti_id ` set ts" if "k \<in> ti_id ` set ?gone" for k
            using that by (elim imageE) simp
          ultimately show ?thesis by blast
        qed simp
        then show ?thesis
          using told b(1) \<open>shown_with ?away s1 = shown s\<close> l conn'(1) True
          by (auto simp: final shown_iff shown_with_iff per live_terminals_def hhas_def)
      next
        case l: False
        then have notin: "tid \<notin> ti_id ` set ts" "hget (mc_terminals conn') tid = None"
          using spec [OF conn'(2), of tid] by (simp_all add: hhas_def)
        have "tid \<in> ti_id ` set ?gone \<or> find (\<lambda>t. ti_id t = tid) ?p = None"
          using notin(1) by (auto simp: find_None_iff)
        then show ?thesis
          using told b(1) \<open>shown_with ?away s1 = shown s\<close> notin(2) conn'(1) True none
          by (auto simp: final shown_iff shown_with_iff per live_terminals_def away)
      qed
    qed
  qed
  then show ?thesis unfolding mirror_def run by auto
qed

section \<open>Live terminals leave no stash\<close>

abbreviation phasing :: "hub_op \<Rightarrow> bool" where
  "phasing m \<equiv> sound phased (\<lambda>_. True) m"

lemma phased_iff: "phased s \<longleftrightarrow> (\<forall>m. live_terminals s m = [] \<or> stash_of s m = [])"
  by (auto simp: phased_def live_terminals_def split: option.split)

lemma live_of_part: "live_terminals s m = (case snd (term_part s) m of None \<Rightarrow> [] | Some ts \<Rightarrow> ts)"
  by (simp add: live_terminals_def term_part_def split: option.split)

lemma stash_of_part: "stash_of s m = (case hget (fst (term_part s)) m of None \<Rightarrow> [] | Some ts \<Rightarrow> ts)"
  by (simp add: stash_of_def term_part_def)

lemma phased_part: "term_part s' = term_part s \<Longrightarrow> phased s' = phased s"
  unfolding phased_iff live_of_part stash_of_part by simp

lemma still_phasing:
  assumes "\<And>T. still T m"
  shows "phasing m"
proof (rule ensuresI)
  fix s
  assume "phased s"
  moreover from still_mirror [OF assms, of s] have "term_part (snd (m s)) = term_part s" by simp
  ultimately show "(\<forall>e \<in> set (fst (m s)). True) \<and> phased (snd (m s))"
    using phased_part by blast
qed

lemma phased_put_conn:
  assumes "phased s" "hget (rg_machines s) m = Some conn"
    and "mc_terminals conn' \<noteq> [] \<Longrightarrow> mc_terminals conn \<noteq> [] \<or> stash_of s m = []"
  shows "phased (s\<lparr>rg_machines := hput m conn' (rg_machines s)\<rparr>)"
proof -
  have "live_terminals (s\<lparr>rg_machines := hput m conn' (rg_machines s)\<rparr>) k =
      (if k = m then mc_terminals conn' else live_terminals s k)" for k
    by (simp add: live_terminals_def hm.get_put)
  moreover have "stash_of (s\<lparr>rg_machines := hput m conn' (rg_machines s)\<rparr>) k = stash_of s k" for k
    by (simp add: stash_of_def)
  moreover have "live_terminals s m = mc_terminals conn"
    using assms(2) by (simp add: live_terminals_def)
  ultimately show ?thesis
    using assms(1) assms(3) unfolding phased_iff by (metis (no_types))
qed

lemma phasing_put_then:
  assumes "mc_terminals conn' \<noteq> [] \<Longrightarrow> mc_terminals conn \<noteq> []" "\<And>T. still T m"
  shows "ensures (\<lambda>s. phased s \<and> has_conn k conn s) (and_then (put_conn k conn') m) (\<lambda>_. True) phased"
  by (rule ensures_seq [OF ensures_put_conn still_phasing [OF assms(2)]])
    (use assms(1) in \<open>auto simp: has_conn_def intro: phased_put_conn\<close>)

lemma phasing_put_terminal_then:
  assumes "hget (mc_terminals conn) tid = Some t" "\<And>T. still T m"
  shows "ensures (\<lambda>s. phased s \<and> has_conn k conn s) (and_then (put_terminal k conn tid t') m) (\<lambda>_. True) phased"
  unfolding put_terminal_def
  by (rule phasing_put_then [OF _ assms(2)]) (use assms(1) in \<open>auto simp: hm.get_none\<close>)

lemma tell_phasing: "sound phased (\<lambda>_. True) (emit es)"
  by (rule sound_emit) simp

lemma phasing_put_seq:
  assumes "hget (mc_terminals conn) tid = Some t" "phasing m"
  shows "ensures (\<lambda>s. phased s \<and> has_conn k conn s) (and_then (put_terminal k conn tid t') m) (\<lambda>_. True) phased"
  unfolding put_terminal_def put_conn_def
  by (rule ensures_seq [OF ensures_quiet assms(2)])
    (use assms(1) in \<open>auto simp: has_conn_def hm.get_none intro!: phased_put_conn\<close>)

lemma phasing_rest:
  "phasing (on_db f)" "phasing (announcing (announce_runs u op))" "phasing skip" "phasing (emit es)"
  by (rule still_phasing, rule still_on_db, rule still_phasing, rule still_announce,
      rule sound_skip, rule tell_phasing)

lemma phasing_terminal_ops:
  "phasing (terminal_attention_changed now new_req m tid attention)"
  "phasing (terminal_activity m tid at_ms)"
  "phasing (resize_terminal m tid cols rows)"
  unfolding terminal_attention_changed_def terminal_activity_def resize_terminal_def Let_def
    on_run_attention_def
  by (rule ensures_on_terminal;
      auto intro!: ensures_when phasing_put_seq sound_seq phasing_rest)+

lemma phased_db [simp]: "phased (s\<lparr>rg_db := db\<rparr>) = phased s"
  by (rule phased_part) simp

lemma phasing_after_db:
  assumes "phasing m" "phased s"
  shows "phased (snd (m (s\<lparr>rg_db := db\<rparr>)))"
  using ensuresD [OF assms(1), of "s\<lparr>rg_db := db\<rparr>"] assms(2) by simp

lemma phasing_title: "phasing (terminal_title m tid title src)"
proof -
  have "phasing (on_terminal m tid (\<lambda>conn t.
      let t' = t\<lparr>ti_title := title, ti_title_source := src\<rparr> in
      and_then (put_terminal m conn tid t')
     (and_then (emit [Fx_Event (mc_user_id conn) (Ev_TerminalUpdated t')])
      (when_op (renames_session t title src) (announcing (on_terminal_title (mc_user_id conn) tid))))))"
    unfolding Let_def on_terminal_title_def
    by (rule ensures_on_terminal) (auto intro!: phasing_put_seq sound_seq sound_when phasing_rest)
  from phasing_after_db [OF this] show ?thesis
    by (intro ensuresI) (auto simp: terminal_title_def split: prod.split)
qed

lemma phasing_cwd: "phasing (terminal_cwd m tid cwd)"
proof -
  have "phasing (when_op b (on_terminal m tid (\<lambda>conn t.
      let t' = t\<lparr>ti_cwd := cwd\<rparr> in
      and_then (put_terminal m conn tid t')
        (emit [Fx_Event (mc_user_id conn) (Ev_TerminalUpdated t')]))))" for b
    unfolding Let_def
    by (intro sound_when ensures_on_terminal) (auto intro!: phasing_put_seq phasing_rest)
  from phasing_after_db [OF this] show ?thesis
    by (intro ensuresI) (auto simp: terminal_cwd_def split: prod.split)
qed

lemma phasing_gone: "phasing (terminal_gone now owner m tid g)"
proof -
  have "phasing (prune_tab_of owner m g)"
    unfolding prune_tab_of_def by (rule still_phasing) (intro still_rules)
  then show ?thesis
    unfolding terminal_gone_def end_terminal_runs_def by (intro sound_seq phasing_rest)
qed

lemma phasing_destroyed: "phasing (terminal_destroyed now m tid)"
  unfolding terminal_destroyed_def
proof (rule ensures_on_conn)
  fix conn
  have "ensures (\<lambda>s. phased s \<and> has_conn m conn s) (forget_terminal m conn tid) (\<lambda>_. True) phased"
    unfolding forget_terminal_def
    by (rule ensures_put_conn) (auto simp: has_conn_def hdel_def intro!: phased_put_conn)
  then show "ensures (\<lambda>s. phased s \<and> has_conn m conn s)
      (and_then (forget_terminal m conn tid) (and_then (on_db (mark_destroyed now tid))
        (terminal_gone now (mc_user_id conn) m tid (group_of_terminal conn tid)))) (\<lambda>_. True) phased"
    by (rule ensures_seq) (intro sound_seq phasing_rest phasing_gone)
qed

lemma phasing_died: "phasing (handle_terminal_destroyed_internal now m tid)"
proof (rule ensuresI)
  fix s
  assume s: "phased s"
  show "(\<forall>e \<in> set (fst (handle_terminal_destroyed_internal now m tid s)). True)
      \<and> phased (snd (handle_terminal_destroyed_internal now m tid s))"
  proof (cases "hget (rg_machines s) m")
    case None
    then show ?thesis
      using ensuresD [OF phasing_gone s] by (simp add: handle_terminal_destroyed_internal_def reading_def)
  next
    case (Some conn)
    then show ?thesis using ensuresD [OF phasing_destroyed s] by (simp add: died_known)
  qed
qed

lemma phased_created:
  assumes "phased s" "stash_of s m = []"
  shows "phased (snd (terminal_created now m r tid title cwd cols rows s))"
proof -
  have rest: "phasing (and_then (try_db (insert_terminal now tid m title cwd cols rows))
      (and_then (case opener of None \<Rightarrow> skip | Some o' \<Rightarrow> on_db (set_opened_by tid o'))
       (resolve_pending r x)))" for opener x
    unfolding try_db_def by (rule still_phasing) (intro still_rules)
  have "phased (snd (on_conn m (\<lambda>conn. let t = created_terminal m tid title cwd cols rows opener in
         and_then (put_terminal m conn tid t)
           (emit [Fx_Event (mc_user_id conn) (Ev_TerminalCreated t)])) s))" for opener
    using assms
    by (cases "hget (rg_machines s) m")
      (auto simp: on_conn_def reading_def skip_def Let_def and_then_def put_terminal_def put_conn_def
        quiet_def emit_def intro: phased_put_conn)
  from ensuresD [OF rest this] show ?thesis
    by (simp add: terminal_created_def reading_def snd_and_then)
qed

text \<open>Once a machine has listed its terminals, storing more of them is fine.\<close>

definition listed :: "ident \<Rightarrow> registry \<Rightarrow> bool" where
  "listed m s \<longleftrightarrow> phased s \<and> stash_of s m = []"

lemma listed_put_conn:
  assumes "listed m s"
  shows "listed m (s\<lparr>rg_machines := hput m conn (rg_machines s)\<rparr>)"
proof -
  have "live_terminals (s\<lparr>rg_machines := hput m conn (rg_machines s)\<rparr>) k =
      (if k = m then mc_terminals conn else live_terminals s k)"
    "stash_of (s\<lparr>rg_machines := hput m conn (rg_machines s)\<rparr>) k = stash_of s k" for k
    by (simp_all add: live_terminals_def stash_of_def hm.get_put)
  with assms show ?thesis unfolding listed_def phased_iff by (metis (no_types))
qed

lemma still_listed:
  assumes "\<And>T. still T n"
  shows "sound (listed m) (\<lambda>_. True) n"
proof (rule ensuresI)
  fix s
  assume "listed m s"
  moreover from still_mirror [OF assms, of s] have "term_part (snd (n s)) = term_part s" by simp
  ultimately show "(\<forall>e \<in> set (fst (n s)). True) \<and> listed m (snd (n s))"
    using phased_part [of "snd (n s)" s] by (simp add: listed_def stash_of_part)
qed

lemma listed_report: "sound (listed m) (\<lambda>_. True) (report_terminal now m persisted t)"
proof -
  have put: "sound (listed m) (\<lambda>_. True) (put_terminal m conn tid t')" for conn tid t'
    unfolding put_terminal_def by (rule ensures_put_conn) (rule listed_put_conn)
  have db: "sound (listed m) (\<lambda>_. True) (on_db f)" for f
    by (rule still_listed) (rule still_on_db)
  have tell: "sound (listed m) (\<lambda>_. True) (emit es)" for es
    by (rule sound_emit) simp
  have read: "sound (listed m) (\<lambda>_. True) (reading rg_db g)" if "\<And>db. sound (listed m) (\<lambda>_. True) (g db)" for g
    using that by (simp add: ensures_def reading_def)
  show ?thesis
    unfolding report_terminal_def
    by (rule ensures_on_conn)
      (auto simp: try_db_def Let_def intro!: ensures_pre [OF read] sound_seq put db tell)
qed

lemma phased_existing:
  assumes "phased s" "hget (rg_machines s) m = Some conn"
  shows "phased (snd (existing_terminals now m ts s))"
proof -
  let ?s1 = "s\<lparr>rg_persisted := hdel m (rg_persisted s)\<rparr>"
  have "stash_of ?s1 k = (if k = m then [] else stash_of s k)" for k
    by (simp add: stash_of_def hm.get_del)
  moreover have "live_terminals ?s1 k = live_terminals s k" for k
    by (simp add: live_terminals_def)
  ultimately have s1: "listed m ?s1" using assms(1) by (auto simp: listed_def phased_iff)
  have bury: "sound (listed m) (\<lambda>_. True) (bury_terminal now u m t)" for u t
  proof -
    have "still T (on_db f)" for T f by (rule still_on_db)
    moreover have "still T (prune_tab_of u m g)" for T g
      unfolding prune_tab_of_def by (intro still_rules)
    moreover have "still T (announcing (end_terminal_runs now u tid))" for T tid
      unfolding end_terminal_runs_def by (intro still_rules)
    ultimately show ?thesis
      unfolding bury_terminal_def terminal_gone_def
      by (intro sound_seq sound_emit) (auto intro: still_listed)
  qed
  have "sound (listed m) (\<lambda>_. True)
      (and_then (each (report_terminal now m (by_id (stash_of s m))) ts)
        (each (bury_terminal now (mc_user_id conn) m)
          (filter (\<lambda>t. ti_id t \<notin> ti_id ` set ts) (stash_of s m))))"
    by (intro sound_seq sound_each listed_report bury)
  from ensuresD [OF this s1] assms(2) show ?thesis
    by (simp add: existing_terminals_def reading_def snd_and_then quiet_def on_conn_def listed_def)
qed

section \<open>Machines that come and go\<close>

definition phased_at :: "terminal_parts \<Rightarrow> bool" where
  "phased_at T \<longleftrightarrow> (\<forall>m. (case snd T m of None \<Rightarrow> [] | Some ts \<Rightarrow> ts) = [] \<or>
     (case hget (fst T) m of None \<Rightarrow> [] | Some ts \<Rightarrow> ts) = [])"

lemma phased_of_part: "phased s = phased_at (term_part s)"
  by (simp only: phased_iff live_of_part stash_of_part phased_at_def)

lemma hushed_quiet:
  assumes "hushed m s T" "\<And>s'. term_part s' = T \<Longrightarrow> term_part (f s') = T'"
  shows "hushed (and_then m (quiet f)) s T'"
  using assms by (simp add: hushed_def and_then_def quiet_def Let_def case_prod_unfold)

lemma hushed_first: "hushed (quiet f) s (term_part (f s))"
  by (simp add: hushed_def quiet_def)

lemma hushed_mirror:
  assumes "hushed m s T" "filed T = shown s" "phased_at T"
  shows "mirror m s \<and> phased (snd (m s))"
  using assms unseen_run [of "fst (m s)" "shown s"]
  by (simp add: hushed_def mirror_def shown_def phased_of_part)

lemma find_unreachable:
  assumes "conn_ok m conn"
  shows "map_option face (find (\<lambda>t. ti_id t = tid) (unreachable (mc_terminals conn)))
    = map_option face (hget (mc_terminals conn) tid)"
proof -
  have "map_option face (find (\<lambda>t. ti_id t = tid) (unreachable terms)) = map_option face (hget terms tid)"
    if "\<forall>(k, t) \<in> set terms. ti_id t = k" for terms
    using that by (induction terms) (auto simp: unreachable_def hvals_def hget_def face_def)
  moreover have "\<forall>(k, t) \<in> set (mc_terminals conn). ti_id t = k"
    using assms by (auto simp: conn_ok_def hwf_def hget_def)
  ultimately show ?thesis by simp
qed

lemma unreachable_Nil [simp]: "unreachable terms = [] \<longleftrightarrow> terms = []"
  by (simp add: unreachable_def hvals_def)

text \<open>What is stashed when a connection goes.\<close>

definition stashed_away ::
  "ident \<Rightarrow> machine_connection \<Rightarrow> (ident, terminal_info list) hmap \<Rightarrow> (ident, terminal_info list) hmap" where
  "stashed_away m conn away =
     (if mc_terminals conn \<noteq> [] then hput m (unreachable (mc_terminals conn)) away else away)"

text \<open>Its terminals move to the stash; other machines keep theirs.\<close>

lemma moved_away:
  assumes s: "registry_ok s" "phased s" "hget (rg_machines s) m = Some conn"
    and live: "\<And>k. live' k = (if k = m then (if present then Some [] else None) else snd (term_part s) k)"
  shows "filed (stashed_away m conn (rg_persisted s), live') = shown s"
    and "phased_at (stashed_away m conn (rg_persisted s), live')"
proof -
  have stash: "mc_terminals conn \<noteq> [] \<Longrightarrow> stash_of s m = []"
    using s by (auto simp: phased_def)
  have "filed (stashed_away m conn (rg_persisted s), live') (k, tid) = shown s (k, tid)" for k tid
  proof (cases "k = m")
    case True
    have "stashed (stashed_away m conn (rg_persisted s)) m tid =
        (case hget (mc_terminals conn) tid of None \<Rightarrow> stashed (rg_persisted s) m tid | Some t \<Rightarrow> Some (face t))"
    proof (cases "mc_terminals conn = []")
      case True
      then show ?thesis by (simp add: stashed_away_def hm.get_none)
    next
      case False
      with stash have none: "stashed (rg_persisted s) m tid = None" by (simp add: stash_of_def)
      from False show ?thesis
        using find_unreachable [OF registry_ok_conn [OF s(1,3)], of tid] none
        by (simp add: stashed_away_def stashed_def hm.get_put split: option.split)
    qed
    with True s(3) live show ?thesis
      by (simp add: shown_iff live_terminals_def hm.get_none)
  next
    case False
    then have "stashed (stashed_away m conn (rg_persisted s)) k tid = stashed (rg_persisted s) k tid"
      by (simp add: stashed_away_def stashed_def hm.get_put)
    with False live show ?thesis by (simp add: shown_def term_part_def split: option.split)
  qed
  then show "filed (stashed_away m conn (rg_persisted s), live') = shown s" by auto
  have "hget (stashed_away m conn (rg_persisted s)) k = hget (rg_persisted s) k" if "k \<noteq> m" for k
    using that by (simp add: stashed_away_def hm.get_put)
  then show "phased_at (stashed_away m conn (rg_persisted s), live')"
    using s(2) live unfolding phased_of_part phased_at_def
    by (auto simp: term_part_def)
qed

lemma still_drop_browsers: "still T (drop_agent_browsers m conn)"
  unfolding drop_agent_browsers_def by (intro still_rules) auto

lemma hushed_stash:
  assumes "hushed n s (away, live')"
  shows "hushed (and_then n (stash m (mc_terminals conn))) s (stashed_away m conn away, live')"
proof (cases "mc_terminals conn = []")
  case True
  then show ?thesis
    using assms by (simp add: stash_def when_op_def stashed_away_def hushed_def and_then_def skip_def
        Let_def case_prod_unfold)
next
  case False
  then show ?thesis
    unfolding stash_def when_op_def
    by (auto intro!: hushed_quiet [OF assms] simp: stashed_away_def term_part_def)
qed

lemma term_part_machines:
  "term_part (s\<lparr>rg_machines := hput m conn (rg_machines s)\<rparr>) =
     (rg_persisted s, (snd (term_part s))(m \<mapsto> mc_terminals conn))"
  "term_part (s\<lparr>rg_machines := hdel m (rg_machines s)\<rparr>) =
     (rg_persisted s, (snd (term_part s))(m := None))"
  by (auto simp: term_part_def fun_eq_iff hm.get_put hm.get_del)

lemma mirror_register:
  assumes "registry_ok s" "phased s"
  shows "mirror (register_machine c info user caps) s \<and> phased (snd (register_machine c info user caps s))"
proof -
  let ?m = "mi_id info" and ?new = "new_connection c info user caps"
  have "hushed (put_conn ?m ?new) s (rg_persisted s, (snd (term_part s))(?m \<mapsto> []))"
    unfolding put_conn_def using hushed_first [of "\<lambda>s. s\<lparr>rg_machines := hput ?m ?new (rg_machines s)\<rparr>" s]
    by (simp add: term_part_machines new_connection_def)
  note put = this
  have tell: "still T (emit [Fx_Event user (Ev_MachineOnline info)])" for T
    by (intro still_rules) auto
  show ?thesis
  proof (cases "hget (rg_machines s) ?m")
    case None
    have "hushed (and_then (put_conn ?m ?new) (and_then skip (emit [Fx_Event user (Ev_MachineOnline info)]))) s
        (rg_persisted s, (snd (term_part s))(?m \<mapsto> []))"
      by (intro hushed_seq [OF put] sound_seq sound_skip tell)
    moreover have "filed (rg_persisted s, (snd (term_part s))(?m \<mapsto> [])) = shown s"
      using None by (auto simp: fun_eq_iff shown_def term_part_def hm.get_none)
    moreover have "phased_at (rg_persisted s, (snd (term_part s))(?m \<mapsto> []))"
      using assms(2) by (auto simp: phased_of_part phased_at_def term_part_def)
    ultimately have "mirror (and_then (put_conn ?m ?new) (and_then skip
        (emit [Fx_Event user (Ev_MachineOnline info)]))) s \<and> phased (snd (and_then (put_conn ?m ?new)
        (and_then skip (emit [Fx_Event user (Ev_MachineOnline info)])) s))"
      by (rule hushed_mirror)
    with None show ?thesis by (simp add: mirror_def register_machine_def reading_def)
  next
    case (Some conn)
    let ?op = "and_then (put_conn ?m ?new) (and_then (and_then (drop_agent_browsers ?m conn)
        (stash ?m (mc_terminals conn))) (emit [Fx_Event user (Ev_MachineOnline info)]))"
    have h: "hushed ?op s (stashed_away ?m conn (rg_persisted s), (snd (term_part s))(?m \<mapsto> []))"
      unfolding and_then_assoc
      by (intro hushed_seq [OF hushed_stash [OF hushed_seq [OF put]]] still_drop_browsers tell)
    have "mirror ?op s \<and> phased (snd (?op s))"
      by (rule hushed_mirror [OF h]; rule moved_away [OF assms Some, where present = True]) auto
    with Some show ?thesis by (simp add: mirror_def register_machine_def reading_def)
  qed
qed

lemma still_end_runs: "still T (announcing (end_machine_runs now u m))"
  unfolding end_machine_runs_def by (rule still_announce)

lemma still_disconnect: "still T (disconnect_sessions now m)"
  by (auto simp: ensures_def disconnect_sessions_def Let_def split: prod.split)

lemma mirror_unregister:
  assumes "registry_ok s" "phased s"
  shows "mirror (unregister_machine now m c) s \<and> phased (snd (unregister_machine now m c s))"
proof (cases "\<exists>conn. hget (rg_machines s) m = Some conn \<and> mc_conn_id conn = c")
  case False
  then have "unregister_machine now m c s = ([], s)"
    by (auto simp: unregister_machine_def on_conn_def reading_def when_op_def skip_def split: option.split)
  with assms show ?thesis by (simp add: mirror_def)
next
  case True
  then obtain conn where conn: "hget (rg_machines s) m = Some conn" "mc_conn_id conn = c" by blast
  let ?tell = "emit (map (\<lambda>t. Fx_Event (mc_user_id conn)
      (Ev_TerminalReachableChanged m (ti_id t) False)) (unreachable (mc_terminals conn)))"
  let ?op = "and_then (remove_conn m) (and_then (drop_agent_browsers m conn)
      (and_then (disconnect_sessions now m)
      (and_then (announcing (end_machine_runs now (mc_user_id conn) m)) (and_then ?tell
      (and_then (stash m (mc_terminals conn)) (emit [Fx_Event (mc_user_id conn) (Ev_MachineOffline m)]))))))"
  have gone: "hushed (remove_conn m) s (rg_persisted s, (snd (term_part s))(m := None))"
    unfolding remove_conn_def
    using hushed_first [of "\<lambda>s. s\<lparr>rg_machines := hdel m (rg_machines s)\<rparr>" s]
    by (simp add: term_part_machines)
  have tell: "still T ?tell" "still T (emit [Fx_Event (mc_user_id conn) (Ev_MachineOffline m)])" for T
    by (intro still_rules; auto)+
  have h: "hushed ?op s (stashed_away m conn (rg_persisted s), (snd (term_part s))(m := None))"
    unfolding and_then_assoc
    by (intro hushed_seq [OF hushed_stash] hushed_seq [OF gone] hushed_seq still_drop_browsers
        still_disconnect still_end_runs tell gone)
  have "mirror ?op s \<and> phased (snd (?op s))"
    by (rule hushed_mirror [OF h]; rule moved_away [OF assms conn(1), where present = False]) auto
  with conn show ?thesis
    by (simp add: mirror_def unregister_machine_def on_conn_def reading_def when_op_def)
qed

lemma mirror_remove:
  assumes "phased s"
  shows "mirror (\<lambda>s. snd (remove_machine user m s)) s \<and> phased (snd (snd (remove_machine user m s)))"
proof (cases "db_machine_belongs_to_user s user m")
  case False
  with assms show ?thesis by (simp add: mirror_def remove_machine_def)
next
  case True
  let ?clear = "\<lambda>s. s\<lparr>rg_persisted := hdel m (rg_persisted s),
      rg_mode := clear_machine_mode user m (rg_mode s), rg_db := delete_machine m (rg_db s),
      rg_sessions := sessions_without_machine m (rg_sessions s)\<rparr>"
  let ?T = "(hdel m (rg_persisted s), (snd (term_part s))(m := None))"
  have "hushed (remove_conn m) s (rg_persisted s, (snd (term_part s))(m := None))"
    unfolding remove_conn_def
    using hushed_first [of "\<lambda>s. s\<lparr>rg_machines := hdel m (rg_machines s)\<rparr>" s]
    by (simp add: term_part_machines)
  then have h: "hushed (and_then (remove_conn m) (quiet ?clear)) s ?T"
    by (rule hushed_quiet) (auto simp: term_part_def)
  have "filed ?T (k, tid) = see_event (shown s) (Ev_MachineRemoved m) (k, tid)" for k tid
    by (auto simp: shown_def term_part_def stashed_def hm.get_del split: option.split)
  then have "filed ?T = see_event (shown s) (Ev_MachineRemoved m)" by auto
  from mirror_hushed_tell [OF h this, of "Some user"]
  have "mirror (and_then (and_then (remove_conn m) (quiet ?clear)) (emit [Fx_Event (Some user) (Ev_MachineRemoved m)])) s" .
  moreover have "phased (snd (and_then (remove_conn m) (quiet ?clear) s))"
  proof -
    have "fst (term_part s) = rg_persisted s" by (simp add: term_part_def)
    then have "phased_at ?T"
      using assms unfolding phased_of_part phased_at_def by (auto simp: hm.get_del)
    with h show ?thesis unfolding hushed_def phased_of_part by metis
  qed
  ultimately show ?thesis
    using True
    by (simp add: mirror_def remove_machine_def publish_def and_then_assoc)
      (simp add: snd_and_then emit_def)
qed

section \<open>Tabs\<close>

lemma shown_stash_update:
  assumes "stash_ok m ts" "find (\<lambda>t. ti_id t = tid) ts = Some t"
  shows "find (\<lambda>t. ti_id t = k) (update_first (\<lambda>t. ti_id t = tid) (\<lambda>t. t\<lparr>ti_workspace_group_id := g\<rparr>) ts) =
    (if k = tid then Some (t\<lparr>ti_workspace_group_id := g\<rparr>) else find (\<lambda>t. ti_id t = k) ts)"
  using assms(2) by (induction ts) (auto split: if_splits)

lemma assigned_shown:
  assumes s: "registry_ok s" "phased s" and a: "assigned user m tid g s = Some (t, previous, s')"
  shows "shown s' = show_terminal t (shown s) \<and> phased s' \<and> rg_db s' = rg_db s
    \<and> ti_id t = tid \<and> ti_machine_id t = m"
proof -
  have stashed: ?thesis
    if none: "hget (live_terminals s m) tid = None" and
      st: "assign_stashed m tid g s = Some (t, previous, s')"
  proof -
    from st obtain t0 where t0: "find (\<lambda>t. ti_id t = tid) (stash_of s m) = Some t0"
      "t = t0\<lparr>ti_workspace_group_id := g\<rparr>"
      and s': "s' = s\<lparr>rg_persisted := hput m (update_first (\<lambda>t. ti_id t = tid)
            (\<lambda>t. t\<lparr>ti_workspace_group_id := g\<rparr>) (stash_of s m)) (rg_persisted s)\<rparr>"
      by (auto simp: assign_stashed_def split: option.splits)
    note ok = registry_ok_stash [OF s(1), of m]
    have t: "ti_id t = tid" "ti_machine_id t = m"
      using ok find_SomeD [OF t0(1)] t0(2) by (auto simp: stash_ok_def)
    have live: "live_terminals s' k = live_terminals s k" for k
      by (simp add: s' live_terminals_def)
    have stashes: "stashed (rg_persisted s') k j =
        (if k = m \<and> j = tid then Some (face t) else stashed (rg_persisted s) k j)" for k j
      using shown_stash_update [OF ok t0(1), of j g]
      by (auto simp: s' stashed_def stash_of_def hm.get_put t0(2) split: option.split)
    have "shown s' (k, j) = show_terminal t (shown s) (k, j)" for k j
      using none by (auto simp: shown_iff live stashes show_terminal_def t split: option.split)
    moreover have "stash_of s m \<noteq> []" using t0(1) by auto
    then have "phased s'"
      using s(2) unfolding phased_iff live by (auto simp: s' stash_of_def hm.get_put)
    ultimately show ?thesis using t by (auto simp: s' show_terminal_def)
  qed
  have live: ?thesis
    if conn: "hget (rg_machines s) m = Some conn" and l: "assign_live m tid g conn s = Some (t, previous, s')" for conn
  proof -
    from l obtain t0 where t0: "hget (mc_terminals conn) tid = Some t0" "t = t0\<lparr>ti_workspace_group_id := g\<rparr>"
      and s': "s' = snd (put_terminal m conn tid t s)"
      by (auto simp: assign_live_def Let_def put_terminal_def put_conn_def quiet_def split: option.splits)
    from conn_ok_found(1) [OF registry_ok_conn [OF s(1) conn] t0(1)] t0(2)
    have t: "ti_id t = tid" "ti_machine_id t = m" by simp_all
    have "phased s'"
      using t0(1) unfolding s' put_terminal_def put_conn_def quiet_def
      by (auto simp: hm.get_none intro!: phased_put_conn [OF s(2) conn])
    with shown_put_terminal [OF conn t] t show ?thesis
      by (simp add: s' put_terminal_def put_conn_def quiet_def)
  qed
  show ?thesis
  proof (cases "hget (rg_machines s) m")
    case None
    with a have "assign_stashed m tid g s = Some (t, previous, s')" by (simp add: assigned_def)
    moreover have "hget (live_terminals s m) tid = None"
      using None by (simp add: live_terminals_def hm.get_none)
    ultimately show ?thesis by (rule stashed [rotated])
  next
    case (Some conn)
    show ?thesis
    proof (cases "assign_live m tid g conn s")
      case None
      with a Some have "assign_stashed m tid g s = Some (t, previous, s')"
        by (simp add: assigned_def split: if_splits)
      moreover have "hget (live_terminals s m) tid = None"
        using None Some by (simp add: live_terminals_def assign_live_def Let_def split: option.splits)
      ultimately show ?thesis by (rule stashed [rotated])
    next
      case l: (Some r)
      with a Some have "assign_live m tid g conn s = Some (t, previous, s')"
        by (simp add: assigned_def split: if_splits)
      with Some show ?thesis by (rule live)
    qed
  qed
qed

lemma insert_terminal_known:
  assumes "m \<in> mr_id ` set (db_machines db)"
  shows "\<exists>db'. insert_terminal now tid m title cwd cols rows db = Some db'
    \<and> db_workspace_groups db' = db_workspace_groups db"
  using assms by (simp add: insert_terminal_def)

lemma mirror_set_group:
  assumes ok: "registry_ok s" "phased s"
    and known: "m \<in> mr_id ` set (db_machines (rg_db s))" "group_exists (rg_db s) g"
  shows "mirror (\<lambda>s. snd (set_terminal_workspace_group now user m tid g s)) s
    \<and> phased (snd (snd (set_terminal_workspace_group now user m tid g s)))"
proof (cases "assigned user m tid g s")
  case None
  with ok show ?thesis by (simp add: mirror_def set_terminal_workspace_group_def)
next
  case (Some r)
  then obtain t previous s1 where r: "assigned user m tid g s = Some (t, previous, s1)"
    by (cases r) auto
  note a = assigned_shown [OF ok r]
  obtain db1 where db1: "insert_terminal now (ti_id t) (ti_machine_id t) (ti_title t) (ti_cwd t)
      (ti_cols t) (ti_rows t) (rg_db s1) = Some db1"
    and groups: "db_workspace_groups db1 = db_workspace_groups (rg_db s)"
    using insert_terminal_known [of m "rg_db s" now "ti_id t"] known(1) a by metis
  have "group_exists db1 g" using known(2) groups by (simp add: group_exists_def split: option.splits)
  then obtain db2 where db2: "assign_workspace_group tid g db1 = Some db2"
    by (simp add: assign_workspace_group_def)
  let ?prune = "case previous of Some p \<Rightarrow> when_op (Some p \<noteq> g) (prune_auto_tab_if_empty (Some user) m p)
      | None \<Rightarrow> skip"
  let ?s2 = "s1\<lparr>rg_db := db2\<rparr>"
  have "still T ?prune" for T
    by (intro still_rules)
  from hushed_still [OF this, of ?s2] have h: "\<forall>e \<in> set (fst (?prune ?s2)). unseen e"
    "term_part (snd (?prune ?s2)) = term_part s1"
    by (simp_all add: hushed_def)
  have run: "snd (set_terminal_workspace_group now user m tid g s) =
      and_then ?prune (publish user (Ev_TerminalUpdated t)) ?s2"
    by (simp add: set_terminal_workspace_group_def r db1 db2 cong: option.case_cong)
  show ?thesis
    using h a unseen_run [of "fst (?prune ?s2)"]
    unfolding mirror_def run
    by (simp add: and_then_def publish_def emit_def Let_def case_prod_unfold shown_def phased_of_part)
qed

text \<open>Each terminal that leaves the deleted tab is told.\<close>

lemma face_ungroup: "ti_workspace_group_id t \<noteq> Some g \<Longrightarrow> ungroup g t = t"
  by (simp add: ungroup_def)

lemma see_ungrouped:
  assumes "distinct (map ti_id ts)" "\<forall>t \<in> set ts. ti_machine_id t = m"
  shows "foldl see V (map (\<lambda>t. Fx_Event u (Ev_TerminalUpdated t)) (ungrouped g ts)) (k, tid) =
    (if k = m \<and> (\<exists>t \<in> set ts. ti_id t = tid \<and> ti_workspace_group_id t = Some g)
     then map_option (\<lambda>t. face (ungroup g t)) (find (\<lambda>t. ti_id t = tid) ts) else V (k, tid))"
  using assms
proof (induction ts arbitrary: V)
  case Nil
  then show ?case by (simp add: ungrouped_def)
next
  case (Cons t ts)
  have notin: "ti_id t' \<noteq> ti_id t" if "t' \<in> set ts" for t'
    using that Cons.prems(1) by (metis distinct.simps(2) image_eqI list.simps(9) set_map)
  show ?case
  proof (cases "ti_workspace_group_id t = Some g")
    case False
    then have "ungrouped g (t # ts) = ungrouped g ts" by (simp add: ungrouped_def)
    with False Cons notin show ?thesis by auto
  next
    case True
    then have "ungrouped g (t # ts) = ungroup g t # ungrouped g ts" by (simp add: ungrouped_def)
    with True Cons notin show ?thesis by (auto simp: show_terminal_def)
  qed
qed

lemma filter_hvals_ids:
  assumes "conn_ok m conn"
  shows "distinct (map ti_id (hvals (mc_terminals conn)))"
    and "\<forall>t \<in> set (hvals (mc_terminals conn)). ti_machine_id t = m"
    and "find (\<lambda>t. ti_id t = tid) (hvals (mc_terminals conn)) = hget (mc_terminals conn) tid"
proof -
  have entry: "\<forall>(k, t) \<in> set (mc_terminals conn). ti_id t = k \<and> ti_machine_id t = m"
    using assms by (auto simp: conn_ok_def hwf_def hget_def)
  have "map ti_id (hvals terms) = hkeys terms" "find (\<lambda>t. ti_id t = tid) (hvals terms) = hget terms tid"
    if "\<forall>(k, t) \<in> set terms. ti_id t = k \<and> ti_machine_id t = m" for terms
    using that by (induction terms) (auto simp: hvals_def hkeys_def hget_def)
  from this [OF entry] show "distinct (map ti_id (hvals (mc_terminals conn)))"
    "find (\<lambda>t. ti_id t = tid) (hvals (mc_terminals conn)) = hget (mc_terminals conn) tid"
    using assms by (simp_all add: conn_ok_def hkeys_distinct)
  show "\<forall>t \<in> set (hvals (mc_terminals conn)). ti_machine_id t = m"
    using entry by (auto simp: hvals_def)
qed

text \<open>The terminals of a list of which a tab is taken, and what is told of them.\<close>

lemma each_publish:
  "each (\<lambda>t. publish u (Ev_TerminalUpdated t)) ts s =
     (map (\<lambda>t. Fx_Event (Some u) (Ev_TerminalUpdated t)) ts, s)"
  by (induction ts) (simp_all add: skip_def and_then_def publish_def emit_def)

lemma told_ungrouped:
  assumes "distinct (map ti_id ts)" "\<forall>t \<in> set ts. ti_machine_id t = m"
    and "V (m, tid) = map_option face (find (\<lambda>t. ti_id t = tid) ts)"
  shows "foldl see V (map (\<lambda>t. Fx_Event u (Ev_TerminalUpdated t)) (ungrouped g ts)) (m, tid) =
    map_option (\<lambda>t. face (ungroup g t)) (find (\<lambda>t. ti_id t = tid) ts)"
proof (cases "\<exists>t \<in> set ts. ti_id t = tid \<and> ti_workspace_group_id t = Some g")
  case True
  then show ?thesis using see_ungrouped [OF assms(1,2), of V u g m tid] by simp
next
  case False
  then have "ungroup g t = t" if "find (\<lambda>t. ti_id t = tid) ts = Some t" for t
    using find_SomeD [OF that] by (auto simp: ungroup_def)
  then have "map_option (\<lambda>t. face (ungroup g t)) (find (\<lambda>t. ti_id t = tid) ts) = V (m, tid)"
    using assms(3) by (cases "find (\<lambda>t. ti_id t = tid) ts") simp_all
  with False show ?thesis using see_ungrouped [OF assms(1,2), of V u g m tid] by simp
qed

lemma find_map_ungroup:
  "find (\<lambda>t. ti_id t = tid) (map (ungroup g) ts) = map_option (ungroup g) (find (\<lambda>t. ti_id t = tid) ts)"
  by (induction ts) auto

lemma untold_elsewhere:
  assumes "\<forall>t \<in> set ts. ti_machine_id t = m" "k \<noteq> m"
  shows "foldl see V (map (\<lambda>t. Fx_Event u (Ev_TerminalUpdated t)) (ungrouped g ts)) (k, tid) = V (k, tid)"
  using assms(1)
proof (induction ts arbitrary: V)
  case (Cons t ts)
  then show ?case using assms(2) by (simp add: ungrouped_def show_terminal_def)
qed (simp add: ungrouped_def)

text \<open>The state after a tab is taken off all of a machine's terminals.\<close>

definition visible_live :: "registry \<Rightarrow> ident \<Rightarrow> ident \<Rightarrow> (ident, terminal_info) hmap" where
  "visible_live s user m = (case hget (rg_machines s) m of
     Some conn \<Rightarrow> if connection_visible_to conn user then mc_terminals conn else [] | None \<Rightarrow> [])"

lemma cleared:
  obtains s' where
    "clear_workspace_group_assignments user m g s =
      (map (\<lambda>t. Fx_Event (Some user) (Ev_TerminalUpdated t))
        (ungrouped g (hvals (visible_live s user m)) @ ungrouped g (stash_of s m)), s')"
    and "\<And>k. live_terminals s' k =
      (if k = m \<and> visible_live s user m \<noteq> [] then hmapv (ungroup g) (visible_live s user m)
       else live_terminals s k)"
    and "\<And>k. stash_of s' k = (if k = m then map (ungroup g) (stash_of s m) else stash_of s k)"
    and "\<And>k j. stashed (rg_persisted s') k j =
      (if k = m then map_option (\<lambda>t. face (ungroup g t)) (find (\<lambda>t. ti_id t = j) (stash_of s m))
       else stashed (rg_persisted s) k j)"
proof -
  define s1 where "s1 = snd (on_conn m (\<lambda>conn. when_op (connection_visible_to conn user)
         (put_conn m (conn\<lparr>mc_terminals := hmapv (ungroup g) (mc_terminals conn)\<rparr>))) s)"
  define s2 where "s2 = (if hhas (rg_persisted s1) m
           then s1\<lparr>rg_persisted := hput m (map (ungroup g) (stash_of s1 m)) (rg_persisted s1)\<rparr> else s1)"
  have s1: "fst (on_conn m (\<lambda>conn. when_op (connection_visible_to conn user)
         (put_conn m (conn\<lparr>mc_terminals := hmapv (ungroup g) (mc_terminals conn)\<rparr>))) s) = []"
    "rg_persisted s1 = rg_persisted s"
    "\<And>k. live_terminals s1 k =
      (if k = m \<and> visible_live s user m \<noteq> [] then hmapv (ungroup g) (visible_live s user m)
       else live_terminals s k)"
    by (auto simp: s1_def on_conn_def reading_def when_op_def skip_def put_conn_def quiet_def
        live_terminals_def visible_live_def hm.get_put hmapv_def split: option.splits)
  have per: "hget (rg_persisted s2) k = (if k = m then map_option (map (ungroup g)) (hget (rg_persisted s) m)
      else hget (rg_persisted s) k)" for k
    by (auto simp: s2_def s1(2) hhas_def stash_of_def hm.get_put)
  have live: "live_terminals s2 k = live_terminals s1 k" for k
    by (simp add: s2_def live_terminals_def)
  show ?thesis
  proof (rule that [of s2])
    show "clear_workspace_group_assignments user m g s =
      (map (\<lambda>t. Fx_Event (Some user) (Ev_TerminalUpdated t))
        (ungrouped g (hvals (visible_live s user m)) @ ungrouped g (stash_of s m)), s2)"
    proof -
      have "(case hget (rg_machines s) m of None \<Rightarrow> []
          | Some conn \<Rightarrow> if connection_visible_to conn user then ungrouped g (hvals (mc_terminals conn)) else [])
          = ungrouped g (hvals (visible_live s user m))"
        by (simp add: visible_live_def hvals_def ungrouped_def split: option.split)
      then show ?thesis
        using s1(1)
        by (simp add: clear_workspace_group_assignments_def reading_def and_then_def quiet_def each_publish
            s1_def [symmetric] Let_def case_prod_unfold) (simp add: s2_def)
    qed
    show "live_terminals s2 k =
      (if k = m \<and> visible_live s user m \<noteq> [] then hmapv (ungroup g) (visible_live s user m)
       else live_terminals s k)" for k by (simp add: live s1(3))
    show "stash_of s2 k = (if k = m then map (ungroup g) (stash_of s m) else stash_of s k)" for k
      by (simp add: stash_of_def per split: option.split)
    show "stashed (rg_persisted s2) k j =
      (if k = m then map_option (\<lambda>t. face (ungroup g t)) (find (\<lambda>t. ti_id t = j) (stash_of s m))
       else stashed (rg_persisted s) k j)" for k j
      by (cases "hget (rg_persisted s) m")
        (simp_all add: stashed_def per stash_of_def find_map_ungroup option.map_comp comp_def)
  qed
qed

lemma mirror_clear:
  assumes ok: "registry_ok s" "phased s"
  shows "mirror (clear_workspace_group_assignments user m g) s
    \<and> phased (snd (clear_workspace_group_assignments user m g s))"
proof -
  obtain s' where run: "clear_workspace_group_assignments user m g s =
      (map (\<lambda>t. Fx_Event (Some user) (Ev_TerminalUpdated t))
        (ungrouped g (hvals (visible_live s user m)) @ ungrouped g (stash_of s m)), s')"
    and live: "\<And>k. live_terminals s' k =
      (if k = m \<and> visible_live s user m \<noteq> [] then hmapv (ungroup g) (visible_live s user m)
       else live_terminals s k)"
    and stash: "\<And>k. stash_of s' k = (if k = m then map (ungroup g) (stash_of s m) else stash_of s k)"
    and faces: "\<And>k j. stashed (rg_persisted s') k j =
      (if k = m then map_option (\<lambda>t. face (ungroup g t)) (find (\<lambda>t. ti_id t = j) (stash_of s m))
       else stashed (rg_persisted s) k j)"
    using cleared [of user m g s] by blast
  let ?told = "\<lambda>ts. map (\<lambda>t. Fx_Event (Some user) (Ev_TerminalUpdated t)) (ungrouped g ts)"
  have away: "stashed (rg_persisted s) m j = map_option face (find (\<lambda>t. ti_id t = j) (stash_of s m))" for j
    by (simp add: stashed_def stash_of_def)
  note sok = registry_ok_stash [OF ok(1), of m, unfolded stash_ok_def]
  have vis: "visible_live s user m \<noteq> [] \<Longrightarrow> live_terminals s m = visible_live s user m"
    by (auto simp: visible_live_def live_terminals_def split: option.splits if_splits)
  have "foldl see (shown s) (?told (hvals (visible_live s user m)) @ ?told (stash_of s m)) (k, j)
      = shown s' (k, j)" for k j
  proof (cases "visible_live s user m = []")
    case True
    then have l: "live_terminals s' = live_terminals s" and e: "?told (hvals (visible_live s user m)) = []"
      by (auto simp: live hvals_def ungrouped_def)
    show ?thesis
    proof (cases "k = m")
      case False
      then show ?thesis
        using untold_elsewhere [of "stash_of s m" m k "shown s" "Some user" g j] sok l e
          by (simp add: shown_iff faces split: option.splits)
    next
      case True
      show ?thesis
      proof (cases "stash_of s m = []")
        case empty: True
        then show ?thesis using e l True
            by (simp add: shown_iff faces away ungrouped_def split: option.split)
      next
        case False
        with ok(2) have none: "live_terminals s m = []" unfolding phased_iff by metis
        then have "shown s (m, j) = map_option face (find (\<lambda>t. ti_id t = j) (stash_of s m))"
          by (simp add: shown_iff away hm.get_none)
        with sok told_ungrouped [where V = "shown s" and m = m and tid = j and ts = "stash_of s m"
            and u = "Some user" and g = g]
        have "foldl see (shown s) (?told (stash_of s m)) (m, j)
            = map_option (\<lambda>t. face (ungroup g t)) (find (\<lambda>t. ti_id t = j) (stash_of s m))" by blast
        then
        show ?thesis using e l none True by (simp add: shown_iff faces hm.get_none)
      qed
    qed
  next
    case False
    note v = vis [OF False]
    with False ok(2) have empty: "stash_of s m = []" unfolding phased_iff by metis
    from False obtain conn where conn: "hget (rg_machines s) m = Some conn"
      "visible_live s user m = mc_terminals conn"
      by (auto simp: visible_live_def split: option.splits if_splits)
    note ids = filter_hvals_ids [OF registry_ok_conn [OF ok(1) conn(1)]]
    show ?thesis
    proof (cases "k = m")
      case other: False
      then show ?thesis
        using untold_elsewhere [OF ids(2) other, of "shown s" "Some user" g j] empty
        by (simp add: conn(2) shown_iff faces live ungrouped_def split: option.split)
    next
      case True
      have "shown s (m, j) = map_option face (find (\<lambda>t. ti_id t = j) (hvals (mc_terminals conn)))"
        using v conn empty by (simp add: shown_iff away ids(3) split: option.split)
      with ids(1,2) told_ungrouped [where V = "shown s" and m = m and tid = j
          and ts = "hvals (mc_terminals conn)" and u = "Some user" and g = g]
      have "foldl see (shown s) (?told (hvals (mc_terminals conn))) (m, j)
          = map_option (\<lambda>t. face (ungroup g t)) (find (\<lambda>t. ti_id t = j) (hvals (mc_terminals conn)))"
        by blast
      then show ?thesis using True False empty
        by (simp add: conn(2) shown_iff faces live ids(3) hget_hmapv ungrouped_def split: option.split)
    qed
  qed
  moreover have "phased s'"
  proof -
    have "live_terminals s k = [] \<or> stash_of s k = []" for k using ok(2) unfolding phased_iff by blast
    from this [of m] this show ?thesis
      using vis unfolding phased_iff live stash by (cases "visible_live s user m = []") auto
  qed
  ultimately show ?thesis unfolding mirror_def run by auto
qed

section \<open>Every call\<close>

lemma still_both:
  assumes "\<And>T. still T m" "phased s"
  shows "mirror m s \<and> phased (snd (m s))"
  using still_mirror [OF assms(1), of s] phased_part [of "snd (m s)" s] assms(2) by blast

lemma mirror_message:
  assumes ok: "registry_ok s" "phased s" and orderly: "orderly s (Hub_Message p m msg)"
  shows "mirror (handle_machine_message p m msg) s \<and> phased (snd (handle_machine_message p m msg s))"
proof -
  have reply: "mirror (case reply_of msg of None \<Rightarrow> skip | Some (r, x) \<Rightarrow> resolve_pending r x) s
      \<and> phased (snd ((case reply_of msg of None \<Rightarrow> skip | Some (r, x) \<Rightarrow> resolve_pending r x) s))"
    by (rule still_both [OF _ ok(2)]) (auto split: option.split intro: still_resolve sound_skip)
  have quiet: "mirror skip s \<and> phased (snd (skip s))" using ok(2) by (simp add: mirror_skip skip_def)
  note phasing = ensuresD [OF phasing_terminal_ops(1) ok(2)] ensuresD [OF phasing_terminal_ops(2) ok(2)]
    ensuresD [OF phasing_terminal_ops(3) ok(2)] ensuresD [OF phasing_title ok(2)]
    ensuresD [OF phasing_cwd ok(2)] ensuresD [OF phasing_destroyed ok(2)] ensuresD [OF phasing_died ok(2)]
  note still = still_both [OF still_stats ok(2)] still_both [OF still_installed ok(2)]
    still_both [OF still_runs(1) ok(2)] still_both [OF still_runs(2) ok(2)]
    still_both [OF still_upsert ok(2)] still_both [OF still_browser_ops(1) ok(2)]
    still_both [OF still_browser_ops(2) ok(2)] still_both [OF still_sessions(1) ok(2)]
    still_both [OF still_sessions(2) ok(2)] still_both [OF still_sessions(3) ok(2)]
  show ?thesis
  proof (cases msg)
    case (M2H_ExistingTerminals ts)
    with orderly obtain conn where "hget (rg_machines s) m = Some conn" "\<forall>t \<in> set ts. ti_machine_id t = m"
      by (auto simp: hhas_def)
    then show ?thesis using mirror_existing [OF ok] phased_existing [OF ok(2)] M2H_ExistingTerminals by simp
  next
    case (M2H_TerminalCreated r t title cwd cols rows)
    then show ?thesis using orderly mirror_created phased_created [OF ok(2)] by simp
  qed (use reply quiet phasing still orderly mirror_attention [OF ok(1)] mirror_activity [OF ok(1)]
      mirror_resize [OF ok(1)] mirror_title [OF ok(1)] mirror_cwd [OF ok(1)] mirror_destroyed mirror_died
    in \<open>simp_all\<close>)
qed

text \<open>Control, viewers and requests are not about terminals.\<close>

lemma still_timer: "still T (reconcile_control_timer m b)"
  unfolding reconcile_control_timer_def by (rule still_quiet) (simp split: option.split)

lemma found_conn: "found_browser s m bid = Some (conn, b) \<Longrightarrow> has_conn m conn s"
  by (auto simp: found_browser_def has_conn_def split: option.splits)

lemma still_found:
  assumes "found_browser s m bid = Some (conn, b)" "term_part s = T"
    and "\<And>T. still T rest"
  shows "(\<forall>e \<in> set (fst (and_then (put_browser m conn bid b') rest s)). unseen e)
    \<and> term_part (snd (and_then (put_browser m conn bid b') rest s)) = T"
proof -
  have "ensures (\<lambda>s. term_part s = T \<and> has_conn m conn s) (and_then (put_browser m conn bid b') rest) unseen
      (\<lambda>s. term_part s = T)"
    unfolding put_browser_def by (rule still_put_then [OF _ assms(3)]) simp
  from ensuresD [OF this] show ?thesis using found_conn [OF assms(1)] assms(2) by blast
qed

lemma still_news: "still T (browser_news conn b b')"
  unfolding browser_news_def by (intro still_rules) auto

lemma still_forget: "still T (forget_activity m b)"
  unfolding forget_activity_def by (rule still_quiet) simp

lemmas still_control_rules = still_rules still_timer still_news still_forget

lemma still_apply: "still T (\<lambda>s. snd (apply_agent_browser_control now m bid change s))"
proof (rule ensuresI)
  fix s
  assume s: "term_part s = T"
  show "(\<forall>e \<in> set (fst (snd (apply_agent_browser_control now m bid change s))). unseen e) \<and>
    term_part (snd (snd (apply_agent_browser_control now m bid change s))) = T"
  proof (cases "found_browser s m bid")
    case None
    with s show ?thesis by (simp add: apply_agent_browser_control_def)
  next
    case (Some cb)
    then obtain conn b where f: "found_browser s m bid = Some (conn, b)" by (cases cb) auto
    have "still T (and_then (when_op (resets_activity change b) (forget_activity m bid))
        (browser_news conn b (changed_browser now change b)))" for T
      by (intro still_control_rules)
    from still_found [OF f s this] f show ?thesis by (simp add: apply_agent_browser_control_def Let_def)
  qed
qed

lemma still_change: "still T (\<lambda>s. snd (change_agent_browser_control now m bid change s))"
proof (rule ensuresI)
  fix s
  assume "term_part s = T"
  note a = ensuresD [OF still_apply this, of now m bid change]
  from ensuresD [OF still_timer conjunct2 [OF a], of m bid] a
  show "(\<forall>e \<in> set (fst (snd (change_agent_browser_control now m bid change s))). unseen e) \<and>
    term_part (snd (snd (change_agent_browser_control now m bid change s))) = T"
    by (auto simp: change_agent_browser_control_def split: prod.splits option.splits)
qed

lemma still_reclaim: "still T (\<lambda>s. snd (reclaim_agent_browser_control now m bid reason force s))"
proof (rule ensuresI)
  fix s
  assume s: "term_part s = T"
  show "(\<forall>e \<in> set (fst (snd (reclaim_agent_browser_control now m bid reason force s))). unseen e) \<and>
    term_part (snd (snd (reclaim_agent_browser_control now m bid reason force s))) = T"
  proof (cases "found_browser s m bid")
    case None
    with s show ?thesis by (simp add: reclaim_agent_browser_control_def)
  next
    case (Some cb)
    then obtain conn b where f: "found_browser s m bid = Some (conn, b)" by (cases cb) auto
    have "still T (and_then (browser_news conn b b') (reconcile_control_timer m bid))"
      "still T (and_then (forget_activity m bid) (and_then (browser_news conn b b')
         (reconcile_control_timer m bid)))" for T b'
      by (intro still_control_rules)+
    from still_found [OF f s this(1)] still_found [OF f s this(2)] show ?thesis
      using s f by (simp add: reclaim_agent_browser_control_def Let_def split: option.split)
  qed
qed

lemma still_expire: "still T (expire_control now m b d)"
  unfolding expire_control_def drop_answer_def
  by (intro still_rules still_apply) simp

lemma still_viewers:
  "still T (\<lambda>s. snd (attach_agent_browser_viewer m b p d s))" "still T (drop_viewer v)"
proof -
  have timed: "still T (and_then (send_node_actions m b actions) (case d of None \<Rightarrow> skip
      | Some device \<Rightarrow> and_then (count_viewer m b device) (reconcile_control_timer m b)))" for T actions
    unfolding count_viewer_def by (intro still_rules still_timer still_send) simp
  show "still T (\<lambda>s. snd (attach_agent_browser_viewer m b p d s))"
  proof (rule ensuresI)
    fix s
    assume "term_part s = T"
    then have "term_part (s\<lparr>rg_streams := str\<rparr>) = T" for str by simp
    from ensuresD [OF timed this]
    show "(\<forall>e \<in> set (fst (snd (attach_agent_browser_viewer m b p d s))). unseen e) \<and>
        term_part (snd (snd (attach_agent_browser_viewer m b p d s))) = T"
      by (simp add: attach_agent_browser_viewer_def split: prod.split)
  qed
  show "still T (drop_viewer v)"
    unfolding drop_viewer_def uncount_viewer_def Let_def
    by (intro still_rules still_timer still_streams; simp split: option.split)
qed

lemma still_input: "still T (\<lambda>s. snd (agent_browser_input accepts now m b d ev s))"
  by (simp add: ensures_def agent_browser_input_def split: option.split prod.split)

lemma still_requests:
  "still T (\<lambda>s. snd (send_request accepts r m msg s))"
  "still T (end_wait r e)" "still T (forget_opener r)" "still T (note_opener r opener)"
  "still T (forget_browser_request r)" "still T (note_browser_request r m)"
  by (auto simp: ensures_def send_request_def register_pending_def remove_pending_def quiet_def
      end_wait_def forget_opener_def note_opener_def forget_browser_request_def skip_def
      note_browser_request_def Let_def split: wait_end.split option.split)

lemma still_sends:
  "still T (\<lambda>s. snd (create_terminal_send accepts r m cwd dims startup opener start s))"
  "still T (\<lambda>s. snd (agent_browser_send accepts r m command s))"
proof -
  show "still T (\<lambda>s. snd (create_terminal_send accepts r m cwd dims startup opener start s))"
  proof (rule ensuresI)
    fix s
    assume "term_part s = T"
    then have "term_part (snd (note_opener r opener s)) = T"
      by (simp add: note_opener_def skip_def quiet_def split: option.split)
    from ensuresD [OF still_requests(1) this, of accepts r m
        "H2M_CreateTerminal r cwd (fst dims) (snd dims) startup start"]
    show "(\<forall>e \<in> set (fst (snd (create_terminal_send accepts r m cwd dims startup opener start s))). unseen e)
      \<and> term_part (snd (snd (create_terminal_send accepts r m cwd dims startup opener start s))) = T"
      by (auto simp: create_terminal_send_def forget_opener_def quiet_def split: prod.splits option.splits)
  qed
  show "still T (\<lambda>s. snd (agent_browser_send accepts r m command s))"
  proof (rule ensuresI)
    fix s
    assume "term_part s = T"
    then have "term_part (snd (note_browser_request r m s)) = T"
      by (simp add: note_browser_request_def quiet_def)
    from ensuresD [OF still_requests(1) this, of accepts r m "H2M_AgentBrowser r command"]
    show "(\<forall>e \<in> set (fst (snd (agent_browser_send accepts r m command s))). unseen e) \<and>
      term_part (snd (snd (agent_browser_send accepts r m command s))) = T"
      by (auto simp: agent_browser_send_def forget_browser_request_def quiet_def
          split: prod.splits option.splits)
  qed
qed

lemma still_simple:
  "still T (Registry.set_machine_production m b)" "still T (set_machine_version m v)"
  "still T (agent_browser_frame m b' fr)" "still T (viewer_drew vw)" "still T (viewer_set_params vw p)"
  unfolding Registry.set_machine_production_def set_machine_version_def
    agent_browser_frame_def viewer_drew_def viewer_set_params_def
  by (intro still_rules still_streams; simp)+

lemma still_ends:
  "still T (and_then (end_wait r e) (forget_opener r))"
  "still T (and_then (end_wait r e) (forget_browser_request r))"
  by (intro still_rules still_requests)+

lemma mirror_call:
  assumes ok: "registry_ok s" "phased s" and c: "orderly s c"
  shows "mirror (\<lambda>s. exec_hub s c) s \<and> phased (snd (exec_hub s c))"
proof (cases c)
  case (Hub_SetGroup now user m t g)
  with c show ?thesis using mirror_set_group [OF ok] by simp
next
  case (Hub_Message p m msg)
  with c show ?thesis using mirror_message [OF ok] by (simp add: mirror_def)
next
  case (Hub_Resize m t cols rows)
  then show ?thesis
    using mirror_resize [OF ok(1)] ensuresD [OF phasing_terminal_ops(3) ok(2)]
    by (simp add: apply_optimistic_resize_def)
next
  case (Hub_Register k info user caps)
  then show ?thesis using mirror_register [OF ok] by simp
next
  case (Hub_Unregister now m k)
  then show ?thesis using mirror_unregister [OF ok] by simp
next
  case (Hub_Remove user m)
  then show ?thesis using mirror_remove [OF ok(2)] by simp
next
  case (Hub_ClearGroup user m g)
  then show ?thesis using mirror_clear [OF ok] by simp
next
  case (Hub_CreateEnd r m opener e)
  then show ?thesis using still_both [OF still_ends(1) ok(2)] by (simp add: create_terminal_end_def)
next
  case (Hub_BrowserEnd r e)
  then show ?thesis using still_both [OF still_ends(2) ok(2)] by (simp add: agent_browser_end_def)
qed (simp_all add: still_both [OF still_simple(1) ok(2)] still_both [OF still_simple(2) ok(2)]
    still_both [OF still_simple(3) ok(2)] still_both [OF still_simple(4) ok(2)]
    still_both [OF still_simple(5) ok(2)] still_both [OF still_change ok(2)]
    still_both [OF still_reclaim ok(2)] still_both [OF still_expire ok(2)]
    still_both [OF still_viewers(1) ok(2)] still_both [OF still_viewers(2) ok(2)]
    still_both [OF still_input ok(2)] still_both [OF still_requests(1) ok(2)]
    still_both [OF still_requests(2) ok(2)] still_both [OF still_sends(1) ok(2)]
    still_both [OF still_sends(2) ok(2)])

section \<open>Whole runs\<close>

definition hub_does :: "registry \<Rightarrow> hub_call \<Rightarrow> registry \<times> effect list" where
  "hub_does s c = (snd (exec_hub s c), fst (exec_hub s c))"

fun orderly_calls :: "registry \<Rightarrow> hub_call list \<Rightarrow> bool" where
  "orderly_calls s [] \<longleftrightarrow> True"
| "orderly_calls s (c # cs) \<longleftrightarrow> orderly s c \<and> orderly_calls (snd (exec_hub s c)) cs"

interpretation browsers: mirrored "\<lambda>s c. if orderly s c then hub_does s c else (s, [])" shown see
  "\<lambda>s. registry_ok s \<and> phased s"
proof unfold_locales
  fix s c s' es
  assume ok: "registry_ok s \<and> phased s"
    and run: "(if orderly s c then hub_does s c else (s, [])) = (s', es)"
  have "foldl see (shown s) es = shown s' \<and> registry_ok s' \<and> phased s'"
  proof (cases "orderly s c")
    case True
    then have "es = fst (exec_hub s c)" "s' = snd (exec_hub s c)" using run by (auto simp: hub_does_def)
    then show ?thesis
      using True mirror_call [OF _ _ True] typed_call [OF _ orderly_honest [OF True]] ok
      by (simp add: mirror_def)
  qed (use ok run in auto)
  then show "foldl see (shown s) es = shown s'" "registry_ok s' \<and> phased s'" by auto
qed

lemma orderly_run:
  "orderly_calls s cs \<Longrightarrow> run_events hub_does s cs =
     run_events (\<lambda>s c. if orderly s c then hub_does s c else (s, [])) s cs"
  by (induction cs arbitrary: s) (simp_all add: hub_does_def Let_def)

lemma startup_phased: "phased (new_registry millis db sessions)"
  by (simp add: phased_def new_registry_def hm.get_none)

text \<open>What a snapshot lists is what the browser is meant to show.\<close>

lemma find_own: "distinct (map key xs) \<Longrightarrow> x \<in> set xs \<Longrightarrow> find (\<lambda>y. key y = key x) xs = Some x"
  by (induction xs) force+

lemma hvals_hget: "hwf m \<Longrightarrow> v \<in> set (hvals m) \<Longrightarrow> \<exists>k. hget m k = Some v"
  by (force simp: hwf_def hget_def hvals_def intro: map_of_is_SomeI)

lemma stash_shown:
  assumes ok: "registry_ok s" "phased s" and t: "t \<in> set (stash_of s m)"
  shows "shown s (ti_machine_id t, ti_id t) = Some (face t)"
proof -
  note stash = registry_ok_stash [OF ok(1), of m, unfolded stash_ok_def]
  have "live_terminals s m = []" using ok(2) t unfolding phased_iff by fastforce
  moreover have "find (\<lambda>t'. ti_id t' = ti_id t) (stash_of s m) = Some t"
    using stash t by (intro find_own) simp_all
  ultimately show ?thesis
    using stash t by (simp add: shown_iff stashed_def stash_of_def hm.get_none split: option.splits)
qed

lemma live_shown:
  assumes ok: "registry_ok s" and conn: "conn \<in> set (hvals (rg_machines s))"
    and t: "t \<in> set (hvals (mc_terminals conn))"
  shows "shown s (ti_machine_id t, ti_id t) = Some (face t)"
proof -
  obtain m where m: "hget (rg_machines s) m = Some conn"
    using ok conn by (auto simp: registry_ok_def dest: hvals_hget)
  note c = registry_ok_conn [OF ok m]
  obtain k where k: "hget (mc_terminals conn) k = Some t"
    using c t by (auto simp: conn_ok_def dest: hvals_hget)
  show ?thesis using conn_ok_found(1) [OF c k] k m by (simp add: shown_iff live_terminals_def)
qed

lemma snapshot_shown:
  assumes ok: "registry_ok s" "phased s" and t: "t \<in> set (snapshot_terminals s user)"
  shows "shown s (ti_machine_id t, ti_id t) = Some (face t)"
proof -
  from t consider conn where "conn \<in> set (hvals (rg_machines s))" "t \<in> set (hvals (mc_terminals conn))"
    | m ts where "(m, ts) \<in> set (rg_persisted s)" "t \<in> set ts"
    by (auto simp: snapshot_terminals_def visible_conns_def away_machines_def map_filter_def
        split: option.splits if_splits)
  then show ?thesis
  proof cases
    case 1
    then show ?thesis by (rule live_shown [OF ok(1)])
  next
    case 2
    then have "hget (rg_persisted s) m = Some ts"
      using ok(1) by (auto simp: registry_ok_def hwf_def hget_def)
    then show ?thesis using stash_shown [OF ok, of t m] 2 by (simp add: stash_of_def)
  qed
qed



end
