(* ===== verification/HubAnswers.thy ===== *)
theory HubAnswers
  imports TerminalMirror
begin

text \<open>
  Requests to nodes and their answers. Whatever nodes send, whoever disconnects and however the
  requests of different users interleave, a request is answered or failed at most once, and only
  if it was sent.
\<close>

section \<open>Counting answers\<close>

fun answers :: "ident \<Rightarrow> effect \<Rightarrow> bool" where
  "answers r (Fx_Reply r' _) \<longleftrightarrow> r' = r"
| "answers r (Fx_Failed r') \<longleftrightarrow> r' = r"
| "answers r _ \<longleftrightarrow> False"

definition answered :: "ident \<Rightarrow> effect list \<Rightarrow> nat" where
  "answered r es = length (filter (answers r) es)"

definition awaited :: "ident \<Rightarrow> registry \<Rightarrow> nat" where
  "awaited r s = (if r \<in> set (rg_pending s) then 1 else 0)"

text \<open>The calls that send a request with this identifier.\<close>

fun asks :: "ident \<Rightarrow> hub_call \<Rightarrow> bool" where
  "asks r (Hub_Create _ r' _ _ _ _ _ _) \<longleftrightarrow> r' = r"
| "asks r (Hub_Request _ r' _ _) \<longleftrightarrow> r' = r"
| "asks r (Hub_Browser _ r' _ _) \<longleftrightarrow> r' = r"
| "asks r _ \<longleftrightarrow> False"

definition spends :: "ident \<Rightarrow> hub_op \<Rightarrow> bool" where
  "spends r m \<longleftrightarrow> (\<forall>s. answered r (fst (m s)) + awaited r (snd (m s)) \<le> awaited r s)"

lemma answered_simps [simp]:
  "answered r [] = 0"
  "answered r (e # es) = (if answers r e then 1 else 0) + answered r es"
  "answered r (es @ fs) = answered r es + answered r fs"
  by (simp_all add: answered_def)

lemma unanswered: "(\<And>e. e \<in> set es \<Longrightarrow> \<not> answers r e) \<Longrightarrow> answered r es = 0"
  by (induction es) auto

lemma awaited_fields [simp]:
  "awaited r (s\<lparr>rg_machines := ms\<rparr>) = awaited r s"
  "awaited r (s\<lparr>rg_persisted := ps\<rparr>) = awaited r s"
  "awaited r (s\<lparr>rg_db := db\<rparr>) = awaited r s"
  "awaited r (s\<lparr>rg_sessions := sd\<rparr>) = awaited r s"
  "awaited r (s\<lparr>rg_activity := ac\<rparr>) = awaited r s"
  "awaited r (s\<lparr>rg_streams := str\<rparr>) = awaited r s"
  "awaited r (s\<lparr>rg_browser_requests := rs\<rparr>) = awaited r s"
  "awaited r (s\<lparr>rg_viewers := vs\<rparr>) = awaited r s"
  "awaited r (s\<lparr>rg_timers := tm\<rparr>) = awaited r s"
  "awaited r (s\<lparr>rg_mode := mo\<rparr>) = awaited r s"
  "awaited r (s\<lparr>rg_openers := os\<rparr>) = awaited r s"
  by (simp_all add: awaited_def)

section \<open>Rules\<close>

lemma spendsD: "spends r m \<Longrightarrow> answered r (fst (m s)) + awaited r (snd (m s)) \<le> awaited r s"
  by (simp add: spends_def)

lemma spends_seq: "spends r m \<Longrightarrow> spends r n \<Longrightarrow> spends r (and_then m n)"
  unfolding spends_def and_then_def Let_def case_prod_unfold
  by (simp, metis (no_types, lifting) add.assoc add_le_mono1 add.left_commute le_trans nat_add_left_cancel_le)

lemma spends_quiet: "(\<And>s. awaited r (f s) = awaited r s) \<Longrightarrow> spends r (quiet f)"
  by (simp add: spends_def quiet_def)

lemma spends_emit: "(\<And>e. e \<in> set es \<Longrightarrow> \<not> answers r e) \<Longrightarrow> spends r (emit es)"
  by (simp add: spends_def emit_def unanswered)

lemma spends_skip: "spends r skip"
  by (simp add: spends_def skip_def)

lemma spends_each: "(\<And>x. x \<in> set xs \<Longrightarrow> spends r (f x)) \<Longrightarrow> spends r (each f xs)"
  by (induction xs) (simp_all add: spends_skip spends_seq)

lemma spends_reading: "(\<And>x. spends r (g x)) \<Longrightarrow> spends r (reading f g)"
  by (simp add: spends_def reading_def)

lemma spends_when: "(b \<Longrightarrow> spends r m) \<Longrightarrow> spends r (when_op b m)"
  by (simp add: when_op_def spends_skip)

lemma spends_if: "(b \<Longrightarrow> spends r m) \<Longrightarrow> (\<not> b \<Longrightarrow> spends r n) \<Longrightarrow> spends r (if b then m else n)"
  by simp

lemma spends_option:
  "(x = None \<Longrightarrow> spends r m) \<Longrightarrow> (\<And>y. x = Some y \<Longrightarrow> spends r (f y))
     \<Longrightarrow> spends r (case x of None \<Rightarrow> m | Some y \<Rightarrow> f y)"
  by (cases x) auto

lemma spends_on_conn: "(\<And>conn. spends r (f conn)) \<Longrightarrow> spends r (on_conn m f)"
  unfolding on_conn_def by (intro spends_reading spends_option spends_skip)

lemma spends_on_terminal: "(\<And>conn t. spends r (f conn t)) \<Longrightarrow> spends r (on_terminal m tid f)"
  unfolding on_terminal_def by (intro spends_on_conn spends_option spends_skip)

lemma spends_put: "spends r (put_conn m conn)" "spends r (put_terminal m conn tid t)"
  "spends r (on_db f)" "spends r (put_browser m conn b br)"
  unfolding put_terminal_def put_conn_def on_db_def put_browser_def
  by (rule spends_quiet; simp)+

lemma spends_announcing: "spends r (announcing f)"
proof -
  have "answered r (map (\<lambda>(u, ev). Fx_Event u ev) xs) = 0" for xs
    by (rule unanswered) auto
  then show ?thesis by (simp add: spends_def announcing_def case_prod_unfold Let_def)
qed

lemma spends_resolve: "spends r (resolve_pending r' x)"
  by (auto simp: spends_def resolve_pending_def awaited_def)

lemma spends_drop: "spends r (drop_pending r')"
  by (auto simp: spends_def drop_pending_def awaited_def)

lemmas spends_rules = spends_seq spends_skip spends_each spends_reading spends_when spends_if
  spends_option spends_on_conn spends_on_terminal spends_put spends_announcing spends_resolve
  spends_drop spends_emit spends_quiet

lemma spends_after:
  "spends r m \<Longrightarrow> awaited r s' = awaited r s
     \<Longrightarrow> answered r (fst (m s')) + awaited r (snd (m s')) \<le> awaited r s"
  using spendsD [of r m s'] by simp

section \<open>The operations\<close>

lemma spends_prune: "spends r (prune_auto_tab_if_empty user m g)"
  by (auto simp: spends_def prune_auto_tab_if_empty_def publish_workspace_group_deleted_def
      publish_def emit_def Let_def split: option.splits prod.splits)

lemma spends_gone: "spends r (terminal_gone now user m tid g)"
  unfolding terminal_gone_def prune_tab_of_def by (intro spends_rules spends_prune) auto

lemma spends_terminals:
  "spends r (terminal_created now m r' tid title cwd cols rows)"
  "spends r (terminal_destroyed now m tid)"
  "spends r (handle_terminal_destroyed_internal now m tid)"
  "spends r (terminal_attention_changed now new_req m tid attention)"
  "spends r (terminal_activity m tid at_ms)"
  "spends r (existing_terminals now m ts)"
  unfolding terminal_created_def Let_def try_db_def terminal_destroyed_def forget_terminal_def
    handle_terminal_destroyed_internal_def terminal_attention_changed_def terminal_activity_def
    existing_terminals_def report_terminal_def bury_terminal_def
  by (intro spends_rules spends_gone; simp; fail)+

lemma spends_resize: "spends r (resize_terminal m tid cols rows)"
  unfolding resize_terminal_def Let_def
  by (intro spends_rules) (auto intro!: spends_rules simp: spends_def)

lemma spends_title: "spends r (terminal_title m tid title src)"
proof -
  have "spends r (on_terminal m tid (\<lambda>conn t. let t' = t\<lparr>ti_title := title, ti_title_source := src\<rparr> in
      and_then (put_terminal m conn tid t')
      (and_then (emit [Fx_Event (mc_user_id conn) (Ev_TerminalUpdated t')])
       (when_op (renames_session t title src) (announcing (on_terminal_title (mc_user_id conn) tid))))))"
    unfolding Let_def by (intro spends_rules) simp
  from spends_after [OF this] show ?thesis
    unfolding spends_def by (simp add: terminal_title_def case_prod_unfold Let_def)
qed

lemma spends_cwd: "spends r (terminal_cwd m tid cwd)"
proof -
  have "spends r (when_op u (on_terminal m tid (\<lambda>conn t. let t' = t\<lparr>ti_cwd := cwd\<rparr> in
      and_then (put_terminal m conn tid t')
        (emit [Fx_Event (mc_user_id conn) (Ev_TerminalUpdated t')]))))" for u
    unfolding Let_def by (intro spends_rules) simp
  from spends_after [OF this] show ?thesis
    unfolding spends_def by (simp add: terminal_cwd_def case_prod_unfold Let_def)
qed

lemma spends_send: "spends r (send_node_actions m b as)"
  unfolding send_node_actions_def by (intro spends_rules) auto

lemma spends_streams: "spends r (on_streams f m b)"
  unfolding spends_def by (simp add: on_streams_def case_prod_unfold Let_def spends_after [OF spends_send])

lemma spends_resync: "spends r (resync_streams m ids)"
proof -
  have "spends r (each (\<lambda>(b, a). send_node_actions m b [a]) xs)" for xs
    by (intro spends_rules) (auto intro: spends_send)
  from spends_after [OF this] show ?thesis
    unfolding spends_def by (simp add: resync_streams_def case_prod_unfold Let_def)
qed

lemma spends_upsert: "spends r (upsert_agent_browser m browser)"
  unfolding upsert_agent_browser_def Let_def
  by (intro spends_rules) (auto split: option.split)

lemma spends_browsers:
  "spends r (agent_browser_destroyed m b)" "spends r (replace_agent_browsers m browsers)"
  unfolding agent_browser_destroyed_def forget_activity_def replace_agent_browsers_def Let_def
  by (intro spends_rules spends_upsert spends_resync; auto; fail)+

lemma spends_sessions:
  "spends r (agent_session_update now sid status title acp models model)"
  "spends r (agent_session_exited now sid)"
  "spends r (agent_session_event now sid sq event)"
  "spends r (disconnect_sessions now m)"
  unfolding agent_session_update_def agent_session_exited_def on_sessions_def announce_session_def
  by (intro spends_rules; simp; fail)+
    (auto simp: spends_def agent_session_event_def disconnect_sessions_def case_prod_unfold Let_def
      intro!: unanswered split: option.split)

lemma spends_runs:
  "spends r (terminal_agent now new_run new_req m tid agent)"
  "spends r (agent_signal now new_run new_req m tid agent source signal)"
  "spends r (resource_stats_report m stats)"
  unfolding terminal_agent_def agent_signal_def resource_stats_report_def
  by (intro spends_rules; simp; fail)+

lemma spends_message: "spends r (handle_machine_message p m msg)"
proof -
  have "spends r (case reply_of msg of None \<Rightarrow> skip | Some (r', x) \<Rightarrow> resolve_pending r' x)"
    by (auto split: option.split intro: spends_rules)
  moreover have "spends r (on_conn m (\<lambda>conn. put_conn m (conn\<lparr>mc_installed_agents := a\<rparr>)))" for a
    by (intro spends_rules)
  ultimately show ?thesis
    by (cases msg) (simp_all add: spends_skip spends_terminals spends_resize spends_title spends_cwd
        spends_upsert spends_browsers spends_sessions spends_runs)
qed

lemma spends_machines:
  "spends r (register_machine c info user caps)" "spends r (unregister_machine now m c)"
  "spends r (\<lambda>s. snd (remove_machine who m s))"
proof -
  have drop: "spends r (drop_agent_browsers m conn)" for m conn
    unfolding drop_agent_browsers_def by (intro spends_rules; auto)
  have stash: "spends r (stash m ts)" for m ts
    unfolding stash_def by (intro spends_rules) simp
  show "spends r (register_machine c info user caps)" "spends r (unregister_machine now m c)"
    unfolding register_machine_def unregister_machine_def remove_conn_def
    by (intro spends_rules drop stash spends_sessions; auto; fail)+
  have "spends r (and_then (remove_conn m)
        (and_then (quiet (\<lambda>s. s\<lparr>rg_persisted := hdel m (rg_persisted s),
                     rg_mode := clear_machine_mode who m (rg_mode s),
                     rg_db := delete_machine m (rg_db s),
                     rg_sessions := sessions_without_machine m (rg_sessions s)\<rparr>))
        (publish who (Ev_MachineRemoved m))))"
    unfolding remove_conn_def publish_def by (intro spends_rules) auto
  then show "spends r (\<lambda>s. snd (remove_machine who m s))"
    by (simp add: spends_def remove_machine_def)
qed

lemma assigned_awaited: "assigned user m tid g s = Some (t, previous, s') \<Longrightarrow> awaited r s' = awaited r s"
  by (auto simp: assigned_def assign_live_def assign_stashed_def Let_def split: option.splits if_splits)

lemma spends_tabs:
  "spends r (\<lambda>s. snd (set_terminal_workspace_group now user m tid g s))"
  "spends r (clear_workspace_group_assignments user m gone)"
proof -
  have tail: "spends r (and_then
      (case previous of Some p \<Rightarrow> when_op (Some p \<noteq> g) (prune_auto_tab_if_empty (Some user) m p)
                      | None \<Rightarrow> skip) (publish user (Ev_TerminalUpdated t)))" for previous t
    unfolding publish_def by (intro spends_rules spends_prune) simp
  show "spends r (\<lambda>s. snd (set_terminal_workspace_group now user m tid g s))"
    unfolding spends_def
  proof
    fix s
    show "answered r (fst (snd (set_terminal_workspace_group now user m tid g s)))
      + awaited r (snd (snd (set_terminal_workspace_group now user m tid g s))) \<le> awaited r s"
    proof (cases "assigned user m tid g s")
      case None
      then show ?thesis by (simp add: set_terminal_workspace_group_def)
    next
      case (Some x)
      then obtain t previous s1 where a: "assigned user m tid g s = Some (t, previous, s1)"
        by (cases x) auto
      note w = assigned_awaited [OF a, of r]
      show ?thesis
        using w spends_after [OF tail [of previous t], of "s1\<lparr>rg_db := db\<rparr>" s for db]
        by (simp add: set_terminal_workspace_group_def a cong: option.case_cong split: option.split_asm)
          (cases previous; simp split: option.split)
    qed
  qed
  show "spends r (clear_workspace_group_assignments user m gone)"
    unfolding clear_workspace_group_assignments_def publish_def
    by (intro spends_rules) (simp_all split: if_split)
qed

lemma spends_timer: "spends r (reconcile_control_timer m b)"
  unfolding reconcile_control_timer_def by (rule spends_quiet) (simp split: option.split)

lemma spends_browser_rules:
  "spends r (browser_news conn b b')" "spends r (forget_activity m bid)"
  unfolding browser_news_def forget_activity_def by (intro spends_rules; simp)+

lemma spends_control:
  "spends r (\<lambda>s. snd (apply_agent_browser_control now m bid change s))"
  "spends r (\<lambda>s. snd (reclaim_agent_browser_control now m bid reason force s))"
proof -
  have a: "spends r (and_then (put_browser m conn bid b')
      (and_then (when_op w (forget_activity m bid)) (browser_news conn b b')))"
    "spends r (and_then (put_browser m conn bid b')
      (and_then (browser_news conn b b') (reconcile_control_timer m bid)))"
    "spends r (and_then (put_browser m conn bid b') (and_then (forget_activity m bid)
      (and_then (browser_news conn b b') (reconcile_control_timer m bid))))" for conn b b' w
    by (intro spends_rules spends_browser_rules spends_timer)+
  show "spends r (\<lambda>s. snd (apply_agent_browser_control now m bid change s))"
    unfolding spends_def by (auto simp: apply_agent_browser_control_def Let_def
        split: option.split intro: spendsD [OF a(1)])
  show "spends r (\<lambda>s. snd (reclaim_agent_browser_control now m bid reason force s))"
    unfolding spends_def by (auto simp: reclaim_agent_browser_control_def Let_def
        split: option.split intro: spendsD [OF a(2)] spendsD [OF a(3)])
qed

lemma spends_change: "spends r (\<lambda>s. snd (change_agent_browser_control now m bid change s))"
proof -
  have "spends r (and_then (\<lambda>s. snd (apply_agent_browser_control now m bid change s))
      (reconcile_control_timer m bid))"
    by (intro spends_rules spends_control spends_timer)
  then show ?thesis
    using spendsD [OF spends_control(1), of r now m bid change]
    unfolding spends_def change_agent_browser_control_def and_then_def Let_def case_prod_unfold
    by (simp split: option.split)
qed

lemma spends_expire: "spends r (expire_control now m b d)"
  unfolding expire_control_def drop_answer_def
  by (intro spends_rules spends_control) simp

lemma spends_viewers:
  "spends r (\<lambda>s. snd (attach_agent_browser_viewer m b p d s))" "spends r (drop_viewer v)"
proof -
  have "spends r (and_then (send_node_actions m b actions) (case d of None \<Rightarrow> skip
      | Some device \<Rightarrow> and_then (count_viewer m b device) (reconcile_control_timer m b)))" for actions
    unfolding count_viewer_def by (intro spends_rules spends_timer spends_send) simp
  from spends_after [OF this] show "spends r (\<lambda>s. snd (attach_agent_browser_viewer m b p d s))"
    unfolding spends_def by (simp add: attach_agent_browser_viewer_def case_prod_unfold Let_def)
  show "spends r (drop_viewer v)"
    unfolding drop_viewer_def uncount_viewer_def Let_def
    by (intro spends_rules spends_timer spends_streams) (simp split: option.split)
qed

section \<open>Calls and runs\<close>

lemma asked:
  "answered r (fst (snd (send_request accepts r' m msg s)))
     + awaited r (snd (snd (send_request accepts r' m msg s))) \<le> awaited r s + (if r' = r then 1 else 0)"
  by (simp add: send_request_def register_pending_def remove_pending_def quiet_def awaited_def)

lemma asked_openers:
  "awaited r (snd (note_opener r' opener s)) = awaited r s" "awaited r (snd (forget_opener r' s)) = awaited r s"
  "awaited r (snd (note_browser_request r' m s)) = awaited r s"
  "awaited r (snd (forget_browser_request r' s)) = awaited r s"
  by (simp_all add: note_opener_def forget_opener_def note_browser_request_def
      forget_browser_request_def quiet_def skip_def split: option.split)

lemma asked_sends:
  "answered r (fst (snd (create_terminal_send accepts r' m cwd dims startup opener start s)))
     + awaited r (snd (snd (create_terminal_send accepts r' m cwd dims startup opener start s)))
   \<le> awaited r s + (if r' = r then 1 else 0)"
  "answered r (fst (snd (agent_browser_send accepts r' m command s)))
     + awaited r (snd (snd (agent_browser_send accepts r' m command s)))
   \<le> awaited r s + (if r' = r then 1 else 0)"
proof -
  obtain f es s2 where c: "send_request accepts r' m
      (H2M_CreateTerminal r' cwd (fst dims) (snd dims) startup start) (snd (note_opener r' opener s)) = (f, es, s2)"
    by (cases "send_request accepts r' m
      (H2M_CreateTerminal r' cwd (fst dims) (snd dims) startup start) (snd (note_opener r' opener s))")
  have "create_terminal_send accepts r' m cwd dims startup opener start s
      = (map_option (refused_text m) f, es, if f = None then s2 else snd (forget_opener r' s2))"
    using c by (cases f) (simp_all add: create_terminal_send_def case_prod_unfold Let_def)
  then show "answered r (fst (snd (create_terminal_send accepts r' m cwd dims startup opener start s)))
     + awaited r (snd (snd (create_terminal_send accepts r' m cwd dims startup opener start s)))
   \<le> awaited r s + (if r' = r then 1 else 0)"
    using asked [of r accepts r' m "H2M_CreateTerminal r' cwd (fst dims) (snd dims) startup start"
        "snd (note_opener r' opener s)"] c by (simp add: asked_openers split: if_split_asm)
  obtain f es s2 where b: "send_request accepts r' m (H2M_AgentBrowser r' command)
      (snd (note_browser_request r' m s)) = (f, es, s2)"
    by (cases "send_request accepts r' m (H2M_AgentBrowser r' command) (snd (note_browser_request r' m s))")
  have "snd (agent_browser_send accepts r' m command s)
      = (es, if f = None then s2 else snd (forget_browser_request r' s2))"
    using b by (cases f) (simp_all add: agent_browser_send_def case_prod_unfold Let_def)
  then show "answered r (fst (snd (agent_browser_send accepts r' m command s)))
     + awaited r (snd (snd (agent_browser_send accepts r' m command s)))
   \<le> awaited r s + (if r' = r then 1 else 0)"
    using asked [of r accepts r' m "H2M_AgentBrowser r' command" "snd (note_browser_request r' m s)"] b
    by (simp add: asked_openers split: if_split_asm)
qed

lemma spends_ends: "spends r (end_wait r' e)" "spends r (forget_opener r')" "spends r (forget_browser_request r')"
  by (auto simp: spends_def end_wait_def remove_pending_def quiet_def skip_def awaited_def
      forget_opener_def forget_browser_request_def split: wait_end.split)

lemma call_answers:
  "answered r (fst (exec_hub s c)) + awaited r (snd (exec_hub s c)) \<le> awaited r s + (if asks r c then 1 else 0)"
proof -
  have simple: "spends r (Registry.set_machine_production m b)" "spends r (set_machine_version m v)"
    "spends r (apply_optimistic_resize m t cols rows)" "spends r (agent_browser_frame m b' fr)"
    "spends r (viewer_drew vw)" "spends r (viewer_set_params vw p)" for m b v t cols rows b' fr vw p
    unfolding Registry.set_machine_production_def set_machine_version_def apply_optimistic_resize_def
      agent_browser_frame_def viewer_drew_def viewer_set_params_def
    by (intro spends_rules spends_resize spends_streams)+
  have ends: "spends r (and_then (end_wait r' e) (forget_opener r'))"
    "spends r (and_then (end_wait r' e) (forget_browser_request r'))" for r' e
    by (intro spends_rules spends_ends)+
  have input: "spends r (\<lambda>s. snd (agent_browser_input accepts now m b d ev s))" for accepts now m b d ev
    by (simp add: spends_def agent_browser_input_def split: option.split prod.split)
  show ?thesis
  proof (cases c)
    case (Hub_Request accepts r' m msg)
    then show ?thesis using asked by simp
  next
    case (Hub_Create accepts r' m cwd dims startup opener start)
    then show ?thesis using asked_sends(1) by simp
  next
    case (Hub_Browser accepts r' m command)
    then show ?thesis using asked_sends(2) by simp
  qed (simp_all add: create_terminal_end_def agent_browser_end_def spendsD [OF simple(1)]
      spendsD [OF simple(2)] spendsD [OF simple(3)] spendsD [OF simple(4)] spendsD [OF simple(5)]
      spendsD [OF simple(6)] spendsD [OF ends(1)] spendsD [OF ends(2)] spendsD [OF input]
      spendsD [OF spends_message] spendsD [OF spends_machines(1)] spendsD [OF spends_machines(2)]
      spendsD [OF spends_machines(3)] spendsD [OF spends_tabs(1)] spendsD [OF spends_tabs(2)]
      spendsD [OF spends_change] spendsD [OF spends_control(2)] spendsD [OF spends_expire]
      spendsD [OF spends_viewers(1)] spendsD [OF spends_viewers(2)] spendsD [OF spends_ends(1)])
qed

text \<open>
  C6. In every run of the hub, from any state, the number of times a request is answered or
  failed is at most the number of times it was sent, plus one if it was already waiting; and
  while it waits, one fewer. So with the fresh identifier every request gets, it is answered at
  most once, and a node that answers twice, answers late or answers what was never asked is not
  heard.
\<close>

theorem requests_answered_once:
  "answered r (snd (run_events hub_does s cs)) + awaited r (fst (run_events hub_does s cs))
     \<le> awaited r s + length (filter (asks r) cs)"
proof (induction cs arbitrary: s)
  case Nil
  then show ?case by simp
next
  case (Cons c cs)
  from Cons.IH [of "snd (exec_hub s c)"] call_answers [of r s c] show ?case
    by (simp add: hub_does_def case_prod_unfold Let_def split: if_split_asm)
qed

end
