(* ===== verification/UserView.thy ===== *)
theory UserView
  imports TerminalMirror
begin

text \<open>
  What a user is shown and what they may act on. The snapshot, the terminal list of the HTTP
  interface and the access check of every terminal route walk the registry in three different
  ways; here they agree.
\<close>

section \<open>Three walks over the registry\<close>

text \<open>A connection is visible to the owner of its machine's row.\<close>

definition owners_connected :: "registry \<Rightarrow> bool" where
  "owners_connected s \<longleftrightarrow> (\<forall>m conn row. hget (rg_machines s) m = Some conn \<longrightarrow>
     find_machine_by_id (rg_db s) m = Some row \<longrightarrow> connection_visible_to conn (mr_user_id row))"

lemma machine_entry:
  assumes "registry_ok s" "(m, conn) \<in> set (rg_machines s)"
  shows "hget (rg_machines s) m = Some conn" "mi_id (mc_info conn) = m"
proof -
  show h: "hget (rg_machines s) m = Some conn"
    using assms by (simp add: registry_ok_def hwf_def hget_def)
  show "mi_id (mc_info conn) = m" using registry_ok_conn [OF assms(1) h] by (simp add: conn_ok_def)
qed

lemma visible_conns_pairs:
  "visible_conns s user = map snd (filter (\<lambda>(_, conn). connection_visible_to conn user) (rg_machines s))"
  unfolding visible_conns_def hvals_def by (simp add: filter_map comp_def case_prod_unfold)

lemma visible_ids:
  assumes "registry_ok s"
  shows "(mi_id \<circ> mc_info) ` set (visible_conns s user) = set (visible_machine_ids s user)"
  unfolding visible_conns_pairs visible_machine_ids_def hkeys_def set_map image_image comp_def
  by (rule image_cong) (auto dest: machine_entry(2) [OF assms])

lemma away_terminals:
  "map snd (List.map_filter (\<lambda>(m, ts). case find_machine_by_id db m of None \<Rightarrow> None
       | Some row \<Rightarrow> if mr_user_id row = user then Some (row, ts) else None) away) =
   map snd (filter (\<lambda>(m, _). case find_machine_by_id db m of None \<Rightarrow> False
       | Some row \<Rightarrow> mr_user_id row = user) away)"
proof (induction away)
  case (Cons x away)
  then show ?case by (cases x; cases "find_machine_by_id db (fst x)") (auto simp: map_filter_simps)
qed (simp add: map_filter_simps)

lemma snapshot_lists:
  assumes "registry_ok s"
  shows "snapshot_terminals s user = list_terminals_for_user s user None"
proof -
  have "concat (map (hvals \<circ> mc_terminals) (visible_conns s user)) =
      concat (map (\<lambda>(_, conn). hvals (mc_terminals conn))
        (filter (\<lambda>(m, conn). connection_visible_to conn user \<and> for_machine None m) (rg_machines s)))"
    unfolding visible_conns_pairs by (simp add: comp_def case_prod_unfold for_machine_def)
  moreover have "map snd (away_machines s user) = map snd
      (filter (\<lambda>(m, _). m \<notin> set (visible_machine_ids s user) \<and> for_machine None m
         \<and> db_machine_belongs_to_user s user m) (rg_persisted s))"
    unfolding away_machines_def visible_ids [OF assms] away_terminals filter_filter
    by (rule arg_cong [of _ _ "map snd"], rule filter_cong)
      (auto simp: for_machine_def db_machine_belongs_to_user_def)
  ultimately show ?thesis unfolding snapshot_terminals_def list_terminals_for_user_def by simp
qed

lemma listed_live:
  assumes ok: "registry_ok s"
  shows "(\<exists>m' conn. (m', conn) \<in> set (rg_machines s) \<and> connection_visible_to conn user
       \<and> (\<exists>t \<in> set (hvals (mc_terminals conn)). ti_machine_id t = m \<and> ti_id t = tid))
     \<longleftrightarrow> (\<exists>conn. hget (rg_machines s) m = Some conn \<and> connection_visible_to conn user
           \<and> hhas (mc_terminals conn) tid)"
proof (intro iffI; elim exE conjE bexE)
  fix m' conn t
  assume *: "(m', conn) \<in> set (rg_machines s)" "connection_visible_to conn user"
    "t \<in> set (hvals (mc_terminals conn))" "ti_machine_id t = m" "ti_id t = tid"
  note c = machine_entry [OF ok *(1)]
  note conn = registry_ok_conn [OF ok c(1)]
  obtain k where k: "hget (mc_terminals conn) k = Some t"
    using conn hvals_hget [OF _ *(3)] by (auto simp: conn_ok_def)
  with conn_ok_found(1) [OF conn k] * c show "\<exists>conn. hget (rg_machines s) m = Some conn
      \<and> connection_visible_to conn user \<and> hhas (mc_terminals conn) tid"
    by (auto simp: hhas_def)
next
  fix conn
  assume *: "hget (rg_machines s) m = Some conn" "connection_visible_to conn user"
    "hhas (mc_terminals conn) tid"
  then obtain t where t: "hget (mc_terminals conn) tid = Some t" by (auto simp: hhas_def)
  note ids = conn_ok_found(1) [OF registry_ok_conn [OF ok *(1)] t]
  have "(m, conn) \<in> set (rg_machines s)" "t \<in> set (hvals (mc_terminals conn))"
    using *(1) t by (auto simp: hget_def hvals_def dest!: map_of_SomeD intro: image_eqI [rotated])
  with ids *(2) show "\<exists>m' conn. (m', conn) \<in> set (rg_machines s) \<and> connection_visible_to conn user
       \<and> (\<exists>t \<in> set (hvals (mc_terminals conn)). ti_machine_id t = m \<and> ti_id t = tid)" by blast
qed

lemma listed_away:
  assumes ok: "registry_ok s" and owners: "owners_connected s"
  shows "(\<exists>m' ts. (m', ts) \<in> set (rg_persisted s) \<and> m' \<notin> set (visible_machine_ids s user)
       \<and> db_machine_belongs_to_user s user m' \<and> (\<exists>t \<in> set ts. ti_machine_id t = m \<and> ti_id t = tid))
     \<longleftrightarrow> hget (rg_machines s) m = None \<and> list_ex (\<lambda>t. ti_id t = tid) (stash_of s m)
           \<and> db_machine_belongs_to_user s user m"
proof (intro iffI; elim exE conjE bexE)
  fix m' ts t
  assume *: "(m', ts) \<in> set (rg_persisted s)" "m' \<notin> set (visible_machine_ids s user)"
    "db_machine_belongs_to_user s user m'" "t \<in> set ts" "ti_machine_id t = m" "ti_id t = tid"
  have h: "hget (rg_persisted s) m' = Some ts"
    using ok *(1) by (simp add: registry_ok_def hwf_def hget_def)
  then have "stash_ok m' ts" using ok by (simp add: registry_ok_def)
  with * have m: "m' = m" by (auto simp: stash_ok_def)
  have "hget (rg_machines s) m = None"
  proof (rule ccontr)
    assume "hget (rg_machines s) m \<noteq> None"
    then obtain conn where conn: "hget (rg_machines s) m = Some conn" by blast
    moreover from *(3) m obtain row where "find_machine_by_id (rg_db s) m = Some row" "mr_user_id row = user"
      by (auto simp: db_machine_belongs_to_user_def split: option.splits)
    ultimately have "connection_visible_to conn user" using owners unfolding owners_connected_def by blast
    moreover have "(m, conn) \<in> set (rg_machines s)" using conn by (simp add: hget_def map_of_SomeD)
    ultimately have "m \<in> set (visible_machine_ids s user)"
      by (force simp: visible_machine_ids_def hkeys_def)
    with *(2) m show False by simp
  qed
  with * m h show "hget (rg_machines s) m = None \<and> list_ex (\<lambda>t. ti_id t = tid) (stash_of s m)
      \<and> db_machine_belongs_to_user s user m"
    by (auto simp: stash_of_def list_ex_iff)
next
  assume *: "hget (rg_machines s) m = None" "list_ex (\<lambda>t. ti_id t = tid) (stash_of s m)"
    "db_machine_belongs_to_user s user m"
  then obtain ts where ts: "hget (rg_persisted s) m = Some ts" "list_ex (\<lambda>t. ti_id t = tid) ts"
    by (auto simp: stash_of_def split: option.splits)
  have "stash_ok m ts" using ok ts(1) by (simp add: registry_ok_def)
  with ts(2) have "\<exists>t \<in> set ts. ti_machine_id t = m \<and> ti_id t = tid"
    by (auto simp: stash_ok_def list_ex_iff)
  moreover have "m \<notin> set (visible_machine_ids s user)"
    using *(1) machine_entry(1) [OF ok] by (auto simp: visible_machine_ids_def hkeys_def)
  moreover have "(m, ts) \<in> set (rg_persisted s)" using ts(1) by (simp add: hget_def map_of_SomeD)
  ultimately show "\<exists>m' ts. (m', ts) \<in> set (rg_persisted s) \<and> m' \<notin> set (visible_machine_ids s user)
       \<and> db_machine_belongs_to_user s user m' \<and> (\<exists>t \<in> set ts. ti_machine_id t = m \<and> ti_id t = tid)"
    using *(3) by blast
qed


definition one_terminal :: registry where
  "one_terminal = (empty_registry [''ann''])\<lparr>rg_machines :=
     [(''a'', (new_connection ''c1'' (example_machine ''a'') (Some ''ann'') [])\<lparr>mc_terminals :=
        [(''t'', created_terminal ''a'' ''t'' [] [] 80 24 None)]\<rparr>)]\<rparr>"


end
