(* ===== verification/ControlTimers.thy ===== *)
theory ControlTimers
  imports TerminalMirror
begin

text \<open>
  Who drives an agent browser. A person who is in control but has no viewer open has a release
  timer running, in every reachable state, so the agent gets the page back; and nothing reaches
  the page but sanitised input from the device in control.
\<close>

section \<open>The timers cover every absent controller\<close>

definition timed :: "registry \<Rightarrow> bool" where
  "timed s \<longleftrightarrow> (\<forall>m b d. absent_controller s m b = Some d \<longrightarrow> hget (rg_timers s) (m, b) = Some d)"

text \<open>The same with one browser left out, between a change and its reconciliation.\<close>

definition timed_but :: "ident \<Rightarrow> ident \<Rightarrow> registry \<Rightarrow> bool" where
  "timed_but m b s \<longleftrightarrow> (\<forall>m' b' d. (m', b') \<noteq> (m, b) \<longrightarrow> absent_controller s m' b' = Some d \<longrightarrow>
     hget (rg_timers s) (m', b') = Some d)"

definition person_in_control :: "machine_connection \<Rightarrow> ident \<Rightarrow> ident option" where
  "person_in_control conn b = (case hget (mc_agent_browsers conn) b of
     None \<Rightarrow> None
   | Some info \<Rightarrow> if ab_controller info = Ctl_Human then ab_controller_device_id info else None)"

text \<open>Nodes report new pages as driven by the agent.\<close>

fun reports_agents :: "hub_call \<Rightarrow> bool" where
  "reports_agents (Hub_Message _ _ (M2H_AgentBrowserCreated b)) \<longleftrightarrow> ab_controller b \<noteq> Ctl_Human"
| "reports_agents (Hub_Message _ _ (M2H_AgentBrowserUpdated b)) \<longleftrightarrow> ab_controller b \<noteq> Ctl_Human"
| "reports_agents (Hub_Message _ _ (M2H_ExistingAgentBrowsers bs)) \<longleftrightarrow>
     (\<forall>b \<in> set bs. ab_controller b \<noteq> Ctl_Human)"
| "reports_agents _ \<longleftrightarrow> True"

fun is_input :: "effect \<Rightarrow> bool" where
  "is_input (Fx_Send _ (H2M_AgentBrowserInput _ _)) \<longleftrightarrow> True"
| "is_input _ \<longleftrightarrow> False"

lemma absent_conn:
  "absent_controller s m b = (case hget (rg_machines s) m of None \<Rightarrow> None
     | Some conn \<Rightarrow> (case person_in_control conn b of None \<Rightarrow> None
         | Some d \<Rightarrow> if device_viewers s m b d = 0 then Some d else None))"
  by (simp add: absent_controller_def agent_browser_info_of_def person_in_control_def split: option.split)

lemma absent_fields [simp]:
  "absent_controller (s\<lparr>rg_persisted := ps\<rparr>) m b = absent_controller s m b"
  "absent_controller (s\<lparr>rg_db := db\<rparr>) m b = absent_controller s m b"
  "absent_controller (s\<lparr>rg_sessions := sd\<rparr>) m b = absent_controller s m b"
  "absent_controller (s\<lparr>rg_activity := ac\<rparr>) m b = absent_controller s m b"
  "absent_controller (s\<lparr>rg_streams := str\<rparr>) m b = absent_controller s m b"
  "absent_controller (s\<lparr>rg_browser_requests := rs\<rparr>) m b = absent_controller s m b"
  "absent_controller (s\<lparr>rg_pending := pe\<rparr>) m b = absent_controller s m b"
  "absent_controller (s\<lparr>rg_timers := tm\<rparr>) m b = absent_controller s m b"
  "absent_controller (s\<lparr>rg_mode := mo\<rparr>) m b = absent_controller s m b"
  "absent_controller (s\<lparr>rg_openers := os\<rparr>) m b = absent_controller s m b"
  by (simp_all add: absent_conn device_viewers_def cong: option.case_cong if_cong)

lemma timed_but_timed: "timed s \<Longrightarrow> timed_but m b s"
  by (simp add: timed_def timed_but_def)

lemma timed_put:
  assumes "timed s" "hget (rg_machines s) m = Some conn"
    and "\<And>b d. person_in_control conn' b = Some d \<Longrightarrow> person_in_control conn b = Some d"
  shows "timed (s\<lparr>rg_machines := hput m conn' (rg_machines s)\<rparr>)"
  unfolding timed_def
proof (intro allI impI)
  fix k b d
  assume a: "absent_controller (s\<lparr>rg_machines := hput m conn' (rg_machines s)\<rparr>) k b = Some d"
  have "absent_controller s k b = Some d"
  proof (cases "k = m")
    case True
    with a have "person_in_control conn' b = Some d" "device_viewers s m b d = 0"
      by (auto simp: absent_conn hm.get_put device_viewers_def split: option.splits if_splits)
    with assms(2,3) True show ?thesis by (simp add: absent_conn)
  next
    case False
    with a show ?thesis
      by (simp add: absent_conn hm.get_put device_viewers_def cong: option.case_cong if_cong)
  qed
  with assms(1) show "hget (rg_timers (s\<lparr>rg_machines := hput m conn' (rg_machines s)\<rparr>)) (k, b) = Some d"
    by (simp add: timed_def)
qed

lemma timed_but_put:
  assumes "timed s" "hget (rg_machines s) m = Some conn"
    and "\<And>b' d. b' \<noteq> b \<Longrightarrow> person_in_control conn' b' = person_in_control conn b'"
  shows "timed_but m b (s\<lparr>rg_machines := hput m conn' (rg_machines s)\<rparr>)"
  using assms unfolding timed_def timed_but_def
  by (auto simp: absent_conn hm.get_put device_viewers_def cong: option.case_cong if_cong)

lemma timed_drop: "timed s \<Longrightarrow> timed (s\<lparr>rg_machines := hdel m (rg_machines s)\<rparr>)"
  by (auto simp: timed_def absent_conn hm.get_del device_viewers_def cong: option.case_cong if_cong)

lemma timed_new:
  "timed s \<Longrightarrow> mc_agent_browsers conn = []
     \<Longrightarrow> timed (s\<lparr>rg_machines := hput m conn (rg_machines s)\<rparr>)"
  by (auto simp: timed_def absent_conn hm.get_put hm.get_none person_in_control_def device_viewers_def
      cong: option.case_cong if_cong)

lemma reconciled:
  assumes "timed_but m b s"
  shows "timed (snd (reconcile_control_timer m b s))"
  unfolding timed_def
proof (intro allI impI)
  fix k j d
  let ?s = "snd (reconcile_control_timer m b s)"
  assume "absent_controller ?s k j = Some d"
  then have a: "absent_controller s k j = Some d"
    by (simp add: reconcile_control_timer_def quiet_def split: option.splits if_splits)
  show "hget (rg_timers ?s) (k, j) = Some d"
  proof (cases "(k, j) = (m, b)")
    case True
    with a show ?thesis by (simp add: reconcile_control_timer_def quiet_def hm.get_put)
  next
    case False
    with a assms have "hget (rg_timers s) (k, j) = Some d" unfolding timed_but_def by blast
    with False show ?thesis
      by (auto simp: reconcile_control_timer_def quiet_def hm.get_put hm.get_del split: option.split)
  qed
qed

section \<open>Rules\<close>

abbreviation steady :: "bool \<Rightarrow> hub_op \<Rightarrow> bool" where
  "steady p m \<equiv> sound (\<lambda>s. p \<longrightarrow> timed s) (\<lambda>e. \<not> is_input e) m"

text \<open>An operation on a connection the state has.\<close>

abbreviation steady_at :: "bool \<Rightarrow> ident \<Rightarrow> machine_connection \<Rightarrow> hub_op \<Rightarrow> bool" where
  "steady_at p m conn f \<equiv> ensures (\<lambda>s. (p \<longrightarrow> timed s) \<and> has_conn m conn s) f (\<lambda>e. \<not> is_input e)
     (\<lambda>s. p \<longrightarrow> timed s)"

lemma steady_on_conn: "(\<And>conn. steady_at p m conn (f conn)) \<Longrightarrow> steady p (on_conn m f)"
  by (rule ensures_on_conn)

lemma steady_on_terminal:
  "(\<And>conn t. hget (mc_terminals conn) tid = Some t \<Longrightarrow> steady_at p m conn (f conn t)) \<Longrightarrow> steady p (on_terminal m tid f)"
  by (rule ensures_on_terminal)

lemma steady_weaken: "steady p f \<Longrightarrow> steady_at p m conn f"
  by (erule ensures_pre) simp

lemma steady_put:
  assumes "\<And>b d. p \<Longrightarrow> person_in_control conn' b = Some d \<Longrightarrow> person_in_control conn b = Some d"
  shows "steady_at p m conn (put_conn m conn')"
  using assms by (intro ensures_put_conn) (auto simp: has_conn_def intro!: timed_put)

lemma steady_put_then:
  assumes "\<And>b d. p \<Longrightarrow> person_in_control conn' b = Some d \<Longrightarrow> person_in_control conn b = Some d" "steady p f"
  shows "steady_at p m conn (and_then (put_conn m conn') f)"
  using assms by (intro ensures_seq [OF steady_put])

lemma steady_put_terminal_then:
  "steady p f \<Longrightarrow> steady_at p m conn (and_then (put_terminal m conn tid t) f)"
  unfolding put_terminal_def by (rule steady_put_then) (simp_all add: person_in_control_def)

lemma steady_at_when: "(b \<Longrightarrow> steady_at p m conn f) \<Longrightarrow> steady_at p m conn (when_op b f)"
  by (rule ensures_when) auto

lemma steady_quiet: "(\<And>s. timed s \<Longrightarrow> timed (f s)) \<Longrightarrow> steady p (quiet f)"
  by (rule ensures_quiet) simp

lemma timed_fields [simp]:
  "timed (s\<lparr>rg_persisted := ps\<rparr>) = timed s" "timed (s\<lparr>rg_db := db\<rparr>) = timed s"
  "timed (s\<lparr>rg_sessions := sd\<rparr>) = timed s" "timed (s\<lparr>rg_activity := ac\<rparr>) = timed s"
  "timed (s\<lparr>rg_streams := str\<rparr>) = timed s" "timed (s\<lparr>rg_browser_requests := rs\<rparr>) = timed s"
  "timed (s\<lparr>rg_pending := pe\<rparr>) = timed s" "timed (s\<lparr>rg_mode := mo\<rparr>) = timed s"
  "timed (s\<lparr>rg_openers := os\<rparr>) = timed s"
  by (simp_all add: timed_def)

lemma steady_on_db: "steady p (on_db f)"
  by (rule ensures_on_db) simp

lemma steady_announcing: "steady p (announcing f)"
  by (rule ensures_announcing) auto

lemma steady_resolve: "steady p (resolve_pending r x)"
  by (rule ensures_resolve) auto

lemma steady_drop_pending: "steady p (drop_pending r)"
  by (rule ensures_drop_pending) auto

lemma steady_reading: "(\<And>x. steady p (g x)) \<Longrightarrow> steady p (reading f g)"
  by (simp add: ensures_def reading_def)

lemma steady_prune: "steady p (prune_auto_tab_if_empty user machine g)"
  by (auto simp: ensures_def prune_auto_tab_if_empty_def publish_workspace_group_deleted_def
      publish_def emit_def Let_def split: option.splits prod.splits)

lemma steady_at_reading: "(\<And>x. steady_at p m conn (g x)) \<Longrightarrow> steady_at p m conn (reading f g)"
  by (simp add: ensures_def reading_def)

lemmas steady_rules = sound_seq steady_on_conn steady_on_terminal steady_put_terminal_then
  steady_put_then steady_put steady_quiet steady_on_db steady_announcing steady_resolve
  steady_drop_pending steady_reading steady_prune sound_each sound_skip sound_emit sound_when sound_if
  sound_option steady_at_when steady_at_reading steady_weaken

text \<open>First a field no timer depends on, then an operation that may depend on the old state.\<close>

lemma steady_from:
  assumes "\<And>x. steady p (g x)" "\<And>s. f s = g (h s) (u s)" "\<And>s. timed (u s) = timed s"
  shows "steady p f"
proof (rule ensuresI)
  fix s
  assume "p \<longrightarrow> timed s"
  then have "p \<longrightarrow> timed (u s)" by (simp add: assms(3))
  from ensuresD [OF assms(1) this, of "h s"]
  show "(\<forall>e \<in> set (fst (f s)). \<not> is_input e) \<and> (p \<longrightarrow> timed (snd (f s)))" by (simp add: assms(2))
qed

section \<open>Operations that leave control alone\<close>

lemma steady_gone: "steady p (terminal_gone now owner m tid g)"
  unfolding terminal_gone_def prune_tab_of_def by (intro steady_rules) auto

lemma steady_terminals:
  "steady p (terminal_created now m r tid title cwd cols rows)"
  "steady p (terminal_destroyed now m tid)"
  "steady p (terminal_attention_changed now new_req m tid attention)"
  "steady p (terminal_activity m tid at_ms)"
  "steady p (resize_terminal m tid cols rows)"
  "steady p (existing_terminals now m ts)"
  unfolding terminal_created_def Let_def try_db_def terminal_destroyed_def forget_terminal_def
    terminal_attention_changed_def terminal_activity_def existing_terminals_def report_terminal_def
    bury_terminal_def resize_terminal_def
  by (intro steady_rules steady_gone; simp add: person_in_control_def; fail)+

lemma steady_title: "steady p (terminal_title m tid title src)"
proof -
  have "steady p (on_terminal m tid (\<lambda>conn t. let t' = t\<lparr>ti_title := title, ti_title_source := src\<rparr> in
      and_then (put_terminal m conn tid t')
      (and_then (emit [Fx_Event (mc_user_id conn) (Ev_TerminalUpdated t')])
       (when_op (renames_session t title src) (announcing (on_terminal_title (mc_user_id conn) tid))))))"
    unfolding Let_def by (intro steady_rules) simp
  note tell = this
  show ?thesis
  proof (rule steady_from)
    show "steady p (if updated then (on_terminal m tid (\<lambda>conn t. let t' = t\<lparr>ti_title := title, ti_title_source := src\<rparr> in
      and_then (put_terminal m conn tid t')
      (and_then (emit [Fx_Event (mc_user_id conn) (Ev_TerminalUpdated t')])
       (when_op (renames_session t title src) (announcing (on_terminal_title (mc_user_id conn) tid))))))
       else skip)" for updated
      by (intro sound_if tell sound_skip)
    show "terminal_title m tid title src s = (if snd (apply_title_update tid title src (rg_db s)) = Title_Updated
       then (on_terminal m tid (\<lambda>conn t. let t' = t\<lparr>ti_title := title, ti_title_source := src\<rparr> in
      and_then (put_terminal m conn tid t')
      (and_then (emit [Fx_Event (mc_user_id conn) (Ev_TerminalUpdated t')])
       (when_op (renames_session t title src) (announcing (on_terminal_title (mc_user_id conn) tid))))))
       else skip) (s\<lparr>rg_db := fst (apply_title_update tid title src (rg_db s))\<rparr>)" for s
      by (simp add: terminal_title_def case_prod_unfold Let_def skip_def)
  qed simp
qed

lemma steady_cwd: "steady p (terminal_cwd m tid cwd)"
proof -
  have "steady p (when_op u (on_terminal m tid (\<lambda>conn t. let t' = t\<lparr>ti_cwd := cwd\<rparr> in
      and_then (put_terminal m conn tid t')
        (emit [Fx_Event (mc_user_id conn) (Ev_TerminalUpdated t')]))))" for u
    unfolding Let_def by (intro steady_rules) simp
  then show ?thesis
    by (rule steady_from [where h = "\<lambda>s. snd (apply_cwd_update tid cwd (rg_db s))"
          and u = "\<lambda>s. s\<lparr>rg_db := fst (apply_cwd_update tid cwd (rg_db s))\<rparr>"])
      (simp_all add: terminal_cwd_def case_prod_unfold Let_def)
qed

lemma steady_died: "steady p (handle_terminal_destroyed_internal now m tid)"
proof (rule ensuresI)
  fix s
  assume s: "p \<longrightarrow> timed s"
  have found: "steady_at p m conn (and_then (forget_terminal m conn tid)
      (and_then (on_db (mark_destroyed now tid)) (terminal_gone now (mc_user_id conn) m tid g)))" for conn g
    unfolding forget_terminal_def
    by (intro steady_rules steady_gone) (simp add: person_in_control_def)
  show "(\<forall>e \<in> set (fst (handle_terminal_destroyed_internal now m tid s)). \<not> is_input e)
      \<and> (p \<longrightarrow> timed (snd (handle_terminal_destroyed_internal now m tid s)))"
    using s ensuresD [OF found, of s] ensuresD [OF steady_gone, of p s]
    by (auto simp: handle_terminal_destroyed_internal_def reading_def has_conn_def split: option.split)
qed

lemma steady_send: "steady p (send_node_actions m b as)"
proof -
  have "\<not> is_input (Fx_Send m (node_message b a))" for a by (cases a) auto
  then show ?thesis unfolding send_node_actions_def by (intro steady_rules) auto
qed

lemma steady_streams: "steady p (on_streams f m b)"
  by (rule steady_from [where g = "send_node_actions m b" and h = "\<lambda>s. snd (f (rg_streams s))"
        and u = "\<lambda>s. s\<lparr>rg_streams := fst (f (rg_streams s))\<rparr>", OF steady_send])
    (simp_all add: on_streams_def case_prod_unfold Let_def)

lemma steady_resync: "steady p (resync_streams m ids)"
proof -
  have "steady p (each (\<lambda>(b, a). send_node_actions m b [a]) xs)" for xs
    by (intro steady_rules) (auto intro: steady_send)
  then show ?thesis
    by (rule steady_from [where h = "\<lambda>s. snd (streams_resync_machine m (\<lambda>b. b \<in> set ids) (rg_streams s))"
          and u = "\<lambda>s. s\<lparr>rg_streams := fst (streams_resync_machine m (\<lambda>b. b \<in> set ids) (rg_streams s))\<rparr>"])
      (simp_all add: resync_streams_def case_prod_unfold Let_def)
qed

lemma steady_upsert: "ab_controller b \<noteq> Ctl_Human \<or> \<not> p \<Longrightarrow> steady p (upsert_agent_browser m b)"
  unfolding upsert_agent_browser_def Let_def
  by (intro steady_rules)
    (auto simp: person_in_control_def keep_control_def hm.get_put split: option.splits if_splits)

lemma steady_browsers:
  "steady p (agent_browser_destroyed m b)"
  "\<forall>b \<in> set browsers. ab_controller b \<noteq> Ctl_Human \<or> \<not> p \<Longrightarrow> steady p (replace_agent_browsers m browsers)"
  unfolding agent_browser_destroyed_def forget_activity_def replace_agent_browsers_def Let_def
  subgoal by (intro steady_rules; auto simp: person_in_control_def hm.get_del split: option.splits if_splits)
  by (intro steady_rules steady_upsert steady_resync;
      auto simp: person_in_control_def hdels_def [symmetric] hget_hdels split: option.splits if_splits)

lemma steady_sessions:
  "steady p (agent_session_update now sid status title acp models model)"
  "steady p (agent_session_exited now sid)"
  "steady p (agent_session_event now sid sq event)"
  "steady p (disconnect_sessions now m)"
  unfolding agent_session_update_def agent_session_exited_def on_sessions_def announce_session_def
  by (intro steady_rules; simp; fail)+
    (auto simp: ensures_def agent_session_event_def disconnect_sessions_def case_prod_unfold Let_def
      split: option.split)

lemma steady_runs:
  "steady p (terminal_agent now new_run new_req m tid agent)"
  "steady p (agent_signal now new_run new_req m tid agent source signal)"
  "steady p (resource_stats_report m stats)"
  "steady p (on_conn m (\<lambda>conn. put_conn m (conn\<lparr>mc_installed_agents := agents\<rparr>)))"
  unfolding terminal_agent_def agent_signal_def resource_stats_report_def
  by (intro steady_rules; simp add: person_in_control_def; fail)+

lemma steady_message:
  assumes "reports_agents (Hub_Message sp m msg) \<or> \<not> p"
  shows "steady p (handle_machine_message sp m msg)"
proof -
  have "steady p (case reply_of msg of None \<Rightarrow> skip | Some (r, x) \<Rightarrow> resolve_pending r x)"
    by (auto split: option.split intro: steady_rules)
  with assms show ?thesis
    by (cases msg) (auto simp: sound_skip intro!: steady_terminals steady_title steady_cwd steady_died
        steady_upsert steady_browsers steady_sessions steady_runs)
qed

lemma steady_machines:
  "steady p (register_machine c info user caps)"
  "steady p (unregister_machine now m c)"
  "steady p (\<lambda>s. snd (remove_machine who m s))"
proof -
  have drop: "steady p (drop_agent_browsers m conn)" for m conn
    unfolding drop_agent_browsers_def by (intro steady_rules; auto)
  have stash: "steady p (stash m ts)" for m ts
    unfolding stash_def by (intro steady_rules) simp
  have leave: "steady p (remove_conn m)" for m
    unfolding remove_conn_def by (intro steady_quiet timed_drop)
  have arrive: "steady p (put_conn m (new_connection c info user caps))" for m
    by (rule ensures_put_conn) (simp add: timed_new new_connection_def)
  show "steady p (register_machine c info user caps)"
    unfolding register_machine_def
    by (intro sound_seq arrive steady_reading sound_option sound_skip drop stash sound_emit) auto
  show "steady p (unregister_machine now m c)"
    unfolding unregister_machine_def
    by (intro steady_on_conn steady_weaken sound_when sound_seq leave drop stash steady_sessions
        steady_announcing sound_emit) auto
  have "steady p (and_then (remove_conn m)
        (and_then (quiet (\<lambda>s. s\<lparr>rg_persisted := hdel m (rg_persisted s),
                     rg_mode := clear_machine_mode who m (rg_mode s),
                     rg_db := delete_machine m (rg_db s),
                     rg_sessions := sessions_without_machine m (rg_sessions s)\<rparr>))
        (publish who (Ev_MachineRemoved m))))"
    unfolding publish_def by (intro sound_seq leave steady_quiet sound_emit) auto
  then show "steady p (\<lambda>s. snd (remove_machine who m s))"
    by (simp add: ensures_def remove_machine_def)
qed

lemma assigned_timed:
  "timed s \<Longrightarrow> assigned user m tid g s = Some (t, previous, s') \<Longrightarrow> timed s'"
  by (auto simp: assigned_def assign_live_def assign_stashed_def Let_def person_in_control_def
      intro!: timed_put split: option.splits if_splits)

lemma steady_tabs:
  "steady p (\<lambda>s. snd (set_terminal_workspace_group now user m tid g s))"
  "steady p (clear_workspace_group_assignments user m gone)"
proof -
  have tail: "steady p (and_then
      (case previous of Some p \<Rightarrow> when_op (Some p \<noteq> g) (prune_auto_tab_if_empty (Some user) m p)
                      | None \<Rightarrow> skip) (publish user (Ev_TerminalUpdated t)))" for previous t
    unfolding publish_def by (intro steady_rules) auto
  show "steady p (\<lambda>s. snd (set_terminal_workspace_group now user m tid g s))"
  proof (rule ensuresI)
    fix s
    assume s: "p \<longrightarrow> timed s"
    show "(\<forall>e \<in> set (fst (snd (set_terminal_workspace_group now user m tid g s))). \<not> is_input e)
      \<and> (p \<longrightarrow> timed (snd (snd (set_terminal_workspace_group now user m tid g s))))"
    proof (cases "assigned user m tid g s")
      case None
      with s show ?thesis by (simp add: set_terminal_workspace_group_def)
    next
      case (Some x)
      then obtain t previous s1 where a: "assigned user m tid g s = Some (t, previous, s1)"
        by (cases x) auto
      with s have s1: "p \<longrightarrow> timed (s1\<lparr>rg_db := db\<rparr>)" for db by (auto dest: assigned_timed)
      from s1 [of "rg_db s1"] have "p \<longrightarrow> timed s1" by simp
      then show ?thesis
        using ensuresD [OF tail [of previous t] s1]
        by (simp add: set_terminal_workspace_group_def a cong: option.case_cong split: option.split_asm)
          (cases previous; simp split: option.split)
    qed
  qed
  show "steady p (clear_workspace_group_assignments user m gone)"
    unfolding clear_workspace_group_assignments_def publish_def
    by (intro steady_rules) (auto simp: person_in_control_def split: if_splits)
qed

section \<open>Operations on control\<close>

abbreviation loose :: "bool \<Rightarrow> ident \<Rightarrow> ident \<Rightarrow> registry \<Rightarrow> bool" where
  "loose p m b s \<equiv> p \<longrightarrow> timed_but m b s"

lemma loose_fields [simp]:
  "timed_but m b (s\<lparr>rg_activity := ac\<rparr>) = timed_but m b s"
  by (simp add: timed_but_def)

lemma loose_rules:
  "sound (loose p m b) (\<lambda>e. \<not> is_input e) (forget_activity m b)"
  "sound (loose p m b) (\<lambda>e. \<not> is_input e) (browser_news conn old new)"
  "ensures (loose p m b) (reconcile_control_timer m b) (\<lambda>e. \<not> is_input e) (\<lambda>s. p \<longrightarrow> timed s)"
proof -
  show "sound (loose p m b) (\<lambda>e. \<not> is_input e) (forget_activity m b)"
    unfolding forget_activity_def by (rule ensures_quiet) simp
  show "sound (loose p m b) (\<lambda>e. \<not> is_input e) (browser_news conn old new)"
    unfolding browser_news_def by (intro sound_when sound_emit) auto
  show "ensures (loose p m b) (reconcile_control_timer m b) (\<lambda>e. \<not> is_input e) (\<lambda>s. p \<longrightarrow> timed s)"
  proof (rule ensuresI)
    fix s
    assume "loose p m b s"
    moreover have "fst (reconcile_control_timer m b s) = []"
      by (simp add: reconcile_control_timer_def quiet_def)
    ultimately show "(\<forall>e \<in> set (fst (reconcile_control_timer m b s)). \<not> is_input e)
        \<and> (p \<longrightarrow> timed (snd (reconcile_control_timer m b s)))" using reconciled by auto
  qed
qed

lemma loose_put:
  "ensures (\<lambda>s. (p \<longrightarrow> timed s) \<and> has_conn m conn s) (put_browser m conn b info) (\<lambda>e. \<not> is_input e) (loose p m b)"
  unfolding put_browser_def
  by (rule ensures_put_conn)
    (auto simp: has_conn_def person_in_control_def hm.get_put intro!: timed_but_put)

text \<open>Whoever ends up in control, the timer of that browser is set right afterwards.\<close>

lemma loose_apply:
  "ensures (\<lambda>s. p \<longrightarrow> timed s) (\<lambda>s. snd (apply_agent_browser_control now m b change s))
     (\<lambda>e. \<not> is_input e) (loose p m b)"
proof (rule ensuresI)
  fix s
  assume s: "p \<longrightarrow> timed s"
  have "ensures (\<lambda>s. (p \<longrightarrow> timed s) \<and> has_conn m conn s) (and_then (put_browser m conn b new)
      (and_then (when_op w (forget_activity m b)) (browser_news conn old new))) (\<lambda>e. \<not> is_input e) (loose p m b)"
    for conn old new w
    by (intro ensures_seq [OF loose_put] sound_seq sound_when loose_rules)
  from ensuresD [OF this, of s] s
  show "(\<forall>e \<in> set (fst (snd (apply_agent_browser_control now m b change s))). \<not> is_input e)
      \<and> loose p m b (snd (snd (apply_agent_browser_control now m b change s)))"
    by (auto simp: apply_agent_browser_control_def Let_def timed_but_timed dest: found_conn split: option.split)
qed

lemma steady_change: "steady p (\<lambda>s. snd (change_agent_browser_control now m b change s))"
proof (rule ensuresI)
  fix s
  assume s: "p \<longrightarrow> timed s"
  note a = ensuresD [OF loose_apply s, of now m b change]
  note r = ensuresD [OF loose_rules(3) conjunct2 [OF a]]
  have stay: "fst (apply_agent_browser_control now m b change s) = None \<Longrightarrow>
      snd (apply_agent_browser_control now m b change s) = ([], s)"
    by (cases "found_browser s m b") (auto simp: apply_agent_browser_control_def Let_def)
  show "(\<forall>e \<in> set (fst (snd (change_agent_browser_control now m b change s))). \<not> is_input e)
      \<and> (p \<longrightarrow> timed (snd (snd (change_agent_browser_control now m b change s))))"
    using a r s stay
    by (cases "fst (apply_agent_browser_control now m b change s)")
      (auto simp: change_agent_browser_control_def case_prod_unfold Let_def)
qed

lemma steady_reclaim: "steady p (\<lambda>s. snd (reclaim_agent_browser_control now m b reason force s))"
proof (rule ensuresI)
  fix s
  assume s: "p \<longrightarrow> timed s"
  have "ensures (\<lambda>s. (p \<longrightarrow> timed s) \<and> has_conn m conn s) (and_then (put_browser m conn b new)
      (and_then (browser_news conn old new) (reconcile_control_timer m b)))
      (\<lambda>e. \<not> is_input e) (\<lambda>s. p \<longrightarrow> timed s)"
    "ensures (\<lambda>s. (p \<longrightarrow> timed s) \<and> has_conn m conn s) (and_then (put_browser m conn b new)
      (and_then (forget_activity m b) (and_then (browser_news conn old new) (reconcile_control_timer m b))))
      (\<lambda>e. \<not> is_input e) (\<lambda>s. p \<longrightarrow> timed s)" for conn old new
    by (intro ensures_seq [OF loose_put] ensures_seq [OF loose_rules(1)] ensures_seq [OF loose_rules(2)]
        loose_rules(3))+
  from ensuresD [OF this(1), of s] ensuresD [OF this(2), of s] s
  show "(\<forall>e \<in> set (fst (snd (reclaim_agent_browser_control now m b reason force s))). \<not> is_input e)
      \<and> (p \<longrightarrow> timed (snd (snd (reclaim_agent_browser_control now m b reason force s))))"
    by (auto simp: reclaim_agent_browser_control_def Let_def dest: found_conn split: option.split)
qed

lemma snd_news: "snd (browser_news conn old new s) = s"
  by (simp add: browser_news_def when_op_def emit_def skip_def)

text \<open>
  A timer that goes off takes control from the device it was set for, if that device is still
  away, and is then gone itself.
\<close>

lemma expired_timed:
  assumes "timed s"
  shows "timed (snd (expire_control now m b d s))"
proof -
  define away where "away \<longleftrightarrow> (case agent_browser_info_of s m b of None \<Rightarrow> False | Some info \<Rightarrow> same_controller info d)
      \<and> device_viewers s m b d = 0"
  define s1 where "s1 = (if away then snd (snd (apply_agent_browser_control now m b Change_Release s)) else s)"
  have run: "snd (expire_control now m b d s) = (if hget (rg_timers s1) (m, b) = Some d
      then s1\<lparr>rg_timers := hdel (m, b) (rg_timers s1)\<rparr> else s1)"
    by (simp add: expire_control_def and_then_def reading_def when_op_def drop_answer_def quiet_def
        skip_def s1_def away_def Let_def case_prod_unfold)
  have loose1: "timed_but m b s1"
    using ensuresD [OF loose_apply, of True s now m b Change_Release] assms
    by (simp add: s1_def timed_but_timed)
  have "absent_controller s1 m b \<noteq> Some d \<and>
      (hget (rg_timers s1) (m, b) \<noteq> absent_controller s1 m b \<longrightarrow> absent_controller s1 m b = None)"
  proof (cases away)
    case True
    then obtain info where "agent_browser_info_of s m b = Some info"
      by (auto simp: away_def split: option.splits)
    then obtain conn where f: "found_browser s m b = Some (conn, info)"
      by (auto simp: agent_browser_info_of_def found_browser_def split: option.splits)
    have "absent_controller s1 m b = None"
      using True f by (simp add: s1_def apply_agent_browser_control_def Let_def and_then_def put_browser_def
          put_conn_def quiet_def when_op_def forget_activity_def snd_news
          case_prod_unfold absent_conn hm.get_put person_in_control_def released_def)
    then show ?thesis by simp
  next
    case False
    then have "absent_controller s m b \<noteq> Some d"
      by (auto simp: away_def absent_controller_def same_controller_def split: option.splits if_splits)
    with False assms show ?thesis
      by (cases "absent_controller s m b") (auto simp: s1_def timed_def)
  qed
  then have here: "absent_controller s1 m b = Some d' \<Longrightarrow> d' \<noteq> d \<and> hget (rg_timers s1) (m, b) = Some d'" for d'
    by auto
  have "timed s1" unfolding timed_def
  proof (intro allI impI)
    fix k j d'
    assume "absent_controller s1 k j = Some d'"
    with here loose1 show "hget (rg_timers s1) (k, j) = Some d'"
      unfolding timed_but_def by (cases "(k, j) = (m, b)") auto
  qed
  moreover from this here have "timed (s1\<lparr>rg_timers := hdel (m, b) (rg_timers s1)\<rparr>)"
    if "hget (rg_timers s1) (m, b) = Some d"
  proof -
    have "absent_controller s1 m b = None" using here that by (cases "absent_controller s1 m b") auto
    with \<open>timed s1\<close> show ?thesis unfolding timed_def by (auto simp: hm.get_del)
  qed
  ultimately show ?thesis unfolding run by simp
qed

lemma steady_expire: "steady p (expire_control now m b d)"
proof (rule ensuresI)
  fix s
  assume s: "p \<longrightarrow> timed s"
  have "sound (\<lambda>_. True) (\<lambda>e. \<not> is_input e) (expire_control now m b d)"
  proof -
    have "sound (\<lambda>_. True) (\<lambda>e. \<not> is_input e) (\<lambda>s. snd (apply_agent_browser_control now m b change s))" for change
      using loose_apply [of False now m b change] by (simp add: ensures_def)
    then show ?thesis
      unfolding expire_control_def drop_answer_def
      by (intro sound_seq ensures_reading sound_when ensures_quiet) (auto simp: ensures_def when_op_def skip_def)
  qed
  from ensuresD [OF this, of s] s expired_timed
  show "(\<forall>e \<in> set (fst (expire_control now m b d s)). \<not> is_input e)
      \<and> (p \<longrightarrow> timed (snd (expire_control now m b d s)))" by auto
qed

lemma steady_viewers:
  "steady p (\<lambda>s. snd (attach_agent_browser_viewer m b pa d s))" "steady p (drop_viewer v)"
proof -
  have changed: "ensures (\<lambda>s. p \<longrightarrow> timed s) (quiet f) (\<lambda>e. \<not> is_input e) (loose p m b)"
    if "\<And>s. rg_machines (f s) = rg_machines s" "\<And>s. rg_timers (f s) = rg_timers s"
      "\<And>s m' b'. (m', b') \<noteq> (m, b) \<Longrightarrow> hget (rg_viewers (f s)) (m', b') = hget (rg_viewers s) (m', b')"
    for f m b
  proof (rule ensures_quiet)
    fix s
    assume "p \<longrightarrow> timed s"
    moreover have "absent_controller (f s) m' b' = absent_controller s m' b'" if "(m', b') \<noteq> (m, b)" for m' b'
      unfolding absent_conn device_viewers_def \<open>\<And>s. rg_machines (f s) = rg_machines s\<close>
      using that \<open>(m', b') \<noteq> (m, b) \<Longrightarrow> hget (rg_viewers (f s)) (m', b') = hget (rg_viewers s) (m', b')\<close>
      by presburger
    ultimately show "loose p m b (f s)" by (simp add: timed_def timed_but_def that(2))
  qed
  have counted: "steady p (and_then (count_viewer m b device) (reconcile_control_timer m b))" for m b device
    unfolding count_viewer_def
    by (rule ensures_seq [OF changed loose_rules(3)]) (auto simp: hm.get_put)
  have uncounted: "steady p (and_then (uncount_viewer m b device) (reconcile_control_timer m b))" for m b device
    unfolding uncount_viewer_def Let_def
    by (rule ensures_seq [OF changed loose_rules(3)])
      (auto simp: hm.get_put hm.get_del split: option.split)
  show "steady p (\<lambda>s. snd (attach_agent_browser_viewer m b pa d s))"
  proof (rule steady_from)
    show "steady p (and_then (send_node_actions m b actions) (case d of None \<Rightarrow> skip
      | Some device \<Rightarrow> and_then (count_viewer m b device) (reconcile_control_timer m b)))" for actions
      by (intro sound_seq [OF steady_send] sound_option sound_skip counted)
    show "snd (attach_agent_browser_viewer m b pa d s) = and_then (send_node_actions m b
        (snd (snd (streams_add_viewer m b pa (rg_streams s))))) (case d of None \<Rightarrow> skip
      | Some device \<Rightarrow> and_then (count_viewer m b device) (reconcile_control_timer m b))
      (s\<lparr>rg_streams := fst (streams_add_viewer m b pa (rg_streams s))\<rparr>)" for s
      by (simp add: attach_agent_browser_viewer_def case_prod_unfold Let_def)
  qed simp
  show "steady p (drop_viewer v)"
    unfolding drop_viewer_def
    by (intro sound_seq sound_option sound_skip uncounted steady_streams)
qed

lemma steady_requests:
  assumes "\<not> is_input (Fx_Send m msg)"
  shows "steady p (\<lambda>s. snd (send_request accepts r m msg s))"
  using assms by (auto simp: ensures_def send_request_def register_pending_def remove_pending_def quiet_def Let_def)

lemma steady_ends:
  "steady p (end_wait r e)" "steady p (forget_opener r)" "steady p (forget_browser_request r)"
  by (auto simp: ensures_def end_wait_def remove_pending_def quiet_def skip_def forget_opener_def
      forget_browser_request_def split: wait_end.split)

lemma steady_sends:
  "steady p (\<lambda>s. snd (create_terminal_send accepts r m cwd dims startup opener start s))"
  "steady p (\<lambda>s. snd (agent_browser_send accepts r m command s))"
proof -
  have then_end: "(\<forall>e \<in> set (fst (if f = None then (es, s2) else (es, snd (fin s2)))). \<not> is_input e)
      \<and> (p \<longrightarrow> timed (snd (if f = None then (es, s2) else (es, snd (fin s2)))))"
    if "\<forall>e \<in> set es. \<not> is_input e" "p \<longrightarrow> timed s2" "steady p fin" for f es s2 fin
    using that ensuresD [OF that(3,2)] by simp
  show "steady p (\<lambda>s. snd (create_terminal_send accepts r m cwd dims startup opener start s))"
  proof (rule ensuresI)
    fix s
    assume s: "p \<longrightarrow> timed s"
    let ?msg = "H2M_CreateTerminal r cwd (fst dims) (snd dims) startup start"
    let ?q = "send_request accepts r m ?msg (snd (note_opener r opener s))"
    have "p \<longrightarrow> timed (snd (note_opener r opener s))"
      using s by (simp add: note_opener_def quiet_def skip_def split: option.split)
    from ensuresD [OF steady_requests this, of m ?msg accepts r]
      then_end [of "fst (snd ?q)" "snd (snd ?q)" "forget_opener r" "fst ?q"] steady_ends(2) [of p r]
    show "(\<forall>e \<in> set (fst (snd (create_terminal_send accepts r m cwd dims startup opener start s))). \<not> is_input e)
      \<and> (p \<longrightarrow> timed (snd (snd (create_terminal_send accepts r m cwd dims startup opener start s))))"
      by (cases "fst ?q") (simp_all add: create_terminal_send_def case_prod_unfold Let_def)
  qed
  show "steady p (\<lambda>s. snd (agent_browser_send accepts r m command s))"
  proof (rule ensuresI)
    fix s
    assume s: "p \<longrightarrow> timed s"
    let ?q = "send_request accepts r m (H2M_AgentBrowser r command) (snd (note_browser_request r m s))"
    have "p \<longrightarrow> timed (snd (note_browser_request r m s))"
      using s by (simp add: note_browser_request_def quiet_def)
    from ensuresD [OF steady_requests this, of m "H2M_AgentBrowser r command" accepts r]
      then_end [of "fst (snd ?q)" "snd (snd ?q)" "forget_browser_request r" "fst ?q"] steady_ends(3) [of p r]
    show "(\<forall>e \<in> set (fst (snd (agent_browser_send accepts r m command s))). \<not> is_input e)
      \<and> (p \<longrightarrow> timed (snd (snd (agent_browser_send accepts r m command s))))"
      by (cases "fst ?q") (simp_all add: agent_browser_send_def case_prod_unfold Let_def)
  qed
qed

section \<open>Every call\<close>

text \<open>Input, and raw requests that carry input, are looked at apart.\<close>

fun operates :: "hub_call \<Rightarrow> bool" where
  "operates (Hub_Input _ _ _ _ _ _) \<longleftrightarrow> True"
| "operates (Hub_Request _ _ _ (H2M_AgentBrowserInput _ _)) \<longleftrightarrow> True"
| "operates _ \<longleftrightarrow> False"

lemma operating_call:
  assumes "operates c"
  obtains (input) accepts now m b d raw where "c = Hub_Input accepts now m b d raw"
  | (request) accepts r m msg where "c = Hub_Request accepts r m msg"
proof (cases c)
  case (Hub_Input accepts now m b d raw)
  then show ?thesis by (rule input)
next
  case (Hub_Request accepts r m msg)
  then show ?thesis by (rule request)
qed (use assms in simp_all)

lemma steady_call:
  assumes "p \<longrightarrow> timed s" "reports_agents c \<or> \<not> p" "\<not> operates c"
  shows "(\<forall>e \<in> set (fst (exec_hub s c)). \<not> is_input e) \<and> (p \<longrightarrow> timed (snd (exec_hub s c)))"
proof -
  have simple: "steady p (Registry.set_machine_production m b)" "steady p (set_machine_version m v)"
    "steady p (apply_optimistic_resize m t cols rows)" "steady p (agent_browser_frame m b' fr)"
    "steady p (viewer_drew vw)" "steady p (viewer_set_params vw pa)" for m b v t cols rows b' fr vw pa
    unfolding Registry.set_machine_production_def set_machine_version_def apply_optimistic_resize_def
      agent_browser_frame_def viewer_drew_def viewer_set_params_def
    by (intro steady_rules steady_terminals steady_streams; simp add: person_in_control_def)+
  have ends: "steady p (and_then (end_wait r e) (forget_opener r))"
    "steady p (and_then (end_wait r e) (forget_browser_request r))" for r e
    by (intro sound_seq steady_ends)+
  note s = assms(1)
  show ?thesis
  proof (cases c)
    case (Hub_Message sp m msg)
    then show ?thesis using ensuresD [OF steady_message [OF assms(2) [unfolded Hub_Message]] s] by simp
  next
    case (Hub_Request accepts r m msg)
    with assms(3) have "\<not> is_input (Fx_Send m msg)" by (cases msg) auto
    with Hub_Request show ?thesis using ensuresD [OF steady_requests s] by simp
  qed (use assms(3) in \<open>simp_all add: create_terminal_end_def agent_browser_end_def
      ensuresD [OF simple(1) s] ensuresD [OF simple(2) s] ensuresD [OF simple(3) s]
      ensuresD [OF simple(4) s] ensuresD [OF simple(5) s] ensuresD [OF simple(6) s]
      ensuresD [OF ends(1) s] ensuresD [OF ends(2) s] ensuresD [OF steady_ends(1) s]
      ensuresD [OF steady_machines(1) s] ensuresD [OF steady_machines(2) s]
      ensuresD [OF steady_machines(3) s] ensuresD [OF steady_tabs(1) s]
      ensuresD [OF steady_tabs(2) s] ensuresD [OF steady_change s] ensuresD [OF steady_reclaim s]
      ensuresD [OF steady_expire s] ensuresD [OF steady_viewers(1) s]
      ensuresD [OF steady_viewers(2) s] ensuresD [OF steady_sends(1) s]
      ensuresD [OF steady_sends(2) s]\<close>)
qed

lemma input_timed: "timed s \<Longrightarrow> timed (snd (snd (agent_browser_input accepts now m b d ev s)))"
  by (auto simp: agent_browser_input_def split: option.split prod.split)

lemma call_timed:
  assumes "timed s" "reports_agents c"
  shows "timed (snd (exec_hub s c))"
proof (cases "operates c")
  case False
  then show ?thesis using steady_call [of True s c] assms by simp
next
  case True
  have "timed (snd (snd (send_request accepts r m msg s)))" for accepts r m msg
    using assms(1) by (simp add: send_request_def register_pending_def remove_pending_def quiet_def Let_def)
  with True show ?thesis using input_timed [OF assms(1)] by (cases c) simp_all
qed

interpretation absent_controllers: invariant_steps
  "\<lambda>s c. if reports_agents c then snd (exec_hub s c) else s" timed
  by unfold_locales (simp add: call_timed)

lemma hub_run_timed: "timed s \<Longrightarrow> \<forall>c \<in> set cs. reports_agents c \<Longrightarrow> timed (hub_run s cs)"
proof -
  assume "timed s" "\<forall>c \<in> set cs. reports_agents c"
  moreover from this(2) have "hub_run s cs =
      foldl (\<lambda>s c. if reports_agents c then snd (exec_hub s c) else s) s cs"
    by (induction cs arbitrary: s) (simp_all add: hub_run_def)
  ultimately show "timed (hub_run s cs)" by (simp add: absent_controllers.run_inv)
qed

section \<open>A page somebody took and left\<close>

definition example_page :: agent_browser_info where
  "example_page = \<lparr>ab_id = ''p'', ab_machine_id = None, ab_url = [], ab_title = [],
     ab_opener_terminal_id = None, ab_controller = Ctl_Agent,
     ab_controller_device_id = None, ab_controller_since = None, ab_handoff = None,
     ab_reclaimed = None, ab_opener_browser_id = None, ab_nav = None, ab_dialog = None\<rparr>"

definition example_taken :: "hub_call list" where
  "example_taken = [Hub_Register ''c1'' (example_machine ''a'') (Some ''ann'') [],
     Hub_Message example_stamp ''a'' (M2H_AgentBrowserCreated example_page),
     Hub_Control 5 ''a'' ''p'' (Change_Take ''d'')]"

lemma example_run:
  "hub_run (empty_registry [''ann'']) example_taken = (empty_registry [''ann''])\<lparr>
     rg_machines := [(''a'', (new_connection ''c1'' (example_machine ''a'') (Some ''ann'') [])\<lparr>
       mc_agent_browsers := [(''p'', example_page\<lparr>ab_machine_id := Some ''a'', ab_controller := Ctl_Human,
         ab_controller_device_id := Some ''d'', ab_controller_since := Some 5\<rparr>)]\<rparr>)],
     rg_timers := [((''a'', ''p''), ''d'')]\<rparr>"
  by (simp add: hub_run_def example_taken_def empty_registry_def new_registry_def register_machine_def
      reading_def and_then_def put_conn_def quiet_def emit_def skip_def hget_def hput_def hdel_def
      example_machine_def upsert_agent_browser_def on_conn_def new_connection_def example_page_def
      change_agent_browser_control_def apply_agent_browser_control_def found_browser_def put_browser_def
      same_controller_def when_op_def forget_activity_def browser_news_def reconcile_control_timer_def
      absent_controller_def agent_browser_info_of_def device_viewers_def Let_def)

section \<open>What holds of whole runs\<close>

lemma expiry_releases:
  assumes "absent_controller s m b = Some d"
  shows "\<exists>info. agent_browser_info_of (snd (expire_control now m b d s)) m b = Some info
    \<and> ab_controller info = Ctl_Agent"
proof -
  from assms obtain info where info: "agent_browser_info_of s m b = Some info" "same_controller info d"
    "device_viewers s m b d = 0"
    by (auto simp: absent_controller_def same_controller_def split: option.splits if_splits)
  then obtain conn where f: "found_browser s m b = Some (conn, info)"
    by (auto simp: agent_browser_info_of_def found_browser_def split: option.splits)
  have timers: "agent_browser_info_of (s\<lparr>rg_timers := t\<rparr>) m b = agent_browser_info_of s m b" for t s
    by (simp add: agent_browser_info_of_def)
  have "agent_browser_info_of (snd (snd (apply_agent_browser_control now m b Change_Release s))) m b
      = Some (released info)"
    using f by (simp add: apply_agent_browser_control_def Let_def and_then_def put_browser_def put_conn_def
        quiet_def when_op_def forget_activity_def snd_news case_prod_unfold agent_browser_info_of_def hm.get_put)
  then show ?thesis
    using info by (simp add: expire_control_def and_then_def reading_def when_op_def drop_answer_def
        quiet_def Let_def case_prod_unfold timers released_def split: if_split)
qed





end
