(* ===== verification/OscTitle.thy ===== *)
theory OscTitle
  imports Frames RustText
begin

text \<open>
  The titles programs set on a terminal (\<^verbatim>\<open>crates/machine/src/osc_title.rs\<close>): a scanner over the
  terminal's output, fed in chunks of any size, that finds \<^verbatim>\<open>ESC ] 0|2 ; title\<close> ended by BEL or
  \<^verbatim>\<open>ESC \\<close>. The lemmas show that chunking does not matter, that every well-formed title is found
  whatever came before, and what a reported title can look like.
\<close>

section \<open>Lossy UTF-8\<close>

text \<open>
  \<^verbatim>\<open>String::from_utf8_lossy\<close> of the standard library: each longest prefix of a character that
  cannot be completed becomes one U+FFFD.
\<close>

definition second_byte_ok :: "nat \<Rightarrow> nat \<Rightarrow> bool" where
  "second_byte_ok a b \<longleftrightarrow>
     (if a = 0xE0 then 0xA0 \<le> b \<and> b < 0xC0
      else if a = 0xED then 0x80 \<le> b \<and> b < 0xA0
      else if 0xE1 \<le> a \<and> a < 0xF0 then is_cont b
      else if a = 0xF0 then 0x90 \<le> b \<and> b < 0xC0
      else if 0xF1 \<le> a \<and> a < 0xF4 then is_cont b
      else a = 0xF4 \<and> 0x80 \<le> b \<and> b < 0x90)"

definition broken_len :: "nat list \<Rightarrow> nat" where
  "broken_len bs =
     (case bs of
        a # b # rest \<Rightarrow>
          if \<not> second_byte_ok a b then 1
          else if a < 0xF0 then 2
          else (case rest of d # _ \<Rightarrow> if is_cont d then 3 else 2 | [] \<Rightarrow> 2)
      | _ \<Rightarrow> 1)"

lemma broken_len_pos: "0 < broken_len bs"
  by (simp add: broken_len_def split: list.split)

function utf8_lossy :: "nat list \<Rightarrow> ustr" where
  "utf8_lossy bs =
     (if bs = [] then []
      else (case utf8_next bs of
              Some (c, rest) \<Rightarrow> c # utf8_lossy rest
            | None \<Rightarrow> 0xFFFD # utf8_lossy (drop (broken_len bs) bs)))"
  by auto
termination
  by (relation "measure length") (auto dest: utf8_next_shorter simp: broken_len_pos)

declare utf8_lossy.simps [simp del]

definition from_utf8_lossy :: "bytes \<Rightarrow> ustr" where
  "from_utf8_lossy bs = utf8_lossy (map unat bs)"

section \<open>The scanner\<close>

definition MAX_TITLE_BYTES :: nat where
  "MAX_TITLE_BYTES = 128"

definition MAX_SEQUENCE_BYTES :: nat where
  "MAX_SEQUENCE_BYTES = 4096"

datatype osc_state =
    Osc_Ground
  | Osc_Escape
  | Osc_Command
  | Osc_Semicolon u8
  | Osc_Title bytes nat bool
  | Osc_Ignore nat bool

definition ESC :: u8 where "ESC = 0x1B"
definition BEL :: u8 where "BEL = 0x07"

definition is_ascii_control :: "u8 \<Rightarrow> bool" where
  "is_ascii_control b \<longleftrightarrow> b < 0x20 \<or> b = 0x7F"

text \<open>Characters are kept until the next would pass the limit.\<close>

fun clip_title :: "nat \<Rightarrow> ustr \<Rightarrow> ustr" where
  "clip_title used [] = []"
| "clip_title used (c # cs) =
     (if used + utf8_len c > MAX_TITLE_BYTES then []
      else c # clip_title (used + utf8_len c) cs)"

definition sanitize_title :: "bytes \<Rightarrow> ustr" where
  "sanitize_title bs = clip_title 0 (filter (\<lambda>c. \<not> is_control c) (from_utf8_lossy bs))"

definition push_title :: "bytes \<Rightarrow> ustr list" where
  "push_title bs = (let title = sanitize_title bs in if title \<noteq> [] then [title] else [])"

text \<open>One byte: the next state and the title it completes.\<close>

fun osc_step :: "osc_state \<Rightarrow> u8 \<Rightarrow> osc_state \<times> ustr list" where
  "osc_step Osc_Ground b = (if b = ESC then Osc_Escape else Osc_Ground, [])"
| "osc_step Osc_Escape b =
     (if b = 0x5D then Osc_Command else if b = ESC then Osc_Escape else Osc_Ground, [])"
| "osc_step Osc_Command b =
     (if b = 0x30 \<or> b = 0x32 then Osc_Semicolon b
      else if b = BEL then Osc_Ground
      else if b = ESC then Osc_Ignore 1 True
      else Osc_Ignore 1 False, [])"
| "osc_step (Osc_Semicolon command) b =
     (if b = 0x3B then Osc_Title [] 0 False
      else if b = BEL then Osc_Ground
      else Osc_Ignore 1 (b = ESC), [])"
| "osc_step (Osc_Title bs n escape) b =
     (let n = n + 1 in
      if escape \<and> b = 0x5C then (Osc_Ground, push_title bs)
      else if escape \<and> b = 0x5D then (Osc_Command, [])
      else if b = BEL then (Osc_Ground, push_title bs)
      else if n \<ge> MAX_SEQUENCE_BYTES then (if b = ESC then Osc_Escape else Osc_Ground, [])
      else (Osc_Title
              (if \<not> escape \<and> b \<noteq> ESC \<and> \<not> is_ascii_control b \<and> length bs < MAX_TITLE_BYTES
               then bs @ [b] else bs) n (b = ESC), []))"
| "osc_step (Osc_Ignore n escape) b =
     (let n = n + 1 in
      if b = BEL \<or> (escape \<and> b = 0x5C) then (Osc_Ground, [])
      else if escape \<and> b = 0x5D then (Osc_Command, [])
      else if n \<ge> MAX_SEQUENCE_BYTES then (if b = ESC then Osc_Escape else Osc_Ground, [])
      else (Osc_Ignore n (b = ESC), []))"

fun osc_push :: "osc_state \<Rightarrow> bytes \<Rightarrow> osc_state \<times> ustr list" where
  "osc_push st [] = (st, [])"
| "osc_push st (b # bs) =
     (let (st1, ts1) = osc_step st b; (st2, ts2) = osc_push st1 bs in (st2, ts1 @ ts2))"

definition new_scanner :: osc_state where
  "new_scanner = Osc_Ground"

section \<open>Chunks\<close>

lemma osc_push_append:
  "osc_push st (xs @ ys) =
     (let (st1, ts1) = osc_push st xs; (st2, ts2) = osc_push st1 ys in (st2, ts1 @ ts2))"
  by (induction xs arbitrary: st) (simp_all add: Let_def case_prod_unfold)

lemma osc_push_then:
  "osc_push st xs = (st1, ts1) \<Longrightarrow> osc_push st1 ys = (st2, ts2) \<Longrightarrow> osc_push st (xs @ ys) = (st2, ts1 @ ts2)"
  by (simp add: osc_push_append)

fun osc_push_chunks :: "osc_state \<Rightarrow> bytes list \<Rightarrow> osc_state \<times> ustr list" where
  "osc_push_chunks st [] = (st, [])"
| "osc_push_chunks st (chunk # chunks) =
     (let (st1, ts1) = osc_push st chunk; (st2, ts2) = osc_push_chunks st1 chunks in (st2, ts1 @ ts2))"

text \<open>The titles found do not depend on how the output was cut into chunks: feeding the scanner
  piece by piece is feeding it everything at once, also when a cut falls inside an escape
  sequence or a character.
\<close>

theorem titles_independent_of_chunks:
  "osc_push_chunks st chunks = osc_push st (concat chunks)"
  by (induction chunks arbitrary: st) (simp_all add: osc_push_append)

section \<open>What a reported title looks like\<close>

lemma utf8_lossy_scalars: "list_all is_scalar (utf8_lossy bs)"
proof (induction bs rule: utf8_lossy.induct)
  case (1 bs)
  show ?case
  proof (cases "bs = []")
    case True
    then show ?thesis by (simp add: utf8_lossy.simps)
  next
    case False
    show ?thesis
    proof (cases "utf8_next bs")
      case None
      with False 1(1) have "list_all is_scalar (utf8_lossy (drop (broken_len bs) bs))" by blast
      then show ?thesis using None False by (subst utf8_lossy.simps) (simp add: is_scalar_def)
    next
      case (Some x)
      then obtain c rest where c: "utf8_next bs = Some (c, rest)" by (cases x) auto
      with False 1(2) have "list_all is_scalar (utf8_lossy rest)" by blast
      then show ?thesis using c False utf8_next_sound [OF c] by (subst utf8_lossy.simps) simp
    qed
  qed
qed

lemma clip_title_bounds:
  "used \<le> MAX_TITLE_BYTES \<Longrightarrow> used + byte_len (clip_title used cs) \<le> MAX_TITLE_BYTES"
  "set (clip_title used cs) \<subseteq> set cs"
  by (induction cs arbitrary: used) (auto simp: byte_len_def add.assoc [symmetric])

lemma clip_title_fits: "used + byte_len cs \<le> MAX_TITLE_BYTES \<Longrightarrow> clip_title used cs = cs"
  by (induction cs arbitrary: used) (auto simp: byte_len_def)

definition clean_title :: "ustr \<Rightarrow> bool" where
  "clean_title t \<longleftrightarrow> t \<noteq> [] \<and> byte_len t \<le> MAX_TITLE_BYTES \<and> list_all (\<lambda>c. is_scalar c \<and> \<not> is_control c) t"

lemma push_title_clean: "t \<in> set (push_title bs) \<Longrightarrow> clean_title t"
proof -
  assume "t \<in> set (push_title bs)"
  then have t: "t = sanitize_title bs" "t \<noteq> []" by (auto simp: push_title_def Let_def split: if_splits)
  have "byte_len t \<le> MAX_TITLE_BYTES"
    unfolding t sanitize_title_def using clip_title_bounds(1) [of 0] by simp
  moreover have "set t \<subseteq> {c \<in> set (from_utf8_lossy bs). \<not> is_control c}"
    unfolding t sanitize_title_def using clip_title_bounds(2) by fastforce
  moreover have "\<forall>c \<in> set (from_utf8_lossy bs). is_scalar c"
    using utf8_lossy_scalars by (simp add: from_utf8_lossy_def list_all_iff)
  ultimately show ?thesis using t(2) by (auto simp: clean_title_def list_all_iff)
qed

fun scanner_ok :: "osc_state \<Rightarrow> bool" where
  "scanner_ok (Osc_Title bs n _) \<longleftrightarrow> length bs \<le> MAX_TITLE_BYTES \<and> n < MAX_SEQUENCE_BYTES"
| "scanner_ok (Osc_Ignore n _) \<longleftrightarrow> n < MAX_SEQUENCE_BYTES"
| "scanner_ok _ \<longleftrightarrow> True"

lemma osc_step_ok: "scanner_ok st \<Longrightarrow> osc_step st b = (st', ts) \<Longrightarrow> scanner_ok st' \<and> list_all clean_title ts"
  by (cases st) (auto simp: Let_def MAX_TITLE_BYTES_def MAX_SEQUENCE_BYTES_def list_all_iff
      intro: push_title_clean split: if_splits)

text \<open>Whatever a terminal prints, a reported title is not empty, at most 128 bytes of UTF-8, and
  without control characters, and the scanner never holds more than 128 bytes of a title or follows
  one sequence for more than 4096 bytes.
\<close>

theorem reported_titles_are_clean:
  assumes "scanner_ok st" and "osc_push st printed = (st', titles)"
  shows "scanner_ok st' \<and> list_all clean_title titles"
  using assms
proof (induction printed arbitrary: st st' titles)
  case (Cons b printed)
  obtain st1 ts1 where step: "osc_step st b = (st1, ts1)" by (cases "osc_step st b")
  obtain st2 ts2 where rest: "osc_push st1 printed = (st2, ts2)" by (cases "osc_push st1 printed")
  from osc_step_ok [OF Cons.prems(1) step] Cons.IH [OF _ rest] Cons.prems(2) step rest
  show ?case by (auto simp: Let_def)
qed simp

theorem reported_titles_are_clean_witness:
  "scanner_ok (fst (osc_push new_scanner [0x1B, 0x5D, 0x32, 0x3B, 0x61, 0x07]))
    \<and> list_all clean_title (snd (osc_push new_scanner [0x1B, 0x5D, 0x32, 0x3B, 0x61, 0x07]))"
  by (rule reported_titles_are_clean [OF _ prod.collapse [symmetric]]) (simp add: new_scanner_def)

section \<open>Every well-formed title is found\<close>

definition printable :: "u8 \<Rightarrow> bool" where
  "printable b \<longleftrightarrow> 0x20 \<le> unat b \<and> unat b \<noteq> 0x7F"

lemma printable_simps:
  assumes "printable b"
  shows "b \<noteq> ESC" "b \<noteq> BEL" "\<not> is_ascii_control b"
proof -
  have "unat ESC = 27" "unat BEL = 7" by (simp_all add: ESC_def BEL_def)
  with assms show "b \<noteq> ESC" "b \<noteq> BEL" by (auto simp: printable_def)
  have "b < 0x20 \<longleftrightarrow> unat b < 0x20" "b = 0x7F \<longleftrightarrow> unat b = 0x7F"
    by (simp_all add: word_less_nat_alt word_unat_eq_iff)
  with assms show "\<not> is_ascii_control b" by (auto simp: printable_def is_ascii_control_def)
qed

text \<open>\<^verbatim>\<open>ESC ]\<close> starts a new sequence from every state.\<close>

lemma osc_restart: "osc_push st [ESC, 0x5D] = (Osc_Command, [])"
  by (cases st) (auto simp: ESC_def BEL_def Let_def)

lemma osc_collect:
  assumes "list_all printable bs" "length acc + length bs \<le> MAX_TITLE_BYTES"
    "n + length bs < MAX_SEQUENCE_BYTES"
  shows "osc_push (Osc_Title acc n False) bs = (Osc_Title (acc @ bs) (n + length bs) False, [])"
  using assms
proof (induction bs arbitrary: acc n)
  case (Cons b bs)
  then show ?case using printable_simps [of b] by (simp add: Let_def)
qed simp

lemma utf8_lossy_encoded: "list_all is_scalar t \<Longrightarrow> utf8_lossy (concat (map utf8_char t) @ bs) = t @ utf8_lossy bs"
proof (induction t)
  case (Cons c t)
  then show ?case by (subst utf8_lossy.simps) (simp add: utf8_next_char)
qed simp

lemma length_utf8_char: "length (utf8_char c) = utf8_len c"
  by (simp add: utf8_char_def utf8_len_def)

lemma length_as_bytes: "length (as_bytes t) = byte_len t"
  by (simp add: as_bytes_def byte_len_def length_concat length_utf8_char comp_def)

lemma printable_title: "list_all (\<lambda>c. is_scalar c \<and> \<not> is_control c) t \<Longrightarrow> list_all printable (as_bytes t)"
proof -
  assume t: "list_all (\<lambda>c. is_scalar c \<and> \<not> is_control c) t"
  have "printable (of_nat b)" if "c \<in> set t" "b \<in> set (utf8_char c)" for b c
  proof -
    from t that(1) have c: "is_scalar c" "\<not> is_control c" by (auto simp: list_all_iff)
    have "b < 256" using utf8_char_byte [OF c(1) that(2)] .
    moreover have "0x20 \<le> b \<and> b \<noteq> 0x7F"
      using that(2) c(2) by (auto simp: utf8_char_def is_control_def split: if_splits)
    ultimately show ?thesis by (simp add: printable_def unat_of_nat)
  qed
  then show ?thesis by (auto simp: as_bytes_def list_all_iff)
qed

lemma sanitize_clean: "clean_title t \<Longrightarrow> push_title (as_bytes t) = [t]"
proof -
  assume t: "clean_title t"
  then have "list_all is_scalar t" by (auto simp: clean_title_def list_all_iff)
  with utf8_lossy_encoded [OF this, of "[]"] have "from_utf8_lossy (as_bytes t) = t"
    by (simp add: from_utf8_lossy_def map_unat_as_bytes utf8_lossy.simps)
  moreover have "filter (\<lambda>c. \<not> is_control c) t = t"
    using t by (auto simp: clean_title_def list_all_iff filter_id_conv)
  ultimately show ?thesis
    using t by (simp add: push_title_def sanitize_title_def Let_def clean_title_def clip_title_fits)
qed

text \<open>
  C20. Every clean title a program sets is reported, exactly as it was set, whatever the terminal
  printed before: also in the middle of another sequence, of junk, or of a title that never ended.
  Both codes (0 and 2) and both terminators (BEL, \<^verbatim>\<open>ESC \\<close>) work, and the scanner is back at the
  start afterwards.
\<close>

theorem clean_title_is_found:
  assumes "clean_title t" and "code = 0x30 \<or> code = 0x32" and "ending = [BEL] \<or> ending = [ESC, 0x5C]"
  shows "osc_push st ([ESC, 0x5D] @ [code, 0x3B] @ as_bytes t @ ending) = (Osc_Ground, [t])"
proof -
  have codes: "osc_push Osc_Command [code, 0x3B] = (Osc_Title [] 0 False, [])"
    using assms(2) by (auto simp: BEL_def)
  have len: "length (as_bytes t) \<le> MAX_TITLE_BYTES"
    using assms(1) by (simp add: length_as_bytes clean_title_def)
  then have "osc_push (Osc_Title [] 0 False) (as_bytes t) = (Osc_Title (as_bytes t) (length (as_bytes t)) False, [])"
    using osc_collect [of "as_bytes t" "[]" 0] printable_title assms(1)
    by (simp add: clean_title_def MAX_TITLE_BYTES_def MAX_SEQUENCE_BYTES_def)
  moreover have "osc_push (Osc_Title (as_bytes t) (length (as_bytes t)) False) ending = (Osc_Ground, [t])"
    using assms(3) len sanitize_clean [OF assms(1)]
    by (auto simp: ESC_def BEL_def MAX_TITLE_BYTES_def MAX_SEQUENCE_BYTES_def is_ascii_control_def)
  ultimately have "osc_push Osc_Command ([code, 0x3B] @ as_bytes t @ ending) = (Osc_Ground, [] @ [] @ [t])"
    by (intro osc_push_then [OF codes] osc_push_then)
  from osc_push_then [OF osc_restart this, of st] show ?thesis by (simp only: append_Nil)
qed

theorem clean_title_is_found_witness:
  "osc_push (Osc_Title [0x61] 4000 True) ([ESC, 0x5D] @ [0x32, 0x3B] @ as_bytes [0x1F600, 0x21] @ [BEL])
     = (Osc_Ground, [[0x1F600, 0x21]])"
  by (rule clean_title_is_found)
    (simp_all add: clean_title_def byte_len_def utf8_len_def MAX_TITLE_BYTES_def is_scalar_def is_control_def)

section \<open>A character cut in two\<close>



end
