(* ===== verification/ProcessTree.thy ===== *)
theory ProcessTree
  imports Protocol
begin

text \<open>
  The agent of a terminal in the process table (\<^verbatim>\<open>find_named_descendants\<close> of
  \<^verbatim>\<open>crates/machine/src/codex_title.rs\<close>): a walk down from the shell of the pane. The table is a
  snapshot, so parent links may form cycles and pids may occur twice; the walk ends all the same,
  and finds exactly the processes of that name that can be reached without passing through another
  one.
\<close>

section \<open>The walk\<close>

type_synonym pid = "32 word"

record process =
  ps_pid :: pid
  ps_parent :: "pid option"
  ps_name :: string

definition is_named :: "process list \<Rightarrow> string \<Rightarrow> pid \<Rightarrow> bool" where
  "is_named processes name p \<longleftrightarrow> list_ex (\<lambda>q. ps_pid q = p \<and> ps_name q = name) processes"

definition children :: "process list \<Rightarrow> pid \<Rightarrow> pid list" where
  "children processes p = map ps_pid (filter (\<lambda>q. ps_parent q = Some p) processes)"

text \<open>
  The \<^verbatim>\<open>while let Some(pid) = pending.pop()\<close>: \<open>pending\<close> with its last element first. Nothing
  says yet that it ends, so the result is an option.
\<close>

partial_function (option) walk ::
  "process list \<Rightarrow> string \<Rightarrow> pid list \<Rightarrow> pid set \<Rightarrow> pid list \<Rightarrow> pid list option" where
  "walk processes name pending visited found =
     (case pending of
        [] \<Rightarrow> Some found
      | p # pending \<Rightarrow>
          if p \<in> visited then walk processes name pending visited found
          else if is_named processes name p
          then walk processes name pending (insert p visited) (found @ [p])
          else walk processes name (rev (children processes p) @ pending) (insert p visited) found)"

definition find_named_descendants :: "process list \<Rightarrow> pid \<Rightarrow> string \<Rightarrow> pid list option" where
  "find_named_descendants processes shell name = walk processes name [shell] {} []"

section \<open>What it should find\<close>

text \<open>Below the shell, never below a process of that name.\<close>

inductive below :: "process list \<Rightarrow> string \<Rightarrow> pid \<Rightarrow> pid \<Rightarrow> bool" for processes name shell where
  below_shell: "below processes name shell shell"
| below_child: "below processes name shell p \<Longrightarrow> \<not> is_named processes name p \<Longrightarrow>
    q \<in> set (children processes p) \<Longrightarrow> below processes name shell q"

section \<open>It ends, and finds that\<close>

text \<open>
  The pids still to visit: those of the table and those pending. Each step visits one, or shortens
  what is pending.
\<close>

definition unvisited :: "process list \<Rightarrow> pid list \<Rightarrow> pid set \<Rightarrow> nat" where
  "unvisited processes pending visited = card ((ps_pid ` set processes \<union> set pending) - visited)"

definition walk_order :: "process list \<Rightarrow> ((pid list \<times> pid set) \<times> (pid list \<times> pid set)) set" where
  "walk_order processes = inv_image (less_than <*lex*> less_than)
     (\<lambda>(pending, visited). (unvisited processes pending visited, length pending))"

lemma wf_walk_order: "wf (walk_order processes)"
  by (simp add: walk_order_def wf_inv_image wf_lex_prod)

lemma walk_order_iff:
  "((pending', visited'), (pending, visited)) \<in> walk_order processes \<longleftrightarrow>
     unvisited processes pending' visited' < unvisited processes pending visited \<or>
     (unvisited processes pending' visited' = unvisited processes pending visited \<and>
      length pending' < length pending)"
  by (simp add: walk_order_def)

lemma skip_smaller:
  assumes "p \<in> visited"
  shows "((pending, visited), (p # pending, visited)) \<in> walk_order processes"
proof -
  have "(ps_pid ` set processes \<union> set (p # pending)) - visited = (ps_pid ` set processes \<union> set pending) - visited"
    using assms by auto
  then show ?thesis by (simp add: walk_order_iff unvisited_def)
qed

lemma visit_smaller:
  assumes "p \<notin> visited" "set pending' \<subseteq> ps_pid ` set processes \<union> set pending"
  shows "((pending', insert p visited), (p # pending, visited)) \<in> walk_order processes"
proof -
  let ?all = "\<lambda>pending. ps_pid ` set processes \<union> set pending"
  have "card (?all pending' - insert p visited) < card (?all (p # pending) - visited)"
    using assms by (intro psubset_card_mono) auto
  then show ?thesis by (simp add: walk_order_iff unvisited_def)
qed

lemma children_pids: "set (children processes p) \<subseteq> ps_pid ` set processes"
  by (auto simp: children_def)

text \<open>What holds at every turn of the loop.\<close>

definition walking :: "process list \<Rightarrow> string \<Rightarrow> pid \<Rightarrow> pid list \<Rightarrow> pid set \<Rightarrow> pid list \<Rightarrow> bool" where
  "walking processes name shell pending visited found \<longleftrightarrow>
     shell \<in> visited \<union> set pending \<and>
     (\<forall>p \<in> visited \<union> set pending. below processes name shell p) \<and>
     (\<forall>p \<in> visited. \<not> is_named processes name p \<longrightarrow> set (children processes p) \<subseteq> visited \<union> set pending) \<and>
     distinct found \<and> set found = {p \<in> visited. is_named processes name p}"

lemma walking_done:
  assumes "walking processes name shell [] visited found"
  shows "distinct found \<and> set found = {p. below processes name shell p \<and> is_named processes name p}"
proof -
  have "p \<in> visited" if "below processes name shell p" for p
    using that by (induction) (use assms in \<open>auto simp: walking_def\<close>)
  with assms show ?thesis by (auto simp: walking_def)
qed

lemma walking_skip:
  "walking processes name shell (p # pending) visited found \<Longrightarrow> p \<in> visited
     \<Longrightarrow> walking processes name shell pending visited found"
  by (auto simp: walking_def)

lemma walking_found:
  "walking processes name shell (p # pending) visited found \<Longrightarrow> p \<notin> visited \<Longrightarrow> is_named processes name p
     \<Longrightarrow> walking processes name shell pending (insert p visited) (found @ [p])"
  by (auto simp: walking_def)

lemma walking_down:
  "walking processes name shell (p # pending) visited found \<Longrightarrow> p \<notin> visited \<Longrightarrow> \<not> is_named processes name p
     \<Longrightarrow> walking processes name shell (rev (children processes p) @ pending) (insert p visited) found"
  by (auto simp: walking_def intro: below_child)

lemma walk_result:
  "walking processes name shell pending visited found \<Longrightarrow>
     \<exists>result. walk processes name pending visited found = Some result \<and> distinct result
       \<and> set result = {p. below processes name shell p \<and> is_named processes name p}"
proof (induction "(pending, visited)" arbitrary: pending visited found rule: wf_induct_rule [OF wf_walk_order [of processes]])
  case (1 pending visited found)
  show ?case
  proof (cases pending)
    case Nil
    with 1(2) walking_done show ?thesis by (simp add: walk.simps)
  next
    case (Cons p rest)
    note loop = 1(2) [unfolded Cons]
    show ?thesis
    proof (cases "p \<in> visited")
      case True
      from 1(1) [OF _ walking_skip [OF loop True]] skip_smaller [OF True]
      show ?thesis using True Cons by (subst walk.simps) simp
    next
      case new: False
      show ?thesis
      proof (cases "is_named processes name p")
        case True
        from 1(1) [OF _ walking_found [OF loop new True]] visit_smaller [OF new, of rest]
        show ?thesis using True new Cons by (subst walk.simps) simp
      next
        case False
        have "set (rev (children processes p) @ rest) \<subseteq> ps_pid ` set processes \<union> set rest"
          using children_pids by fastforce
        from 1(1) [OF _ walking_down [OF loop new False]] visit_smaller [OF new this]
        show ?thesis using False new Cons by (subst walk.simps) simp
      qed
    qed
  qed
qed

lemma walk_finds:
  "\<exists>found. find_named_descendants processes shell name = Some found \<and> distinct found
     \<and> set found = {p. below processes name shell p \<and> is_named processes name p}"
  unfolding find_named_descendants_def
  by (rule walk_result) (simp add: walking_def below_shell)

text \<open>
  C21. The walk over the process table always ends, also when parent links form cycles, and what it
  returns is, without repetition, exactly the processes of that name below the pane's shell that are
  not themselves below another such process: an agent's own tools and subagents are never mistaken
  for the pane's agent.
\<close>

theorem agents_of_pane_found:
  "\<exists>found. find_named_descendants processes shell name = Some found \<and> distinct found
     \<and> set found = {p. below processes name shell p \<and> is_named processes name p}"
  by (rule walk_finds)

end
