(* ===== verification/SecureChannel.thy ===== *)
theory SecureChannel
  imports Frames "HOL-Library.Multiset"
begin

text \<open>
  The encrypted channel between app and hub (\<^verbatim>\<open>crates/secure/src/lib.rs\<close>): messages cut into
  fragments of 16 KiB, each in a Noise record of its own, and put together again by the
  receiver. The Noise transport (crate \<^verbatim>\<open>snow\<close>) is a parameter: \<open>write_message\<close> and
  \<open>read_message\<close> on a state, with the law that a record written by one end is read by the
  other. Sizes (\<^verbatim>\<open>usize\<close>) are naturals; the limits keep them far below \<open>2 ^ 32\<close>.

  The lemmas show that however the fragments of different messages are interleaved, the
  receiver gets exactly the messages, and that no peer makes it hold more than its limits.
\<close>

section \<open>Big-endian numbers\<close>

definition be_bytes :: "nat \<Rightarrow> nat \<Rightarrow> bytes" where
  "be_bytes k n = map (\<lambda>i. of_nat (n div 256 ^ (k - 1 - i))) [0..<k]"

definition be_value :: "bytes \<Rightarrow> nat" where
  "be_value bs = foldl (\<lambda>n b. n * 256 + unat b) 0 bs"

section \<open>Messages and their fragments\<close>

definition MAX_MESSAGE :: nat where "MAX_MESSAGE = 32 * 1024 * 1024"
definition FRAGMENT_BYTES :: nat where "FRAGMENT_BYTES = 16 * 1024"
definition HEADER_BYTES :: nat where "HEADER_BYTES = 16"
definition MAX_ASSEMBLIES :: nat where "MAX_ASSEMBLIES = 8"
definition MAX_ASSEMBLY_BYTES :: nat where "MAX_ASSEMBLY_BYTES = 64 * 1024 * 1024"

datatype secure_error = Err_Noise | Err_TooLarge | Err_InvalidMessage | Err_Closed

record outgoing_message =
  om_data :: bytes
  om_offset :: nat
  om_id :: "u64 option"

definition new_outgoing :: "bytes \<Rightarrow> secure_error + outgoing_message" where
  "new_outgoing data =
     (if data = [] \<or> length data > MAX_MESSAGE then Inl Err_TooLarge
      else Inr \<lparr>om_data = data, om_offset = 0, om_id = None\<rparr>)"

definition finished :: "outgoing_message \<Rightarrow> bool" where
  "finished m \<longleftrightarrow> om_offset m = length (om_data m)"

definition is_small :: "outgoing_message \<Rightarrow> bool" where
  "is_small m \<longleftrightarrow> length (om_data m) \<le> FRAGMENT_BYTES"

record assembly =
  as_total :: nat
  as_data :: bytes

record 'n channel =
  ch_noise :: 'n
  ch_next_id :: u64
  ch_last_started :: u64
  ch_pending :: "(u64, assembly) hmap"
  ch_reserved :: nat
  ch_failed :: bool

definition new_channel :: "'n \<Rightarrow> 'n channel" where
  "new_channel noise = \<lparr>ch_noise = noise, ch_next_id = 1, ch_last_started = 0, ch_pending = [],
     ch_reserved = 0, ch_failed = False\<rparr>"

type_synonym 'n write_message = "'n \<Rightarrow> bytes \<Rightarrow> (bytes \<times> 'n) option"
type_synonym 'n read_message = "'n \<Rightarrow> bytes \<Rightarrow> (bytes \<times> 'n) option"

section \<open>Sending\<close>

definition take_id :: "'n channel \<Rightarrow> outgoing_message \<Rightarrow> (u64 \<times> 'n channel) option" where
  "take_id ch m =
     (case om_id m of
        Some i \<Rightarrow> Some (i, ch)
      | None \<Rightarrow> if ch_next_id ch = - 1 then None
                else Some (ch_next_id ch, ch\<lparr>ch_next_id := ch_next_id ch + 1\<rparr>))"

definition fragment_end :: "outgoing_message \<Rightarrow> nat" where
  "fragment_end m = min (om_offset m + FRAGMENT_BYTES) (length (om_data m))"

definition fragment :: "u64 \<Rightarrow> outgoing_message \<Rightarrow> bytes" where
  "fragment i m = be_bytes 8 (unat i) @ be_bytes 4 (length (om_data m)) @ be_bytes 4 (om_offset m) @
     drop (om_offset m) (take (fragment_end m) (om_data m))"

definition encode_next ::
  "'n write_message \<Rightarrow> 'n channel \<Rightarrow> outgoing_message
     \<Rightarrow> (secure_error + bytes) \<times> 'n channel \<times> outgoing_message" where
  "encode_next write_message ch m =
     (if ch_failed ch then (Inl Err_Closed, ch, m)
      else if finished m then (Inl Err_InvalidMessage, ch, m)
      else case take_id ch m of
             None \<Rightarrow> (Inl Err_Closed, ch, m)
           | Some (i, ch) \<Rightarrow>
               (let m = m\<lparr>om_id := Some i\<rparr> in
                case write_message (ch_noise ch) (fragment i m) of
                  None \<Rightarrow> (Inl Err_Noise, ch\<lparr>ch_failed := True\<rparr>, m)
                | Some (record, noise) \<Rightarrow>
                    (Inr record, ch\<lparr>ch_noise := noise\<rparr>, m\<lparr>om_offset := fragment_end m\<rparr>)))"

section \<open>Receiving\<close>

text \<open>What is done with a fragment once its record is open and its header read.\<close>

definition accept_fragment ::
  "u64 \<Rightarrow> nat \<Rightarrow> nat \<Rightarrow> bytes \<Rightarrow> 'n channel \<Rightarrow> (secure_error + bytes list) \<times> 'n channel" where
  "accept_fragment i whole offset data ch =
     (if whole = 0 \<or> whole > MAX_MESSAGE \<or> offset + length data > whole then (Inl Err_TooLarge, ch)
      else if offset = 0 then
        if i \<le> ch_last_started ch then (Inl Err_InvalidMessage, ch)
        else
          (let ch = ch\<lparr>ch_last_started := i\<rparr> in
           if length data = whole then (Inr [data], ch)
           else if length (ch_pending ch) \<ge> MAX_ASSEMBLIES \<or> ch_reserved ch + whole > MAX_ASSEMBLY_BYTES
           then (Inl Err_TooLarge, ch)
           else (Inr [], ch\<lparr>ch_reserved := ch_reserved ch + whole,
                   ch_pending := hput i \<lparr>as_total = whole, as_data = data\<rparr> (ch_pending ch)\<rparr>))
      else
        (case hget (ch_pending ch) i of
           None \<Rightarrow> (Inl Err_InvalidMessage, ch)
         | Some a \<Rightarrow>
             if as_total a \<noteq> whole \<or> length (as_data a) \<noteq> offset then (Inl Err_InvalidMessage, ch)
             else
               (let a = a\<lparr>as_data := as_data a @ data\<rparr> in
                if length (as_data a) = whole
                then (Inr [as_data a], ch\<lparr>ch_reserved := ch_reserved ch - whole,
                        ch_pending := hdel i (ch_pending ch)\<rparr>)
                else (Inr [], ch\<lparr>ch_pending := hput i a (ch_pending ch)\<rparr>))))"

definition decode_inner ::
  "'n read_message \<Rightarrow> 'n channel \<Rightarrow> bytes \<Rightarrow> (secure_error + bytes list) \<times> 'n channel" where
  "decode_inner read_message ch record =
     (if \<not> (HEADER_BYTES + 17 \<le> length record \<and> length record \<le> HEADER_BYTES + FRAGMENT_BYTES + 16)
      then (Inl Err_InvalidMessage, ch)
      else case read_message (ch_noise ch) record of
             None \<Rightarrow> (Inl Err_Noise, ch)
           | Some (plain, noise) \<Rightarrow>
               (let ch = ch\<lparr>ch_noise := noise\<rparr> in
                if length plain \<le> HEADER_BYTES then (Inl Err_InvalidMessage, ch)
                else accept_fragment (of_nat (be_value (take 8 plain)))
                  (be_value (take 4 (drop 8 plain))) (be_value (take 4 (drop 12 plain)))
                  (drop HEADER_BYTES plain) ch))"

definition decode ::
  "'n read_message \<Rightarrow> 'n channel \<Rightarrow> bytes \<Rightarrow> (secure_error + bytes list) \<times> 'n channel" where
  "decode read_message ch record =
     (if ch_failed ch then (Inl Err_Closed, ch)
      else case decode_inner read_message ch record of
             (Inl e, ch) \<Rightarrow> (Inl e, ch\<lparr>ch_failed := True, ch_pending := [], ch_reserved := 0\<rparr>)
           | (Inr out, ch) \<Rightarrow> (Inr out, ch))"

section \<open>Numbers survive the header\<close>

lemma be_bytes_Suc: "be_bytes (Suc k) n = of_nat (n div 256 ^ k) # be_bytes k n"
proof -
  have "map (\<lambda>i. of_nat (n div 256 ^ (Suc k - 1 - i))) (map Suc [0..<k]) = (be_bytes k n :: bytes)"
    by (auto simp: be_bytes_def)
  moreover have "[0..<Suc k] = 0 # map Suc [0..<k]" by (simp add: map_Suc_upt upt_conv_Cons)
  ultimately show ?thesis by (simp add: be_bytes_def del: upt_Suc)
qed

lemma length_be_bytes [simp]: "length (be_bytes k n) = k"
  by (simp add: be_bytes_def)

lemma be_value_shift: "foldl (\<lambda>n b. n * 256 + unat b) k bs = k * 256 ^ length bs + be_value bs"
proof (induction bs arbitrary: k)
  case Nil
  then show ?case by (simp add: be_value_def)
next
  case (Cons b bs)
  have "be_value (b # bs) = unat b * 256 ^ length bs + be_value bs"
    using Cons.IH [of "unat b"] by (simp add: be_value_def)
  with Cons.IH [of "k * 256 + unat b"] show ?case by (simp add: algebra_simps)
qed

lemma be_value_Cons: "be_value (b # bs) = unat b * 256 ^ length bs + be_value bs"
  using be_value_shift [of "unat b" bs] by (simp add: be_value_def)

lemma be_value_bytes: "be_value (be_bytes k n) = n mod 256 ^ k"
proof (induction k)
  case 0
  then show ?case by (simp add: be_bytes_def be_value_def)
next
  case (Suc k)
  have "n mod 256 ^ Suc k = 256 ^ k * (n div 256 ^ k mod 256) + n mod 256 ^ k"
    by (simp add: mod_mult2_eq mult.commute [of 256])
  with Suc show ?case
    by (simp add: be_bytes_Suc be_value_Cons unat_of_nat mult.commute)
qed

section \<open>What a receiver holds\<close>

definition held_total :: "(u64, assembly) hmap \<Rightarrow> nat" where
  "held_total p = (\<Sum>x\<leftarrow>p. as_total (snd x))"

definition receiver_ok :: "'n channel \<Rightarrow> bool" where
  "receiver_ok ch \<longleftrightarrow> hwf (ch_pending ch) \<and> length (ch_pending ch) \<le> MAX_ASSEMBLIES \<and>
     ch_reserved ch = held_total (ch_pending ch) \<and> ch_reserved ch \<le> MAX_ASSEMBLY_BYTES \<and>
     (\<forall>i a. hget (ch_pending ch) i = Some a \<longrightarrow>
        i \<le> ch_last_started ch \<and> length (as_data a) < as_total a)"

lemma hdel_absent: "k \<notin> fst ` set m \<Longrightarrow> hdel k m = m"
  by (induction m) (auto simp: hdel_def)

lemma mset_hput_new: "hget m k = None \<Longrightarrow> mset (hput k v m) = add_mset (k, v) (mset m)"
  by (induction m) (auto simp: hmap_defs)

lemma mset_hdel:
  "hwf m \<Longrightarrow> hget m k = Some v \<Longrightarrow> mset m = add_mset (k, v) (mset (hdel k m))"
proof (induction m)
  case (Cons x m)
  show ?case
  proof (cases "fst x = k")
    case True
    with Cons.prems have "hdel k m = m" by (intro hdel_absent) (auto simp: hwf_def)
    with True Cons.prems show ?thesis by (cases x) (auto simp: hmap_defs)
  next
    case False
    with Cons show ?thesis by (cases x) (auto simp: hmap_defs)
  qed
qed (simp add: hmap_defs)

lemma mset_hput_old:
  "hwf m \<Longrightarrow> hget m k = Some v \<Longrightarrow> mset (hput k w m) = add_mset (k, w) (mset (hdel k m))"
proof (induction m)
  case (Cons x m)
  show ?case
  proof (cases "fst x = k")
    case True
    with Cons.prems have "hdel k m = m" by (intro hdel_absent) (auto simp: hwf_def)
    with True Cons.prems show ?thesis by (cases x) (auto simp: hmap_defs)
  next
    case False
    with Cons show ?thesis by (cases x) (auto simp: hmap_defs)
  qed
qed (simp add: hmap_defs)

lemma held_total_mset: "held_total p = (\<Sum>x\<in>#mset p. as_total (snd x))"
  by (simp add: held_total_def sum_mset_sum_list flip: mset_map)

lemma held_rules:
  "hget p i = None \<Longrightarrow> held_total (hput i a p) = held_total p + as_total a"
  "hwf p \<Longrightarrow> hget p i = Some b \<Longrightarrow> held_total p = held_total (hdel i p) + as_total b"
  "hwf p \<Longrightarrow> hget p i = Some b \<Longrightarrow> as_total a = as_total b \<Longrightarrow> held_total (hput i a p) = held_total p"
  "hget p i = None \<Longrightarrow> length (hput i a p) = Suc (length p)"
  "hwf p \<Longrightarrow> hget p i = Some b \<Longrightarrow> Suc (length (hdel i p)) = length p"
  "hwf p \<Longrightarrow> hget p i = Some b \<Longrightarrow> length (hput i a p) = length p"
  using mset_hput_new [of p i a] mset_hdel [of p i b] mset_hput_old [of p i b a]
  by (auto simp: held_total_mset simp flip: size_mset)


lemma new_id: "receiver_ok ch \<Longrightarrow> ch_last_started ch < i \<Longrightarrow> hget (ch_pending ch) i = None"
  unfolding receiver_ok_def by (cases "hget (ch_pending ch) i") (auto dest: leD)

lemma receiver_ok_start: "receiver_ok ch \<Longrightarrow> ch_last_started ch < i \<Longrightarrow> receiver_ok (ch\<lparr>ch_last_started := i\<rparr>)"
  by (auto simp: receiver_ok_def) (meson le_less_trans less_imp_le)

lemma receiver_ok_put:
  assumes "receiver_ok ch" "ch_last_started ch < i" "length (ch_pending ch) < MAX_ASSEMBLIES"
    and "ch_reserved ch + as_total a \<le> MAX_ASSEMBLY_BYTES" "length (as_data a) < as_total a"
  shows "receiver_ok (ch\<lparr>ch_last_started := i, ch_reserved := ch_reserved ch + as_total a,
    ch_pending := hput i a (ch_pending ch)\<rparr>)"
  using assms new_id [OF assms(1,2)] receiver_ok_start [OF assms(1,2)]
  by (auto simp: receiver_ok_def held_rules hm.get_put split: if_splits)

lemma receiver_ok_change:
  assumes "receiver_ok ch" "hget (ch_pending ch) i = Some b"
    and "as_total a = as_total b" "length (as_data a) < as_total a"
  shows "receiver_ok (ch\<lparr>ch_pending := hput i a (ch_pending ch)\<rparr>)"
  using assms by (auto simp: receiver_ok_def held_rules hm.get_put split: if_splits)

lemma receiver_ok_drop:
  assumes "receiver_ok ch" "hget (ch_pending ch) i = Some b"
  shows "receiver_ok (ch\<lparr>ch_reserved := ch_reserved ch - as_total b,
    ch_pending := hdel i (ch_pending ch)\<rparr>)"
  using assms held_rules(2,5) [of "ch_pending ch" i b]
  by (auto simp: receiver_ok_def hm.get_del split: if_splits)

lemma receiver_ok_fields [simp]:
  "receiver_ok (ch\<lparr>ch_noise := n\<rparr>) = receiver_ok ch"
  "receiver_ok (ch\<lparr>ch_failed := f\<rparr>) = receiver_ok ch"
  "receiver_ok (ch\<lparr>ch_failed := f, ch_pending := [], ch_reserved := 0\<rparr>)"
  by (simp_all add: receiver_ok_def held_total_def hm.get_none)

lemma accept_fragment_ok:
  assumes "receiver_ok ch" "accept_fragment i n offset data ch = (Inr out, ch')"
  shows "receiver_ok ch'"
proof (cases "offset = 0")
  case True
  with assms show ?thesis
    using receiver_ok_put [of ch i "\<lparr>as_total = n, as_data = data\<rparr>"]
      receiver_ok_start [of ch i]
    by (auto simp: accept_fragment_def Let_def not_le split: if_splits)
next
  case False
  with assms(2) obtain a where a: "hget (ch_pending ch) i = Some a" "as_total a = n"
    "length (as_data a) = offset"
    by (auto simp: accept_fragment_def split: if_splits option.splits)
  with False assms(2) show ?thesis
    using receiver_ok_drop [OF assms(1) a(1)]
      receiver_ok_change [OF assms(1) a(1), of "a\<lparr>as_data := as_data a @ data\<rparr>"]
    by (auto simp: accept_fragment_def Let_def split: if_splits)
qed

lemma accept_fragment_out:
  "receiver_ok ch \<Longrightarrow> accept_fragment i n offset data ch = (Inr out, ch')
     \<Longrightarrow> d \<in> set out \<Longrightarrow> length d \<le> MAX_MESSAGE"
  by (auto simp: accept_fragment_def Let_def split: if_splits option.splits)

lemma decode_ok:
  assumes "receiver_ok ch"
  shows "receiver_ok (snd (decode read_message ch record))"
    and "fst (decode read_message ch record) = Inr out \<Longrightarrow> d \<in> set out \<Longrightarrow> length d \<le> MAX_MESSAGE"
proof -
  have "receiver_ok ch' \<and> (d \<in> set out \<longrightarrow> length d \<le> MAX_MESSAGE)"
    if "decode_inner read_message ch record = (Inr out, ch')" for out ch' d
    using that assms accept_fragment_ok [of "ch\<lparr>ch_noise := _\<rparr>"] accept_fragment_out [of "ch\<lparr>ch_noise := _\<rparr>"]
    by (auto simp: decode_inner_def Let_def split: if_splits option.splits)
  then show "receiver_ok (snd (decode read_message ch record))"
    and "fst (decode read_message ch record) = Inr out \<Longrightarrow> d \<in> set out \<Longrightarrow> length d \<le> MAX_MESSAGE"
    using assms by (auto simp: decode_def split: prod.splits sum.splits if_splits)
qed

lemma receiver_ok_new: "receiver_ok (new_channel n)"
  by (simp add: new_channel_def receiver_ok_def held_total_def hm.get_none MAX_ASSEMBLIES_def)

interpretation receiving: invariant_steps "\<lambda>ch record. snd (decode read_message ch record)" receiver_ok
  for read_message
  by unfold_locales (rule decode_ok)

lemma held_below_reserved:
  "\<forall>x \<in> set p. length (as_data (snd x)) < as_total (snd x)
     \<Longrightarrow> (\<Sum>x\<leftarrow>p. length (as_data (snd x))) \<le> held_total p"
  by (induction p) (auto simp: held_total_def)

lemma new_outgoingD:
  "new_outgoing d = Inr m \<Longrightarrow> om_data m = d \<and> om_offset m = 0 \<and> om_id m = None \<and> d \<noteq> [] \<and>
     length d \<le> MAX_MESSAGE"
  by (auto simp: new_outgoing_def split: if_splits)

section \<open>Both ends\<close>

text \<open>What the code relies on in Noise: what one end writes the other end reads, in order.\<close>

definition noise_pairs ::
  "'n write_message \<Rightarrow> 'k read_message \<Rightarrow> ('n \<Rightarrow> 'k \<Rightarrow> bool) \<Rightarrow> bool" where
  "noise_pairs write_message read_message synced \<longleftrightarrow>
     (\<forall>s r plain record s'. synced s r \<and> write_message s plain = Some (record, s') \<longrightarrow>
        length record = length plain + 16 \<and>
        (\<exists>r'. read_message r record = Some (plain, r') \<and> synced s' r'))"

definition message_ok :: "outgoing_message \<Rightarrow> bool" where
  "message_ok m \<longleftrightarrow> om_data m \<noteq> [] \<and> length (om_data m) \<le> MAX_MESSAGE \<and>
     om_offset m \<le> length (om_data m) \<and> (om_id m = None \<longleftrightarrow> om_offset m = 0)"

definition in_flight :: "outgoing_message \<Rightarrow> bool" where
  "in_flight m \<longleftrightarrow> 0 < om_offset m \<and> om_offset m < length (om_data m)"

definition entry :: "outgoing_message \<Rightarrow> u64 \<times> assembly" where
  "entry m = (the (om_id m),
     \<lparr>as_total = length (om_data m), as_data = take (om_offset m) (om_data m)\<rparr>)"

definition in_step ::
  "('n \<Rightarrow> 'k \<Rightarrow> bool) \<Rightarrow> 'n channel \<Rightarrow> 'k channel \<Rightarrow> outgoing_message multiset \<Rightarrow> bool" where
  "in_step synced s r M \<longleftrightarrow> synced (ch_noise s) (ch_noise r) \<and> \<not> ch_failed s \<and> \<not> ch_failed r \<and>
     unat (ch_next_id s) = Suc (unat (ch_last_started r)) \<and> receiver_ok r \<and>
     (\<forall>m \<in># M. message_ok m) \<and> mset (ch_pending r) = image_mset entry (filter_mset in_flight M)"

text \<open>There is room at the receiver for a message that needs more than one fragment.\<close>

definition room :: "outgoing_message multiset \<Rightarrow> outgoing_message \<Rightarrow> bool" where
  "room M m \<longleftrightarrow> is_small m \<or> 0 < om_offset m \<or>
     size (filter_mset in_flight M) < MAX_ASSEMBLIES \<and>
     (\<Sum>m' \<in># filter_mset in_flight M. length (om_data m')) + length (om_data m) \<le> MAX_ASSEMBLY_BYTES"

abbreviation chunk :: "outgoing_message \<Rightarrow> bytes" where
  "chunk m \<equiv> drop (om_offset m) (take (fragment_end m) (om_data m))"

lemma fragment_end_bounds:
  assumes "message_ok m" "\<not> finished m"
  shows "om_offset m < fragment_end m" "fragment_end m \<le> length (om_data m)"
    "length (chunk m) = fragment_end m - om_offset m" "length (chunk m) \<le> FRAGMENT_BYTES"
    "0 < length (chunk m)"
  using assms by (auto simp: message_ok_def finished_def fragment_end_def FRAGMENT_BYTES_def)

lemma decode_fragment:
  assumes "read_message (ch_noise r) record = Some (fragment i m, n)"
    and "length record = length (fragment i m) + 16" and "message_ok m" and "\<not> finished m"
    and "\<not> ch_failed r"
  shows "decode_inner read_message r record =
    accept_fragment i (length (om_data m)) (om_offset m) (chunk m) (r\<lparr>ch_noise := n\<rparr>)"
proof -
  note b = fragment_end_bounds [OF assms(3,4)]
  have "length (om_data m) < 256 ^ 4" using assms(3) by (simp add: message_ok_def MAX_MESSAGE_def)
  moreover from this have "om_offset m < 256 ^ 4" using b by linarith
  moreover have "unat i < 256 ^ 8" using unsigned_less [of i, where 'a = nat] by simp
  moreover obtain c where c: "chunk m = c" by blast
  ultimately show ?thesis
    using b(4,5) assms(1,2) unfolding fragment_def c
    by (simp add: decode_inner_def HEADER_BYTES_def be_value_bytes Let_def Suc_le_eq)
qed

lemma encode_nextE:
  assumes "encode_next write_message s m = (Inr record, s', m')"
  obtains i t noise where "take_id s m = Some (i, t)" and "\<not> finished m" and "\<not> ch_failed s"
    and "write_message (ch_noise t) (fragment i m) = Some (record, noise)"
    and "s' = t\<lparr>ch_noise := noise\<rparr>" and "m' = m\<lparr>om_id := Some i, om_offset := fragment_end m\<rparr>"
  using assms
  by (auto simp: encode_next_def Let_def fragment_def fragment_end_def split: if_splits option.splits)

lemma pending_in_flight:
  assumes "in_step synced s r (add_mset m M)" and "in_flight m"
  shows "hget (ch_pending r) (the (om_id m)) =
    Some \<lparr>as_total = length (om_data m), as_data = take (om_offset m) (om_data m)\<rparr>"
proof -
  have "entry m \<in># mset (ch_pending r)" and "hwf (ch_pending r)"
    using assms by (auto simp: in_step_def receiver_ok_def)
  then show ?thesis by (simp add: entry_def hget_Some_iff)
qed


lemma pending_counts:
  assumes "in_step synced s r M"
  shows "length (ch_pending r) = size (filter_mset in_flight M)"
    and "ch_reserved r = (\<Sum>m \<in># filter_mset in_flight M. length (om_data m))"
proof -
  have p: "mset (ch_pending r) = image_mset entry (filter_mset in_flight M)"
    using assms by (simp add: in_step_def)
  then show "length (ch_pending r) = size (filter_mset in_flight M)"
    by (metis size_image_mset size_mset)
  show "ch_reserved r = (\<Sum>m \<in># filter_mset in_flight M. length (om_data m))"
    using assms p by (simp add: in_step_def receiver_ok_def held_total_mset image_mset.compositionality comp_def entry_def)
qed

lemma unat_next: "i \<noteq> - 1 \<Longrightarrow> unat (i + 1) = Suc (unat (i :: u64))"
  using unatSuc [of i] by (simp add: add.commute eq_neg_iff_add_eq_0)

text \<open>One fragment, from one end to the other.\<close>

lemma fragment_arrives:
  assumes pairs: "noise_pairs write_message read_message synced"
    and step: "in_step synced s r (add_mset m M)" and room: "room (add_mset m M) m"
    and sent: "encode_next write_message s m = (Inr record, s', m')"
  obtains r' where "decode read_message r record = (Inr (if finished m' then [om_data m'] else []), r')"
    and "in_step synced s' r' (add_mset m' M)"
proof -
  from sent obtain i t noise where i: "take_id s m = Some (i, t)" and m: "\<not> finished m"
    and w: "write_message (ch_noise t) (fragment i m) = Some (record, noise)"
    and s': "s' = t\<lparr>ch_noise := noise\<rparr>" and m': "m' = m\<lparr>om_id := Some i, om_offset := fragment_end m\<rparr>"
    by (rule encode_nextE)
  have t: "ch_noise t = ch_noise s" "ch_failed t = ch_failed s"
    using i by (auto simp: take_id_def split: option.splits if_splits)
  from step have ok: "message_ok m" "receiver_ok r" "synced (ch_noise s) (ch_noise r)" "\<not> ch_failed s"
    "\<not> ch_failed r" by (auto simp: in_step_def)
  note b = fragment_end_bounds [OF ok(1) m]
  from pairs w ok t obtain n where n: "length record = length (fragment i m) + 16"
    "read_message (ch_noise r) record = Some (fragment i m, n)" "synced noise n"
    unfolding noise_pairs_def by metis
  note dec = decode_fragment [of read_message r "record" i m n, OF n(2,1) ok(1) m ok(5)]
  show thesis
  proof (cases "om_offset m = 0")
    case True
    with ok have none: "om_id m = None" by (simp add: message_ok_def)
    with i have t': "i = ch_next_id s" "t = s\<lparr>ch_next_id := i + 1\<rparr>" "i \<noteq> - 1"
      by (auto simp: take_id_def split: if_splits)
    have new: "ch_last_started r < i" and nxt: "unat (i + 1) = Suc (unat i)"
      using step t' by (auto simp: in_step_def word_less_nat_alt unat_next)
    show thesis
    proof (cases "is_small m")
      case True
      then have all: "fragment_end m = length (om_data m)"
        using \<open>om_offset m = 0\<close> by (simp add: fragment_end_def is_small_def)
      show thesis
      proof (rule that)
        show "decode read_message r record = (Inr (if finished m' then [om_data m'] else []),
            r\<lparr>ch_noise := n, ch_last_started := i\<rparr>)"
          using dec new ok b all \<open>om_offset m = 0\<close>
          by (auto simp: decode_def accept_fragment_def Let_def m' finished_def message_ok_def)
        show "in_step synced s' (r\<lparr>ch_noise := n, ch_last_started := i\<rparr>) (add_mset m' M)"
          using step new nxt t' n all \<open>om_offset m = 0\<close>
          by (auto simp: in_step_def s' m' in_flight_def message_ok_def receiver_ok_start)
      qed
    next
      case False
      then have part: "fragment_end m = FRAGMENT_BYTES" "FRAGMENT_BYTES < length (om_data m)"
        using \<open>om_offset m = 0\<close> by (auto simp: fragment_end_def is_small_def)
      then have fly: "in_flight m'" "\<not> in_flight m" "\<not> finished m'"
        using \<open>om_offset m = 0\<close> by (auto simp: in_flight_def finished_def m' FRAGMENT_BYTES_def)
      have fits: "length (ch_pending r) < MAX_ASSEMBLIES"
        "ch_reserved r + length (om_data m) \<le> MAX_ASSEMBLY_BYTES"
        using room step fly False \<open>om_offset m = 0\<close> pending_counts [OF step]
        by (auto simp: room_def)
      let ?a = "\<lparr>as_total = length (om_data m), as_data = chunk m\<rparr>"
      let ?r = "r\<lparr>ch_noise := n, ch_last_started := i, ch_reserved := ch_reserved r + as_total ?a,
        ch_pending := hput i ?a (ch_pending r)\<rparr>"
      show thesis
      proof (rule that)
        show "decode read_message r record = (Inr (if finished m' then [om_data m'] else []), ?r)"
          using dec new ok b part fits fly \<open>om_offset m = 0\<close>
          by (auto simp: decode_def accept_fragment_def Let_def message_ok_def)
        have "entry m' = (i, ?a)" using \<open>om_offset m = 0\<close> by (simp add: entry_def m')
        moreover have "receiver_ok ?r"
          using receiver_ok_put [of "r\<lparr>ch_noise := n\<rparr>" i ?a] ok new fits b part by simp
        ultimately show "in_step synced s' ?r (add_mset m' M)"
          using step new nxt t' n fly b new_id [OF ok(2) new]
          by (auto simp: in_step_def s' message_ok_def mset_hput_new m')
      qed
    qed
  next
    case False
    with m ok have fly: "in_flight m" by (auto simp: in_flight_def message_ok_def finished_def)
    with i False ok have t': "om_id m = Some i" "t = s"
      by (auto simp: take_id_def message_ok_def)
    let ?a = "\<lparr>as_total = length (om_data m), as_data = take (om_offset m) (om_data m)\<rparr>"
    from pending_in_flight [OF step fly] t' have a: "hget (ch_pending r) i = Some ?a" by simp
    have more: "take (om_offset m) (om_data m) @ chunk m = take (fragment_end m) (om_data m)"
      using b by (metis append_take_drop_id less_imp_le min.absorb1 take_take)
    show thesis
    proof (cases "fragment_end m = length (om_data m)")
      case True
      let ?r = "r\<lparr>ch_noise := n, ch_reserved := ch_reserved r - as_total ?a,
        ch_pending := hdel i (ch_pending r)\<rparr>"
      have fin: "finished m'" "\<not> in_flight m'" using True by (simp_all add: m' finished_def in_flight_def)
      show thesis
      proof (rule that)
        show "decode read_message r record = (Inr (if finished m' then [om_data m'] else []), ?r)"
          using dec a ok b True fin False more
          by (auto simp: decode_def accept_fragment_def Let_def message_ok_def m')
        have "receiver_ok ?r" using receiver_ok_drop [of "r\<lparr>ch_noise := n\<rparr>" i ?a] a ok by simp
        then show "in_step synced s' ?r (add_mset m' M)"
          using step t' n fly fin b mset_hdel [OF _ a]
          by (auto simp: in_step_def s' message_ok_def m' entry_def receiver_ok_def)
      qed
    next
      case part: False
      let ?b = "?a\<lparr>as_data := as_data ?a @ chunk m\<rparr>"
      let ?r = "r\<lparr>ch_noise := n, ch_pending := hput i ?b (ch_pending r)\<rparr>"
      have fly': "in_flight m'" "\<not> finished m'"
        using part b by (auto simp: in_flight_def finished_def m')
      show thesis
      proof (rule that)
        show "decode read_message r record = (Inr (if finished m' then [om_data m'] else []), ?r)"
          using dec a ok b part fly' False more
          by (auto simp: decode_def accept_fragment_def Let_def message_ok_def)
        have "receiver_ok ?r"
          using receiver_ok_change [of "r\<lparr>ch_noise := n\<rparr>" i ?a ?b] a ok part b more by auto
        then show "in_step synced s' ?r (add_mset m' M)"
          using step t' n fly fly' b mset_hdel [OF _ a] mset_hput_old [OF _ a, of ?b] more
          by (auto simp: in_step_def s' message_ok_def m' entry_def receiver_ok_def)
      qed
    qed
  qed
qed

section \<open>Any interleaving\<close>

text \<open>
  Several messages are on their way; a schedule says whose next fragment goes out. \<open>delivered\<close>
  says what should arrive, and when: each message with its last fragment.
\<close>

fun encode_all ::
  "'n write_message \<Rightarrow> 'n channel \<Rightarrow> outgoing_message list \<Rightarrow> nat list
     \<Rightarrow> (bytes list \<times> outgoing_message list) option" where
  "encode_all write_message s ms [] = Some ([], ms)"
| "encode_all write_message s ms (k # ks) =
     (case encode_next write_message s (ms ! k) of
        (Inl _, _) \<Rightarrow> None
      | (Inr packet, s, m) \<Rightarrow>
          (case encode_all write_message s (ms[k := m]) ks of
             None \<Rightarrow> None
           | Some (packets, ms) \<Rightarrow> Some (packet # packets, ms)))"

fun decode_all :: "'n read_message \<Rightarrow> 'n channel \<Rightarrow> bytes list \<Rightarrow> secure_error + bytes list" where
  "decode_all read_message r [] = Inr []"
| "decode_all read_message r (packet # packets) =
     (case decode read_message r packet of
        (Inl e, _) \<Rightarrow> Inl e
      | (Inr out, r) \<Rightarrow>
          (case decode_all read_message r packets of
             Inl e \<Rightarrow> Inl e | Inr outs \<Rightarrow> Inr (out @ outs)))"

definition sent_part :: "outgoing_message \<Rightarrow> outgoing_message" where
  "sent_part m = m\<lparr>om_offset := fragment_end m\<rparr>"

fun delivered :: "outgoing_message list \<Rightarrow> nat list \<Rightarrow> bytes list" where
  "delivered ms [] = []"
| "delivered ms (k # ks) =
     (if finished (sent_part (ms ! k)) then [om_data (ms ! k)] else []) @
     delivered (ms[k := sent_part (ms ! k)]) ks"

fun schedule_ok :: "outgoing_message list \<Rightarrow> nat list \<Rightarrow> bool" where
  "schedule_ok ms [] \<longleftrightarrow> True"
| "schedule_ok ms (k # ks) \<longleftrightarrow> k < length ms \<and> room (mset ms) (ms ! k) \<and>
     schedule_ok (ms[k := sent_part (ms ! k)]) ks"

definition forget_id :: "outgoing_message \<Rightarrow> outgoing_message" where
  "forget_id m = m\<lparr>om_id := None\<rparr>"

lemma forget_id_simps [simp]:
  "om_data (forget_id m) = om_data m" "om_offset (forget_id m) = om_offset m"
  "finished (forget_id m) = finished m" "in_flight (forget_id m) = in_flight m"
  "is_small (forget_id m) = is_small m" "fragment_end (forget_id m) = fragment_end m"
  "sent_part (forget_id m) = forget_id (sent_part m)"
  by (simp_all add: forget_id_def finished_def in_flight_def is_small_def fragment_end_def sent_part_def)

lemma room_forget: "room (image_mset forget_id M) (forget_id m) = room M m"
proof -
  have "filter_mset in_flight (image_mset forget_id M) = image_mset forget_id (filter_mset in_flight M)"
    by (induction M) auto
  then show ?thesis by (simp add: room_def image_mset.compositionality comp_def)
qed

lemma delivered_forget: "set ks \<subseteq> {..<length ms} \<Longrightarrow> delivered (map forget_id ms) ks = delivered ms ks"
proof (induction ks arbitrary: ms)
  case (Cons k ks)
  then show ?case using Cons.IH [of "ms[k := sent_part (ms ! k)]"] by (simp add: map_update [symmetric])
qed simp

lemma schedule_forget: "schedule_ok (map forget_id ms) ks = schedule_ok ms ks"
proof (induction ks arbitrary: ms)
  case (Cons k ks)
  show ?case
  proof (cases "k < length ms")
    case True
    then show ?thesis using Cons.IH [of "ms[k := sent_part (ms ! k)]"] room_forget [of "mset ms" "ms ! k"]
      by (simp add: map_update [symmetric])
  qed simp
qed simp

lemma schedule_bounds: "schedule_ok ms ks \<Longrightarrow> set ks \<subseteq> {..<length ms}"
  by (induction ks arbitrary: ms) force+

lemma mset_nth_update: "k < length ms \<Longrightarrow> mset (ms[k := m]) = add_mset m (mset ms - {#ms ! k#})"
  by (simp add: mset_update)

lemma encode_next_forget:
  assumes "encode_next write_message s m = (Inr packet, s', m')"
  shows "forget_id m' = forget_id (sent_part m)"
  using assms by (rule encode_nextE) (simp add: forget_id_def sent_part_def fragment_end_def)

lemma all_fragments_arrive:
  assumes pairs: "noise_pairs write_message read_message synced"
  shows "in_step synced s r (mset ms) \<Longrightarrow> schedule_ok ms ks
    \<Longrightarrow> encode_all write_message s ms ks = Some (packets, ms')
    \<Longrightarrow> decode_all read_message r packets = Inr (delivered ms ks)
      \<and> mset (map om_data (filter finished ms')) =
         mset (map om_data (filter finished ms)) + mset (delivered ms ks)"
proof (induction ks arbitrary: s r ms packets)
  case Nil
  then show ?case by simp
next
  case (Cons k ks)
  from Cons.prems(3) obtain p t m ps where e: "encode_next write_message s (ms ! k) = (Inr p, t, m)"
    and rest: "encode_all write_message t (ms[k := m]) ks = Some (ps, ms')" and "packets = p # ps"
    by (auto split: prod.splits sum.splits option.splits)
  from Cons.prems(2) have k: "k < length ms" and room: "room (mset ms) (ms ! k)"
    and ok: "schedule_ok (ms[k := sent_part (ms ! k)]) ks" by auto
  from k have M: "mset ms = add_mset (ms ! k) (mset ms - {#ms ! k#})" by simp
  obtain u where d: "decode read_message r p = (Inr (if finished m then [om_data m] else []), u)"
    and step: "in_step synced t u (mset (ms[k := m]))"
    using fragment_arrives [OF pairs, of s r "ms ! k" "mset ms - {#ms ! k#}" p t m] Cons.prems(1) room e k
    by (auto simp: mset_nth_update)
  note f = encode_next_forget [OF e]
  from arg_cong [OF f, of finished] arg_cong [OF f, of om_data]
  have same: "finished m = finished (sent_part (ms ! k))" "om_data m = om_data (ms ! k)"
    by (simp_all add: sent_part_def del: forget_id_simps(7))
  have shape: "map forget_id (ms[k := m]) = map forget_id (ms[k := sent_part (ms ! k)])"
    using f by (simp add: map_update)
  have ok': "schedule_ok (ms[k := m]) ks" using ok by (metis schedule_forget shape)
  have del: "delivered (ms[k := m]) ks = delivered (ms[k := sent_part (ms ! k)]) ks"
    using ok ok' shape by (metis delivered_forget schedule_bounds)
  note IH = Cons.IH [OF step ok' rest]
  have "\<not> finished (ms ! k)" using e by (rule encode_nextE)
  then have "mset (map om_data (filter finished (ms[k := m]))) =
      mset (map om_data (filter finished ms)) + mset (if finished m then [om_data m] else [])"
    using same by (subst (2) id_take_nth_drop [OF k]) (simp add: upd_conv_take_nth_drop [OF k])
  then show ?case using IH d same \<open>packets = p # ps\<close> del by (auto simp: ac_simps)
qed

section \<open>One message alone\<close>

definition unsent :: "outgoing_message \<Rightarrow> nat" where
  "unsent m = (if finished m then 0 else Suc (length (om_data m) - om_offset m))"

lemma unsent_less:
  assumes "encode_next write_message s m = (Inr packet, t, m')"
  shows "unsent m' < unsent m"
  using assms by (rule encode_nextE)
    (auto simp: unsent_def finished_def fragment_end_def FRAGMENT_BYTES_def)

function encode_rest ::
  "'n write_message \<Rightarrow> 'n channel \<Rightarrow> outgoing_message \<Rightarrow> (secure_error + bytes list) \<times> 'n channel" where
  "encode_rest write_message s m =
     (if finished m then (Inr [], s)
      else case encode_next write_message s m of
             (Inl e, s, _) \<Rightarrow> (Inl e, s)
           | (Inr packet, s, m) \<Rightarrow>
               (case encode_rest write_message s m of
                  (Inl e, s) \<Rightarrow> (Inl e, s)
                | (Inr packets, s) \<Rightarrow> (Inr (packet # packets), s)))"
  by auto
termination
proof (relation "measure (\<lambda>(_, _, m). unsent m)", goal_cases)
  case (2 wm s m x y packet t m')
  then have "encode_next wm s m = (Inr packet, t, m')" by simp
  then show ?case by (simp add: unsent_less)
qed simp

declare encode_rest.simps [simp del]

definition encode ::
  "'n write_message \<Rightarrow> 'n channel \<Rightarrow> bytes \<Rightarrow> (secure_error + bytes list) \<times> 'n channel" where
  "encode write_message s message =
     (case new_outgoing message of Inl e \<Rightarrow> (Inl e, s) | Inr m \<Rightarrow> encode_rest write_message s m)"

lemma rest_arrives:
  assumes pairs: "noise_pairs write_message read_message synced"
  shows "in_step synced s r (add_mset m M) \<Longrightarrow> room (add_mset m M) m \<Longrightarrow> \<not> finished m
    \<Longrightarrow> encode_rest write_message s m = (Inr packets, s')
    \<Longrightarrow> decode_all read_message r packets = Inr [om_data m]"
proof (induction "length (om_data m) - om_offset m" arbitrary: s r m packets rule: less_induct)
  case less
  note prems = less.prems
  from prems(3,4) obtain p t m' ps where e: "encode_next write_message s m = (Inr p, t, m')"
    and rest: "encode_rest write_message t m' = (Inr ps, s')" and "packets = p # ps"
    by (subst (asm) encode_rest.simps) (auto split: prod.splits sum.splits)
  obtain u where d: "decode read_message r p = (Inr (if finished m' then [om_data m'] else []), u)"
    and step: "in_step synced t u (add_mset m' M)"
    using fragment_arrives [OF pairs prems(1,2) e] by blast
  have m': "om_data m' = om_data m" "om_offset m < om_offset m'" "om_offset m' \<le> length (om_data m)"
    using e prems(1) by (auto elim!: encode_nextE simp: in_step_def dest: fragment_end_bounds)
  show ?case
  proof (cases "finished m'")
    case True
    with rest have "ps = []" by (simp add: encode_rest.simps)
    with True d m' \<open>packets = p # ps\<close> show ?thesis by simp
  next
    case False
    from m' have "room (add_mset m' M) m'" by (simp add: room_def)
    moreover have "length (om_data m') - om_offset m' < length (om_data m) - om_offset m"
      using m' by simp
    ultimately have "decode_all read_message u ps = Inr [om_data m']"
      using less.hyps step False rest by blast
    with d False m' \<open>packets = p # ps\<close> show ?thesis by simp
  qed
qed

lemma message_arrives: 
  assumes "noise_pairs write_message read_message synced" and "in_step synced s r {#}"
    and "encode write_message s message = (Inr packets, s')"
  shows "decode_all read_message r packets = Inr [message]"
proof -
  from assms(3) obtain m where m: "new_outgoing message = Inr m"
    and e: "encode_rest write_message s m = (Inr packets, s')"
    by (auto simp: encode_def split: sum.splits)
  note d = new_outgoingD [OF m]
  have "in_step synced s r (add_mset m {#})" "\<not> finished m" "room (add_mset m {#}) m"
    using assms(2) d
    by (auto simp: in_step_def message_ok_def in_flight_def finished_def room_def MAX_ASSEMBLIES_def
      MAX_MESSAGE_def MAX_ASSEMBLY_BYTES_def)
  from rest_arrives [OF assms(1) this(1,3,2) e] d show ?thesis by simp
qed

section \<open>Claims\<close>

text \<open>
  C27. However the fragments of several messages are interleaved, the other end puts together
  exactly the messages that were sent completely, each once and unchanged, in the order in which
  their last fragments were sent; as long as a message that needs several fragments is only
  started while fewer than eight others are under way and all fit in 64 MiB.
\<close>

theorem interleaved_messages_arrive:
  assumes "noise_pairs write_message read_message synced" and "synced a b"
    and "\<forall>m \<in> set ms. new_outgoing (om_data m) = Inr m" and "schedule_ok ms ks"
    and "encode_all write_message (new_channel a) ms ks = Some (packets, ms')"
  shows "decode_all read_message (new_channel b) packets = Inr (delivered ms ks) \<and>
    mset (delivered ms ks) = mset (map om_data (filter finished ms'))"
proof -
  have m: "message_ok m \<and> \<not> in_flight m \<and> \<not> finished m" if "m \<in> set ms" for m
    using new_outgoingD [OF bspec [OF assms(3) that]]
    by (simp add: message_ok_def in_flight_def finished_def)
  then have "in_step synced (new_channel a) (new_channel b) (mset ms)"
    using assms(2) by (auto simp: in_step_def receiver_ok_new) (auto simp: new_channel_def)
  from all_fragments_arrive [OF assms(1) this assms(4,5)] m show ?thesis by simp
qed

definition plain_write :: "nat write_message" where
  "plain_write n plain = Some (plain @ replicate 16 0, n + 1)"

definition plain_read :: "nat read_message" where
  "plain_read n packet = Some (take (length packet - 16) packet, n + 1)"

lemma plain_pairs: "noise_pairs plain_write plain_read (=)"
  by (auto simp: noise_pairs_def plain_write_def plain_read_def)

definition two_messages :: "outgoing_message list" where
  "two_messages = map (\<lambda>d. \<lparr>om_data = d, om_offset = 0, om_id = None\<rparr>)
     [replicate (FRAGMENT_BYTES + 1) 0, [1, 2]]"

theorem interleaved_messages_arrive_witness:
  "\<exists>packets. decode_all plain_read (new_channel 0) packets =
     Inr [[1, 2], replicate (FRAGMENT_BYTES + 1) 0]"
proof -
  have "\<exists>packets ms'. encode_all plain_write (new_channel 0) two_messages [0, 1, 0] = Some (packets, ms')"
    by (simp add: two_messages_def encode_next_def new_channel_def finished_def take_id_def
      fragment_end_def plain_write_def Let_def)
  then obtain packets ms' where
    e: "encode_all plain_write (new_channel 0) two_messages [0, 1, 0] = Some (packets, ms')" by blast
  have "\<forall>m \<in> set two_messages. new_outgoing (om_data m) = Inr m"
    by (simp add: two_messages_def new_outgoing_def MAX_MESSAGE_def FRAGMENT_BYTES_def)
  moreover have "schedule_ok two_messages [0, 1, 0]"
    by (simp add: two_messages_def room_def in_flight_def sent_part_def fragment_end_def is_small_def
      FRAGMENT_BYTES_def MAX_ASSEMBLIES_def MAX_ASSEMBLY_BYTES_def)
  moreover have "delivered two_messages [0, 1, 0] = [[1, 2], replicate (FRAGMENT_BYTES + 1) 0]"
    by (simp add: two_messages_def finished_def sent_part_def fragment_end_def FRAGMENT_BYTES_def)
  ultimately show ?thesis
    using interleaved_messages_arrive [OF plain_pairs refl _ _ e] by auto
qed

text \<open>
  C29. Whatever records arrive, well-formed or not, the receiver never holds more than eight
  messages in parts nor more than 64 MiB of them, what it has reserved is what they need, and
  no message it hands on is longer than 32 MiB.
\<close>

theorem receiver_memory_is_bounded:
  "let ch = foldl (\<lambda>ch packet. snd (decode read_message ch packet)) (new_channel n) packets in
   length (ch_pending ch) \<le> MAX_ASSEMBLIES \<and> ch_reserved ch \<le> MAX_ASSEMBLY_BYTES \<and>
   ch_reserved ch = held_total (ch_pending ch) \<and>
   (\<Sum>x\<leftarrow>ch_pending ch. length (as_data (snd x))) \<le> ch_reserved ch \<and>
   (case fst (decode read_message ch packet) of
      Inl _ \<Rightarrow> True | Inr out \<Rightarrow> list_all (\<lambda>d. length d \<le> MAX_MESSAGE) out)"
proof -
  let ?ch = "foldl (\<lambda>ch packet. snd (decode read_message ch packet)) (new_channel n) packets"
  have ok: "receiver_ok ?ch" by (rule receiving.run_inv) (rule receiver_ok_new)
  moreover have "(\<Sum>x\<leftarrow>ch_pending ?ch. length (as_data (snd x))) \<le> held_total (ch_pending ?ch)"
    using ok by (intro held_below_reserved) (auto simp: receiver_ok_def hget_Some_iff)
  moreover have "case fst (decode read_message ?ch packet) of
      Inl _ \<Rightarrow> True | Inr out \<Rightarrow> list_all (\<lambda>d. length d \<le> MAX_MESSAGE) out"
    using decode_ok(2) [OF ok, of read_message packet] by (auto simp: list_all_iff split: sum.split)
  ultimately show ?thesis unfolding Let_def by (auto simp: receiver_ok_def)
qed

end
