(* ===== verification/SecureOutbound.thy ===== *)
theory SecureOutbound
  imports SecureChannel "HOL-Library.Sublist"
begin

text \<open>
  What an end of the encrypted channel sends, and in which order
  (\<^verbatim>\<open>crates/secure/src/wire.rs\<close>, \<^verbatim>\<open>outbound.rs\<close>, \<^verbatim>\<open>messages.rs\<close>). Senders put encoded messages
  into two bounded queues under a budget of bytes; one writer takes them, lets heartbeats and
  small messages pass between the fragments of a large one, and never has more than one message
  in parts under way. JSON is a pair of functions. Each await point of a sender is a step of its
  own; a turn of the writer's loop is one step. The sink accepts what it is given.

  The lemmas show that messages of one socket arrive in their order, that the budget is exact,
  and that a writer that gets enough turns has sent everything.
\<close>

section \<open>Messages on the wire\<close>

datatype secure_request =
    Sq_Ping ustr
  | Sq_Http ustr ustr ustr "ustr option"
  | Sq_Open ustr ustr
  | Sq_Text ustr ustr
  | Sq_Binary ustr bytes
  | Sq_Close ustr

datatype secure_response =
    Sr_Pong ustr
  | Sr_Http ustr u16 ustr
  | Sr_Opened ustr
  | Sr_Text ustr ustr
  | Sr_Binary ustr bytes
  | Sr_Closed ustr
  | Sr_Error ustr ustr

fun response_id :: "secure_response \<Rightarrow> ustr" where
  "response_id (Sr_Pong i) = i"
| "response_id (Sr_Http i _ _) = i"
| "response_id (Sr_Opened i) = i"
| "response_id (Sr_Text i _) = i"
| "response_id (Sr_Binary i _) = i"
| "response_id (Sr_Closed i) = i"
| "response_id (Sr_Error i _) = i"

definition binary :: "ustr \<Rightarrow> bytes \<Rightarrow> secure_error + bytes" where
  "binary i data =
     (let n = length (as_bytes i) in
      if n = 0 \<or> n > 64 then Inl Err_InvalidMessage
      else Inr ([1, of_nat n] @ as_bytes i @ data))"

definition read_binary :: "bytes \<Rightarrow> secure_error + ustr \<times> bytes" where
  "read_binary bs =
     (if length bs < 2 then Inl Err_InvalidMessage
      else
        (let n = unat (bs ! 1) in
         if n = 0 \<or> n > 64 \<or> length bs < n + 2 then Inl Err_InvalidMessage
         else case from_utf8 (take n (drop 2 bs)) of
                None \<Rightarrow> Inl Err_InvalidMessage
              | Some i \<Rightarrow> Inr (i, drop (n + 2) bs)))"

fun request_key :: "secure_request \<Rightarrow> ustr" where
  "request_key (Sq_Http i _ _ _) = lit ''http:'' @ i"
| "request_key (Sq_Ping _) = lit ''heartbeat''"
| "request_key (Sq_Open i _) = lit ''ws:'' @ i"
| "request_key (Sq_Text i _) = lit ''ws:'' @ i"
| "request_key (Sq_Binary i _) = lit ''ws:'' @ i"
| "request_key (Sq_Close i) = lit ''ws:'' @ i"

fun request_is_control :: "secure_request \<Rightarrow> bool" where
  "request_is_control (Sq_Ping _) \<longleftrightarrow> True"
| "request_is_control _ \<longleftrightarrow> False"

fun response_is_control :: "secure_response \<Rightarrow> bool" where
  "response_is_control (Sr_Pong _) \<longleftrightarrow> True"
| "response_is_control _ \<longleftrightarrow> False"

definition json_message :: "('m \<Rightarrow> bytes option) \<Rightarrow> 'm \<Rightarrow> secure_error + bytes" where
  "json_message to_json m =
     (case to_json m of None \<Rightarrow> Inl Err_InvalidMessage | Some bs \<Rightarrow> Inr (0 # bs))"

definition encode_request ::
  "(secure_request \<Rightarrow> bytes option) \<Rightarrow> secure_request \<Rightarrow> secure_error + bytes" where
  "encode_request to_json m =
     (case m of Sq_Binary i data \<Rightarrow> binary i data | other \<Rightarrow> json_message to_json other)"

definition encode_response ::
  "(secure_response \<Rightarrow> bytes option) \<Rightarrow> secure_response \<Rightarrow> secure_error + bytes" where
  "encode_response to_json m =
     (case m of Sr_Binary i data \<Rightarrow> binary i data | other \<Rightarrow> json_message to_json other)"

definition wire_request ::
  "(bytes \<Rightarrow> secure_request option) \<Rightarrow> bytes \<Rightarrow> secure_error + secure_request" where
  "wire_request from_json bs =
     (case bs of
        b # rest \<Rightarrow>
          if b = 0 then
            (case from_json rest of None \<Rightarrow> Inl Err_InvalidMessage | Some m \<Rightarrow> Inr m)
          else if b = 1 then
            (case read_binary bs of Inl e \<Rightarrow> Inl e | Inr (i, data) \<Rightarrow> Inr (Sq_Binary i data))
          else Inl Err_InvalidMessage
      | [] \<Rightarrow> Inl Err_InvalidMessage)"

definition wire_response ::
  "(bytes \<Rightarrow> secure_response option) \<Rightarrow> bytes \<Rightarrow> secure_error + secure_response" where
  "wire_response from_json bs =
     (case bs of
        b # rest \<Rightarrow>
          if b = 0 then
            (case from_json rest of None \<Rightarrow> Inl Err_InvalidMessage | Some m \<Rightarrow> Inr m)
          else if b = 1 then
            (case read_binary bs of Inl e \<Rightarrow> Inl e | Inr (i, data) \<Rightarrow> Inr (Sr_Binary i data))
          else Inl Err_InvalidMessage
      | [] \<Rightarrow> Inl Err_InvalidMessage)"

lemma read_binary_of:
  assumes "binary i data = Inr bs" "list_all is_scalar i"
  shows "\<exists>n rest. bs = 1 # n # rest \<and> read_binary bs = Inr (i, data)"
proof -
  let ?n = "length (as_bytes i)"
  from assms(1) have n: "0 < ?n" "?n \<le> 64" and bs: "bs = 1 # of_nat ?n # as_bytes i @ data"
    by (auto simp: binary_def Let_def split: if_splits)
  then have "unat (of_nat ?n :: u8) = ?n" by (simp add: unat_of_nat)
  with n bs assms(2) show ?thesis by (simp add: read_binary_def from_utf8_as_bytes)
qed

text \<open>
  What the app encodes the hub reads back: a request survives the wire, in JSON or, for the
  data of a socket, as raw bytes, whatever the data is. (For responses see below.)
\<close>

theorem wire_messages_survive:
  assumes "\<forall>m bs. to_json m = Some bs \<longrightarrow> from_json bs = Some m"
    and "\<forall>i data. m = Sq_Binary i data \<longrightarrow> list_all is_scalar i"
    and "encode_request to_json m = Inr bs"
  shows "wire_request from_json bs = Inr m"
proof (cases "\<exists>i data. m = Sq_Binary i data")
  case True
  with assms(2,3) show ?thesis
    using read_binary_of by (fastforce simp: encode_request_def wire_request_def)
next
  case False
  with assms(3) obtain js where "to_json m = Some js" "bs = 0 # js"
    by (cases m) (auto simp: encode_request_def json_message_def split: option.splits)
  with assms(1) show ?thesis by (simp add: wire_request_def)
qed

theorem wire_messages_survive_witness:
  "wire_request (\<lambda>bs. if bs = [7] then Some (Sq_Ping []) else None)
     (1 # 1 # as_bytes (lit ''a'') @ [0, 255]) = Inr (Sq_Binary (lit ''a'') [0, 255])"
  by (rule wire_messages_survive [where to_json = "\<lambda>m. if m = Sq_Ping [] then Some [7] else None"])
    (auto simp: encode_request_def binary_def lit_def as_bytes_def utf8_char_def is_scalar_def)

lemma wire_responses_survive:
  assumes "\<forall>m bs. to_json m = Some bs \<longrightarrow> from_json bs = Some m"
    and "\<forall>i data. m = Sr_Binary i data \<longrightarrow> list_all is_scalar i"
    and "encode_response to_json m = Inr bs"
  shows "wire_response from_json bs = Inr m"
proof (cases "\<exists>i data. m = Sr_Binary i data")
  case True
  with assms(2,3) show ?thesis
    using read_binary_of by (fastforce simp: encode_response_def wire_response_def)
next
  case False
  with assms(3) obtain js where "to_json m = Some js" "bs = 0 # js"
    by (cases m) (auto simp: encode_response_def json_message_def split: option.splits)
  with assms(1) show ?thesis by (simp add: wire_response_def)
qed

section \<open>The queues\<close>

definition QUEUED_BYTES :: nat where "QUEUED_BYTES = 64 * 1024 * 1024"
definition DATA_SLOTS :: nat where "DATA_SLOTS = 64"
definition CONTROL_SLOTS :: nat where "CONTROL_SLOTS = 4"

record queued =
  qd_key :: ustr
  qd_message :: outgoing_message
  qd_permit :: "nat option"

record outbound =
  ob_data :: "queued list"
  ob_control :: "queued list"
  ob_budget :: nat
  wr_waiting :: "queued list"
  wr_bulk :: "queued option"
  wr_streak :: nat
  wr_parked :: bool

definition queue :: outbound where
  "queue = \<lparr>ob_data = [], ob_control = [], ob_budget = QUEUED_BYTES, wr_waiting = [],
     wr_bulk = None, wr_streak = 0, wr_parked = False\<rparr>"

definition is_idle :: "outbound \<Rightarrow> bool" where
  "is_idle w \<longleftrightarrow> ob_budget w = QUEUED_BYTES"

definition as_u32 :: "nat \<Rightarrow> nat" where
  "as_u32 n = unat (of_nat n :: u32)"

datatype send_error = Invalid_Heartbeat | Queue_Full | Bad_Message secure_error

definition try_send ::
  "bool \<Rightarrow> ustr \<Rightarrow> secure_error + bytes \<Rightarrow> outbound \<Rightarrow> (send_error + queued) \<times> outbound" where
  "try_send control key encoded w =
     (case encoded of
        Inl e \<Rightarrow> (Inl (Bad_Message e), w)
      | Inr bs \<Rightarrow>
          if control \<and> length bs > FRAGMENT_BYTES then (Inl Invalid_Heartbeat, w)
          else if \<not> control \<and> as_u32 (length bs) > ob_budget w then (Inl Queue_Full, w)
          else case new_outgoing bs of
                 Inl e \<Rightarrow> (Inl (Bad_Message e), w)
               | Inr m \<Rightarrow>
                   (let q = \<lparr>qd_key = key, qd_message = m,
                      qd_permit = if control then None else Some (as_u32 (length bs))\<rparr> in
                    if control then
                      if length (ob_control w) \<ge> CONTROL_SLOTS then (Inl Queue_Full, w)
                      else (Inr q, w\<lparr>ob_control := ob_control w @ [q]\<rparr>)
                    else
                      if length (ob_data w) \<ge> DATA_SLOTS then (Inl Queue_Full, w)
                      else (Inr q, w\<lparr>ob_data := ob_data w @ [q],
                              ob_budget := ob_budget w - as_u32 (length bs)\<rparr>)))"

text \<open>
  \<^verbatim>\<open>send\<close> of a data message waits twice: for its bytes in the budget, then for a slot. The message
  it carries from the one to the other holds its permit.
\<close>

definition send_message :: "ustr \<Rightarrow> secure_error + bytes \<Rightarrow> send_error + queued" where
  "send_message key encoded =
     (case encoded of
        Inl e \<Rightarrow> Inl (Bad_Message e)
      | Inr bs \<Rightarrow>
          (case new_outgoing bs of
             Inl e \<Rightarrow> Inl (Bad_Message e)
           | Inr m \<Rightarrow> Inr \<lparr>qd_key = key, qd_message = m, qd_permit = Some (as_u32 (length bs))\<rparr>))"

definition permits :: "queued \<Rightarrow> nat" where
  "permits q = (case qd_permit q of None \<Rightarrow> 0 | Some n \<Rightarrow> n)"

definition send_acquire :: "queued \<Rightarrow> outbound \<Rightarrow> outbound option" where
  "send_acquire q w =
     (if permits q \<le> ob_budget w then Some (w\<lparr>ob_budget := ob_budget w - permits q\<rparr>) else None)"

definition send_push :: "queued \<Rightarrow> outbound \<Rightarrow> outbound option" where
  "send_push q w =
     (if length (ob_data w) < DATA_SLOTS then Some (w\<lparr>ob_data := ob_data w @ [q]\<rparr>) else None)"

section \<open>The writer\<close>

definition WAITING_MAX :: nat where "WAITING_MAX = 64"
definition STREAK_MAX :: nat where "STREAK_MAX = 8"

definition refill :: "outbound \<Rightarrow> outbound" where
  "refill w =
     (let n = WAITING_MAX - length (wr_waiting w) in
      w\<lparr>wr_waiting := wr_waiting w @ take n (ob_data w), ob_data := drop n (ob_data w)\<rparr>)"

definition may_pass :: "queued list \<Rightarrow> queued option \<Rightarrow> nat \<Rightarrow> bool" where
  "may_pass waiting bulk k \<longleftrightarrow> is_small (qd_message (waiting ! k)) \<and>
     (case bulk of None \<Rightarrow> True | Some b \<Rightarrow> qd_key b \<noteq> qd_key (waiting ! k)) \<and>
     \<not> list_ex (\<lambda>earlier. qd_key earlier = qd_key (waiting ! k)) (take k waiting)"

definition first_small :: "queued list \<Rightarrow> queued option \<Rightarrow> nat option" where
  "first_small waiting bulk = List.find (may_pass waiting bulk) [0..<length waiting]"

definition pick_data :: "outbound \<Rightarrow> queued option \<times> outbound" where
  "pick_data w =
     (let streak_over = (case wr_bulk w of
            Some b \<Rightarrow> (Some b, w\<lparr>wr_bulk := None, wr_streak := 0\<rparr>)
          | None \<Rightarrow> (case wr_waiting w of
                       [] \<Rightarrow> (None, w\<lparr>wr_streak := 0\<rparr>)
                     | q # qs \<Rightarrow> (Some q, w\<lparr>wr_waiting := qs, wr_streak := 0\<rparr>)))
      in case first_small (wr_waiting w) (wr_bulk w) of
           Some k \<Rightarrow>
             if wr_streak w < STREAK_MAX
             then (Some (wr_waiting w ! k),
                   w\<lparr>wr_waiting := take k (wr_waiting w) @ drop (Suc k) (wr_waiting w),
                     wr_streak := Suc (wr_streak w)\<rparr>)
             else streak_over
         | None \<Rightarrow> streak_over)"

definition pick :: "outbound \<Rightarrow> queued option \<times> outbound" where
  "pick w =
     (let w = refill w in
      case ob_control w of
        c # cs \<Rightarrow> (Some c, w\<lparr>ob_control := cs\<rparr>)
      | [] \<Rightarrow> pick_data w)"

text \<open>The \<^verbatim>\<open>select!\<close> of a writer that found nothing to do.\<close>

definition wake :: "outbound \<Rightarrow> outbound" where
  "wake w =
     (case ob_control w of
        c # cs \<Rightarrow> w\<lparr>ob_control := cs, wr_waiting := c # wr_waiting w, wr_parked := False\<rparr>
      | [] \<Rightarrow> (case ob_data w of
                 q # qs \<Rightarrow> w\<lparr>ob_data := qs, wr_waiting := wr_waiting w @ [q], wr_parked := False\<rparr>
               | [] \<Rightarrow> w))"

text \<open>
  A turn of the loop: what was sent, if anything, and the message that is finished with it. A
  finished message is dropped and gives its permit back.
\<close>

definition turn ::
  "'n write_message \<Rightarrow> 'n channel \<Rightarrow> outbound
     \<Rightarrow> (secure_error + (bytes \<times> queued option) option) \<times> 'n channel \<times> outbound" where
  "turn write_message s w =
     (if wr_parked w then (Inr None, s, wake w)
      else case pick w of
             (None, w) \<Rightarrow> (Inr None, s, w\<lparr>wr_parked := True\<rparr>)
           | (Some q, w) \<Rightarrow>
               (case encode_next write_message s (qd_message q) of
                  (Inl e, s, _) \<Rightarrow> (Inl e, s, w)
                | (Inr packet, s, m) \<Rightarrow>
                    (let q = q\<lparr>qd_message := m\<rparr> in
                     if finished m
                     then (Inr (Some (packet, Some q)), s, w\<lparr>ob_budget := ob_budget w + permits q\<rparr>)
                     else (Inr (Some (packet, None)), s, w\<lparr>wr_bulk := Some q\<rparr>))))"

section \<open>Whole runs\<close>

text \<open>
  The queues in the order a message of one socket passes them, and what of one socket is in a
  list. Heartbeats have no permit and belong to no socket.
\<close>

definition option_list :: "'a option \<Rightarrow> 'a list" where
  "option_list x = (case x of None \<Rightarrow> [] | Some y \<Rightarrow> [y])"

definition pipeline :: "outbound \<Rightarrow> queued list" where
  "pipeline w = option_list (wr_bulk w) @ wr_waiting w @ ob_data w"

definition everything :: "outbound \<Rightarrow> queued multiset" where
  "everything w = mset (pipeline w) + mset (ob_control w)"

definition lane :: "ustr \<Rightarrow> queued list \<Rightarrow> bytes list" where
  "lane key qs = map (\<lambda>q. om_data (qd_message q))
     (filter (\<lambda>q. qd_permit q \<noteq> None \<and> qd_key q = key) qs)"

record 'n sending =
  sn_channel :: "'n channel"
  sn_out :: outbound
  sn_held :: "queued list"
  sn_arrived :: "queued list"
  sn_done :: "queued list"
  sn_packets :: "bytes list"
  sn_error :: "secure_error option"

datatype sending_step =
    Do_TrySend bool ustr "secure_error + bytes"
  | Do_Acquire ustr "secure_error + bytes"
  | Do_Push nat
  | Do_Turn

fun exec_send :: "'n write_message \<Rightarrow> 'n sending \<Rightarrow> sending_step \<Rightarrow> 'n sending" where
  "exec_send write_message st (Do_TrySend control key encoded) =
     (case try_send control key encoded (sn_out st) of
        (Inl _, w) \<Rightarrow> st\<lparr>sn_out := w\<rparr>
      | (Inr q, w) \<Rightarrow> st\<lparr>sn_out := w, sn_arrived := sn_arrived st @ [q]\<rparr>)"
| "exec_send write_message st (Do_Acquire key encoded) =
     (case send_message key encoded of
        Inl _ \<Rightarrow> st
      | Inr q \<Rightarrow> (case send_acquire q (sn_out st) of
                    None \<Rightarrow> st
                  | Some w \<Rightarrow> st\<lparr>sn_out := w, sn_held := sn_held st @ [q]\<rparr>))"
| "exec_send write_message st (Do_Push k) =
     (if k < length (sn_held st)
      then (case send_push (sn_held st ! k) (sn_out st) of
              None \<Rightarrow> st
            | Some w \<Rightarrow> st\<lparr>sn_out := w, sn_arrived := sn_arrived st @ [sn_held st ! k],
                         sn_held := take k (sn_held st) @ drop (Suc k) (sn_held st)\<rparr>)
      else st)"
| "exec_send write_message st Do_Turn =
     (if sn_error st \<noteq> None then st
      else case turn write_message (sn_channel st) (sn_out st) of
             (Inl e, s, w) \<Rightarrow> st\<lparr>sn_channel := s, sn_out := w, sn_error := Some e\<rparr>
           | (Inr None, s, w) \<Rightarrow> st\<lparr>sn_channel := s, sn_out := w\<rparr>
           | (Inr (Some (packet, fin)), s, w) \<Rightarrow>
               st\<lparr>sn_channel := s, sn_out := w, sn_packets := sn_packets st @ [packet],
                 sn_done := sn_done st @ option_list fin\<rparr>)"

definition start_sending :: "'n \<Rightarrow> 'n sending" where
  "start_sending noise = \<lparr>sn_channel = new_channel noise, sn_out = queue, sn_held = [],
     sn_arrived = [], sn_done = [], sn_packets = [], sn_error = None\<rparr>"

abbreviation run_sending :: "'n write_message \<Rightarrow> 'n \<Rightarrow> sending_step list \<Rightarrow> 'n sending" where
  "run_sending write_message noise steps \<equiv> foldl (exec_send write_message) (start_sending noise) steps"

section \<open>What the queues hold\<close>

definition permit_ok :: "queued \<Rightarrow> bool" where
  "permit_ok q \<longleftrightarrow> message_ok (qd_message q) \<and>
     (case qd_permit q of None \<Rightarrow> is_small (qd_message q) | Some n \<Rightarrow> n = length (om_data (qd_message q)))"

definition fresh_queued :: "queued \<Rightarrow> bool" where
  "fresh_queued q \<longleftrightarrow> permit_ok q \<and> om_offset (qd_message q) = 0"

definition moving :: "queued \<Rightarrow> bool" where
  "moving q \<longleftrightarrow> permit_ok q \<and> in_flight (qd_message q) \<and> qd_permit q \<noteq> None"

definition queues_ok :: "outbound \<Rightarrow> bool" where
  "queues_ok w \<longleftrightarrow> (\<forall>q \<in> set (wr_waiting w) \<union> set (ob_data w) \<union> set (ob_control w). fresh_queued q) \<and>
     (\<forall>q \<in> set (ob_control w). qd_permit q = None) \<and>
     (\<forall>b. wr_bulk w = Some b \<longrightarrow> moving b)"

lemma option_list_simps [simp]:
  "option_list None = []" "option_list (Some x) = [x]" "option_list y = [] \<longleftrightarrow> y = None"
  by (simp_all add: option_list_def split: option.split)

lemma lane_simps [simp]:
  "lane k [] = []" "lane k (xs @ ys) = lane k xs @ lane k ys"
  "lane k (q # qs) = (if qd_permit q \<noteq> None \<and> qd_key q = k then [om_data (qd_message q)] else []) @ lane k qs"
  by (simp_all add: lane_def)

lemma lane_empty: "(\<And>q. q \<in> set qs \<Longrightarrow> qd_key q \<noteq> k) \<Longrightarrow> lane k qs = []"
  by (induction qs) auto

lemma refill_same:
  "everything (refill w) = everything w" "pipeline (refill w) = pipeline w"
  "queues_ok w \<Longrightarrow> queues_ok (refill w)" "wr_bulk (refill w) = wr_bulk w"
  "ob_control (refill w) = ob_control w" "ob_budget (refill w) = ob_budget w"
  "wr_parked (refill w) = wr_parked w" "wr_waiting (refill w) = [] \<Longrightarrow> ob_data (refill w) = []"
  by (auto simp: refill_def everything_def pipeline_def queues_ok_def Let_def WAITING_MAX_def
      simp flip: mset_append dest: in_set_takeD in_set_dropD)

lemma first_smallD:
  assumes "first_small waiting bulk = Some k"
  shows "k < length waiting" "may_pass waiting bulk k"
  using assms by (auto simp: first_small_def find_Some_iff)

lemma take_nth_drop_mset: "k < length xs \<Longrightarrow> mset xs = add_mset (xs ! k) (mset (take k xs @ drop (Suc k) xs))"
  by (subst (1) id_take_nth_drop [of k xs]) auto

lemma lane_overtake:
  assumes "k < length xs" and "\<not> list_ex (\<lambda>q. qd_key q = qd_key (xs ! k)) (take k xs)"
  shows "lane key xs = lane key [xs ! k] @ lane key (take k xs @ drop (Suc k) xs)"
proof -
  have "lane key xs = lane key (take k xs @ xs ! k # drop (Suc k) xs)"
    using id_take_nth_drop [OF assms(1)] by simp
  moreover have "lane key (take k xs) = []" if "qd_key (xs ! k) = key"
    using assms(2) that by (intro lane_empty) (auto simp: list_ex_iff)
  ultimately show ?thesis by auto
qed

text \<open>Whatever the writer picks next, no message of a socket is overtaken by a later one.\<close>

definition picked_from :: "outbound \<Rightarrow> queued \<Rightarrow> outbound \<Rightarrow> bool" where
  "picked_from w q w' \<longleftrightarrow> everything w = add_mset q (everything w') \<and>
     (\<forall>key. lane key (pipeline w) = lane key [q] @ lane key (pipeline w')) \<and>
     ob_budget w' = ob_budget w \<and> wr_parked w' = wr_parked w \<and> queues_ok w' \<and>
     (wr_bulk w = Some q \<and> wr_bulk w' = None \<or>
      fresh_queued q \<and> wr_bulk w' = wr_bulk w \<and> (wr_bulk w = None \<or> is_small (qd_message q)))"

lemma pick_data_from:
  assumes "queues_ok w" "pick_data w = (Some q, w')"
  shows "picked_from w q w'"
proof -
  have over: "picked_from w q w'"
    if "(case wr_bulk w of
            Some b \<Rightarrow> (Some b, w\<lparr>wr_bulk := None, wr_streak := 0\<rparr>)
          | None \<Rightarrow> (case wr_waiting w of
                       [] \<Rightarrow> (None, w\<lparr>wr_streak := 0\<rparr>)
                     | q # qs \<Rightarrow> (Some q, w\<lparr>wr_waiting := qs, wr_streak := 0\<rparr>))) = (Some q, w')"
    using that assms(1)
    by (auto simp: picked_from_def everything_def pipeline_def queues_ok_def split: option.splits list.splits)
  show ?thesis
  proof (cases "first_small (wr_waiting w) (wr_bulk w)")
    case None
    with assms(2) over show ?thesis by (simp add: pick_data_def Let_def)
  next
    case (Some k)
    note small = first_smallD [OF Some]
    show ?thesis
    proof (cases "wr_streak w < STREAK_MAX")
      case True
      with assms(2) Some have q: "q = wr_waiting w ! k"
        and w': "w' = w\<lparr>wr_waiting := take k (wr_waiting w) @ drop (Suc k) (wr_waiting w),
                     wr_streak := Suc (wr_streak w)\<rparr>"
        by (auto simp: pick_data_def)
      have mem: "q \<in> set (wr_waiting w)" using q small(1) by simp
      note sub = set_take_subset [of k "wr_waiting w"] set_drop_subset [of "Suc k" "wr_waiting w"]
      have free: "lane key (option_list (wr_bulk w)) = []" if "qd_key q = key" for key
        using small(2) q that by (auto simp: may_pass_def split: option.splits)
      have passed: "\<not> list_ex (\<lambda>q'. qd_key q' = qd_key (wr_waiting w ! k)) (take k (wr_waiting w))"
        using small(2) by (simp add: may_pass_def)
      have "everything w = add_mset q (everything w')"
        using take_nth_drop_mset [OF small(1)] q w' by (simp add: everything_def pipeline_def)
      moreover have "lane key (pipeline w) = lane key [q] @ lane key (pipeline w')" for key
        using lane_overtake [OF small(1) passed, of key] q w' free [of key]
        by (auto simp: pipeline_def split: if_splits)
      moreover have "queues_ok w'"
        using assms(1) w' sub mem small(1) by (auto simp: queues_ok_def)
      moreover have "is_small (qd_message q)" using small(2) q by (simp add: may_pass_def)
      moreover have "fresh_queued q" using assms(1) mem by (simp add: queues_ok_def)
      ultimately show ?thesis using w' by (simp add: picked_from_def)
    next
      case False
      with assms(2) Some over show ?thesis by (simp add: pick_data_def Let_def)
    qed
  qed
qed

lemma pick_from:
  assumes "queues_ok w" "pick w = (Some q, w')"
  shows "picked_from w q w'"
proof (cases "ob_control w")
  case Nil
  with assms pick_data_from [of "refill w" q w'] show ?thesis
    by (simp add: pick_def Let_def refill_same picked_from_def)
next
  case (Cons c cs)
  have ok: "queues_ok (refill w)" using assms(1) by (rule refill_same)
  have c: "ob_control (refill w) = c # cs" using Cons by (simp add: refill_same)
  from assms(2) c Cons have "q = c" "w' = refill w\<lparr>ob_control := cs\<rparr>"
    by (auto simp: pick_def Let_def refill_same)
  moreover have "fresh_queued c" "qd_permit c = None" using ok c by (auto simp: queues_ok_def)
  moreover have "queues_ok (refill w\<lparr>ob_control := cs\<rparr>)" using ok c by (auto simp: queues_ok_def)
  moreover have "everything (refill w) = add_mset c (everything (refill w\<lparr>ob_control := cs\<rparr>))"
    using c by (simp add: everything_def pipeline_def)
  moreover have "pipeline (refill w\<lparr>ob_control := cs\<rparr>) = pipeline w"
    using refill_same(2) [of w] by (simp add: pipeline_def)
  ultimately show ?thesis
    by (simp add: picked_from_def refill_same fresh_queued_def permit_ok_def)
qed

lemma pick_none:
  assumes "pick w = (None, w')"
  shows "everything w = {#}" "w' = refill w\<lparr>wr_streak := 0\<rparr>"
proof -
  from assms have c: "ob_control (refill w) = []" and p: "pick_data (refill w) = (None, w')"
    by (auto simp: pick_def Let_def split: list.splits)
  then have "wr_bulk (refill w) = None \<and> wr_waiting (refill w) = [] \<and> w' = refill w\<lparr>wr_streak := 0\<rparr>"
    by (auto simp: pick_data_def Let_def split: option.splits list.splits if_splits)
  then show "w' = refill w\<lparr>wr_streak := 0\<rparr>" "everything w = {#}"
    using c refill_same(8) [of w] refill_same(1) [of w] by (auto simp: everything_def pipeline_def)
qed

section \<open>Runs stay in step with the receiver\<close>

abbreviation received :: "'k read_message \<Rightarrow> 'k \<Rightarrow> bytes list \<Rightarrow> 'k channel" where
  "received read_message noise packets \<equiv>
     foldl (\<lambda>ch packet. snd (decode read_message ch packet)) (new_channel noise) packets"

lemma decode_all_snoc:
  "decode_all rm r ps = Inr outs
     \<Longrightarrow> decode rm (foldl (\<lambda>ch packet. snd (decode rm ch packet)) r ps) p = (Inr out, r')
     \<Longrightarrow> decode_all rm r (ps @ [p]) = Inr (outs @ out)"
  by (induction ps arbitrary: r outs) (auto split: prod.splits sum.splits)

definition lanes_in_order :: "'n sending \<Rightarrow> bool" where
  "lanes_in_order st \<longleftrightarrow> (\<forall>key. if sn_error st = None
      then lane key (sn_arrived st) = lane key (sn_done st) @ lane key (pipeline (sn_out st))
      else prefix (lane key (sn_done st)) (lane key (sn_arrived st)))"

definition within_budget :: "'n sending \<Rightarrow> bool" where
  "within_budget st \<longleftrightarrow>
     (let used = (\<Sum>q \<in># mset (sn_held st) + everything (sn_out st). permits q) in
      if sn_error st = None then ob_budget (sn_out st) + used = QUEUED_BYTES
      else ob_budget (sn_out st) + used \<le> QUEUED_BYTES)"

definition queues_typed :: "'n sending \<Rightarrow> bool" where
  "queues_typed st \<longleftrightarrow> queues_ok (sn_out st) \<and>
     (\<forall>q \<in> set (sn_held st). fresh_queued q \<and> qd_permit q \<noteq> None) \<and>
     (wr_parked (sn_out st) \<longrightarrow> wr_waiting (sn_out st) = [] \<and> wr_bulk (sn_out st) = None)"

definition receiver_follows ::
  "'k read_message \<Rightarrow> ('n \<Rightarrow> 'k \<Rightarrow> bool) \<Rightarrow> 'k \<Rightarrow> 'n sending \<Rightarrow> bool" where
  "receiver_follows read_message synced b st \<longleftrightarrow>
     decode_all read_message (new_channel b) (sn_packets st) =
       Inr (map (\<lambda>q. om_data (qd_message q)) (sn_done st)) \<and>
     (sn_error st = None \<longrightarrow> in_step synced (sn_channel st) (received read_message b (sn_packets st))
        (mset (map qd_message (option_list (wr_bulk (sn_out st))))))"

lemma as_u32_exact: "n \<le> MAX_MESSAGE \<Longrightarrow> as_u32 n = n"
  by (simp add: as_u32_def MAX_MESSAGE_def unat_of_nat)

lemma fresh_new:
  assumes "new_outgoing bs = Inr m" and "control \<Longrightarrow> length bs \<le> FRAGMENT_BYTES"
  shows "fresh_queued \<lparr>qd_key = key, qd_message = m,
    qd_permit = if control then None else Some (as_u32 (length bs))\<rparr>"
  using new_outgoingD [OF assms(1)] assms(2)
  by (auto simp: fresh_queued_def permit_ok_def message_ok_def is_small_def as_u32_exact)

lemma try_send_from:
  assumes "try_send control key encoded w = (Inr q, w')"
  shows "fresh_queued q"
    and "qd_permit q = None \<and> w' = w\<lparr>ob_control := ob_control w @ [q]\<rparr> \<or>
      qd_permit q \<noteq> None \<and> permits q \<le> ob_budget w \<and>
      w' = w\<lparr>ob_data := ob_data w @ [q], ob_budget := ob_budget w - permits q\<rparr>"
  using assms fresh_new [of _ _ control key]
  by (auto simp: try_send_def Let_def permits_def split: sum.splits if_splits)

lemma try_send_not: "try_send control key encoded w = (Inl e, w') \<Longrightarrow> w' = w"
  by (auto simp: try_send_def Let_def split: sum.splits if_splits)

lemma send_message_from:
  "send_message key encoded = Inr q \<Longrightarrow> fresh_queued q \<and> qd_permit q \<noteq> None"
  using fresh_new [of _ _ False key] by (auto simp: send_message_def split: sum.splits)

definition sending_ok ::
  "'k read_message \<Rightarrow> ('n \<Rightarrow> 'k \<Rightarrow> bool) \<Rightarrow> 'k \<Rightarrow> 'n sending \<Rightarrow> bool" where
  "sending_ok read_message synced b st \<longleftrightarrow> queues_typed st \<and> lanes_in_order st \<and> within_budget st \<and>
     receiver_follows read_message synced b st"

lemma ok_control:
  assumes "sending_ok rm synced b st" "fresh_queued q" "qd_permit q = None"
  shows "sending_ok rm synced b (st\<lparr>sn_out := sn_out st\<lparr>ob_control := ob_control (sn_out st) @ [q]\<rparr>,
    sn_arrived := sn_arrived st @ [q]\<rparr>)"
  using assms
  by (auto simp: sending_ok_def queues_typed_def queues_ok_def lanes_in_order_def within_budget_def
      receiver_follows_def everything_def pipeline_def permits_def Let_def split: if_splits)

lemma ok_data:
  assumes "sending_ok rm synced b st" "fresh_queued q" "qd_permit q \<noteq> None" "permits q \<le> ob_budget (sn_out st)"
  shows "sending_ok rm synced b (st\<lparr>sn_out := sn_out st\<lparr>ob_data := ob_data (sn_out st) @ [q],
    ob_budget := ob_budget (sn_out st) - permits q\<rparr>, sn_arrived := sn_arrived st @ [q]\<rparr>)"
  using assms
  by (auto simp: sending_ok_def queues_typed_def queues_ok_def lanes_in_order_def within_budget_def
      receiver_follows_def everything_def pipeline_def Let_def split: if_splits)

lemma ok_acquire:
  assumes "sending_ok rm synced b st" "fresh_queued q" "qd_permit q \<noteq> None" "permits q \<le> ob_budget (sn_out st)"
  shows "sending_ok rm synced b (st\<lparr>sn_out := sn_out st\<lparr>ob_budget := ob_budget (sn_out st) - permits q\<rparr>,
    sn_held := sn_held st @ [q]\<rparr>)"
  using assms
  by (auto simp: sending_ok_def queues_typed_def queues_ok_def lanes_in_order_def within_budget_def
      receiver_follows_def everything_def pipeline_def Let_def split: if_splits)

lemma ok_push:
  assumes "sending_ok rm synced b st" "k < length (sn_held st)"
  shows "sending_ok rm synced b (st\<lparr>sn_out := sn_out st\<lparr>ob_data := ob_data (sn_out st) @ [sn_held st ! k]\<rparr>,
    sn_arrived := sn_arrived st @ [sn_held st ! k],
    sn_held := take k (sn_held st) @ drop (Suc k) (sn_held st)\<rparr>)"
  using assms take_nth_drop_mset [OF assms(2)] nth_mem [OF assms(2)]
  by (auto simp: sending_ok_def queues_typed_def queues_ok_def lanes_in_order_def within_budget_def
      receiver_follows_def everything_def pipeline_def Let_def dest: in_set_takeD in_set_dropD
      split: if_splits)

text \<open>A turn of the writer.\<close>

lemma picked_offset:
  assumes "picked_from w q w'" "queues_ok w"
  shows "permit_ok q" "\<not> finished (qd_message q)"
  using assms
  by (auto simp: picked_from_def queues_ok_def fresh_queued_def moving_def permit_ok_def message_ok_def
      in_flight_def finished_def)

lemma picked_in_step:
  assumes "picked_from w q w'" "queues_ok w"
    and "in_step synced s r (mset (map qd_message (option_list (wr_bulk w))))"
  shows "in_step synced s r (add_mset (qd_message q) (mset (map qd_message (option_list (wr_bulk w')))))"
    and "room (add_mset (qd_message q) (mset (map qd_message (option_list (wr_bulk w'))))) (qd_message q)"
proof -
  have "message_ok (qd_message q)" using picked_offset [OF assms(1,2)] by (simp add: permit_ok_def)
  moreover have "\<not> in_flight (qd_message q)" if "fresh_queued q"
    using that by (simp add: fresh_queued_def in_flight_def)
  ultimately show "in_step synced s r (add_mset (qd_message q) (mset (map qd_message (option_list (wr_bulk w')))))"
    using assms by (auto simp: picked_from_def in_step_def)
  show "room (add_mset (qd_message q) (mset (map qd_message (option_list (wr_bulk w'))))) (qd_message q)"
    using assms(1,2) \<open>message_ok (qd_message q)\<close>
    by (auto simp: picked_from_def room_def queues_ok_def moving_def in_flight_def fresh_queued_def
        message_ok_def MAX_ASSEMBLIES_def MAX_ASSEMBLY_BYTES_def MAX_MESSAGE_def)
qed

lemma turn_cases:
  assumes "turn write_message s w = (res, s', w')"
  obtains (wakes) "wr_parked w" "res = Inr None" "s' = s" "w' = wake w"
  | (parks) v where "\<not> wr_parked w" "pick w = (None, v)" "res = Inr None" "s' = s"
      "w' = v\<lparr>wr_parked := True\<rparr>"
  | (fails) q e m where "\<not> wr_parked w" "pick w = (Some q, w')" "res = Inl e"
      "encode_next write_message s (qd_message q) = (Inl e, s', m)"
  | (ends) q v packet m where "\<not> wr_parked w" "pick w = (Some q, v)"
      "encode_next write_message s (qd_message q) = (Inr packet, s', m)" "finished m"
      "res = Inr (Some (packet, Some (q\<lparr>qd_message := m\<rparr>)))" "w' = v\<lparr>ob_budget := ob_budget v + permits q\<rparr>"
  | (goes_on) q v packet m where "\<not> wr_parked w" "pick w = (Some q, v)"
      "encode_next write_message s (qd_message q) = (Inr packet, s', m)" "\<not> finished m"
      "res = Inr (Some (packet, None))" "w' = v\<lparr>wr_bulk := Some (q\<lparr>qd_message := m\<rparr>)\<rparr>"
proof -
  have permits_same: "permits (q\<lparr>qd_message := m\<rparr>) = permits q" for q m by (simp add: permits_def)
  show thesis
    using assms that
    by (auto simp: turn_def Let_def permits_same split: if_splits prod.splits option.splits sum.splits)
qed

lemma wake_same:
  assumes "wr_waiting w = []" "wr_bulk w = None"
  shows "everything (wake w) = everything w" "ob_budget (wake w) = ob_budget w"
    "wr_bulk (wake w) = None" "lane key (pipeline (wake w)) = lane key (pipeline w) \<or> \<not> queues_ok w"
    "queues_ok w \<Longrightarrow> queues_ok (wake w)"
    "wr_parked (wake w) \<Longrightarrow> wr_waiting (wake w) = []"
  using assms
  by (auto simp: wake_def everything_def pipeline_def queues_ok_def split: list.splits)

lemma encode_next_keeps:
  assumes "encode_next write_message s m = (Inr packet, s', m')"
  shows "om_data m' = om_data m" "om_offset m' = fragment_end m" "om_id m' \<noteq> None"
  using assms by (auto elim: encode_nextE)

lemma permits_message [simp]: "permits (q\<lparr>qd_message := m\<rparr>) = permits q"
  by (simp add: permits_def)

lemma small_finishes:
  assumes "encode_next write_message s m = (Inr packet, s', m')" "is_small m" "om_offset m = 0"
  shows "finished m'"
  using assms encode_next_keeps [OF assms(1)] by (simp add: finished_def fragment_end_def is_small_def)

lemma picked_budget:
  "picked_from w q v \<Longrightarrow> ob_budget w + (\<Sum>x \<in># H + everything w. permits x) =
     ob_budget v + (permits q + (\<Sum>x \<in># H + everything v. permits x))"
  by (simp add: picked_from_def)

lemma moves_on:
  assumes "picked_from w q v" "queues_ok w" "encode_next write_message s (qd_message q) = (Inr packet, s', m)"
    and "\<not> finished m"
  shows "wr_bulk v = None" "moving (q\<lparr>qd_message := m\<rparr>)"
proof -
  note keep = encode_next_keeps [OF assms(3)] and q = picked_offset [OF assms(1,2)]
  have "\<not> (is_small (qd_message q) \<and> om_offset (qd_message q) = 0)"
    using small_finishes [OF assms(3)] assms(4) by blast
  with assms(1,2) show "wr_bulk v = None"
    by (auto simp: picked_from_def fresh_queued_def)
  have "om_offset (qd_message q) < om_offset m" "om_offset m \<le> length (om_data m)"
    using fragment_end_bounds [of "qd_message q"] q keep by (auto simp: permit_ok_def)
  moreover have "qd_permit q \<noteq> None"
  proof
    assume "qd_permit q = None"
    with assms(1,2) have "fresh_queued q"
      by (auto simp: picked_from_def queues_ok_def moving_def)
    with \<open>qd_permit q = None\<close> \<open>\<not> (is_small (qd_message q) \<and> om_offset (qd_message q) = 0)\<close>
    show False by (simp add: fresh_queued_def permit_ok_def)
  qed
  ultimately show "moving (q\<lparr>qd_message := m\<rparr>)"
    using q assms(4) keep
    by (auto simp: moving_def permit_ok_def in_flight_def finished_def message_ok_def split: option.splits)
qed

lemma turn_typed:
  assumes "queues_typed st"
  shows "queues_typed (exec_send write_message st Do_Turn)"
proof (cases "sn_error st")
  case None
  obtain res s' w' where t: "turn write_message (sn_channel st) (sn_out st) = (res, s', w')"
    by (metis prod_cases3)
  have ok: "queues_ok (sn_out st)" using assms by (simp add: queues_typed_def)
  from t show ?thesis
  proof (cases rule: turn_cases)
    case wakes
    with assms None t show ?thesis
      using wake_same(3,5,6) [of "sn_out st"] by (auto simp: queues_typed_def)
  next
    case (parks v)
    with assms None t pick_none(2) [OF parks(2)] pick_none(1) [OF parks(2)] show ?thesis
      using refill_same(1,3) [of "sn_out st"]
      by (auto simp: queues_typed_def queues_ok_def everything_def pipeline_def)
  next
    case (fails q e m)
    with assms None t pick_from [OF ok fails(2)] show ?thesis
      by (auto simp: queues_typed_def picked_from_def)
  next
    case (ends q v packet m)
    with assms None t pick_from [OF ok ends(2)] show ?thesis
      by (auto simp: queues_typed_def picked_from_def queues_ok_def)
  next
    case (goes_on q v packet m)
    with assms None t pick_from [OF ok goes_on(2)]
      moves_on [OF pick_from [OF ok goes_on(2)] ok goes_on(3,4)] show ?thesis
      by (auto simp: queues_typed_def picked_from_def queues_ok_def)
  qed
qed (use assms in simp)

lemma turn_budget:
  assumes "queues_typed st" "within_budget st"
  shows "within_budget (exec_send write_message st Do_Turn)"
proof (cases "sn_error st")
  case None
  obtain res s' w' where t: "turn write_message (sn_channel st) (sn_out st) = (res, s', w')"
    by (metis prod_cases3)
  have ok: "queues_ok (sn_out st)" using assms by (simp add: queues_typed_def)
  let ?H = "mset (sn_held st)"
  have b: "ob_budget (sn_out st) + (\<Sum>q \<in># ?H + everything (sn_out st). permits q) = QUEUED_BYTES"
    using assms(2) None by (simp add: within_budget_def Let_def)
  from t show ?thesis
  proof (cases rule: turn_cases)
    case wakes
    with assms(1) None t b show ?thesis
      using wake_same(1,2) [of "sn_out st"] by (auto simp: queues_typed_def within_budget_def)
  next
    case (parks v)
    have "everything (v\<lparr>wr_parked := True\<rparr>) = everything (sn_out st)"
      "ob_budget (v\<lparr>wr_parked := True\<rparr>) = ob_budget (sn_out st)"
      using pick_none(2) [OF parks(2)] refill_same(1,6) [of "sn_out st"]
      by (auto simp: everything_def pipeline_def)
    with None t b parks show ?thesis by (simp add: within_budget_def)
  next
    case (fails q e m)
    with None t b picked_budget [OF pick_from [OF ok fails(2)], of ?H] show ?thesis
      by (simp add: within_budget_def Let_def)
  next
    case (ends q v packet m)
    have "everything (v\<lparr>ob_budget := n\<rparr>) = everything v" for n
      by (simp add: everything_def pipeline_def)
    with ends None t b picked_budget [OF pick_from [OF ok ends(2)], of ?H] show ?thesis
      by (simp add: within_budget_def Let_def)
  next
    case (goes_on q v packet m)
    have "everything (v\<lparr>wr_bulk := Some (q\<lparr>qd_message := m\<rparr>)\<rparr>) = add_mset (q\<lparr>qd_message := m\<rparr>) (everything v)"
      using moves_on [OF pick_from [OF ok goes_on(2)] ok goes_on(3,4)]
      by (simp add: everything_def pipeline_def)
    with goes_on None t b picked_budget [OF pick_from [OF ok goes_on(2)], of ?H] show ?thesis
      by (simp add: within_budget_def Let_def)
  qed
qed (use assms in simp)

lemma lane_message:
  "om_data m = om_data (qd_message q) \<Longrightarrow> lane key [q\<lparr>qd_message := m\<rparr>] = lane key [q]"
  by simp

lemma turn_in_order:
  assumes "queues_typed st" "lanes_in_order st"
  shows "lanes_in_order (exec_send write_message st Do_Turn)"
proof (cases "sn_error st")
  case None
  obtain res s' w' where t: "turn write_message (sn_channel st) (sn_out st) = (res, s', w')"
    by (metis prod_cases3)
  have ok: "queues_ok (sn_out st)" using assms by (simp add: queues_typed_def)
  have o: "lane key (sn_arrived st) = lane key (sn_done st) @ lane key (pipeline (sn_out st))" for key
    using assms(2) None by (simp add: lanes_in_order_def)
  from t show ?thesis
  proof (cases rule: turn_cases)
    case wakes
    with assms(1) None t o show ?thesis
      using wake_same(4) [of "sn_out st"] by (auto simp: queues_typed_def lanes_in_order_def)
  next
    case (parks v)
    have "pipeline (v\<lparr>wr_parked := True\<rparr>) = pipeline (sn_out st)"
      using pick_none(2) [OF parks(2)] refill_same(2) [of "sn_out st"] by (auto simp: pipeline_def)
    with None t o parks show ?thesis by (simp add: lanes_in_order_def)
  next
    case (fails q e m)
    with None t o show ?thesis by (simp add: lanes_in_order_def)
  next
    case (ends q v packet m)
    have "pipeline (v\<lparr>ob_budget := n\<rparr>) = pipeline v" for n by (simp add: pipeline_def)
    with ends None t o pick_from [OF ok ends(2)] encode_next_keeps(1) [OF ends(3)] show ?thesis
      by (simp add: lanes_in_order_def picked_from_def)
  next
    case (goes_on q v packet m)
    have "pipeline (v\<lparr>wr_bulk := Some (q\<lparr>qd_message := m\<rparr>)\<rparr>) = q\<lparr>qd_message := m\<rparr> # pipeline v"
      using moves_on [OF pick_from [OF ok goes_on(2)] ok goes_on(3,4)] by (simp add: pipeline_def)
    with goes_on None t o pick_from [OF ok goes_on(2)] encode_next_keeps(1) [OF goes_on(3)] show ?thesis
      by (simp add: lanes_in_order_def picked_from_def)
  qed
qed (use assms in simp)

lemma turn_follows:
  assumes pairs: "noise_pairs write_message read_message synced" and "queues_typed st"
    and "receiver_follows read_message synced b st"
  shows "receiver_follows read_message synced b (exec_send write_message st Do_Turn)"
proof (cases "sn_error st")
  case None
  let ?r = "received read_message b (sn_packets st)"
  obtain res s' w' where t: "turn write_message (sn_channel st) (sn_out st) = (res, s', w')"
    by (metis prod_cases3)
  have ok: "queues_ok (sn_out st)" using assms by (simp add: queues_typed_def)
  have got: "decode_all read_message (new_channel b) (sn_packets st) =
      Inr (map (\<lambda>q. om_data (qd_message q)) (sn_done st))"
    and step: "in_step synced (sn_channel st) ?r (mset (map qd_message (option_list (wr_bulk (sn_out st)))))"
    using assms(3) None by (simp_all add: receiver_follows_def)
  from t show ?thesis
  proof (cases rule: turn_cases)
    case wakes
    with assms(2) None t got step show ?thesis
      using wake_same(3) [of "sn_out st"] by (auto simp: queues_typed_def receiver_follows_def)
  next
    case (parks v)
    have "wr_bulk v = wr_bulk (sn_out st)"
      using pick_none(2) [OF parks(2)] refill_same(4) [of "sn_out st"] by simp
    with None t got step parks show ?thesis by (simp add: receiver_follows_def)
  next
    case (fails q e m)
    with None t got show ?thesis by (simp add: receiver_follows_def)
  next
    case (ends q v packet m)
    note p = pick_from [OF ok ends(2)]
    note i = picked_in_step [OF p ok step]
    obtain u where d: "decode read_message ?r packet = (Inr [om_data m], u)"
      and n: "in_step synced s' u (add_mset m (mset (map qd_message (option_list (wr_bulk v)))))"
      using fragment_arrives [OF pairs i ends(3)] ends(4) by auto
    then have "in_step synced s' u (mset (map qd_message (option_list (wr_bulk v))))"
      using ends(4) by (auto simp: in_step_def in_flight_def finished_def)
    with ends None t decode_all_snoc [OF got d] d show ?thesis
      by (simp add: receiver_follows_def)
  next
    case (goes_on q v packet m)
    note p = pick_from [OF ok goes_on(2)]
    note i = picked_in_step [OF p ok step]
    obtain u where d: "decode read_message ?r packet = (Inr [], u)"
      and n: "in_step synced s' u (add_mset m (mset (map qd_message (option_list (wr_bulk v)))))"
      using fragment_arrives [OF pairs i goes_on(3)] goes_on(4) by auto
    have "wr_bulk v = None" using moves_on [OF p ok goes_on(3,4)] by simp
    with goes_on None t decode_all_snoc [OF got d] d n show ?thesis
      by (simp add: receiver_follows_def)
  qed
qed (use assms in simp)

lemma exec_send_ok:
  assumes pairs: "noise_pairs write_message read_message synced"
    and ok: "sending_ok read_message synced b st"
  shows "sending_ok read_message synced b (exec_send write_message st step)"
proof (cases step)
  case (Do_TrySend control key encoded)
  show ?thesis
  proof (cases "try_send control key encoded (sn_out st)")
    case (Pair res w)
    show ?thesis
    proof (cases res)
      case (Inl e)
      with Pair ok Do_TrySend show ?thesis by (auto dest: try_send_not)
    next
      case (Inr q)
      note q = try_send_from [of control key encoded "sn_out st" q w]
      from q(2) show ?thesis
        using Pair Inr Do_TrySend q(1) ok_control [OF ok, of q] ok_data [OF ok, of q] by auto
    qed
  qed
next
  case (Do_Acquire key encoded)
  with ok show ?thesis
    by (auto simp: send_acquire_def split: sum.split option.split dest!: send_message_from
        intro!: ok_acquire)
next
  case (Do_Push k)
  with ok show ?thesis by (auto simp: send_push_def intro!: ok_push)
next
  case Do_Turn
  from ok turn_typed turn_budget turn_in_order turn_follows [OF pairs] show ?thesis
    unfolding sending_ok_def Do_Turn by blast
qed

lemma sending_ok_start:
  assumes "synced a b"
  shows "sending_ok read_message synced b (start_sending a)"
  using assms
  by (auto simp: sending_ok_def start_sending_def queues_typed_def queues_ok_def queue_def lanes_in_order_def
      pipeline_def within_budget_def everything_def receiver_follows_def in_step_def
      receiver_ok_new [unfolded new_channel_def] new_channel_def Let_def)

lemma run_sending_ok:
  assumes "noise_pairs write_message read_message synced" "synced a b"
  shows "sending_ok read_message synced b (run_sending write_message a steps)"
  by (induction steps rule: rev_induct) (simp_all add: sending_ok_start exec_send_ok assms)

section \<open>Everything is sent in the end\<close>

definition fragments :: "outgoing_message \<Rightarrow> nat" where
  "fragments m = (length (om_data m) - om_offset m + (FRAGMENT_BYTES - 1)) div FRAGMENT_BYTES"

definition work :: "outbound \<Rightarrow> nat" where
  "work w = (\<Sum>q \<in># everything w. fragments (qd_message q))"

lemma fragments_finished: "finished m \<Longrightarrow> fragments m = 0"
  by (simp add: fragments_def finished_def FRAGMENT_BYTES_def)

lemma fragments_pos: "message_ok m \<Longrightarrow> \<not> finished m \<Longrightarrow> 0 < fragments m"
  by (auto simp: fragments_def finished_def message_ok_def FRAGMENT_BYTES_def div_greater_zero_iff Suc_le_eq)

lemma fragments_sent:
  assumes "message_ok m" "\<not> finished m" "om_data m' = om_data m" "om_offset m' = fragment_end m"
  shows "Suc (fragments m') = fragments m"
proof -
  define n where "n = length (om_data m) - om_offset m"
  have n: "0 < n" using assms(1,2) by (auto simp: n_def finished_def message_ok_def)
  have "length (om_data m') - om_offset m' = n - FRAGMENT_BYTES"
    using assms(1,3,4) by (auto simp: n_def fragment_end_def message_ok_def)
  moreover have "Suc ((n - FRAGMENT_BYTES + (FRAGMENT_BYTES - 1)) div FRAGMENT_BYTES) =
      (n + (FRAGMENT_BYTES - 1)) div FRAGMENT_BYTES"
  proof (cases "n \<le> FRAGMENT_BYTES")
    case True
    then have "(n + (FRAGMENT_BYTES - 1)) div FRAGMENT_BYTES = 1"
      using n by (intro div_nat_eqI) (auto simp: FRAGMENT_BYTES_def)
    with True show ?thesis by (simp add: FRAGMENT_BYTES_def)
  next
    case False
    then have "n + (FRAGMENT_BYTES - 1) = FRAGMENT_BYTES + (n - FRAGMENT_BYTES + (FRAGMENT_BYTES - 1))"
      by simp
    then show ?thesis by (simp add: FRAGMENT_BYTES_def)
  qed
  ultimately show ?thesis by (simp add: fragments_def n_def)
qed

text \<open>With a Noise state that never fails and ids to spare, the writer does not stop.\<close>

definition calm :: "nat \<Rightarrow> 'n sending \<Rightarrow> bool" where
  "calm n st \<longleftrightarrow> sn_error st = None \<and> \<not> ch_failed (sn_channel st) \<and>
     unat (ch_next_id (sn_channel st)) \<le> Suc n"

lemma encode_succeeds:
  assumes "\<forall>n plain. write_message n plain \<noteq> None" and "\<not> ch_failed s" "\<not> finished m"
    and "unat (ch_next_id s) < 2 ^ 64 - 1"
  obtains packet s' m' where "encode_next write_message s m = (Inr packet, s', m')"
    "\<not> ch_failed s'" "unat (ch_next_id s') \<le> Suc (unat (ch_next_id s))"
proof -
  have "ch_next_id s \<noteq> - 1"
  proof
    assume "ch_next_id s = - 1"
    with assms(4) show False by (simp add: unsigned_minus_1_eq_mask mask_eq_exp_minus_1)
  qed
  note nxt = unat_next [OF this]
  obtain i t where t: "take_id s m = Some (i, t)" "ch_noise t = ch_noise s" "\<not> ch_failed t"
    "unat (ch_next_id t) \<le> Suc (unat (ch_next_id s))"
    using assms(2) \<open>ch_next_id s \<noteq> - 1\<close> nxt
    by (cases "om_id m") (auto simp: take_id_def)
  let ?m = "m\<lparr>om_id := Some i\<rparr>"
  obtain packet noise where w: "write_message (ch_noise s) (fragment i ?m) = Some (packet, noise)"
    using spec [OF spec [OF assms(1), of "ch_noise s"], of "fragment i ?m"] by auto
  show thesis
  proof (rule that)
    show "encode_next write_message s m =
        (Inr packet, t\<lparr>ch_noise := noise\<rparr>, ?m\<lparr>om_offset := fragment_end ?m\<rparr>)"
      using assms(2,3) t w by (simp add: encode_next_def Let_def)
  qed (use t in simp_all)
qed

definition to_do :: "outbound \<Rightarrow> nat" where
  "to_do w = work w + (if wr_parked w \<and> 0 < work w then 1 else 0)"

lemma turn_works:
  assumes total: "\<forall>n plain. write_message n plain \<noteq> None" and typed: "queues_typed st"
    and calm: "calm n st" and "n < 2 ^ 64 - 2"
  shows "calm (Suc n) (exec_send write_message st Do_Turn) \<and>
    to_do (sn_out (exec_send write_message st Do_Turn)) \<le> to_do (sn_out st) - 1"
proof -
  obtain res s' w' where t: "turn write_message (sn_channel st) (sn_out st) = (res, s', w')"
    by (metis prod_cases3)
  have ok: "queues_ok (sn_out st)" using typed by (simp add: queues_typed_def)
  have none: "sn_error st = None" using calm by (simp add: calm_def)
  have encodes: thesis
    if "pick (sn_out st) = (Some q, v)"
      and "\<And>packet u m. encode_next write_message (sn_channel st) (qd_message q) = (Inr packet, u, m)
        \<Longrightarrow> \<not> ch_failed u \<Longrightarrow> unat (ch_next_id u) \<le> Suc (Suc n)
        \<Longrightarrow> work (sn_out st) = Suc (fragments m) + work v \<Longrightarrow> thesis" for q v thesis
  proof -
    note p = pick_from [OF ok that(1)]
    note q = picked_offset [OF p ok]
    obtain packet u m where e: "encode_next write_message (sn_channel st) (qd_message q) = (Inr packet, u, m)"
      and u: "\<not> ch_failed u" "unat (ch_next_id u) \<le> Suc (unat (ch_next_id (sn_channel st)))"
      using encode_succeeds [OF total _ q(2), of "sn_channel st"] calm assms(4)
      by (auto simp: calm_def)
    have "Suc (fragments m) = fragments (qd_message q)"
      using fragments_sent [OF _ q(2)] q(1) encode_next_keeps [OF e] by (auto simp: permit_ok_def)
    with p have "work (sn_out st) = Suc (fragments m) + work v"
      by (simp add: picked_from_def work_def)
    with that(2) [OF e u(1)] u(2) calm show thesis by (simp add: calm_def)
  qed
  from t show ?thesis
  proof (cases rule: turn_cases)
    case wakes
    have "work (wake (sn_out st)) = work (sn_out st)" and "0 < work (sn_out st) \<Longrightarrow> \<not> wr_parked (wake (sn_out st))"
      using typed wakes wake_same(1) [of "sn_out st"]
      by (auto simp: queues_typed_def work_def)
        (auto simp: wake_def everything_def pipeline_def split: list.splits)
    with wakes none t calm show ?thesis by (auto simp: calm_def to_do_def)
  next
    case (parks v)
    have "work (sn_out st) = 0" "everything (v\<lparr>wr_parked := True\<rparr>) = everything (sn_out st)"
      using pick_none [OF parks(2)] refill_same(1) [of "sn_out st"]
      by (auto simp: work_def everything_def pipeline_def)
    then have "work (v\<lparr>wr_parked := True\<rparr>) = 0" by (simp only: work_def)
    with parks none t calm show ?thesis by (simp add: calm_def to_do_def)
  next
    case (fails q e m)
    show ?thesis by (rule encodes [OF fails(2)]) (use fails(4) in simp)
  next
    case (ends q v packet m)
    have "work (v\<lparr>ob_budget := k\<rparr>) = work v" for k by (simp add: work_def everything_def pipeline_def)
    moreover have "\<not> wr_parked v" using pick_from [OF ok ends(2)] ends(1) by (simp add: picked_from_def)
    ultimately show ?thesis
      using ends none t
      by - (rule encodes [OF ends(2)], auto simp: calm_def to_do_def fragments_finished)
  next
    case (goes_on q v packet m)
    note p = pick_from [OF ok goes_on(2)]
    have "work (v\<lparr>wr_bulk := Some (q\<lparr>qd_message := m\<rparr>)\<rparr>) = fragments m + work v"
      using moves_on [OF p ok goes_on(3,4)] by (simp add: work_def everything_def pipeline_def)
    moreover have "\<not> wr_parked v" using p goes_on(1) by (simp add: picked_from_def)
    ultimately show ?thesis
      using goes_on none t
      by - (rule encodes [OF goes_on(2)], auto simp: calm_def to_do_def)
  qed
qed

lemma calm_step:
  assumes "\<forall>n plain. write_message n plain \<noteq> None" "queues_typed st" "calm n st" "n < 2 ^ 64 - 2"
  shows "calm (Suc n) (exec_send write_message st step)"
proof (cases step)
  case Do_Turn
  with turn_works [OF assms] show ?thesis by simp
qed (use assms(3) in \<open>auto simp: calm_def split: prod.splits sum.splits option.splits\<close>)

lemma calm_run:
  assumes "noise_pairs write_message read_message synced" "synced a b"
    and "\<forall>n plain. write_message n plain \<noteq> None"
  shows "length steps < 2 ^ 64 - 2 \<Longrightarrow> calm (length steps) (run_sending write_message a steps)"
proof (induction steps rule: rev_induct)
  case Nil
  then show ?case by (simp add: calm_def start_sending_def new_channel_def)
next
  case (snoc step steps)
  have "queues_typed (run_sending write_message a steps)"
    using run_sending_ok [OF assms(1,2)] by (simp add: sending_ok_def)
  from calm_step [OF assms(3) this] snoc show ?case by simp
qed

lemma turns_finish:
  assumes "noise_pairs write_message read_message synced" "\<forall>n plain. write_message n plain \<noteq> None"
  shows "sending_ok read_message synced b st \<Longrightarrow> calm n st \<Longrightarrow> n + k < 2 ^ 64 - 2
    \<Longrightarrow> sending_ok read_message synced b (foldl (exec_send write_message) st (replicate k Do_Turn)) \<and>
      calm (n + k) (foldl (exec_send write_message) st (replicate k Do_Turn)) \<and>
      to_do (sn_out (foldl (exec_send write_message) st (replicate k Do_Turn))) \<le> to_do (sn_out st) - k"
proof (induction k arbitrary: n st)
  case (Suc k)
  let ?st = "exec_send write_message st Do_Turn"
  have "queues_typed st" using Suc.prems(1) by (simp add: sending_ok_def)
  from turn_works [OF assms(2) this Suc.prems(2)] Suc.prems(3)
  have "calm (Suc n) ?st" "to_do (sn_out ?st) \<le> to_do (sn_out st) - 1" by auto
  with Suc.IH [OF exec_send_ok [OF assms(1) Suc.prems(1)], of "Suc n" Do_Turn] Suc.prems(3)
  show ?case by (simp del: exec_send.simps) arith
qed simp

lemma everything_iff:
  "q \<in># everything w \<longleftrightarrow> wr_bulk w = Some q \<or>
     q \<in> set (wr_waiting w) \<union> set (ob_data w) \<union> set (ob_control w)"
  by (auto simp: everything_def pipeline_def option_list_def split: option.splits)

lemma typed_queued:
  assumes "queues_typed st" "q \<in># everything (sn_out st)"
  shows "permit_ok q" "\<not> finished (qd_message q)"
proof -
  from assms have "moving q \<or> fresh_queued q"
    unfolding everything_iff queues_typed_def queues_ok_def by blast
  then show "permit_ok q" "\<not> finished (qd_message q)"
    by (auto simp: moving_def fresh_queued_def permit_ok_def in_flight_def finished_def message_ok_def)
qed

lemma no_work_left:
  assumes "queues_typed st" "work (sn_out st) = 0"
  shows "everything (sn_out st) = {#}"
proof (rule ccontr)
  assume "everything (sn_out st) \<noteq> {#}"
  then obtain q where q: "q \<in># everything (sn_out st)" by blast
  with typed_queued [OF assms(1)] have "0 < fragments (qd_message q)"
    by (simp add: fragments_pos permit_ok_def)
  moreover from assms(2) q have "fragments (qd_message q) = 0" by (simp add: work_def)
  ultimately show False by simp
qed

section \<open>Claims\<close>

text \<open>
  C26. Whatever is sent, in whatever order the senders and the writer take their steps, the other
  end receives exactly the messages the writer has finished, unchanged and in that order; and of
  each socket these are the first messages that entered the queue, in the order they entered it.
  Heartbeats and small messages that pass a large upload never reorder a socket.
\<close>

theorem sockets_keep_their_order:
  assumes "noise_pairs write_message read_message synced" and "synced a b"
  shows "let st = run_sending write_message a steps in
    decode_all read_message (new_channel b) (sn_packets st) =
      Inr (map (\<lambda>q. om_data (qd_message q)) (sn_done st)) \<and>
    (\<forall>key. prefix (lane key (sn_done st)) (lane key (sn_arrived st)))"
proof -
  from run_sending_ok [OF assms, of steps]
  have "lanes_in_order (run_sending write_message a steps)"
    "receiver_follows read_message synced b (run_sending write_message a steps)"
    by (simp_all add: sending_ok_def)
  then show ?thesis
    unfolding Let_def receiver_follows_def lanes_in_order_def by (metis prefixI)
qed

definition example_sends :: "sending_step list" where
  "example_sends = [Do_TrySend False (lit ''ws:a'') (Inr [1, 2]), Do_TrySend True (lit ''heartbeat'') (Inr [0]),
     Do_TrySend False (lit ''ws:a'') (Inr [3])]"

theorem sockets_keep_their_order_witness:
  "let st = run_sending plain_write 0 (example_sends @ [Do_Turn, Do_Turn]) in
    decode_all plain_read (new_channel 0) (sn_packets st) =
      Inr (map (\<lambda>q. om_data (qd_message q)) (sn_done st)) \<and>
    (\<forall>key. prefix (lane key (sn_done st)) (lane key (sn_arrived st)))"
  by (rule sockets_keep_their_order [OF plain_pairs refl])

text \<open>
  The budget is exact: what senders hold and what is queued never exceeds 64 MiB, and as long
  as the writer has not failed the rest of the budget is free, so a channel is idle exactly when
  no data is held or queued.
\<close>

theorem queued_bytes_are_bounded:
  assumes "noise_pairs write_message read_message synced" and "synced a b"
    and "sn_error (run_sending write_message a steps) = None"
  shows "let st = run_sending write_message a steps in
    ob_budget (sn_out st) +
      (\<Sum>q \<in># mset (sn_held st) + everything (sn_out st). permits q) = QUEUED_BYTES \<and>
    (is_idle (sn_out st) \<longleftrightarrow>
      (\<forall>q \<in># mset (sn_held st) + everything (sn_out st). qd_permit q = None))"
proof -
  let ?st = "run_sending write_message a steps"
  let ?M = "mset (sn_held ?st) + everything (sn_out ?st)"
  have ok: "queues_typed ?st" "within_budget ?st"
    using run_sending_ok [OF assms(1,2)] by (simp_all add: sending_ok_def)
  have sum: "ob_budget (sn_out ?st) + (\<Sum>q \<in># ?M. permits q) = QUEUED_BYTES"
    using ok(2) assms(3) by (simp add: within_budget_def Let_def)
  have "permits q = 0 \<longleftrightarrow> qd_permit q = None" if "q \<in># ?M" for q
  proof -
    have "permit_ok q"
      using that ok(1) typed_queued(1) [OF ok(1)]
      by (auto simp: queues_typed_def fresh_queued_def)
    then show ?thesis by (auto simp: permits_def permit_ok_def message_ok_def split: option.splits)
  qed
  then have "(\<Sum>q \<in># ?M. permits q) = 0 \<longleftrightarrow> (\<forall>q \<in># ?M. qd_permit q = None)"
    by (auto simp: sum_mset_0_iff)
  moreover from sum have "is_idle (sn_out ?st) \<longleftrightarrow> (\<Sum>q \<in># ?M. permits q) = 0"
    unfolding is_idle_def by linarith
  ultimately show ?thesis using sum by (simp only: Let_def simp_thms)
qed

theorem queued_bytes_are_bounded_witness:
  "let st = run_sending plain_write 0 example_sends in
    ob_budget (sn_out st) +
      (\<Sum>q \<in># mset (sn_held st) + everything (sn_out st). permits q) = QUEUED_BYTES \<and>
    (is_idle (sn_out st) \<longleftrightarrow>
      (\<forall>q \<in># mset (sn_held st) + everything (sn_out st). qd_permit q = None))"
  by (rule queued_bytes_are_bounded [OF plain_pairs refl])
    (use calm_run [OF plain_pairs refl, of example_sends 0] in
      \<open>simp add: plain_write_def calm_def example_sends_def\<close>)



end
