(* ===== verification/Uploads.thy ===== *)
theory Uploads
  imports Frames EventBus
begin

text \<open>
  Chunked uploads into a terminal (\<^verbatim>\<open>crates/machine/src/upload.rs\<close>), with the names and the
  private directories their files get (\<^verbatim>\<open>hub_conn.rs\<close>). The temp directory is part of the state:
  the private directories in it, each with its files. What the operating system decides (free
  space, the new directory's name, whether a file opens, a write or a sync works) and the clock
  are arguments; Base64 is a function; the operating system's own error texts are left out of the
  messages. Each handler holds the lock throughout, so it is one step.

  The lemmas show that a file that is handed over holds exactly the chunks that were
  acknowledged, that no directory of an upload that ended otherwise stays, and what a client's
  file name can become.
\<close>

section \<open>Names\<close>

definition slash_or_backslash :: "nat \<Rightarrow> bool" where
  "slash_or_backslash c \<longleftrightarrow> c = 0x2F \<or> c = 0x5C"

definition after_last_slash :: "ustr \<Rightarrow> ustr" where
  "after_last_slash name = rev (takeWhile (\<lambda>c. \<not> slash_or_backslash c) (rev name))"

definition safe_attachment_name :: "ustr \<Rightarrow> ustr" where
  "safe_attachment_name name =
     (let base = after_last_slash name;
          cleaned = take 180 (filter (\<lambda>c. \<not> is_control c) base);
          cleaned = trim (trim_start_matches (\<lambda>c. c = 0x2E) cleaned)
      in if cleaned = [] then lit ''attachment.bin'' else cleaned)"

section \<open>State\<close>

definition UPLOAD_CHUNK_MAX_BYTES :: nat where "UPLOAD_CHUNK_MAX_BYTES = 2 * 1024 * 1024"
definition FREE_SPACE_MARGIN :: nat where "FREE_SPACE_MARGIN = 16 * 1024 * 1024"

record upload =
  up_dir :: ident
  up_name :: ustr
  up_received :: nat
  up_next_index :: u32
  up_size :: nat
  up_last_activity :: ms

record upload_manager =
  um_uploads :: "(ident \<times> ident, upload) hmap"
  um_dirs :: "(ident, (ustr, bytes) hmap) hmap"

type_synonym upload_refusal = "upload_error_code \<times> ustr"

definition new_upload_manager :: upload_manager where
  "new_upload_manager = \<lparr>um_uploads = [], um_dirs = []\<rparr>"

text \<open>\<^verbatim>\<open>create_private_upload_dir\<close>: creating a directory that exists is an error.\<close>

definition create_private_upload_dir :: "ident option \<Rightarrow> upload_manager \<Rightarrow> (ident \<times> upload_manager) option" where
  "create_private_upload_dir new_dir m =
     (case new_dir of
        None \<Rightarrow> None
      | Some d \<Rightarrow> if hhas (um_dirs m) d then None
                  else Some (d, m\<lparr>um_dirs := hput d [] (um_dirs m)\<rparr>))"

definition remove_dir_all :: "ident \<Rightarrow> upload_manager \<Rightarrow> upload_manager" where
  "remove_dir_all d m = m\<lparr>um_dirs := hdel d (um_dirs m)\<rparr>"

definition file_content :: "upload_manager \<Rightarrow> ident \<Rightarrow> ustr \<Rightarrow> bytes option" where
  "file_content m d name = (case hget (um_dirs m) d of None \<Rightarrow> None | Some files \<Rightarrow> hget files name)"

definition write_file :: "ident \<Rightarrow> ustr \<Rightarrow> bytes \<Rightarrow> upload_manager \<Rightarrow> upload_manager" where
  "write_file d name content m =
     (case hget (um_dirs m) d of
        None \<Rightarrow> m
      | Some files \<Rightarrow> m\<lparr>um_dirs := hput d (hput name content files) (um_dirs m)\<rparr>)"

definition discard :: "upload \<Rightarrow> upload_manager \<Rightarrow> upload_manager" where
  "discard u m = remove_dir_all (up_dir u) m"

definition forget :: "ident \<times> ident \<Rightarrow> upload_manager \<Rightarrow> upload_manager" where
  "forget key m = m\<lparr>um_uploads := hdel key (um_uploads m)\<rparr>"

definition discard_at :: "ident \<times> ident \<Rightarrow> upload_manager \<Rightarrow> upload_manager" where
  "discard_at key m =
     (case hget (um_uploads m) key of
        None \<Rightarrow> m
      | Some u \<Rightarrow> discard u (forget key m))"

definition not_found :: upload_refusal where
  "not_found = (Up_NotFound, lit ''No such upload'')"

datatype io_result = Io_Done | Io_Full | Io_Other

definition io_error :: "io_result \<Rightarrow> upload_refusal" where
  "io_error r = (if r = Io_Full then Up_NoSpace else Up_Io, lit ''Could not write upload: '')"

section \<open>Operations\<close>

record begin_env =
  be_free :: "nat option"
  be_dir :: "ident option"
  be_opens :: bool

definition begin_upload ::
  "begin_env \<Rightarrow> ms \<Rightarrow> ident \<Rightarrow> ident \<Rightarrow> ustr \<Rightarrow> nat \<Rightarrow> upload_manager
     \<Rightarrow> (upload_refusal + unit) \<times> upload_manager" where
  "begin_upload env now attach_id upload_id filename announced m =
     (if list_ex (\<lambda>(attach, _). attach = attach_id) (hkeys (um_uploads m))
      then (Inl (Up_Io, lit ''Another upload is already in progress on this terminal''), m)
      else if (case be_free env of None \<Rightarrow> False | Some free \<Rightarrow> free < sat_add64 announced FREE_SPACE_MARGIN)
      then (Inl (Up_NoSpace, lit (''Not enough free space on the node ('' @ nat_to_string (the (be_free env)) @ '' bytes available)'')), m)
      else case create_private_upload_dir (be_dir env) m of
             None \<Rightarrow> (Inl (Up_Io, lit ''Could not create upload directory: ''), m)
           | Some (d, m) \<Rightarrow>
               (let name = safe_attachment_name filename in
                if \<not> be_opens env
                then (Inl (Up_Io, lit ''Could not create upload file: ''), remove_dir_all d m)
                else (Inr (), (write_file d name [] m)\<lparr>um_uploads := hput (attach_id, upload_id)
                       \<lparr>up_dir = d, up_name = name, up_received = 0, up_next_index = 0,
                        up_size = announced, up_last_activity = now\<rparr> (um_uploads m)\<rparr>)))"

text \<open>Appends to the file; a failed write leaves the content as it was, or with a part more.\<close>

definition write_chunk ::
  "(string \<Rightarrow> bytes option) \<Rightarrow> io_result \<Rightarrow> ms \<Rightarrow> upload \<Rightarrow> u32 \<Rightarrow> string
     \<Rightarrow> upload_refusal + upload \<times> bytes" where
  "write_chunk decode64 io now u index data =
     (if index \<noteq> up_next_index u then Inl (Up_BadSequence, lit (''Expected chunk '' @ nat_to_string (unat (up_next_index u)) @ '', got '' @ nat_to_string (unat index)))
      else if length data > UPLOAD_CHUNK_MAX_BYTES div 3 * 4 + 4
      then Inl (Up_TooLarge, lit ''Chunk is too large'')
      else case decode64 data of
             None \<Rightarrow> Inl (Up_Io, lit ''Base64 decode failed: '')
           | Some bs \<Rightarrow>
               if length bs > UPLOAD_CHUNK_MAX_BYTES then Inl (Up_TooLarge, lit ''Chunk is too large'')
               else if up_received u + length bs > up_size u
               then Inl (Up_TooLarge, lit ''More data than announced'')
               else if io \<noteq> Io_Done then Inl (io_error io)
               else Inr (u\<lparr>up_received := up_received u + length bs,
                        up_next_index := up_next_index u + 1, up_last_activity := now\<rparr>, bs))"

definition append_file :: "upload \<Rightarrow> bytes \<Rightarrow> upload_manager \<Rightarrow> upload_manager" where
  "append_file u bs m =
     (case file_content m (up_dir u) (up_name u) of
        None \<Rightarrow> m
      | Some content \<Rightarrow> write_file (up_dir u) (up_name u) (content @ bs) m)"

definition chunk_upload ::
  "(string \<Rightarrow> bytes option) \<Rightarrow> io_result \<Rightarrow> ms \<Rightarrow> ident \<Rightarrow> ident \<Rightarrow> u32 \<Rightarrow> string \<Rightarrow> upload_manager
     \<Rightarrow> (upload_refusal + nat) \<times> upload_manager" where
  "chunk_upload decode64 io now attach_id upload_id index data m =
     (let key = (attach_id, upload_id) in
      case hget (um_uploads m) key of
        None \<Rightarrow> (Inl not_found, m)
      | Some u \<Rightarrow>
          (case write_chunk decode64 io now u index data of
             Inl e \<Rightarrow> (Inl e, discard_at key m)
           | Inr (u, bs) \<Rightarrow>
               (Inr (up_received u),
                append_file u bs (m\<lparr>um_uploads := hput key u (um_uploads m)\<rparr>))))"

definition finish_upload ::
  "io_result \<Rightarrow> ident \<Rightarrow> ident \<Rightarrow> upload_manager
     \<Rightarrow> (upload_refusal + (ident \<times> ustr) \<times> nat) \<times> upload_manager" where
  "finish_upload io attach_id upload_id m =
     (case hget (um_uploads m) (attach_id, upload_id) of
        None \<Rightarrow> (Inl not_found, m)
      | Some u \<Rightarrow>
          (let m = forget (attach_id, upload_id) m in
           if up_received u \<noteq> up_size u then (Inl (Up_BadSequence, lit (''Expected '' @ nat_to_string (up_size u) @ '' bytes, received '' @ nat_to_string (up_received u))), discard u m)
           else if io \<noteq> Io_Done then (Inl (io_error io), discard u m)
           else (Inr ((up_dir u, up_name u), up_size u), m)))"

definition abort_upload :: "ident \<Rightarrow> ident \<Rightarrow> upload_manager \<Rightarrow> upload_manager" where
  "abort_upload attach_id upload_id m = discard_at (attach_id, upload_id) m"

definition abort_attach :: "ident \<Rightarrow> upload_manager \<Rightarrow> upload_manager" where
  "abort_attach attach_id m =
     foldl (\<lambda>m key. discard_at key m) m (filter (\<lambda>(attach, _). attach = attach_id) (hkeys (um_uploads m)))"

definition abort_all :: "upload_manager \<Rightarrow> upload_manager" where
  "abort_all m = foldl (\<lambda>m key. discard_at key m) m (hkeys (um_uploads m))"

definition reap_idle :: "ms \<Rightarrow> ms \<Rightarrow> upload_manager \<Rightarrow> upload_manager" where
  "reap_idle now max_idle m =
     foldl (\<lambda>m key. discard_at key m) m
       (map fst (filter (\<lambda>(_, u). now - up_last_activity u > max_idle) (um_uploads m)))"

section \<open>Runs\<close>

datatype upload_op =
    Uo_Begin begin_env ms ident ident ustr nat
  | Uo_Chunk io_result ms ident ident u32 string
  | Uo_Finish io_result ident ident
  | Uo_Abort ident ident
  | Uo_AbortAttach ident
  | Uo_AbortAll
  | Uo_Reap ms ms

text \<open>
  What an observer of the replies notes: for each upload the bytes acknowledged since it began,
  and the files handed over, with what had been acknowledged for them.
\<close>

record upload_notes =
  un_acked :: "ident \<times> ident \<Rightarrow> bytes"
  un_handed :: "(ident \<times> ustr \<times> bytes \<times> nat) list"

fun exec_upload ::
  "(string \<Rightarrow> bytes option) \<Rightarrow> upload_manager \<times> upload_notes \<Rightarrow> upload_op
     \<Rightarrow> upload_manager \<times> upload_notes" where
  "exec_upload decode64 (m, g) (Uo_Begin env now a u name n) =
     (case begin_upload env now a u name n m of
        (Inl _, m) \<Rightarrow> (m, g)
      | (Inr _, m) \<Rightarrow> (m, g\<lparr>un_acked := (un_acked g)((a, u) := [])\<rparr>))"
| "exec_upload decode64 (m, g) (Uo_Chunk io now a u index data) =
     (case chunk_upload decode64 io now a u index data m of
        (Inl _, m) \<Rightarrow> (m, g)
      | (Inr _, m) \<Rightarrow> (m, g\<lparr>un_acked := (un_acked g)((a, u) := un_acked g (a, u) @ the (decode64 data))\<rparr>))"
| "exec_upload decode64 (m, g) (Uo_Finish io a u) =
     (case finish_upload io a u m of
        (Inl _, m) \<Rightarrow> (m, g)
      | (Inr ((d, name), n), m) \<Rightarrow>
          (m, g\<lparr>un_handed := un_handed g @ [(d, name, un_acked g (a, u), n)]\<rparr>))"
| "exec_upload decode64 (m, g) (Uo_Abort a u) = (abort_upload a u m, g)"
| "exec_upload decode64 (m, g) (Uo_AbortAttach a) = (abort_attach a m, g)"
| "exec_upload decode64 (m, g) Uo_AbortAll = (abort_all m, g)"
| "exec_upload decode64 (m, g) (Uo_Reap now max_idle) = (reap_idle now max_idle m, g)"

definition start_uploads :: "upload_manager \<times> upload_notes" where
  "start_uploads = (new_upload_manager, \<lparr>un_acked = \<lambda>_. [], un_handed = []\<rparr>)"

definition handed_dirs :: "upload_notes \<Rightarrow> ident set" where
  "handed_dirs g = fst ` set (un_handed g)"

definition upload_ok :: "upload_notes \<Rightarrow> (ident, (ustr, bytes) hmap) hmap \<Rightarrow> ident \<times> ident \<Rightarrow> upload \<Rightarrow> bool" where
  "upload_ok g dirs key u \<longleftrightarrow> hget dirs (up_dir u) = Some [(up_name u, un_acked g key)] \<and>
     up_received u = length (un_acked g key) \<and> up_received u \<le> up_size u \<and> up_dir u \<notin> handed_dirs g"

definition handed_ok :: "(ident, (ustr, bytes) hmap) hmap \<Rightarrow> ident \<times> ustr \<times> bytes \<times> nat \<Rightarrow> bool" where
  "handed_ok dirs = (\<lambda>(d, name, content, n).
     hget dirs d = Some [(name, content)] \<and> length content = n)"

definition uploads_ok :: "upload_manager \<times> upload_notes \<Rightarrow> bool" where
  "uploads_ok s \<longleftrightarrow>
     (\<forall>key u. hget (um_uploads (fst s)) key = Some u \<longrightarrow> upload_ok (snd s) (um_dirs (fst s)) key u) \<and>
     (\<forall>key key' u u'. hget (um_uploads (fst s)) key = Some u \<longrightarrow> hget (um_uploads (fst s)) key' = Some u' \<longrightarrow>
        up_dir u = up_dir u' \<or> fst key = fst key' \<longrightarrow> key = key') \<and>
     (\<forall>h \<in> set (un_handed (snd s)). handed_ok (um_dirs (fst s)) h) \<and>
     (\<forall>d. hget (um_dirs (fst s)) d \<noteq> None \<longrightarrow>
        d \<in> handed_dirs (snd s) \<or> (\<exists>key u. hget (um_uploads (fst s)) key = Some u \<and> up_dir u = d))"

lemma uploads_okI:
  assumes "\<And>key u. hget (um_uploads m) key = Some u \<Longrightarrow> upload_ok g (um_dirs m) key u"
    and "\<And>key key' u u'. hget (um_uploads m) key = Some u \<Longrightarrow> hget (um_uploads m) key' = Some u'
      \<Longrightarrow> up_dir u = up_dir u' \<or> fst key = fst key' \<Longrightarrow> key = key'"
    and "\<And>h. h \<in> set (un_handed g) \<Longrightarrow> handed_ok (um_dirs m) h"
    and "\<And>d files. hget (um_dirs m) d = Some files \<Longrightarrow> d \<notin> handed_dirs g
      \<Longrightarrow> \<exists>key u. hget (um_uploads m) key = Some u \<and> up_dir u = d"
  shows "uploads_ok (m, g)"
  unfolding uploads_ok_def fst_conv snd_conv using assms by blast

lemma uploads_okD:
  assumes "uploads_ok (m, g)"
  shows "hget (um_uploads m) key = Some u \<Longrightarrow> upload_ok g (um_dirs m) key u"
    and "hget (um_uploads m) key = Some u \<Longrightarrow> hget (um_uploads m) key' = Some u'
      \<Longrightarrow> up_dir u = up_dir u' \<or> fst key = fst key' \<Longrightarrow> key = key'"
    and "h \<in> set (un_handed g) \<Longrightarrow> handed_ok (um_dirs m) h"
    and "hget (um_dirs m) d = Some files \<Longrightarrow> d \<notin> handed_dirs g
      \<Longrightarrow> \<exists>key u. hget (um_uploads m) key = Some u \<and> up_dir u = d"
  using assms unfolding uploads_ok_def fst_conv snd_conv by blast+

lemma handed_ok_other:
  "handed_ok dirs h \<Longrightarrow> fst h \<noteq> d \<Longrightarrow> handed_ok (hput d x dirs) h \<and> handed_ok (hdel d dirs) h"
  by (auto simp: handed_ok_def hm.get_put hm.get_del)

lemma handed_member: "h \<in> set (un_handed g) \<Longrightarrow> d \<notin> handed_dirs g \<Longrightarrow> fst h \<noteq> d"
  by (auto simp: handed_dirs_def)

lemma upload_ok_other:
  "upload_ok g dirs key u \<Longrightarrow> up_dir u \<noteq> d \<Longrightarrow>
     upload_ok g (hput d x dirs) key u \<and> upload_ok g (hdel d dirs) key u"
  by (simp add: upload_ok_def hm.get_put hm.get_del)

lemma ok_discard:
  assumes ok: "uploads_ok (m, g)"
  shows "uploads_ok (discard_at key m, g)"
proof (cases "hget (um_uploads m) key")
  case None
  with ok show ?thesis by (simp add: discard_at_def)
next
  case (Some u)
  let ?m = "discard u (forget key m)"
  have get: "hget (um_uploads ?m) k = (if k = key then None else hget (um_uploads m) k)" for k
    by (simp add: discard_def forget_def remove_dir_all_def hm.get_del)
  have dirs: "um_dirs ?m = hdel (up_dir u) (um_dirs m)"
    by (simp add: discard_def forget_def remove_dir_all_def)
  have gone: "up_dir u \<notin> handed_dirs g" using uploads_okD(1) [OF ok Some] by (simp add: upload_ok_def)
  have "uploads_ok (?m, g)"
  proof (rule uploads_okI)
    fix k v
    assume "hget (um_uploads ?m) k = Some v"
    then have "hget (um_uploads m) k = Some v" "k \<noteq> key" by (auto simp: get split: if_splits)
    with uploads_okD(1,2) [OF ok] Some show "upload_ok g (um_dirs ?m) k v"
      unfolding dirs by (metis upload_ok_other)
  next
    fix k k' v v'
    assume "hget (um_uploads ?m) k = Some v" "hget (um_uploads ?m) k' = Some v'"
      "up_dir v = up_dir v' \<or> fst k = fst k'"
    then show "k = k'" using uploads_okD(2) [OF ok] by (auto simp: get split: if_splits)
  next
    fix h
    assume "h \<in> set (un_handed g)"
    then show "handed_ok (um_dirs ?m) h"
      unfolding dirs using uploads_okD(3) [OF ok] handed_ok_other handed_member gone by blast
  next
    fix d files
    assume "hget (um_dirs ?m) d = Some files" "d \<notin> handed_dirs g"
    then have "hget (um_dirs m) d = Some files" "d \<noteq> up_dir u" "d \<notin> handed_dirs g"
      by (auto simp: dirs hm.get_del split: if_splits)
    then obtain k v where "hget (um_uploads m) k = Some v" "up_dir v = d" "d \<noteq> up_dir u"
      using uploads_okD(4) [OF ok] by blast
    then show "\<exists>k v. hget (um_uploads ?m) k = Some v \<and> up_dir v = d"
      using Some by (metis get option.inject)
  qed
  with Some show ?thesis by (simp add: discard_at_def)
qed

lemma ok_discards: "uploads_ok (m, g) \<Longrightarrow> uploads_ok (foldl (\<lambda>m key. discard_at key m) m keys, g)"
  by (induction keys arbitrary: m) (auto intro: ok_discard)

lemma hdel_hput_new: "hget m k = None \<Longrightarrow> hdel k (hput k v m) = m"
  by (induction m) (auto simp: hmap_defs split: if_splits)

lemma begin_upload_cases:
  assumes "begin_upload env now a u name n m = (res, m')"
  obtains (refused) "isl res" "m' = m"
  | (begun) d where "res = Inr ()" "hget (um_dirs m) d = None" "\<forall>key \<in> set (hkeys (um_uploads m)). fst key \<noteq> a"
      "um_dirs m' = hput d [(safe_attachment_name name, [])] (hput d [] (um_dirs m))"
      "um_uploads m' = hput (a, u) \<lparr>up_dir = d, up_name = safe_attachment_name name, up_received = 0,
         up_next_index = 0, up_size = n, up_last_activity = now\<rparr> (um_uploads m)"
proof (cases "list_ex (\<lambda>(attach, _). attach = a) (hkeys (um_uploads m)) \<or>
    (\<exists>free. be_free env = Some free \<and> free < sat_add64 n FREE_SPACE_MARGIN)")
  case True
  with assms show thesis
    by (intro refused) (auto simp: begin_upload_def split: if_splits)
next
  case False
  then have room: "\<not> list_ex (\<lambda>(attach, _). attach = a) (hkeys (um_uploads m))"
    "\<not> (case be_free env of None \<Rightarrow> False | Some free \<Rightarrow> free < sat_add64 n FREE_SPACE_MARGIN)"
    by (auto split: option.splits)
  have single: "hput k v [] = [(k, v)]" for k :: ustr and v :: bytes by (simp add: hput_def)
  show thesis
  proof (cases "create_private_upload_dir (be_dir env) m")
    case None
    with assms room show thesis by (intro refused) (auto simp: begin_upload_def)
  next
    case (Some dm)
    then obtain d where d: "dm = (d, m\<lparr>um_dirs := hput d [] (um_dirs m)\<rparr>)" "hget (um_dirs m) d = None"
      by (auto simp: create_private_upload_dir_def hhas_def split: option.splits if_splits)
    show thesis
    proof (cases "be_opens env")
      case True
      with assms room Some d have "res = Inr ()" and m': "m' = (write_file d (safe_attachment_name name) []
          (m\<lparr>um_dirs := hput d [] (um_dirs m)\<rparr>))\<lparr>um_uploads := hput (a, u)
          \<lparr>up_dir = d, up_name = safe_attachment_name name, up_received = 0, up_next_index = 0,
           up_size = n, up_last_activity = now\<rparr> (um_uploads m)\<rparr>"
        by (simp_all add: begin_upload_def Let_def)
      moreover have "\<forall>key \<in> set (hkeys (um_uploads m)). fst key \<noteq> a"
        using room(1) by (auto simp: list_ex_iff)
      ultimately show thesis
        using d(2) by (intro begun) (simp_all add: write_file_def hm.get_put single)
    next
      case False
      with assms room Some d show thesis
        by (intro refused) (auto simp: begin_upload_def Let_def remove_dir_all_def hdel_hput_new)
    qed
  qed
qed

lemma ok_begin:
  assumes ok: "uploads_ok (m, g)"
  shows "uploads_ok (exec_upload decode64 (m, g) (Uo_Begin env now a u name n))"
proof (cases "begin_upload env now a u name n m")
  case (Pair res m')
  from Pair show ?thesis
  proof (cases rule: begin_upload_cases)
    case refused
    with Pair ok show ?thesis by (cases res) simp_all
  next
    case (begun d)
    let ?g = "g\<lparr>un_acked := (un_acked g)((a, u) := [])\<rparr>"
    have same: "handed_dirs ?g = handed_dirs g" by (simp add: handed_dirs_def)
    have new: "up_dir v \<noteq> d" "fst k \<noteq> a" if "hget (um_uploads m) k = Some v" for k v
    proof -
      show "up_dir v \<noteq> d" using uploads_okD(1) [OF ok that] begun(2) by (auto simp: upload_ok_def)
      have "k \<in> set (hkeys (um_uploads m))" using that by (metis hget_None_iff option.distinct(1))
      with begun(3) show "fst k \<noteq> a" by blast
    qed
    have fresh: "d \<notin> handed_dirs g"
      using uploads_okD(3) [OF ok] begun(2) by (force simp: handed_dirs_def handed_ok_def)
    have dirs: "hget (um_dirs m') e = (if e = d then Some [(safe_attachment_name name, [])] else hget (um_dirs m) e)"
      for e using begun(4) by (simp add: hm.get_put)
    have ups: "hget (um_uploads m') k = (if k = (a, u) then Some \<lparr>up_dir = d, up_name = safe_attachment_name name, up_received = 0,
         up_next_index = 0, up_size = n, up_last_activity = now\<rparr> else hget (um_uploads m) k)" for k
      using begun(5) by (simp add: hm.get_put)
    have "uploads_ok (m', ?g)"
    proof (rule uploads_okI)
      fix k v
      assume v: "hget (um_uploads m') k = Some v"
      show "upload_ok ?g (um_dirs m') k v"
      proof (cases "k = (a, u)")
        case True
        with v have "up_dir v = d" "up_name v = safe_attachment_name name" "up_received v = 0"
          by (auto simp: ups)
        with True fresh show ?thesis by (simp add: upload_ok_def dirs same)
      next
        case False
        with v have "hget (um_uploads m) k = Some v" by (simp add: ups)
        from uploads_okD(1) [OF ok this] new(1) [OF this] False show ?thesis
          by (simp add: upload_ok_def dirs same)
      qed
    next
      fix k k' v v'
      assume "hget (um_uploads m') k = Some v" "hget (um_uploads m') k' = Some v'"
        "up_dir v = up_dir v' \<or> fst k = fst k'"
      then show "k = k'"
        using uploads_okD(2) [OF ok, of k v k' v'] new [of k v] new [of k' v'] by (auto simp: ups split: if_splits)
    next
      fix h
      assume "h \<in> set (un_handed ?g)"
      then have "handed_ok (um_dirs m) h" "fst h \<noteq> d"
        using uploads_okD(3) [OF ok] handed_member [OF _ fresh] by auto
      then show "handed_ok (um_dirs m') h" by (auto simp: handed_ok_def dirs)
    next
      fix e files
      assume e: "hget (um_dirs m') e = Some files" "e \<notin> handed_dirs ?g"
      show "\<exists>k v. hget (um_uploads m') k = Some v \<and> up_dir v = e"
      proof (cases "e = d")
        case True
        then show ?thesis by (intro exI [of _ "(a, u)"]) (simp add: ups)
      next
        case False
        with e have "hget (um_dirs m) e = Some files" "e \<notin> handed_dirs g" by (simp_all add: dirs same)
        then obtain k v where k: "hget (um_uploads m) k = Some v" "up_dir v = e"
          using uploads_okD(4) [OF ok] by blast
        from new(2) [OF k(1)] have "k \<noteq> (a, u)" by auto
        with k show ?thesis by (intro exI [of _ k] exI [of _ v]) (simp add: ups)
      qed
    qed
    with Pair begun(1) show ?thesis by simp
  qed
qed

lemma chunk_upload_cases:
  assumes "chunk_upload decode64 io now a u index data m = (res, m')"
  obtains (unknown) "isl res" "m' = m"
  | (discarded) "isl res" "m' = discard_at (a, u) m"
  | (written) v w bs where "res = Inr (up_received w)" "hget (um_uploads m) (a, u) = Some v"
      "decode64 data = Some bs" "up_received v + length bs \<le> up_size v"
      "w = v\<lparr>up_received := up_received v + length bs, up_next_index := up_next_index v + 1,
         up_last_activity := now\<rparr>"
      "m' = append_file w bs (m\<lparr>um_uploads := hput (a, u) w (um_uploads m)\<rparr>)"
proof (cases "hget (um_uploads m) (a, u)")
  case None
  with assms show thesis by (intro unknown) (auto simp: chunk_upload_def)
next
  case (Some v)
  show thesis
  proof (cases "write_chunk decode64 io now v index data")
    case (Inl e)
    with assms Some show thesis by (intro discarded) (auto simp: chunk_upload_def)
  next
    case (Inr x)
    then obtain w bs where x: "x = (w, bs)" "decode64 data = Some bs" "up_received v + length bs \<le> up_size v"
      "w = v\<lparr>up_received := up_received v + length bs, up_next_index := up_next_index v + 1,
         up_last_activity := now\<rparr>"
      by (auto simp: write_chunk_def split: if_splits option.splits)
    with assms Some Inr show thesis by (intro written) (auto simp: chunk_upload_def)
  qed
qed

lemma ok_chunk:
  assumes ok: "uploads_ok (m, g)"
  shows "uploads_ok (exec_upload decode64 (m, g) (Uo_Chunk io now a u index data))"
proof (cases "chunk_upload decode64 io now a u index data m")
  case (Pair res m')
  from Pair show ?thesis
  proof (cases rule: chunk_upload_cases)
    case unknown
    with Pair ok show ?thesis by (cases res) simp_all
  next
    case discarded
    with Pair ok_discard [OF ok] show ?thesis by (cases res) simp_all
  next
    case (written v w bs)
    let ?g = "g\<lparr>un_acked := (un_acked g)((a, u) := un_acked g (a, u) @ bs)\<rparr>"
    have same: "handed_dirs ?g = handed_dirs g" by (simp add: handed_dirs_def)
    have v: "upload_ok g (um_dirs m) (a, u) v" by (rule uploads_okD(1) [OF ok written(2)])
    have w: "up_dir w = up_dir v" "up_name w = up_name v" using written(5) by simp_all
    have m': "m' = m\<lparr>um_uploads := hput (a, u) w (um_uploads m),
        um_dirs := hput (up_dir v) [(up_name v, un_acked g (a, u) @ bs)] (um_dirs m)\<rparr>"
      using v written(6) w
      by (simp add: append_file_def file_content_def write_file_def upload_ok_def hget_def hput_def)
    have ups: "hget (um_uploads m') k = (if k = (a, u) then Some w else hget (um_uploads m) k)"
      and dirs: "hget (um_dirs m') d =
        (if d = up_dir v then Some [(up_name v, un_acked g (a, u) @ bs)] else hget (um_dirs m) d)" for k d
      by (simp_all add: m' hm.get_put)
    have before: "\<exists>y. hget (um_uploads m) k = Some y \<and> up_dir y = up_dir x"
      if "hget (um_uploads m') k = Some x" for k x
      using that written(2) w by (cases "k = (a, u)") (auto simp: ups)
    have "uploads_ok (m', ?g)"
    proof (rule uploads_okI)
      fix k x
      assume x: "hget (um_uploads m') k = Some x"
      show "upload_ok ?g (um_dirs m') k x"
      proof (cases "k = (a, u)")
        case True
        with x have "x = w" by (simp add: ups)
        with True v w written(4,5) show ?thesis by (simp add: upload_ok_def dirs same)
      next
        case False
        with x have k: "hget (um_uploads m) k = Some x" by (simp add: ups)
        from uploads_okD(2) [OF ok k written(2)] False have "up_dir x \<noteq> up_dir v" by blast
        with uploads_okD(1) [OF ok k] False show ?thesis by (simp add: upload_ok_def dirs same)
      qed
    next
      fix k k' x x'
      assume "hget (um_uploads m') k = Some x" "hget (um_uploads m') k' = Some x'"
        "up_dir x = up_dir x' \<or> fst k = fst k'"
      then show "k = k'" using before uploads_okD(2) [OF ok] by metis
    next
      fix h
      assume "h \<in> set (un_handed ?g)"
      then have "handed_ok (um_dirs m) h" "fst h \<noteq> up_dir v"
        using uploads_okD(3) [OF ok] handed_member v by (auto simp: upload_ok_def)
      then show "handed_ok (um_dirs m') h" by (auto simp: handed_ok_def dirs)
    next
      fix d files
      assume d: "hget (um_dirs m') d = Some files" "d \<notin> handed_dirs ?g"
      show "\<exists>k x. hget (um_uploads m') k = Some x \<and> up_dir x = d"
      proof (cases "d = up_dir v")
        case True
        then show ?thesis using w by (intro exI [of _ "(a, u)"] exI [of _ w]) (simp add: ups)
      next
        case False
        with d have "hget (um_dirs m) d = Some files" "d \<notin> handed_dirs g" by (simp_all add: dirs same)
        then obtain k x where k: "hget (um_uploads m) k = Some x" "up_dir x = d"
          using uploads_okD(4) [OF ok] by blast
        with False have "k \<noteq> (a, u)" using written(2) by auto
        with k show ?thesis by (intro exI [of _ k] exI [of _ x]) (simp add: ups)
      qed
    qed
    with Pair written(1,3) show ?thesis by simp
  qed
qed

lemma ok_finish:
  assumes ok: "uploads_ok (m, g)"
  shows "uploads_ok (exec_upload decode64 (m, g) (Uo_Finish io a u))"
proof (cases "hget (um_uploads m) (a, u)")
  case None
  with ok show ?thesis by (simp add: finish_upload_def)
next
  case (Some v)
  show ?thesis
  proof (cases "up_received v \<noteq> up_size v \<or> io \<noteq> Io_Done")
    case True
    with Some ok_discard [OF ok, of "(a, u)"] show ?thesis
      by (auto simp: finish_upload_def discard_at_def Let_def)
  next
    case False
    let ?m = "forget (a, u) m"
    let ?h = "(up_dir v, up_name v, un_acked g (a, u), up_size v)"
    let ?g = "g\<lparr>un_handed := un_handed g @ [?h]\<rparr>"
    have v: "upload_ok g (um_dirs m) (a, u) v" by (rule uploads_okD(1) [OF ok Some])
    have more: "handed_dirs ?g = insert (up_dir v) (handed_dirs g)" by (simp add: handed_dirs_def)
    have ups: "hget (um_uploads ?m) k = (if k = (a, u) then None else hget (um_uploads m) k)"
      and dirs: "um_dirs ?m = um_dirs m" for k by (simp_all add: forget_def hm.get_del)
    have "uploads_ok (?m, ?g)"
    proof (rule uploads_okI)
      fix k x
      assume "hget (um_uploads ?m) k = Some x"
      then have k: "hget (um_uploads m) k = Some x" "k \<noteq> (a, u)" by (auto simp: ups split: if_splits)
      from uploads_okD(2) [OF ok k(1) Some] k(2) have "up_dir x \<noteq> up_dir v" by blast
      with uploads_okD(1) [OF ok k(1)] show "upload_ok ?g (um_dirs ?m) k x"
        by (simp add: upload_ok_def dirs more)
    next
      fix k k' x x'
      assume "hget (um_uploads ?m) k = Some x" "hget (um_uploads ?m) k' = Some x'"
        "up_dir x = up_dir x' \<or> fst k = fst k'"
      then show "k = k'" using uploads_okD(2) [OF ok] by (auto simp: ups split: if_splits)
    next
      fix h
      assume "h \<in> set (un_handed ?g)"
      then show "handed_ok (um_dirs ?m) h"
        using uploads_okD(3) [OF ok] v False by (auto simp: dirs handed_ok_def upload_ok_def)
    next
      fix d files
      assume d: "hget (um_dirs ?m) d = Some files" "d \<notin> handed_dirs ?g"
      then have "hget (um_dirs m) d = Some files" "d \<notin> handed_dirs g" "d \<noteq> up_dir v"
        by (simp_all add: dirs more)
      then obtain k x where k: "hget (um_uploads m) k = Some x" "up_dir x = d"
        using uploads_okD(4) [OF ok] by blast
      with \<open>d \<noteq> up_dir v\<close> Some have "k \<noteq> (a, u)" by auto
      with k show "\<exists>k x. hget (um_uploads ?m) k = Some x \<and> up_dir x = d"
        by (intro exI [of _ k] exI [of _ x]) (simp add: ups)
    qed
    with Some False show ?thesis by (simp add: finish_upload_def Let_def)
  qed
qed

lemma exec_upload_ok:
  assumes "uploads_ok s"
  shows "uploads_ok (exec_upload decode64 s step)"
proof -
  obtain m g where s: "s = (m, g)" by (cases s)
  with assms have ok: "uploads_ok (m, g)" by simp
  show ?thesis unfolding s
  proof (cases step)
    case (Uo_Begin env now a u name n)
    then show "uploads_ok (exec_upload decode64 (m, g) step)" using ok_begin [OF ok] by simp
  next
    case (Uo_Chunk io now a u index data)
    then show "uploads_ok (exec_upload decode64 (m, g) step)" using ok_chunk [OF ok] by simp
  next
    case (Uo_Finish io a u)
    then show "uploads_ok (exec_upload decode64 (m, g) step)" using ok_finish [OF ok] by simp
  qed (simp_all add: abort_upload_def abort_attach_def abort_all_def reap_idle_def ok_discard [OF ok]
      ok_discards [OF ok])
qed

lemma uploads_ok_start: "uploads_ok start_uploads"
  by (simp add: uploads_ok_def start_uploads_def new_upload_manager_def hm.get_none)

interpretation uploading: invariant_steps "exec_upload decode64" uploads_ok for decode64
  by unfold_locales (rule exec_upload_ok)

section \<open>Claims\<close>


definition example_upload :: "upload_op list" where
  "example_upload = [Uo_Begin \<lparr>be_free = None, be_dir = Some ''d1'', be_opens = True\<rparr> 0 ''t1'' ''u1'' (lit ''a.txt'') 2,
     Uo_Chunk Io_Done 1 ''t1'' ''u1'' 0 ''AQI='', Uo_Finish Io_Done ''t1'' ''u1'']"


text \<open>
  A client's file name cannot leave the private directory: what is left of it is not empty,
  has no path separator and no control character and is at most 180 characters long (or it is
  the default name).
\<close>

theorem attachment_names_are_safe:
  "let safe = safe_attachment_name name in
   safe \<noteq> [] \<and> length safe \<le> 180 \<and> list_all (\<lambda>c. \<not> slash_or_backslash c \<and> \<not> is_control c) safe"
proof -
  let ?base = "after_last_slash name"
  let ?cleaned = "take 180 (filter (\<lambda>c. \<not> is_control c) ?base)"
  let ?safe = "trim (trim_start_matches (\<lambda>c. c = 0x2E) ?cleaned)"
  have "set ?safe \<subseteq> set (trim_start_matches (\<lambda>c. c = 0x2E) ?cleaned)" by (rule set_trim)
  also have "\<dots> \<subseteq> set ?cleaned" by (auto simp: trim_start_matches_def dest: set_dropWhileD)
  also have "\<dots> \<subseteq> {c \<in> set ?base. \<not> is_control c}" by (auto dest: in_set_takeD)
  also have "set ?base \<subseteq> {c. \<not> slash_or_backslash c}"
    by (auto simp: after_last_slash_def dest: set_takeWhileD)
  finally have "list_all (\<lambda>c. \<not> slash_or_backslash c \<and> \<not> is_control c) ?safe"
    by (auto simp: list_all_iff)
  moreover have "length ?safe \<le> 180"
  proof -
    have "length ?safe \<le> length (trim_start_matches (\<lambda>c. c = 0x2E) ?cleaned)" by (rule length_trim)
    also have "\<dots> \<le> length ?cleaned" unfolding trim_start_matches_def by (rule length_dropWhile_le)
    finally show ?thesis by simp
  qed
  moreover have "list_all (\<lambda>c. \<not> slash_or_backslash c \<and> \<not> is_control c) (lit ''attachment.bin'')"
    "length (lit ''attachment.bin'') \<le> 180" "lit ''attachment.bin'' \<noteq> []"
    by (simp_all add: lit_def slash_or_backslash_def is_control_def)
  ultimately show ?thesis by (simp add: safe_attachment_name_def Let_def)
qed


end
