(* ===== verification/ScreenAttention.thy ===== *)
theory ScreenAttention
  imports ProcessTree RustText
begin

text \<open>
  What a node reads off a terminal's screen (\<^verbatim>\<open>crates/machine/src/terminal_attention.rs\<close>, the keys
  of \<^verbatim>\<open>pty.rs\<close>) and which agent is in its foreground (\<^verbatim>\<open>agent_detect.rs\<close>). Commands and screens
  are strings of characters; tmux itself, which shows the screen and takes the keys, is outside.

  The lemmas show that the keys for an option end on that option, and that a pane running \<^verbatim>\<open>node\<close>
  has an agent exactly when a process of that name is below its shell.
\<close>

section \<open>Strings\<close>

definition strip_cr :: "ustr \<Rightarrow> ustr" where
  "strip_cr t = (if t \<noteq> [] \<and> last t = 13 then butlast t else t)"

definition str_lines :: "ustr \<Rightarrow> ustr list" where
  "str_lines t =
     (let parts = split_on 10 t in
      map strip_cr (butlast parts) @ (if last parts = [] then [] else [last parts]))"

definition str_contains :: "ustr \<Rightarrow> ustr \<Rightarrow> bool" where
  "str_contains t p \<longleftrightarrow> list_ex (\<lambda>k. starts_with (drop k t) p) [0..<Suc (length t)]"

definition ends_with :: "ustr \<Rightarrow> ustr \<Rightarrow> bool" where
  "ends_with t p \<longleftrightarrow> starts_with (rev t) (rev p)"

definition to_ascii_lowercase :: "ustr \<Rightarrow> ustr" where
  "to_ascii_lowercase t = map (\<lambda>c. if 65 \<le> c \<and> c \<le> 90 then c + 32 else c) t"

definition first_index :: "('a \<Rightarrow> bool) \<Rightarrow> 'a list \<Rightarrow> nat option" where
  "first_index P xs = List.find (\<lambda>k. P (xs ! k)) [0..<length xs]"

definition last_index :: "('a \<Rightarrow> bool) \<Rightarrow> 'a list \<Rightarrow> nat option" where
  "last_index P xs = List.find (\<lambda>k. P (xs ! k)) (rev [0..<length xs])"

text \<open>\<^verbatim>\<open>min_by_key\<close>: the first of the smallest.\<close>

fun first_min :: "('a \<Rightarrow> nat) \<Rightarrow> 'a list \<Rightarrow> 'a option" where
  "first_min f [] = None"
| "first_min f (x # xs) =
     (case first_min f xs of None \<Rightarrow> Some x | Some y \<Rightarrow> if f y < f x then Some y else Some x)"

definition abs_diff :: "nat \<Rightarrow> nat \<Rightarrow> nat" where
  "abs_diff a b = (if a < b then b - a else a - b)"

section \<open>Agents\<close>

definition is_native_claude :: "ustr \<Rightarrow> bool" where
  "is_native_claude command \<longleftrightarrow>
     (let parts = split_on 0x2E command in
      length parts = 3 \<and> list_all (\<lambda>part. part \<noteq> [] \<and> list_all (\<lambda>c. 48 \<le> c \<and> c \<le> 57) part) parts)"

definition names_running :: "process list \<Rightarrow> pid \<Rightarrow> string \<Rightarrow> bool" where
  "names_running processes p name \<longleftrightarrow>
     (case find_named_descendants processes p name of None \<Rightarrow> False | Some found \<Rightarrow> found \<noteq> [])"

definition agent_for_pane :: "ustr option \<Rightarrow> pid option \<Rightarrow> process list \<Rightarrow> run_agent option" where
  "agent_for_pane command pane_pid processes =
     (case command of
        None \<Rightarrow> None
      | Some command \<Rightarrow>
          if command = lit ''claude'' \<or> command = lit ''claude.exe'' then Some RA_Claude
          else if command = lit ''codex'' then Some RA_Codex
          else if is_native_claude command then Some RA_Claude
          else if command = lit ''node'' then
            (case pane_pid of
               None \<Rightarrow> None
             | Some p \<Rightarrow>
                 map_option snd (List.find (\<lambda>(name, _). names_running processes p name)
                   [(''claude'', RA_Claude), (''claude.exe'', RA_Claude), (''codex'', RA_Codex)]))
          else None)"

definition needs_processes :: "ustr option \<Rightarrow> bool" where
  "needs_processes command \<longleftrightarrow> command = Some (lit ''node'')"

section \<open>Prompts\<close>

definition supports_command :: "ustr option \<Rightarrow> bool" where
  "supports_command command \<longleftrightarrow>
     (case command of
        None \<Rightarrow> False
      | Some c \<Rightarrow> c \<in> {lit ''claude'', lit ''claude.exe'', lit ''codex'', lit ''node''} \<or> is_native_claude c)"

definition is_marker :: "nat \<Rightarrow> bool" where
  "is_marker c \<longleftrightarrow> c = 0x276F \<or> c = 0x203A"

definition trim_start :: "ustr \<Rightarrow> ustr" where
  "trim_start t = trim_start_matches is_whitespace t"

definition option_text :: "ustr \<Rightarrow> ustr" where
  "option_text line = trim_start (trim_start_matches is_marker (trim line))"

definition highlighted :: "ustr \<Rightarrow> bool" where
  "highlighted line \<longleftrightarrow> (case trim line of [] \<Rightarrow> False | c # _ \<Rightarrow> is_marker c)"

definition folder_trust :: "ustr list \<Rightarrow> bool" where
  "folder_trust lines =
     (let footer = lines \<noteq> [] \<and>
            str_contains (to_ascii_lowercase (last lines)) (lit ''enter to confirm'') \<and>
            str_contains (to_ascii_lowercase (last lines)) (lit ''esc to cancel'');
          yes = first_index (\<lambda>line. option_text line = FOLDER_TRUST_YES) lines;
          no = first_index (\<lambda>line. option_text line = lit ''No, exit'') lines
      in footer \<and>
         (case (yes, no) of
            (Some y, Some n) \<Rightarrow> abs_diff y n = 1 \<and> (highlighted (lines ! y) \<or> highlighted (lines ! n))
          | _ \<Rightarrow> False))"

definition choose_moves :: "ustr \<Rightarrow> ustr \<Rightarrow> int option" where
  "choose_moves screen label =
     (let lines = filter (\<lambda>line. trim line \<noteq> []) (str_lines screen) in
      case last_index (\<lambda>line. option_text line = trim label) lines of
        None \<Rightarrow> None
      | Some target \<Rightarrow>
          (case first_min (\<lambda>k. abs_diff k target)
                  (filter (\<lambda>k. highlighted (lines ! k)) [0..<length lines]) of
             None \<Rightarrow> None
           | Some current \<Rightarrow>
               if abs_diff current target \<le> 9 then Some (int target - int current) else None))"

definition is_question :: "ustr \<Rightarrow> bool" where
  "is_question line \<longleftrightarrow>
     line \<in> {lit ''Do you want to proceed?'', lit ''Would you like to run the following command?'',
              lit ''Would you like to make the following edits?''} \<or>
     (starts_with line (lit ''Do you want to '') \<and> ends_with line (lit ''?''))"

definition marker_or_space :: "nat \<Rightarrow> bool" where
  "marker_or_space c \<longleftrightarrow> is_marker c \<or> c = 32"

definition selects_number :: "ustr \<Rightarrow> bool" where
  "selects_number line \<longleftrightarrow>
     (case line of
        [] \<Rightarrow> False
      | c # rest \<Rightarrow> is_marker c \<and>
          (case trim_start rest of [] \<Rightarrow> False | d # _ \<Rightarrow> 49 \<le> d \<and> d \<le> 51))"

definition detect :: "ustr option \<Rightarrow> ustr \<Rightarrow> terminal_attention option" where
  "detect command screen =
     (if \<not> supports_command command then None
      else
        (let lines = filter (\<lambda>s. s \<noteq> []) (map trim (str_lines screen)) in
         if folder_trust lines then Some FolderTrust
         else
           (let footer = list_ex (\<lambda>line. str_contains (to_ascii_lowercase line) (lit ''esc to cancel'') \<or>
                    str_contains (to_ascii_lowercase line) (lit ''esc to reject'')) (take 2 (rev lines));
                question = list_ex is_question lines;
                selected = list_ex selects_number lines;
                yes = list_ex (\<lambda>line. starts_with (trim_start_matches marker_or_space line) (lit ''1. Yes'')) lines;
                reject = list_ex (\<lambda>line. starts_with (trim_start_matches marker_or_space line) (lit ''2. No'') \<or>
                    starts_with (trim_start_matches marker_or_space line) (lit ''3. No'')) lines
            in if footer \<and> question \<and> selected \<and> yes \<and> reject then Some Confirmation else None)))"

section \<open>Keys\<close>

datatype menu_key = Key_Up | Key_Down | Key_Enter

definition choose_keys :: "ustr \<Rightarrow> ustr \<Rightarrow> ustr + menu_key list" where
  "choose_keys screen label =
     (case choose_moves screen label of
        None \<Rightarrow> Inl (lit (''that option isn'' @ [CHR 0x27] @ ''t on the screen''))
      | Some moves \<Rightarrow>
          Inr (replicate (nat \<bar>moves\<bar>) (if moves < 0 then Key_Up else Key_Down) @ [Key_Enter]))"

text \<open>A menu: each key moves the highlight by a line; Enter takes the line it is on.\<close>

fun press :: "int \<times> int option \<Rightarrow> menu_key \<Rightarrow> int \<times> int option" where
  "press (k, taken) Key_Up = (k - 1, taken)"
| "press (k, taken) Key_Down = (k + 1, taken)"
| "press (k, taken) Key_Enter = (k, Some k)"

lemma press_moves:
  "foldl press (k, t) (replicate n Key_Up) = (k - int n, t)"
  "foldl press (k, t) (replicate n Key_Down) = (k + int n, t)"
  by (induction n arbitrary: k) auto

lemma last_indexD:
  assumes "last_index P xs = Some k"
  shows "k < length xs" "P (xs ! k)" "\<And>j. k < j \<Longrightarrow> j < length xs \<Longrightarrow> \<not> P (xs ! j)"
proof -
  from assms obtain i where i: "i < length xs" "rev [0..<length xs] ! i = k" "P (xs ! k)"
    and before: "\<And>j. j < i \<Longrightarrow> \<not> P (xs ! (rev [0..<length xs] ! j))"
    by (auto simp: last_index_def find_Some_iff)
  then have k: "k = length xs - 1 - i" by (simp add: rev_nth)
  with i show "k < length xs" "P (xs ! k)" by auto
  fix j
  assume "k < j" "j < length xs"
  then have "length xs - 1 - j < i" "rev [0..<length xs] ! (length xs - 1 - j) = j"
    using k i(1) by (auto simp: rev_nth)
  with before show "\<not> P (xs ! j)" by metis
qed

lemma first_min_None: "first_min f xs = None \<longleftrightarrow> xs = []"
  by (cases xs) (auto split: option.splits)

lemma first_minD: "first_min f xs = Some x \<Longrightarrow> x \<in> set xs \<and> (\<forall>y \<in> set xs. f x \<le> f y)"
proof (induction xs arbitrary: x)
  case (Cons a xs)
  show ?case
  proof (cases "first_min f xs")
    case None
    with Cons.prems show ?thesis by (simp add: first_min_None)
  next
    case (Some y)
    with Cons.prems Cons.IH [OF Some] show ?thesis by (auto split: if_splits)
  qed
qed simp

section \<open>Claims\<close>

text \<open>
  C33. The keys sent for an option take that option: from the highlighted line nearest to it, on a
  menu where Up and Down move by one line, they end with Enter on the last line that reads the
  label, after at most nine moves; and they are refused exactly when no line reads the label, no
  line is highlighted, or the nearest highlight is more than nine lines away.
\<close>

theorem choose_takes_the_option:
  fixes screen label :: ustr
  defines "lines \<equiv> filter (\<lambda>line. trim line \<noteq> []) (str_lines screen)"
  shows "case choose_keys screen label of
      Inr keys \<Rightarrow> \<exists>current target. current < length lines \<and> target < length lines \<and>
        highlighted (lines ! current) \<and> option_text (lines ! target) = trim label \<and>
        (\<forall>k \<in> {target<..<length lines}. option_text (lines ! k) \<noteq> trim label) \<and>
        (\<forall>k \<in> {..<length lines}. highlighted (lines ! k) \<longrightarrow> abs_diff current target \<le> abs_diff k target) \<and>
        length keys \<le> 10 \<and> foldl press (int current, None) keys = (int target, Some (int target))
    | Inl _ \<Rightarrow> (\<forall>line \<in> set lines. option_text line \<noteq> trim label) \<or>
        (\<exists>target < length lines. option_text (lines ! target) = trim label \<and>
          (\<forall>k \<in> {..<length lines}. highlighted (lines ! k) \<longrightarrow> 9 < abs_diff k target))"
proof (cases "last_index (\<lambda>line. option_text line = trim label) lines")
  case None
  then have "\<forall>line \<in> set lines. option_text line \<noteq> trim label"
    by (auto simp: last_index_def find_None_iff in_set_conv_nth)
  with None show ?thesis by (simp add: choose_keys_def choose_moves_def lines_def Let_def)
next
  case (Some target)
  note t = last_indexD [OF Some]
  let ?lit = "filter (\<lambda>k. highlighted (lines ! k)) [0..<length lines]"
  show ?thesis
  proof (cases "first_min (\<lambda>k. abs_diff k target) ?lit")
    case None
    then have "\<not> highlighted (lines ! k)" if "k < length lines" for k
      using that by (auto simp: first_min_None filter_empty_conv)
    with Some None t show ?thesis by (auto simp: choose_keys_def choose_moves_def Let_def simp flip: lines_def)
  next
    case current: (Some current)
    note c = first_minD [OF current]
    have nearest: "abs_diff current target \<le> abs_diff k target" if "k < length lines" "highlighted (lines ! k)" for k
      using c that by auto
    show ?thesis
    proof (cases "abs_diff current target \<le> 9")
      case True
      let ?moves = "int target - int current"
      let ?keys = "replicate (nat \<bar>?moves\<bar>) (if ?moves < 0 then Key_Up else Key_Down) @ [Key_Enter]"
      have keys: "choose_keys screen label = Inr ?keys"
        using Some current True by (simp add: choose_keys_def choose_moves_def Let_def flip: lines_def)
      have "foldl press (int current, None) ?keys = (int target, Some (int target))"
        by (simp add: press_moves)
      moreover have "length ?keys \<le> 10" using True by (simp add: abs_diff_def split: if_splits)
      ultimately show ?thesis
        unfolding keys sum.case using c t nearest
        by (intro exI [of _ current] exI [of _ target] conjI ballI impI) (simp_all only: set_filter mem_Collect_eq
          set_upt atLeastLessThan_iff lessThan_iff greaterThanLessThan_iff simp_thms not_False_eq_True)
    next
      case False
      with Some current have "choose_keys screen label = Inl (lit (''that option isn'' @ [CHR 0x27] @ ''t on the screen''))"
        by (simp add: choose_keys_def choose_moves_def Let_def flip: lines_def)
      moreover have "9 < abs_diff k target" if "k < length lines" "highlighted (lines ! k)" for k
        using nearest [OF that] False by simp
      ultimately show ?thesis using t by auto
    qed
  qed
qed

text \<open>An example: a menu of the options N and Y, with N highlighted.\<close>

definition example_screen :: ustr where
  "example_screen = [0x276F, 78, 10, 89, 10]"

lemma choose_takes_the_option_witness:
  "choose_keys example_screen [89] = Inr [Key_Down, Key_Enter] \<and>
     (\<exists>current target. foldl press (int current, None) [Key_Down, Key_Enter] = (int target, Some (int target)))"
proof -
  have "choose_keys example_screen [89] = Inr [Key_Down, Key_Enter]" 
    by (simp add: choose_keys_def choose_moves_def example_screen_def str_lines_def strip_cr_def last_index_def
        option_text_def highlighted_def trim_def trim_start_def trim_start_matches_def trim_end_matches_def
        is_whitespace_def is_marker_def abs_diff_def Let_def upt_conv_Cons)
  with choose_takes_the_option [of example_screen "[89]"] show ?thesis by auto
qed

text \<open>
  A pane whose foreground is \<^verbatim>\<open>node\<close> runs an agent exactly when a process named after one is
  below its shell, and then it is Claude if that name is among them; any other \<^verbatim>\<open>node\<close> program is
  no agent.
\<close>

theorem node_pane_agent:
  "agent_for_pane (Some (lit ''node'')) (Some shell) processes =
     (if \<exists>p. (below processes ''claude'' shell p \<and> is_named processes ''claude'' p) \<or>
             (below processes ''claude.exe'' shell p \<and> is_named processes ''claude.exe'' p)
      then Some RA_Claude
      else if \<exists>p. below processes ''codex'' shell p \<and> is_named processes ''codex'' p
      then Some RA_Codex else None)"
proof -
  have "names_running processes shell name \<longleftrightarrow> (\<exists>p. below processes name shell p \<and> is_named processes name p)"
    for name
  proof -
    obtain found where "find_named_descendants processes shell name = Some found"
      and "set found = {p. below processes name shell p \<and> is_named processes name p}"
      using walk_finds by blast
    then show ?thesis by (cases found) (auto simp: names_running_def)
  qed
  moreover have "\<not> is_native_claude (lit ''node'')" by (simp add: is_native_claude_def lit_def)
  ultimately show ?thesis by (auto simp: agent_for_pane_def lit_def)
qed

end
