(* ===== verification/Previews.thy ===== *)
theory Previews
  imports Messages
begin

text \<open>
  Web previews of a port on a node (\<^verbatim>\<open>crates/hub/src/web_preview/registry.rs\<close> and the claim of a
  stream in \<^verbatim>\<open>transport.rs\<close>). A lease is shared between the registry and the streams opened on it
  (\<^verbatim>\<open>Arc\<close>), so leases live in a store of their own and the maps hold their ids. The clock, new ids
  and secrets are arguments, the hash of a token is a function. A cancellation token is a flag; a
  stream's token is a child of its lease's, so it counts as cancelled when the lease's is.

  The lemmas show that a launch code works once, that a revoked preview is dead, and the limits.
\<close>

section \<open>Leases\<close>

definition LEASE_MS :: ms where "LEASE_MS = 2 * 60 * 60 * 1000"
definition CODE_MS :: ms where "CODE_MS = 60 * 1000"
definition TICKET_MS :: ms where "TICKET_MS = 10 * 1000"

record preview_config =
  pc_domain :: ustr
  pc_port :: "u16 option"

definition preview_origin :: "(nat \<Rightarrow> ustr) \<Rightarrow> preview_config \<Rightarrow> ustr \<Rightarrow> ustr" where
  "preview_origin decimal config host =
     (case pc_port config of
        Some port \<Rightarrow> lit ''https://'' @ host @ lit '':'' @ decimal (unat port)
      | None \<Rightarrow> lit ''https://'' @ host)"

record preview_lease =
  pl_id :: ident
  pl_hostname :: ustr
  pl_origin :: ustr
  pl_user :: ident
  pl_machine :: ident
  pl_port :: u16
  pl_family :: address_family
  pl_target :: ustr
  pl_expires :: ms
  pl_cancelled :: bool
  pl_code_hash :: "ustr option"
  pl_code_expires :: ms
  pl_session_hash :: "ustr option"

definition lease_live :: "ms \<Rightarrow> preview_lease \<Rightarrow> bool" where
  "lease_live now l \<longleftrightarrow> \<not> pl_cancelled l \<and> now < pl_expires l"

definition redeem ::
  "(ustr \<Rightarrow> ustr) \<Rightarrow> ms \<Rightarrow> ustr \<Rightarrow> ustr \<Rightarrow> preview_lease \<Rightarrow> ustr option \<times> preview_lease" where
  "redeem hash_token now new_secret code l =
     (if \<not> lease_live now l \<or> now \<ge> pl_code_expires l \<or> pl_code_hash l \<noteq> Some (hash_token code)
      then (None, l)
      else (Some new_secret,
            l\<lparr>pl_code_hash := None, pl_session_hash := Some (hash_token new_secret)\<rparr>))"

definition authenticated :: "(ustr \<Rightarrow> ustr) \<Rightarrow> ms \<Rightarrow> ustr \<Rightarrow> preview_lease \<Rightarrow> bool" where
  "authenticated hash_token now cookie l \<longleftrightarrow>
     lease_live now l \<and> pl_session_hash l = Some (hash_token cookie)"

section \<open>The registry\<close>

record stream_entry =
  se_lease :: ident
  se_conn_id :: ident
  se_ticket_hash :: ustr
  se_deadline :: ms
  se_sender :: bool
  se_cancelled :: bool

record preview_registry =
  pv_config :: "preview_config option"
  pv_store :: "(ident, preview_lease) hmap"
  pv_leases :: "(ustr, ident) hmap"
  pv_streams :: "(ident, stream_entry) hmap"

definition configured :: "preview_config option \<Rightarrow> preview_registry" where
  "configured config = \<lparr>pv_config = config, pv_store = [], pv_leases = [], pv_streams = []\<rparr>"

definition lease_of :: "preview_registry \<Rightarrow> ident \<Rightarrow> preview_lease option" where
  "lease_of r i = hget (pv_store r) i"

definition live_at :: "preview_registry \<Rightarrow> ms \<Rightarrow> ident \<Rightarrow> bool" where
  "live_at r now i \<longleftrightarrow> (case lease_of r i of None \<Rightarrow> False | Some l \<Rightarrow> lease_live now l)"

definition find_preview :: "preview_registry \<Rightarrow> ms \<Rightarrow> ustr \<Rightarrow> ident option" where
  "find_preview r now host =
     (case hget (pv_leases r) host of
        None \<Rightarrow> None
      | Some i \<Rightarrow> if live_at r now i then Some i else None)"

definition of_lease :: "preview_registry \<Rightarrow> (preview_lease \<Rightarrow> bool) \<Rightarrow> ident \<Rightarrow> bool" where
  "of_lease r P i \<longleftrightarrow> (case lease_of r i of None \<Rightarrow> False | Some l \<Rightarrow> P l)"

definition MAX_LEASES :: nat where "MAX_LEASES = 1024"
definition MAX_USER_LEASES :: nat where "MAX_USER_LEASES = 8"

definition create_preview ::
  "(ustr \<Rightarrow> ustr) \<Rightarrow> (nat \<Rightarrow> ustr) \<Rightarrow> ms \<Rightarrow> ident \<Rightarrow> ustr \<Rightarrow> ident \<Rightarrow> ident \<Rightarrow> u16 \<Rightarrow> address_family \<Rightarrow> ustr
     \<Rightarrow> preview_registry \<Rightarrow> (ustr + ident \<times> ustr) \<times> preview_registry" where
  "create_preview hash_token decimal now new_id code user machine port family target r =
     (case pv_config r of
        None \<Rightarrow> (Inl (lit ''Preview domain is not configured on this Hub''), r)
      | Some config \<Rightarrow>
          (let leases = hretain (\<lambda>_ i. live_at r now i) (pv_leases r);
               r = r\<lparr>pv_leases := leases\<rparr> in
           if length leases \<ge> MAX_LEASES \<or>
              length (filter (of_lease r (\<lambda>l. pl_user l = user)) (hvals leases)) \<ge> MAX_USER_LEASES
           then (Inl (lit ''Close an existing preview before opening another''), r)
           else
             (let hostname = lit ''p-'' @ lit new_id @ lit ''.'' @ pc_domain config;
                  l = \<lparr>pl_id = new_id, pl_hostname = hostname,
                       pl_origin = preview_origin decimal config hostname, pl_user = user,
                       pl_machine = machine, pl_port = port, pl_family = family, pl_target = target,
                       pl_expires = now + LEASE_MS, pl_cancelled = False,
                       pl_code_hash = Some (hash_token code), pl_code_expires = now + CODE_MS,
                       pl_session_hash = None\<rparr>
              in (Inr (new_id, code),
                  r\<lparr>pv_store := hput new_id l (pv_store r), pv_leases := hput hostname new_id leases\<rparr>))))"

definition revoke_preview :: "ident \<Rightarrow> ident \<Rightarrow> preview_registry \<Rightarrow> bool \<times> preview_registry" where
  "revoke_preview user i r =
     (case List.find (\<lambda>(_, j). of_lease r (\<lambda>l. pl_user l = user \<and> pl_id l = i) j) (pv_leases r) of
        None \<Rightarrow> (False, r)
      | Some (host, j) \<Rightarrow>
          (True, case lease_of r j of
                   None \<Rightarrow> r
                 | Some l \<Rightarrow> r\<lparr>pv_leases := hdel host (pv_leases r),
                     pv_store := hput j (l\<lparr>pl_cancelled := True\<rparr>) (pv_store r)\<rparr>))"

definition redeem_preview ::
  "(ustr \<Rightarrow> ustr) \<Rightarrow> ms \<Rightarrow> ustr \<Rightarrow> ident \<Rightarrow> ustr \<Rightarrow> preview_registry \<Rightarrow> ustr option \<times> preview_registry" where
  "redeem_preview hash_token now new_secret i code r =
     (case lease_of r i of
        None \<Rightarrow> (None, r)
      | Some l \<Rightarrow>
          (case redeem hash_token now new_secret code l of
             (res, l) \<Rightarrow> (res, r\<lparr>pv_store := hput i l (pv_store r)\<rparr>)))"

section \<open>Streams\<close>

definition MAX_STREAMS :: nat where "MAX_STREAMS = 1024"
definition MAX_MACHINE_STREAMS :: nat where "MAX_MACHINE_STREAMS = 32"
definition MAX_USER_STREAMS :: nat where "MAX_USER_STREAMS = 64"

definition streams_where :: "preview_registry \<Rightarrow> (preview_lease \<Rightarrow> bool) \<Rightarrow> nat" where
  "streams_where r P = length (filter (\<lambda>s. of_lease r P (se_lease s)) (hvals (pv_streams r)))"

definition allocate ::
  "(ustr \<Rightarrow> ustr) \<Rightarrow> ms \<Rightarrow> ident \<Rightarrow> ustr \<Rightarrow> ident \<Rightarrow> ident \<Rightarrow> preview_registry
     \<Rightarrow> (ustr + ident \<times> ustr) \<times> preview_registry" where
  "allocate hash_token now new_id ticket i conn_id r =
     (case lease_of r i of
        None \<Rightarrow> (Inl (lit ''Preview expired''), r)
      | Some l \<Rightarrow>
          if \<not> lease_live now l then (Inl (lit ''Preview expired''), r)
          else if length (pv_streams r) \<ge> MAX_STREAMS \<or>
                  streams_where r (\<lambda>l'. pl_machine l' = pl_machine l) \<ge> MAX_MACHINE_STREAMS \<or>
                  streams_where r (\<lambda>l'. pl_user l' = pl_user l) \<ge> MAX_USER_STREAMS
          then (Inl (lit ''Too many preview connections; try again''), r)
          else (Inr (new_id, ticket), r\<lparr>pv_streams := hput new_id
                 \<lparr>se_lease = i, se_conn_id = conn_id, se_ticket_hash = hash_token ticket,
                  se_deadline = now + TICKET_MS, se_sender = True, se_cancelled = False\<rparr> (pv_streams r)\<rparr>))"

definition stream_cancelled :: "preview_registry \<Rightarrow> stream_entry \<Rightarrow> bool" where
  "stream_cancelled r s \<longleftrightarrow> se_cancelled s \<or> of_lease r pl_cancelled (se_lease s)"

text \<open>A node's answer to a stream: \<open>current\<close> is the connection its machine has now.\<close>

definition claim_stream ::
  "(ustr \<Rightarrow> ustr) \<Rightarrow> ms \<Rightarrow> ident option \<Rightarrow> ident \<Rightarrow> ustr \<Rightarrow> preview_registry \<Rightarrow> bool \<times> preview_registry" where
  "claim_stream hash_token now current i token r =
     (case hget (pv_streams r) i of
        None \<Rightarrow> (False, r)
      | Some s \<Rightarrow>
          if current \<noteq> Some (se_conn_id s) then (False, r)
          else if \<not> live_at r now (se_lease s) \<or> stream_cancelled r s \<or> now \<ge> se_deadline s \<or>
                  se_ticket_hash s \<noteq> hash_token token \<or> \<not> se_sender s
          then (False, r)
          else (True, r\<lparr>pv_streams := hput i (s\<lparr>se_sender := False\<rparr>) (pv_streams r)\<rparr>))"

definition connection_lost :: "ident \<Rightarrow> preview_registry \<Rightarrow> preview_registry" where
  "connection_lost conn_id r = r\<lparr>pv_streams :=
     hmapv (\<lambda>s. if se_conn_id s = conn_id then s\<lparr>se_cancelled := True\<rparr> else s) (pv_streams r)\<rparr>"

definition drop_stream :: "ident \<Rightarrow> preview_registry \<Rightarrow> preview_registry" where
  "drop_stream i r = r\<lparr>pv_streams := hdel i (pv_streams r)\<rparr>"

section \<open>Runs\<close>

datatype preview_op =
    Pv_Create ms ident ustr ident ident u16 address_family ustr
  | Pv_Revoke ident ident
  | Pv_Redeem ms ustr ident ustr
  | Pv_Allocate ms ident ustr ident ident
  | Pv_Claim ms "ident option" ident ustr
  | Pv_Lost ident
  | Pv_Drop ident

fun exec_preview ::
  "(ustr \<Rightarrow> ustr) \<Rightarrow> (nat \<Rightarrow> ustr) \<Rightarrow> preview_registry \<Rightarrow> preview_op \<Rightarrow> preview_registry" where
  "exec_preview h d r (Pv_Create now i code user machine port family target) =
     snd (create_preview h d now i code user machine port family target r)"
| "exec_preview h d r (Pv_Revoke user i) = snd (revoke_preview user i r)"
| "exec_preview h d r (Pv_Redeem now new_secret i code) = snd (redeem_preview h now new_secret i code r)"
| "exec_preview h d r (Pv_Allocate now i ticket l conn) = snd (allocate h now i ticket l conn r)"
| "exec_preview h d r (Pv_Claim now current i token) = snd (claim_stream h now current i token r)"
| "exec_preview h d r (Pv_Lost conn) = connection_lost conn r"
| "exec_preview h d r (Pv_Drop i) = drop_stream i r"

section \<open>What stays true\<close>

text \<open>Ids are UUIDs: a run never uses one for two leases.\<close>

definition created :: "preview_op list \<Rightarrow> ident list" where
  "created steps = concat (map (\<lambda>step. case step of Pv_Create _ i _ _ _ _ _ _ \<Rightarrow> [i] | _ \<Rightarrow> []) steps)"

definition same_owner :: "preview_registry \<Rightarrow> preview_registry \<Rightarrow> bool" where
  "same_owner r r' \<longleftrightarrow> (\<forall>i l. lease_of r i = Some l \<longrightarrow>
     (\<exists>l'. lease_of r' i = Some l' \<and> pl_user l' = pl_user l \<and> pl_machine l' = pl_machine l \<and>
       pl_id l' = pl_id l \<and> (pl_cancelled l \<longrightarrow> pl_cancelled l')))"

definition leases_ok :: "preview_registry \<Rightarrow> bool" where
  "leases_ok r \<longleftrightarrow> (\<forall>i l. lease_of r i = Some l \<longrightarrow> pl_id l = i) \<and>
     (\<forall>j \<in> set (hvals (pv_leases r)). lease_of r j \<noteq> None) \<and> length (pv_leases r) \<le> MAX_LEASES \<and>
     (\<forall>user. length (filter (of_lease r (\<lambda>l. pl_user l = user)) (hvals (pv_leases r))) \<le> MAX_USER_LEASES)"

definition streams_bounded :: "preview_registry \<Rightarrow> bool" where
  "streams_bounded r \<longleftrightarrow> (\<forall>s \<in> set (hvals (pv_streams r)). lease_of r (se_lease s) \<noteq> None) \<and>
     length (pv_streams r) \<le> MAX_STREAMS \<and>
     (\<forall>m. streams_where r (\<lambda>l. pl_machine l = m) \<le> MAX_MACHINE_STREAMS) \<and>
     (\<forall>u. streams_where r (\<lambda>l. pl_user l = u) \<le> MAX_USER_STREAMS)"

lemma of_lease_same [simp]: "of_lease (r\<lparr>pv_leases := x\<rparr>) = of_lease r" "of_lease (r\<lparr>pv_streams := y\<rparr>) = of_lease r"
  "lease_of (r\<lparr>pv_leases := x\<rparr>) = lease_of r" "lease_of (r\<lparr>pv_streams := y\<rparr>) = lease_of r"
  by (simp_all add: of_lease_def lease_of_def fun_eq_iff)

lemma same_ownerD:
  "same_owner r r' \<Longrightarrow> lease_of r i \<noteq> None \<Longrightarrow> lease_of r' i \<noteq> None"
  "same_owner r r' \<Longrightarrow> lease_of r i \<noteq> None \<Longrightarrow>
     of_lease r' (\<lambda>l. pl_user l = u) i = of_lease r (\<lambda>l. pl_user l = u) i"
  "same_owner r r' \<Longrightarrow> lease_of r i \<noteq> None \<Longrightarrow>
     of_lease r' (\<lambda>l. pl_machine l = m) i = of_lease r (\<lambda>l. pl_machine l = m) i"
  by (fastforce simp: same_owner_def of_lease_def)+

lemma hvals_hput:
  "length (hput k v m) \<le> Suc (length m)"
  "set (hvals (hput k v m)) \<subseteq> insert v (set (hvals m))"
  "length (filter Q (hvals (hput k v m))) \<le> length (filter Q (hvals m)) + (if Q v then 1 else 0)"
  by (induction m) (auto simp: hmap_defs)

lemma hvals_less:
  "length (hretain P m) \<le> length m" "set (hvals (hretain P m)) \<subseteq> set (hvals m)"
  "length (filter Q (hvals (hretain P m))) \<le> length (filter Q (hvals m))"
  "length (hdel k m) \<le> length m" "set (hvals (hdel k m)) \<subseteq> set (hvals m)"
  "length (filter Q (hvals (hdel k m))) \<le> length (filter Q (hvals m))"
proof -
  have some: "set (hvals (filter R m)) \<subseteq> set (hvals m)"
    "length (filter Q (hvals (filter R m))) \<le> length (filter Q (hvals m))" for R
    by (induction m) (auto simp: hvals_def)
  show "length (hretain P m) \<le> length m" "length (hdel k m) \<le> length m"
    by (simp_all add: hretain_def hdel_def)
  show "set (hvals (hretain P m)) \<subseteq> set (hvals m)"
    "length (filter Q (hvals (hretain P m))) \<le> length (filter Q (hvals m))"
    "set (hvals (hdel k m)) \<subseteq> set (hvals m)"
    "length (filter Q (hvals (hdel k m))) \<le> length (filter Q (hvals m))"
    unfolding hretain_def hdel_def by (rule some)+
qed

lemma leases_ok_fewer:
  assumes "leases_ok r" "same_owner r r'" "\<forall>i l. lease_of r' i = Some l \<longrightarrow> pl_id l = i"
    and "set (hvals (pv_leases r')) \<subseteq> set (hvals (pv_leases r))" "length (pv_leases r') \<le> length (pv_leases r)"
    and "\<And>Q. length (filter Q (hvals (pv_leases r'))) \<le> length (filter Q (hvals (pv_leases r)))"
  shows "leases_ok r'"
proof -
  have in_store: "lease_of r j \<noteq> None" if "j \<in> set (hvals (pv_leases r))" for j
    using assms(1) that by (simp add: leases_ok_def)
  have "length (filter (of_lease r' (\<lambda>l. pl_user l = user)) (hvals (pv_leases r'))) \<le> MAX_USER_LEASES" for user
  proof -
    have "filter (of_lease r' (\<lambda>l. pl_user l = user)) (hvals (pv_leases r')) =
        filter (of_lease r (\<lambda>l. pl_user l = user)) (hvals (pv_leases r'))"
      using same_ownerD(2) [OF assms(2) in_store] assms(4) by (intro filter_cong) auto
    with assms(6) [of "of_lease r (\<lambda>l. pl_user l = user)"] assms(1) show ?thesis
      by (simp add: leases_ok_def) (meson order_trans)
  qed
  moreover have "lease_of r' j \<noteq> None" if "j \<in> set (hvals (pv_leases r'))" for j
    using same_ownerD(1) [OF assms(2) in_store] that assms(4) by blast
  ultimately show ?thesis using assms(1,3,5) by (simp add: leases_ok_def)
qed

lemma streams_same:
  assumes "streams_bounded r" "same_owner r r'" "pv_streams r' = pv_streams r"
  shows "streams_bounded r'"
proof -
  have s: "lease_of r (se_lease s) \<noteq> None" if "s \<in> set (hvals (pv_streams r))" for s
    using assms(1) that by (simp add: streams_bounded_def)
  have "streams_where r' (\<lambda>l. pl_user l = u) = streams_where r (\<lambda>l. pl_user l = u)"
    "streams_where r' (\<lambda>l. pl_machine l = m) = streams_where r (\<lambda>l. pl_machine l = m)" for u m
    using same_ownerD(2,3) [OF assms(2) s]
    by (simp_all add: streams_where_def assms(3) cong: filter_cong)
  with assms(1,3) same_ownerD(1) [OF assms(2) s] show ?thesis by (simp add: streams_bounded_def)
qed

lemma same_owner_store:
  assumes "lease_of r i = Some l" "pl_user l' = pl_user l" "pl_machine l' = pl_machine l" "pl_id l' = pl_id l"
    and "pl_cancelled l \<longrightarrow> pl_cancelled l'" "pv_store r' = hput i l' (pv_store r)"
  shows "same_owner r r'"
  using assms by (auto simp: same_owner_def lease_of_def hm.get_put)

lemma same_owner_refl: "pv_store r' = pv_store r \<Longrightarrow> same_owner r r'"
  by (simp add: same_owner_def lease_of_def)

lemma same_owner_new: "lease_of r i = None \<Longrightarrow> pv_store r' = hput i l (pv_store r) \<Longrightarrow> same_owner r r'"
  by (auto simp: same_owner_def lease_of_def hm.get_put)

lemma streams_fewer:
  assumes "streams_bounded r" "pv_store r' = pv_store r"
    and "se_lease ` set (hvals (pv_streams r')) \<subseteq> se_lease ` set (hvals (pv_streams r))"
    and "length (pv_streams r') \<le> length (pv_streams r)"
    and "\<And>P. streams_where r' P \<le> streams_where r P"
  shows "streams_bounded r'"
proof -
  have "lease_of r' (se_lease s) \<noteq> None" if "s \<in> set (hvals (pv_streams r'))" for s
  proof -
    from that assms(3) have "se_lease s \<in> se_lease ` set (hvals (pv_streams r))" by blast
    then obtain t where "se_lease s = se_lease t" "t \<in> set (hvals (pv_streams r))" by (rule imageE)
    with assms(1) have "lease_of r (se_lease s) \<noteq> None" by (simp add: streams_bounded_def)
    then show ?thesis by (simp add: lease_of_def assms(2))
  qed
  moreover have "streams_where r' (\<lambda>l. pl_machine l = m) \<le> MAX_MACHINE_STREAMS" for m
    by (rule order_trans [OF assms(5)]) (use assms(1) in \<open>simp add: streams_bounded_def\<close>)
  moreover have "streams_where r' (\<lambda>l. pl_user l = u) \<le> MAX_USER_STREAMS" for u
    by (rule order_trans [OF assms(5)]) (use assms(1) in \<open>simp add: streams_bounded_def\<close>)
  ultimately show ?thesis using assms(1,4) by (auto simp: streams_bounded_def)
qed

definition previews_ok :: "preview_registry \<Rightarrow> bool" where
  "previews_ok r \<longleftrightarrow> leases_ok r \<and> streams_bounded r"

text \<open>Each operation keeps the limits and the owners.\<close>

abbreviation keeps_previews :: "preview_registry \<Rightarrow> preview_registry \<Rightarrow> bool" where
  "keeps_previews r r' \<equiv> previews_ok r' \<and> same_owner r r'"

lemma leases_untouched:
  assumes "leases_ok r" "pv_store r' = pv_store r" "pv_leases r' = pv_leases r"
  shows "leases_ok r'"
proof -
  have ids: "\<forall>i l. lease_of r' i = Some l \<longrightarrow> pl_id l = i"
    using assms(1,2) by (simp add: leases_ok_def lease_of_def)
  show ?thesis
    by (rule leases_ok_fewer [OF assms(1) same_owner_refl [OF assms(2)] ids]) (simp_all add: assms(3))
qed

lemma keeps_streams_only:
  assumes "previews_ok r" "pv_store r' = pv_store r" "pv_leases r' = pv_leases r" "streams_bounded r'"
  shows "keeps_previews r r'"
  using leases_untouched [OF _ assms(2,3)] same_owner_refl [OF assms(2)] assms(1,4)
  by (simp add: previews_ok_def)

lemma leases_ok_add:
  assumes ok: "leases_ok r" and new: "lease_of r i = None" "pl_id l = i"
    and r': "pv_store r' = hput i l (pv_store r)" "pv_leases r' = hput host i (pv_leases r)"
    and room: "length (pv_leases r) < MAX_LEASES"
      "length (filter (of_lease r (\<lambda>l'. pl_user l' = pl_user l)) (hvals (pv_leases r))) < MAX_USER_LEASES"
  shows "leases_ok r'"
proof -
  have in_store: "lease_of r j \<noteq> None" if "j \<in> set (hvals (pv_leases r))" for j
    using ok that by (simp add: leases_ok_def)
  have at: "lease_of r' j = (if j = i then Some l else lease_of r j)" for j
    using r' by (simp add: lease_of_def hm.get_put)
  have "length (filter (of_lease r' (\<lambda>l. pl_user l = user)) (hvals (pv_leases r'))) \<le> MAX_USER_LEASES" for user
  proof -
    have "of_lease r' (\<lambda>l. pl_user l = user) j = of_lease r (\<lambda>l. pl_user l = user) j"
      if "j \<in> set (hvals (pv_leases r))" for j
      using in_store [OF that] new(1) at [of j] by (auto simp: of_lease_def)
    then have "filter (of_lease r' (\<lambda>l. pl_user l = user)) (hvals (pv_leases r)) =
        filter (of_lease r (\<lambda>l. pl_user l = user)) (hvals (pv_leases r))"
      by (intro filter_cong) simp_all
    moreover have "of_lease r' (\<lambda>l. pl_user l = user) i \<longleftrightarrow> pl_user l = user"
      using at [of i] by (simp add: of_lease_def)
    moreover have "length (filter (of_lease r (\<lambda>l. pl_user l = user)) (hvals (pv_leases r))) \<le> MAX_USER_LEASES"
      using ok by (simp add: leases_ok_def)
    ultimately show ?thesis
      using hvals_hput(3) [of "of_lease r' (\<lambda>l. pl_user l = user)" host i "pv_leases r"] room(2)
      unfolding r'(2) by (auto split: if_splits)
  qed
  moreover have "lease_of r' j \<noteq> None" if "j \<in> set (hvals (pv_leases r'))" for j
    using that hvals_hput(2) [of host i "pv_leases r"] in_store [of j] at [of j] unfolding r'(2) by auto
  moreover have "length (pv_leases r') \<le> MAX_LEASES"
    using hvals_hput(1) [of host i "pv_leases r"] room(1) unfolding r'(2) by simp
  moreover have "pl_id l' = j" if "lease_of r' j = Some l'" for j l'
    using that at [of j] ok new(2) by (auto simp: leases_ok_def split: if_splits)
  ultimately show ?thesis by (simp add: leases_ok_def)
qed

lemma keeps_create:
  assumes "previews_ok r" "lease_of r i = None"
  shows "keeps_previews r (snd (create_preview h d now i code user machine port family target r))"
proof (cases "pv_config r")
  case None
  with assms show ?thesis by (simp add: create_preview_def same_owner_refl)
next
  case (Some config)
  let ?r = "r\<lparr>pv_leases := hretain (\<lambda>_ i. live_at r now i) (pv_leases r)\<rparr>"
  let ?full = "length (pv_leases ?r) \<ge> MAX_LEASES \<or>
    length (filter (of_lease r (\<lambda>l. pl_user l = user)) (hvals (pv_leases ?r))) \<ge> MAX_USER_LEASES"
  have store: "pv_store ?r = pv_store r" "pv_streams ?r = pv_streams r" by simp_all
  have same: "same_owner r ?r" by (rule same_owner_refl) simp
  have ids: "\<forall>i l. lease_of ?r i = Some l \<longrightarrow> pl_id l = i"
    using assms(1) by (simp add: previews_ok_def leases_ok_def lease_of_def)
  have lo: "leases_ok r" and so: "streams_bounded r" using assms(1) by (simp_all add: previews_ok_def)
  have ok: "leases_ok ?r" by (rule leases_ok_fewer [OF lo same ids]) (simp_all add: hvals_less)
  have st: "streams_bounded ?r" by (rule streams_same [OF so same]) simp
  show ?thesis
  proof (cases ?full)
    case True
    with Some have "snd (create_preview h d now i code user machine port family target r) = ?r"
      by (simp add: create_preview_def Let_def)
    with ok st same show ?thesis by (simp add: previews_ok_def)
  next
    case False
    have none: "lease_of ?r i = None" using assms(2) by (simp add: lease_of_def)
    define host where "host = lit ''p-'' @ lit i @ lit ''.'' @ pc_domain config"
    define l where "l = \<lparr>pl_id = i, pl_hostname = host, pl_origin = preview_origin d config host,
      pl_user = user, pl_machine = machine, pl_port = port, pl_family = family, pl_target = target,
      pl_expires = now + LEASE_MS, pl_cancelled = False, pl_code_hash = Some (h code),
      pl_code_expires = now + CODE_MS, pl_session_hash = None\<rparr>"
    have l: "pl_id l = i" "pl_user l = user" by (simp_all add: l_def)
    have r': "snd (create_preview h d now i code user machine port family target r) =
        ?r\<lparr>pv_store := hput i l (pv_store ?r), pv_leases := hput host i (pv_leases ?r)\<rparr>" (is "_ = ?r'")
      using Some False by (simp add: create_preview_def Let_def l_def host_def)
    have "leases_ok ?r'"
      by (rule leases_ok_add [OF ok none l(1), where host = host]) (use False l(2) in simp_all)
    moreover have "same_owner r ?r'" by (rule same_owner_new [OF assms(2)]) simp
    moreover from this have "streams_bounded ?r'" by (rule streams_same [OF so]) simp
    ultimately show ?thesis by (simp add: r' previews_ok_def)
  qed
qed

lemma keeps_store:
  assumes "previews_ok r" "lease_of r i = Some l"
    and "pl_user l' = pl_user l" "pl_machine l' = pl_machine l" "pl_id l' = pl_id l"
      "pl_cancelled l \<longrightarrow> pl_cancelled l'"
    and "pv_store r' = hput i l' (pv_store r)" "pv_streams r' = pv_streams r"
    and "pv_leases r' = pv_leases r \<or> pv_leases r' = hdel host (pv_leases r)"
  shows "keeps_previews r r'"
proof -
  have lo: "leases_ok r" and so: "streams_bounded r" using assms(1) by (simp_all add: previews_ok_def)
  have same: "same_owner r r'" by (rule same_owner_store [OF assms(2-7)])
  have ids: "\<forall>j k. lease_of r' j = Some k \<longrightarrow> pl_id k = j"
    using lo assms(2,5,7) by (simp add: leases_ok_def lease_of_def hm.get_put)
  have "leases_ok r'"
  proof (rule leases_ok_fewer [OF lo same ids])
    show "set (hvals (pv_leases r')) \<subseteq> set (hvals (pv_leases r))"
      using assms(9) hvals_less(5) [of host "pv_leases r"] by (elim disjE) simp_all
    show "length (pv_leases r') \<le> length (pv_leases r)"
      using assms(9) hvals_less(4) [of host "pv_leases r"] by (elim disjE) simp_all
    show "length (filter Q (hvals (pv_leases r'))) \<le> length (filter Q (hvals (pv_leases r)))" for Q
      using assms(9) hvals_less(6) [of Q host "pv_leases r"] by (elim disjE) simp_all
  qed
  with same streams_same [OF so same assms(8)] show ?thesis by (simp add: previews_ok_def)
qed

lemma keeps_revoke:
  assumes "previews_ok r"
  shows "keeps_previews r (snd (revoke_preview user i r))"
proof (cases "List.find (\<lambda>(_, j). of_lease r (\<lambda>l. pl_user l = user \<and> pl_id l = i) j) (pv_leases r)")
  case None
  with assms show ?thesis by (simp add: revoke_preview_def same_owner_refl)
next
  case (Some hj)
  obtain host j where hj: "hj = (host, j)" by fastforce
  show ?thesis
  proof (cases "lease_of r j")
    case None
    with Some hj assms show ?thesis by (simp add: revoke_preview_def same_owner_refl)
  next
    case l: (Some l)
    show ?thesis
      by (rule keeps_store [OF assms l, of "l\<lparr>pl_cancelled := True\<rparr>" _ host])
        (simp_all add: revoke_preview_def Some hj l)
  qed
qed

lemma keeps_redeem:
  assumes "previews_ok r"
  shows "keeps_previews r (snd (redeem_preview h now new_secret i code r))"
proof (cases "lease_of r i")
  case None
  with assms show ?thesis by (simp add: redeem_preview_def same_owner_refl)
next
  case (Some l)
  obtain res l' where l': "redeem h now new_secret code l = (res, l')" by fastforce
  have same: "pl_user l' = pl_user l" "pl_machine l' = pl_machine l" "pl_id l' = pl_id l"
    "pl_cancelled l \<longrightarrow> pl_cancelled l'"
    using l' by (auto simp: redeem_def split: if_splits)
  show ?thesis by (rule keeps_store [OF assms Some same]) (simp_all add: redeem_preview_def Some l')
qed

lemma keeps_allocate:
  assumes "previews_ok r"
  shows "keeps_previews r (snd (allocate h now i ticket l conn r))"
proof -
  let ?r = "snd (allocate h now i ticket l conn r)"
  have so: "streams_bounded r" using assms by (simp add: previews_ok_def)
  show ?thesis
  proof (cases "pv_streams ?r = pv_streams r")
    case True
    then have "pv_store ?r = pv_store r" "pv_leases ?r = pv_leases r"
      by (simp_all add: allocate_def split: option.splits)
    moreover from this True so have "streams_bounded ?r" using same_owner_refl streams_same by blast
    ultimately show ?thesis using assms by (intro keeps_streams_only)
  next
    case False
    then obtain k where found: "lease_of r l = Some k" by (cases "lease_of r l") (simp_all add: allocate_def)
    have live: "lease_live now k"
      by (rule contrapos_np [OF False]) (simp add: allocate_def found)
    have room: "length (pv_streams r) < MAX_STREAMS"
        "streams_where r (\<lambda>l'. pl_machine l' = pl_machine k) < MAX_MACHINE_STREAMS"
        "streams_where r (\<lambda>l'. pl_user l' = pl_user k) < MAX_USER_STREAMS"
      by (rule contrapos_np [OF False]; simp add: allocate_def found)+
    define s where "s = \<lparr>se_lease = l, se_conn_id = conn, se_ticket_hash = h ticket,
      se_deadline = now + TICKET_MS, se_sender = True, se_cancelled = False\<rparr>"
    have k: "lease_of r l = Some k" "se_lease s = l" "?r = r\<lparr>pv_streams := hput i s (pv_streams r)\<rparr>"
      using found live room by (simp_all add: allocate_def not_le s_def)
    have lease: "lease_of ?r = lease_of r" "of_lease ?r = of_lease r"
      using k(3) by (simp_all add: of_lease_def lease_of_def fun_eq_iff)
    have more: "streams_where ?r P \<le> streams_where r P + (if P k then 1 else 0)" for P
      using hvals_hput(3) [of "\<lambda>s. of_lease r P (se_lease s)" i s "pv_streams r"] k(1,2)
      by (simp add: streams_where_def lease k(3) of_lease_def lease_of_def)
    have old: "streams_where r (\<lambda>l. pl_machine l = m) \<le> MAX_MACHINE_STREAMS"
      "streams_where r (\<lambda>l. pl_user l = u) \<le> MAX_USER_STREAMS" for m u
      using so by (simp_all add: streams_bounded_def)
    have "streams_where ?r (\<lambda>l. pl_machine l = m) \<le> MAX_MACHINE_STREAMS" for m
      using more [of "\<lambda>l. pl_machine l = m"] old(1) [of m] room(2) by (auto split: if_splits)
    moreover have "streams_where ?r (\<lambda>l. pl_user l = u) \<le> MAX_USER_STREAMS" for u
      using more [of "\<lambda>l. pl_user l = u"] old(2) [of u] room(3) by (auto split: if_splits)
    moreover have "lease_of ?r (se_lease t) \<noteq> None" if "t \<in> set (hvals (pv_streams ?r))" for t
      using that hvals_hput(2) [of i s "pv_streams r"] so k unfolding lease
      by (auto simp: streams_bounded_def)
    moreover have "length (pv_streams ?r) \<le> MAX_STREAMS"
      using hvals_hput(1) [of i s "pv_streams r"] room(1) k(3) by simp
    ultimately have "streams_bounded ?r" by (simp add: streams_bounded_def)
    then show ?thesis using assms k(3) by (intro keeps_streams_only) simp_all
  qed
qed

text \<open>A change that keeps the lease of every stream keeps the streams' limits.\<close>

lemma streams_relabelled:
  assumes "streams_bounded r" "pv_store r' = pv_store r"
    and "map se_lease (hvals (pv_streams r')) = map se_lease (hvals (pv_streams r))"
  shows "streams_bounded r'"
proof -
  have count: "streams_where q P = length (filter (of_lease q P) (map se_lease (hvals (pv_streams q))))" for q P
    by (simp add: streams_where_def filter_map comp_def)
  have "of_lease r' = of_lease r" by (simp add: of_lease_def lease_of_def assms(2) fun_eq_iff)
  then have "streams_where r' P = streams_where r P" for P by (simp add: count assms(3))
  moreover have "length (pv_streams r') = length (pv_streams r)"
    using arg_cong [OF assms(3), of length] by (simp add: hvals_def)
  ultimately show ?thesis
    using assms(3) by (intro streams_fewer [OF assms(1,2)])
      (simp_all flip: set_map)
qed

lemma hvals_hput_keeps:
  "hget m k = Some v0 \<Longrightarrow> f v = f v0 \<Longrightarrow> map f (hvals (hput k v m)) = map f (hvals m)"
  by (induction m) (auto simp: hmap_defs split: if_splits)

lemma keeps_claim:
  assumes "previews_ok r"
  shows "keeps_previews r (snd (claim_stream h now current i token r))"
proof -
  have so: "streams_bounded r" using assms by (simp add: previews_ok_def)
  have "streams_bounded (snd (claim_stream h now current i token r))"
    by (rule streams_relabelled [OF so])
      (auto simp: claim_stream_def hvals_hput_keeps split: option.splits)
  then show ?thesis using assms
    by (intro keeps_streams_only) (auto simp: claim_stream_def split: option.splits)
qed

lemma keeps_lost: "previews_ok r \<Longrightarrow> keeps_previews r (connection_lost conn r)"
proof -
  assume ok: "previews_ok r"
  have "map se_lease (hvals (hmapv (\<lambda>s. if se_conn_id s = conn then s\<lparr>se_cancelled := True\<rparr> else s) m)) =
      map se_lease (hvals m)" for m :: "(ident, stream_entry) hmap"
    by (induction m) (auto simp: hmap_defs)
  then have same: "map se_lease (hvals (pv_streams (connection_lost conn r))) = map se_lease (hvals (pv_streams r))"
    by (simp add: connection_lost_def)
  have "streams_bounded (connection_lost conn r)"
    by (rule streams_relabelled [OF _ _ same]) (use ok in \<open>simp_all add: previews_ok_def connection_lost_def\<close>)
  with ok show ?thesis by (intro keeps_streams_only) (simp_all add: connection_lost_def)
qed

lemma keeps_drop: "previews_ok r \<Longrightarrow> keeps_previews r (drop_stream i r)"
proof -
  assume ok: "previews_ok r"
  have "streams_bounded (drop_stream i r)"
  proof (rule streams_fewer)
    show "streams_bounded r" using ok by (simp add: previews_ok_def)
    show "streams_where (drop_stream i r) P \<le> streams_where r P" for P
      by (simp add: drop_stream_def streams_where_def of_lease_def lease_of_def hvals_less)
    show "se_lease ` set (hvals (pv_streams (drop_stream i r))) \<subseteq> se_lease ` set (hvals (pv_streams r))"
      by (simp add: drop_stream_def image_mono hvals_less(5))
  qed (simp_all add: drop_stream_def hvals_less(4))
  with ok show ?thesis by (intro keeps_streams_only) (simp_all add: drop_stream_def)
qed

section \<open>Every run\<close>

definition run_previews ::
  "(ustr \<Rightarrow> ustr) \<Rightarrow> (nat \<Rightarrow> ustr) \<Rightarrow> preview_registry \<Rightarrow> preview_op list \<Rightarrow> preview_registry" where
  "run_previews h d r steps = foldl (exec_preview h d) r steps"

definition known :: "preview_registry \<Rightarrow> ident set" where
  "known r = {i. lease_of r i \<noteq> None}"

lemma keeps_preview_step:
  assumes "previews_ok r" "set (created [step]) \<inter> known r = {}"
  shows "keeps_previews r (exec_preview h d r step)"
  using assms
  by (cases step)
    (simp_all add: created_def known_def keeps_create keeps_revoke keeps_redeem keeps_allocate keeps_claim
      keeps_lost keeps_drop)

lemma known_exec: "known (exec_preview h d r step) \<subseteq> known r \<union> set (created [step])"
proof (cases step)
  case (Pv_Revoke user i)
  then show ?thesis
    by (auto simp: revoke_preview_def known_def lease_of_def hm.get_put split: option.splits prod.splits if_splits)
qed (auto simp: known_def created_def create_preview_def redeem_preview_def allocate_def claim_stream_def
    connection_lost_def drop_stream_def lease_of_def hm.get_put Let_def split: option.splits prod.splits if_splits)


lemma created_append: "created (xs @ ys) = created xs @ created ys"
  by (simp add: created_def)

lemma run_previews_snoc:
  "run_previews h d r (steps @ [step]) = exec_preview h d (run_previews h d r steps) step"
  by (simp add: run_previews_def)

lemma run_previews_append:
  "run_previews h d r (xs @ ys) = run_previews h d (run_previews h d r xs) ys"
  by (simp add: run_previews_def)

lemma keeps_run:
  assumes "previews_ok r" "distinct (created steps)" "set (created steps) \<inter> known r = {}"
  shows "keeps_previews r (run_previews h d r steps) \<and>
    known (run_previews h d r steps) \<subseteq> known r \<union> set (created steps)"
  using assms(2,3)
proof (induction steps rule: rev_induct)
  case Nil
  with assms(1) show ?case by (simp add: run_previews_def same_owner_refl)
next
  case (snoc step steps)
  let ?r = "run_previews h d r steps"
  have old: "keeps_previews r ?r" "known ?r \<subseteq> known r \<union> set (created steps)"
    using snoc by (simp_all add: created_append disjoint_iff)
  have "set (created [step]) \<inter> known ?r = {}"
    using old(2) snoc.prems by (auto simp: created_append)
  then have "keeps_previews ?r (exec_preview h d ?r step)" using keeps_preview_step old(1) by blast
  moreover have "same_owner r q" if "same_owner r ?r" "same_owner ?r q" for q
    using that by (fastforce simp: same_owner_def)
  ultimately show ?case
    using old known_exec [of h d ?r step] by (auto simp: run_previews_snoc created_append)
qed

lemma configured_ok: "previews_ok (configured config)" "known (configured config) = {}"
  by (simp_all add: previews_ok_def leases_ok_def streams_bounded_def streams_where_def configured_def known_def
      lease_of_def hvals_def hget_def MAX_LEASES_def MAX_USER_LEASES_def)

text \<open>Who was let in with the code of a lease: the cookies given out, in order.\<close>

fun cookies_of :: "(ustr \<Rightarrow> ustr) \<Rightarrow> (nat \<Rightarrow> ustr) \<Rightarrow> ident \<Rightarrow> preview_registry \<Rightarrow> preview_op list \<Rightarrow> ustr list" where
  "cookies_of h d i r [] = []"
| "cookies_of h d i r (step # steps) =
     (case step of
        Pv_Redeem now new_secret j code \<Rightarrow>
          if j = i then (case fst (redeem_preview h now new_secret j code r) of None \<Rightarrow> [] | Some cookie \<Rightarrow> [cookie]) else []
      | _ \<Rightarrow> []) @ cookies_of h d i (exec_preview h d r step) steps"

definition cookies_told :: "(ustr \<Rightarrow> ustr) \<Rightarrow> ident \<Rightarrow> preview_registry \<Rightarrow> ustr list \<Rightarrow> bool" where
  "cookies_told h i r cookies \<longleftrightarrow>
     (case lease_of r i of
        None \<Rightarrow> cookies = []
      | Some l \<Rightarrow> cookies = [] \<and> pl_session_hash l = None \<or>
          (\<exists>cookie. cookies = [cookie] \<and> pl_code_hash l = None \<and> pl_session_hash l = Some (h cookie)))"

lemma cookies_told_step:
  assumes "cookies_told h i r cookies" "set (created [step]) \<inter> known r = {}"
  shows "cookies_told h i (exec_preview h d r step) (cookies @ cookies_of h d i r [step])"
proof (cases step)
  case (Pv_Create now j code user machine port family target)
  with assms show ?thesis
    by (auto simp: cookies_told_def created_def known_def create_preview_def Let_def lease_of_def hm.get_put
        split: option.splits)
next
  case (Pv_Revoke user j)
  with assms show ?thesis
    by (auto simp: cookies_told_def revoke_preview_def lease_of_def hm.get_put split: option.splits prod.splits)
next
  case (Pv_Redeem now new_secret j code)
  with assms show ?thesis
    by (auto simp: cookies_told_def redeem_preview_def redeem_def lease_of_def hm.get_put
        split: option.splits prod.splits if_splits)
qed (use assms in \<open>auto simp: cookies_told_def allocate_def claim_stream_def connection_lost_def
    drop_stream_def lease_of_def split: option.splits\<close>)


lemma cookies_of_append:
  "cookies_of h d i r (xs @ ys) = cookies_of h d i r xs @ cookies_of h d i (run_previews h d r xs) ys"
  by (induction xs arbitrary: r) (simp_all add: run_previews_def)

lemma cookies_told_run:
  assumes "distinct (created steps)"
  shows "cookies_told h i (run_previews h d (configured config) steps) (cookies_of h d i (configured config) steps)"
  using assms
proof (induction steps rule: rev_induct)
  case Nil
  show ?case by (simp add: run_previews_def cookies_told_def configured_def lease_of_def hget_def)
next
  case (snoc step steps)
  let ?r = "run_previews h d (configured config) steps"
  have "distinct (created steps)" using snoc.prems by (simp add: created_append)
  moreover from keeps_run [OF configured_ok(1) this] have "known ?r \<subseteq> set (created steps)"
    by (simp add: configured_ok(2))
  moreover from this have "set (created [step]) \<inter> known ?r = {}" using snoc.prems by (auto simp: created_append)
  ultimately show ?case
    unfolding run_previews_snoc cookies_of_append by (intro cookies_told_step snoc.IH)
qed

text \<open>Only the code that was made for the lease opens it.\<close>

definition codes_of :: "ident \<Rightarrow> preview_op list \<Rightarrow> ustr list" where
  "codes_of i steps = concat (map (\<lambda>step. case step of
     Pv_Create _ j code _ _ _ _ _ \<Rightarrow> if j = i then [code] else [] | _ \<Rightarrow> []) steps)"

lemma code_hash_step:
  "pl_code_hash l = None \<or> pl_code_hash l \<in> Some ` h ` set (codes_of i [step]) \<or>
     (\<exists>k. lease_of r i = Some k \<and> pl_code_hash l = pl_code_hash k)"
  if "lease_of (exec_preview h d r step) i = Some l"
  using that
  by (cases step)
    (auto simp: codes_of_def create_preview_def revoke_preview_def redeem_preview_def redeem_def allocate_def
      claim_stream_def connection_lost_def drop_stream_def Let_def lease_of_def hm.get_put
      split: option.splits prod.splits if_splits)

lemma code_hash_run:
  "lease_of (run_previews h d (configured config) steps) i = Some l \<Longrightarrow>
     pl_code_hash l = None \<or> pl_code_hash l \<in> Some ` h ` set (codes_of i steps)"
proof (induction steps arbitrary: l rule: rev_induct)
  case Nil
  then show ?case by (simp add: run_previews_def configured_def lease_of_def hget_def)
next
  case (snoc step steps)
  show ?case
    using code_hash_step [OF snoc.prems [unfolded run_previews_snoc]] snoc.IH
    by (fastforce simp: codes_of_def)
qed

text \<open>A revoked lease is cancelled.\<close>

lemma revoked_lease:
  assumes "previews_ok r" "fst (revoke_preview user i r)"
  shows "\<exists>l. lease_of (snd (revoke_preview user i r)) i = Some l \<and> pl_cancelled l"
proof -
  from assms(2) obtain host j where
    f: "List.find (\<lambda>(_, j). of_lease r (\<lambda>l. pl_user l = user \<and> pl_id l = i) j) (pv_leases r) = Some (host, j)"
    by (auto simp: revoke_preview_def split: option.splits)
  then have "of_lease r (\<lambda>l. pl_user l = user \<and> pl_id l = i) j" by (auto simp: find_Some_iff)
  then obtain l where l: "lease_of r j = Some l" "pl_id l = i" by (auto simp: of_lease_def split: option.splits)
  with assms(1) have "j = i" by (auto simp: previews_ok_def leases_ok_def)
  with f l show ?thesis by (simp add: revoke_preview_def lease_of_def hm.get_put)
qed

section \<open>Properties\<close>

text \<open>An example: one preview, opened and revoked, with a stream open on it.\<close>

definition example_before :: "preview_op list" where
  "example_before = [Pv_Create 0 ''a'' [1] ''u'' ''m'' 80 Ipv4 [], Pv_Redeem 5 [7] ''a'' [1],
     Pv_Allocate 6 ''s'' [9] ''a'' ''c'']"

text \<open>
  C30. A preview is opened once, by who holds its code: whatever is created, revoked, redeemed and
  claimed, in whatever order, the code of a preview is exchanged for a cookie at most once, only a
  text with the hash of the code made for that preview is ever exchanged, and from then on exactly
  the cookies with the hash of the one given out are accepted while the preview lives.
\<close>

theorem preview_opens_once:
  fixes h d config steps
  defines "r \<equiv> run_previews h d (configured config) steps"
  assumes "distinct (created steps)"
  shows "length (cookies_of h d i (configured config) steps) \<le> 1 \<and>
    (fst (redeem_preview h now new_secret i code r) \<noteq> None \<longrightarrow>
      cookies_of h d i (configured config) steps = [] \<and> h code \<in> h ` set (codes_of i steps)) \<and>
    (of_lease r (authenticated h now cookie) i \<longleftrightarrow>
      live_at r now i \<and> h cookie \<in> h ` set (cookies_of h d i (configured config) steps))"
proof (cases "lease_of r i")
  case None
  with cookies_told_run [OF assms(2), of h i d config, folded r_def] show ?thesis
    by (simp add: cookies_told_def redeem_preview_def of_lease_def live_at_def)
next
  case (Some l)
  have hash: "pl_code_hash l = None \<or> pl_code_hash l \<in> Some ` h ` set (codes_of i steps)"
    by (rule code_hash_run) (use Some in \<open>simp add: r_def\<close>)
  from cookies_told_run [OF assms(2), of h i d config, folded r_def] Some
  have told: "cookies_of h d i (configured config) steps = [] \<and> pl_session_hash l = None \<or>
      (\<exists>cookie. cookies_of h d i (configured config) steps = [cookie] \<and> pl_code_hash l = None \<and>
        pl_session_hash l = Some (h cookie))"
    by (simp add: cookies_told_def)
  have "fst (redeem_preview h now new_secret i code r) \<noteq> None \<Longrightarrow> pl_code_hash l = Some (h code)"
    by (simp add: redeem_preview_def redeem_def Some split: prod.splits if_splits)
  moreover have "h code \<in> h ` set (codes_of i steps)" if "pl_code_hash l = Some (h code)"
    using hash that by (metis image_iff option.distinct(1) option.inject)
  ultimately show ?thesis using told
    by (auto simp: of_lease_def live_at_def authenticated_def Some)
qed

lemma preview_opens_once_witness:
  "let config = Some \<lparr>pc_domain = [], pc_port = None\<rparr>;
       r = run_previews rev (\<lambda>_. []) (configured config) example_before
   in distinct (created example_before) \<and>
     cookies_of rev (\<lambda>_. []) ''a'' (configured config) example_before = [[7]] \<and>
     fst (redeem_preview rev 6 [8] ''a'' [1] r) = None \<and> of_lease r (authenticated rev 6 [7]) ''a''"
proof -
  let ?config = "Some \<lparr>pc_domain = [], pc_port = None\<rparr>"
  have distinct: "distinct (created example_before)" by (simp add: created_def example_before_def)
  have cookies: "cookies_of rev (\<lambda>_. []) ''a'' (configured ?config) example_before = [[7]]"
    and live: "live_at (run_previews rev (\<lambda>_. []) (configured ?config) example_before) 6 ''a''"
    by code_simp+
  show ?thesis
    using preview_opens_once [OF distinct, where h = rev and d = "\<lambda>_. []" and config = ?config
        and i = "''a''" and now = 6 and new_secret = "[8]" and code = "[1]" and cookie = "[7]"]
    unfolding Let_def using distinct cookies live by simp
qed

text \<open>
  The limits hold in every run: at most 1024 previews and eight of one user, at most 1024 open
  streams, 32 to one machine and 64 of one user, however previews and streams come and go.
\<close>

theorem previews_stay_within_limits:
  fixes h d config steps
  defines "r \<equiv> run_previews h d (configured config) steps"
  assumes "distinct (created steps)"
  shows "length (pv_leases r) \<le> 1024 \<and>
    length (filter (of_lease r (\<lambda>l. pl_user l = user)) (hvals (pv_leases r))) \<le> 8 \<and>
    length (pv_streams r) \<le> 1024 \<and> streams_where r (\<lambda>l. pl_machine l = machine) \<le> 32 \<and>
    streams_where r (\<lambda>l. pl_user l = user) \<le> 64"
proof -
  have "previews_ok r"
    using keeps_run [OF configured_ok(1) assms(2)] configured_ok(2) by (auto simp: r_def)
  then show ?thesis
    by (simp add: previews_ok_def leases_ok_def streams_bounded_def MAX_LEASES_def MAX_USER_LEASES_def
        MAX_STREAMS_def MAX_MACHINE_STREAMS_def MAX_USER_STREAMS_def)
qed

lemma previews_stay_within_limits_witness:
  "distinct (created example_before) \<and>
     length (pv_streams (run_previews rev (\<lambda>_. []) (configured None) example_before)) \<le> 1024"
  using previews_stay_within_limits [where steps = example_before and h = rev and d = "\<lambda>_. []" and config = None]
  by (simp add: created_def example_before_def)

text \<open>
  C31. A revoked preview is dead at once and for good: after its owner revoked it, and whatever happens
  then, it is not found, its code is not exchanged, no cookie is accepted, no stream is opened on it,
  and the streams that were open on it are cancelled and not claimed any more.
\<close>

theorem revoked_preview_is_dead:
  fixes h d config before user i later
  defines "r \<equiv> run_previews h d (configured config) (before @ Pv_Revoke user i # later)"
  assumes "distinct (created (before @ later))"
    and "fst (revoke_preview user i (run_previews h d (configured config) before))"
  shows "find_preview r now host \<noteq> Some i \<and> fst (redeem_preview h now new_secret i code r) = None \<and>
    \<not> of_lease r (authenticated h now cookie) i \<and>
    fst (allocate h now stream ticket i conn r) = Inl (lit ''Preview expired'') \<and>
    (\<forall>s. hget (pv_streams r) stream = Some s \<and> se_lease s = i \<longrightarrow>
       stream_cancelled r s \<and> \<not> fst (claim_stream h now current stream token r))"
proof -
  let ?before = "run_previews h d (configured config) before"
  let ?revoked = "snd (revoke_preview user i ?before)"
  have r: "r = run_previews h d ?revoked later"
    by (simp add: r_def run_previews_def)
  have distinct: "distinct (created before)" "distinct (created later)"
    "set (created before) \<inter> set (created later) = {}"
    using assms(2) by (simp_all add: created_append)
  have ok: "previews_ok ?before" "known ?before \<subseteq> set (created before)"
    using keeps_run [OF configured_ok(1) distinct(1)] configured_ok(2) by auto
  obtain l where l: "lease_of ?revoked i = Some l" "pl_cancelled l"
    using assms(3) revoked_lease [OF ok(1)] by blast
  have "known ?revoked \<subseteq> known ?before" using known_exec [of h d ?before "Pv_Revoke user i"] by (simp add: created_def)
  with ok(2) distinct(3) have "set (created later) \<inter> known ?revoked = {}" by blast
  then have "same_owner ?revoked r"
    unfolding r using keeps_run [OF _ distinct(2)] keeps_revoke [OF ok(1)] by blast
  with l obtain l' where l': "lease_of r i = Some l'" "pl_cancelled l'" by (auto simp: same_owner_def)
  show ?thesis
    using l' by (auto simp: find_preview_def redeem_preview_def redeem_def lease_live_def of_lease_def
        authenticated_def allocate_def stream_cancelled_def claim_stream_def live_at_def split: option.splits)
qed


lemma revoked_preview_is_dead_witness:
  "distinct (created (example_before @ [])) \<and>
     (let config = Some \<lparr>pc_domain = [], pc_port = None\<rparr>;
          before = run_previews rev (\<lambda>_. []) (configured config) example_before;
          r = run_previews rev (\<lambda>_. []) (configured config) (example_before @ [Pv_Revoke ''u'' ''a'']) in
      of_lease before (authenticated rev 6 [7]) ''a'' \<and> fst (revoke_preview ''u'' ''a'' before) \<and>
      \<not> of_lease r (authenticated rev 7 [7]) ''a'')"
proof -
  let ?config = "Some \<lparr>pc_domain = [], pc_port = None\<rparr>"
  let ?before = "run_previews rev (\<lambda>_. []) (configured ?config) example_before"
  have "distinct (created (example_before @ []))" by (simp add: created_def example_before_def)
  moreover have "of_lease ?before (authenticated rev 6 [7]) ''a''" "fst (revoke_preview ''u'' ''a'' ?before)"
    by code_simp+
  ultimately show ?thesis
    using revoked_preview_is_dead [where before = example_before and later = "[]" and user = "''u''" and i = "''a''"
        and h = rev and d = "\<lambda>_. []" and config = ?config and now = 7 and cookie = "[7]"]
    by (simp add: Let_def)
qed

end
