(* ===== verification/Spec2Isabelle.thy ===== *)
theory Spec2Isabelle
  imports Messages ControlLeases RunAnswers RunHandover Screencast Frames AttachRouter Store
    HubAnswers UserView ControlTimers OscTitle ProcessTree SecureOutbound
    Uploads ScreenAttention Previews
begin

text \<open>
  \<^bold>\<open>The program.\<close> Offdesk lets a person work in terminals and browsers of their machines from
  anywhere. A \<^emph>\<open>node\<close> (\<^verbatim>\<open>crates/machine\<close>) runs on each machine: it owns the terminals, looks at
  what runs in them and drives agent browsers. The \<^emph>\<open>hub\<close> (\<^verbatim>\<open>crates/hub\<close>) keeps one socket to
  each node and any number to browsers and apps; it holds a database, an in-memory registry of
  nodes and terminals, and a bus of numbered events to browsers. \<^verbatim>\<open>crates/protocol\<close> has the types
  and frames they exchange, \<^verbatim>\<open>crates/secure\<close> the encrypted channel between app and hub.

  \<^bold>\<open>How code becomes definitions.\<close> A struct is a record, an enum a datatype, a machine integer a
  word or a bounded natural, a \<^verbatim>\<open>HashMap\<close> an association list with the lookup laws of
  \<^verbatim>\<open>Prelude\<close> (\<open>hmap\<close>), a database table a list of rows. An operation is a function from the state
  to the new state and what it returns or sends; an early return, an error and a failed statement
  are branches of it. An operation that holds a lock throughout is one step; one that releases
  it between reading and telling is as many steps as it takes locks wherever a claim depends on
  it (the event bus, the answers to agents, the requests with their waits). Time, new ids and
  whether a socket accepts a message are arguments.

  \<^bold>\<open>The theories.\<close>
  \<^item> \<^verbatim>\<open>Prelude\<close>, \<^verbatim>\<open>RustText\<close>: hash maps, reference counts, the locales \<open>keyed_store\<close>, \<open>refcount\<close>,
    \<open>invariant_steps\<close>, \<open>monotone_steps\<close> and \<open>mirrored\<close> that the components instantiate; the string
    functions of Rust's library.
  \<^item> \<^verbatim>\<open>Protocol\<close>, \<^verbatim>\<open>Access\<close>, \<^verbatim>\<open>Messages\<close>, \<^verbatim>\<open>Frames\<close> (\<^verbatim>\<open>protocol/src/lib.rs\<close>): the data of the
    protocol, who may open which directory and how an agent is started, the sanitiser of browser
    input, and the binary frames with UTF-8. Decoding inverts encoding in both directions.
  \<^item> \<^verbatim>\<open>EventBus\<close> (\<^verbatim>\<open>machine_manager.rs\<close>, \<^verbatim>\<open>ws.rs\<close>, \<^verbatim>\<open>db/hub_state.rs\<close>): numbers, history, replay,
    live forwarding, restarts, and sending as three interleaved steps.
  \<^item> \<^verbatim>\<open>ControlLeases\<close> (\<^verbatim>\<open>machine_manager.rs\<close>): which device controls which machine; the events add
    up to the state.
  \<^item> \<^verbatim>\<open>Screencast\<close> (\<^verbatim>\<open>agent_browser_stream.rs\<close>), \<^verbatim>\<open>AttachRouter\<close> (\<^verbatim>\<open>attach_router.rs\<close>): the
    fan-out of one page's frames to its viewers with flow control and epochs; where the bytes of
    a terminal go.
  \<^item> \<^verbatim>\<open>Store\<close>, \<^verbatim>\<open>RunStore\<close>, \<^verbatim>\<open>SessionStore\<close> (\<^verbatim>\<open>db/\<close>): machines, terminals, tabs and layouts; agent
    runs with their requests and history; agent sessions. Keys, foreign keys and cascades are
    written out, and every statement keeps them.
  \<^item> \<^verbatim>\<open>AgentRuns\<close>, \<^verbatim>\<open>RunInvariant\<close>, \<^verbatim>\<open>RunHistory\<close>, \<^verbatim>\<open>RunAnswers\<close>, \<^verbatim>\<open>RunHandover\<close>
    (\<^verbatim>\<open>machine_manager/agent_runs.rs\<close>): the life of an agent run. \<open>RunInvariant\<close> has Hoare rules
    for the statements, \<open>RunHistory\<close> sequences of handlers, \<open>RunAnswers\<close> answers under way at the
    same time, \<open>RunHandover\<close> the run that starts another.
  \<^item> \<^verbatim>\<open>Registry\<close>, \<^verbatim>\<open>HubMessages\<close>, \<^verbatim>\<open>BrowserControl\<close>, \<^verbatim>\<open>Requests\<close>, \<^verbatim>\<open>Snapshot\<close>
    (\<^verbatim>\<open>machine_manager.rs\<close>): the registry of nodes and kept terminals, every arm of
    \<open>handle_machine_message\<close>, who controls an agent browser and the timer that takes control back,
    requests to nodes with their waits, and the snapshot a browser starts from. \<open>HubRules\<close> puts
    all calls into one step function and has the rules the next five theories share.
  \<^item> \<^verbatim>\<open>HubIsolation\<close>, \<^verbatim>\<open>RegistryTypes\<close>, \<^verbatim>\<open>TerminalMirror\<close>, \<^verbatim>\<open>HubAnswers\<close>, \<^verbatim>\<open>UserView\<close>,
    \<^verbatim>\<open>ControlTimers\<close>: what holds in every run of the hub: nothing of a node reaches another user,
    the registry stays typed, a browser that applies the events has the hub's terminal list, a
    request is answered at most once, people see what they may open, an absent person loses
    control.
  \<^item> \<^verbatim>\<open>OscTitle\<close> (\<^verbatim>\<open>osc_title.rs\<close>), \<^verbatim>\<open>ProcessTree\<close> (\<^verbatim>\<open>codex_title.rs\<close>): titles in terminal output,
    and the agents among the processes of a pane.
  \<^item> \<^verbatim>\<open>ScreenAttention\<close> (\<^verbatim>\<open>terminal_attention.rs\<close>, \<^verbatim>\<open>agent_detect.rs\<close>), \<^verbatim>\<open>Uploads\<close>
    (\<^verbatim>\<open>upload.rs\<close>): which agent a pane runs, what its screen asks and the keys that answer; files
    sent to a node in chunks, whose directories and contents are part of the state.
  \<^item> \<^verbatim>\<open>SecureChannel\<close> (\<^verbatim>\<open>secure/src/lib.rs\<close>), \<^verbatim>\<open>SecureOutbound\<close> (\<^verbatim>\<open>outbound.rs\<close>, \<^verbatim>\<open>wire.rs\<close>,
    \<^verbatim>\<open>messages.rs\<close>): messages in encrypted fragments, interleaved; the queues before them, with
    senders that wait for their share of the budget and a writer that picks what goes next.
  \<^item> \<^verbatim>\<open>Previews\<close> (\<^verbatim>\<open>web_preview/registry.rs\<close>, \<^verbatim>\<open>transport.rs\<close>): leases of a port on a node, the
    code that opens one once, the streams on it, and revocation.

  \<^bold>\<open>Bounds and ends.\<close> Loops over lists are structural recursion; the others have a measure. The
  walk over the process table is a \<open>partial_function\<close>, and that it ends is a theorem. There is
  no fuel.

  \<^bold>\<open>Parameters.\<close> The Noise transport of the channel is a pair of functions with the law that a
  record written at one end is read at the other; JSON is kept as a value; hashes,
  Base64 and decimal text of preview ports are functions; UUIDs and the clock are arguments.

  \<^bold>\<open>Not modelled.\<close> Sockets and tasks (axum, tokio), processes, PTYs and tmux, Chromium's
  protocol, SQLite's own errors and migrations, cryptography, the HTTP routes, the
  proxy of previews, the driver of agent browsers, the command line, and the front ends, which are not Rust.
\<close>

end
